(* ===== verification/Prelude.thy ===== *)
theory Prelude
  imports Main "HOL-Library.Word" "HOL-Library.Monad_Syntax"
begin

text \<open>
  Shared vocabulary of the development: the machine types of the C code, the C library
  functions it calls on strings and raw memory, the representation of the \<open>t_list\<close>
  containers, and the generic lemmas the component theories reuse.

  \<^item> \<open>u8\<close>, \<open>u32\<close> and \<open>c_int\<close> are the 8- and 32-bit words of \<^verbatim>\<open>uint8_t\<close>,
    \<^verbatim>\<open>uint32_t\<close> and \<^verbatim>\<open>int\<close>. A \<open>c_int\<close> is kept as its bit pattern and
    read with \<open>sint\<close>.
  \<^item> A \<^verbatim>\<open>char*\<close> that is a C string is a \<open>string\<close> without its terminating NUL.
  \<^item> A \<^verbatim>\<open>t_list\<close> is the list of its elements; a NULL result of \<open>list_get\<close>,
    \<open>list_find\<close> or \<open>list_remove\<close> is \<open>None\<close>.
  \<^item> A raw memory region (\<^verbatim>\<open>malloc\<close>, \<^verbatim>\<open>mmap\<close>) is the list of its bytes;
    an access that leaves the region is \<open>None\<close>.
\<close>

type_synonym u8 = "8 word"
type_synonym u32 = "32 word"
type_synonym c_int = "32 word"

named_theorems codec_simps \<open>round trips of the encoders\<close>
named_theorems region_simps \<open>reads and writes of memory regions\<close>
named_theorems list_ops \<open>definitions of the t_list operations\<close>

text \<open>A step of a thread: its new state, \<open>Waits\<close> when what it needs is not there, or a crash.\<close>

datatype 'a outcome = Runs 'a | Waits | Crashes

definition or_crash :: "'a option \<Rightarrow> 'a outcome" where
  "or_crash x = (case x of None \<Rightarrow> Crashes | Some v \<Rightarrow> Runs v)"

lemma or_crash_Runs [simp]: "or_crash x = Runs v \<longleftrightarrow> x = Some v"
  by (simp add: or_crash_def split: option.splits)

section \<open>The containers: t_list\<close>

definition list_get :: "'a list \<Rightarrow> int \<Rightarrow> 'a option" where
  [list_ops]: "list_get xs i = (if 0 \<le> i \<and> i < int (length xs) then Some (xs ! nat i) else None)"

definition list_replace :: "'a list \<Rightarrow> int \<Rightarrow> 'a \<Rightarrow> 'a list" where
  [list_ops]: "list_replace xs i v = (if 0 \<le> i \<and> i < int (length xs) then xs[nat i := v] else xs)"

text \<open>\<open>list_remove xs 0\<close>, the only index the code removes at, with the removed element.\<close>

definition list_remove_first :: "'a list \<Rightarrow> 'a option \<times> 'a list" where
  [list_ops]: "list_remove_first xs = (case xs of [] \<Rightarrow> (None, []) | x # ys \<Rightarrow> (Some x, ys))"

fun list_remove_by_condition :: "('a \<Rightarrow> bool) \<Rightarrow> 'a list \<Rightarrow> 'a option \<times> 'a list" where
  "list_remove_by_condition P [] = (None, [])"
| "list_remove_by_condition P (x # xs) =
     (if P x then (Some x, xs)
      else (case list_remove_by_condition P xs of (r, ys) \<Rightarrow> (r, x # ys)))"

lemma length_list_replace [simp]: "length (list_replace xs i v) = length xs"
  by (simp add: list_replace_def)

lemma list_get_nat [simp]: "i < length xs \<Longrightarrow> list_get xs (int i) = Some (xs ! i)"
  by (simp add: list_get_def)

lemma list_get_replace_same [simp]:
  "0 \<le> i \<Longrightarrow> i < int (length xs) \<Longrightarrow> list_get (list_replace xs i v) i = Some v"
  by (simp add: list_get_def list_replace_def nat_less_iff)

lemma list_get_replace_other [simp]:
  "i \<noteq> j \<Longrightarrow> list_get (list_replace xs i v) j = list_get xs j"
  by (auto simp: list_get_def list_replace_def nth_list_update)

lemma list_remove_by_condition_find:
  "fst (list_remove_by_condition P xs) = find P xs"
  by (induction xs) (auto split: prod.splits)

lemma list_remove_by_condition_None:
  "fst (list_remove_by_condition P xs) = None \<Longrightarrow> snd (list_remove_by_condition P xs) = xs"
  by (induction xs) (auto split: prod.splits if_splits)

lemma list_remove_by_condition_length:
  "list_remove_by_condition P xs = (Some y, ys) \<Longrightarrow> length xs = Suc (length ys)"
  by (induction xs arbitrary: ys) (auto split: prod.splits if_splits)

lemma list_remove_by_condition_split:
  "list_remove_by_condition P xs = (Some y, ys) \<Longrightarrow>
     P y \<and> (\<exists>as bs. xs = as @ y # bs \<and> ys = as @ bs \<and> (\<forall>a \<in> set as. \<not> P a))"
proof (induction xs arbitrary: ys)
  case Nil
  then show ?case by simp
next
  case (Cons x xs)
  show ?case
  proof (cases "P x")
    case True
    with Cons.prems show ?thesis by (auto intro: exI[of _ "[]"])
  next
    case False
    with Cons.prems obtain zs where
      r: "list_remove_by_condition P xs = (Some y, zs)" and ys: "ys = x # zs"
      by (auto split: prod.splits)
    from Cons.IH[OF r] obtain as bs where
      "P y" "xs = as @ y # bs" "zs = as @ bs" "\<forall>a \<in> set as. \<not> P a" by blast
    with False ys show ?thesis by (auto intro: exI[of _ "x # as"])
  qed
qed

section \<open>C strings and atoi\<close>

definition is_digit :: "char \<Rightarrow> bool" where
  "is_digit c \<longleftrightarrow> 48 \<le> (of_char c :: nat) \<and> (of_char c :: nat) \<le> 57"

definition digit_val :: "char \<Rightarrow> int" where
  "digit_val c = int (of_char c) - 48"

fun atoi_digits :: "int \<Rightarrow> string \<Rightarrow> int" where
  "atoi_digits acc [] = acc"
| "atoi_digits acc (c # cs) = (if is_digit c then atoi_digits (10 * acc + digit_val c) cs else acc)"

definition is_space :: "char \<Rightarrow> bool" where
  "is_space c \<longleftrightarrow> (of_char c :: nat) = 32 \<or> (9 \<le> (of_char c :: nat) \<and> (of_char c :: nat) \<le> 13)"

definition atoi :: "string \<Rightarrow> int" where
  "atoi s = (case dropWhile is_space s of
      [] \<Rightarrow> 0
    | c # cs \<Rightarrow> if c = CHR ''-'' then - atoi_digits 0 cs
                else if c = CHR ''+'' then atoi_digits 0 cs
                else atoi_digits 0 (c # cs))"

lemma atoi_digits_append:
  "\<forall>c \<in> set cs. is_digit c \<Longrightarrow> atoi_digits acc (cs @ ds) = atoi_digits (atoi_digits acc cs) ds"
  by (induction cs arbitrary: acc) auto

text \<open>A C string contains no NUL.\<close>

abbreviation NUL :: char where "NUL \<equiv> CHR 0x00"

definition c_string :: "string \<Rightarrow> bool" where
  "c_string s \<longleftrightarrow> NUL \<notin> set s"

section \<open>Raw memory regions\<close>

definition mem_read :: "u8 list \<Rightarrow> nat \<Rightarrow> nat \<Rightarrow> u8 list option" where
  "mem_read m off n = (if off + n \<le> length m then Some (take n (drop off m)) else None)"

definition mem_write :: "u8 list \<Rightarrow> nat \<Rightarrow> u8 list \<Rightarrow> u8 list option" where
  "mem_write m off d =
     (if off + length d \<le> length m then Some (take off m @ d @ drop (off + length d) m) else None)"

lemma mem_write_length [region_simps]: "mem_write m off d = Some m' \<Longrightarrow> length m' = length m"
  by (auto simp: mem_write_def split: if_splits)

lemma mem_read_length [region_simps]: "mem_read m off n = Some d \<Longrightarrow> length d = n"
  by (auto simp: mem_read_def split: if_splits)

lemma mem_read_write_same [region_simps]:
  "mem_write m off d = Some m' \<Longrightarrow> mem_read m' off (length d) = Some d"
  by (auto simp: mem_write_def mem_read_def split: if_splits)

lemma mem_write_nth:
  "mem_write m off d = Some m' \<Longrightarrow> i < length m \<Longrightarrow>
     m' ! i = (if off \<le> i \<and> i < off + length d then d ! (i - off) else m ! i)"
  by (auto simp: mem_write_def nth_append split: if_splits)

lemma mem_read_write_disjoint [region_simps]:
  assumes w: "mem_write m off d = Some m'" and "a + n \<le> off \<or> off + length d \<le> a"
  shows "mem_read m' a n = mem_read m a n"
proof -
  have len: "length m' = length m" using w by (rule mem_write_length)
  show ?thesis
  proof (cases "a + n \<le> length m")
    case True
    have "take n (drop a m') = take n (drop a m)"
      by (rule nth_equalityI) (use True len assms(2) in \<open>auto simp: mem_write_nth[OF w]\<close>)
    with True len show ?thesis by (simp add: mem_read_def)
  qed (simp add: mem_read_def len)
qed

lemma mem_write_defined: "off + length d \<le> length m \<Longrightarrow> \<exists>m'. mem_write m off d = Some m'"
  by (simp add: mem_write_def)

lemma mem_read_defined: "off + n \<le> length m \<Longrightarrow> \<exists>d. mem_read m off n = Some d"
  by (simp add: mem_read_def)

text \<open>Reading and writing inside a region that has been read.\<close>

lemma mem_read_inside:
  assumes "mem_read m off n = Some c" and "d + k \<le> n"
  shows "mem_read c d k = mem_read m (off + d) k"
  using assms by (auto simp: mem_read_def take_drop min_def ac_simps split: if_splits)

lemma mem_write_inside:
  assumes c: "mem_read m off n = Some c" and w: "mem_write m (off + d) bs = Some m'" and d: "d + length bs \<le> n"
  shows "\<exists>c'. mem_write c d bs = Some c' \<and> mem_read m' off n = Some c'"
proof -
  have lc: "length c = n" "c = take n (drop off m)" and len: "off + n \<le> length m"
    using c by (auto simp: mem_read_def split: if_splits)
  obtain c' where c': "mem_write c d bs = Some c'" using mem_write_defined[of d bs c] d lc(1) by auto
  have lm: "length m' = length m" by (rule mem_write_length[OF w])
  have lc': "length c' = n" using mem_write_length[OF c'] lc(1) by simp
  have "take n (drop off m') = c'"
  proof (rule nth_equalityI)
    show "length (take n (drop off m')) = length c'" using len lm lc' by simp
    fix i assume "i < length (take n (drop off m'))"
    then have i: "i < n" by simp
    show "take n (drop off m') ! i = c' ! i"
      using i len lm lc mem_write_nth[OF w, of "off + i"] mem_write_nth[OF c', of i] by simp
  qed
  then show ?thesis using c' len lm by (simp add: mem_read_def)
qed

text \<open>Blocks of equal size at different indices do not overlap.\<close>

lemma block_disjoint:
  fixes i j bs :: nat
  assumes "i \<noteq> j"
  shows "i * bs + bs \<le> j * bs \<or> j * bs + bs \<le> i * bs"
proof -
  have "Suc i \<le> j \<or> Suc j \<le> i" using assms by linarith
  then have "Suc i * bs \<le> j * bs \<or> Suc j * bs \<le> i * bs" using mult_le_mono1 by blast
  then show ?thesis by (simp add: add.commute)
qed

lemma block_inside:
  fixes i n bs :: nat
  shows "i < n \<Longrightarrow> i * bs + bs \<le> n * bs"
  using mult_le_mono1[of "Suc i" n bs] by (simp add: add.commute)

text \<open>
  A store of equally sized blocks: what a client that keeps pages in numbered blocks relies
  on. It is provided by the frames of the memory and by the swap blocks of the file system.
\<close>

locale block_store =
  fixes get :: "'s \<Rightarrow> nat \<Rightarrow> 'b option"
    and put :: "'s \<Rightarrow> nat \<Rightarrow> 'b \<Rightarrow> 's option"
    and ok :: "'b \<Rightarrow> bool"
  assumes get_put_same: "put s i b = Some s' \<Longrightarrow> ok b \<Longrightarrow> get s' i = Some b"
    and get_put_other: "put s i b = Some s' \<Longrightarrow> ok b \<Longrightarrow> i \<noteq> j \<Longrightarrow> get s' j = get s j"
begin

fun put_all :: "'s \<Rightarrow> (nat \<times> 'b) list \<Rightarrow> 's option" where
  "put_all s [] = Some s"
| "put_all s ((i, b) # ibs) = (case put s i b of None \<Rightarrow> None | Some s' \<Rightarrow> put_all s' ibs)"

lemma put_all_other:
  "put_all s ibs = Some s' \<Longrightarrow> (\<forall>b \<in> snd ` set ibs. ok b) \<Longrightarrow> j \<notin> fst ` set ibs \<Longrightarrow> get s' j = get s j"
  by (induction s ibs rule: put_all.induct) (auto split: option.splits simp: get_put_other)

lemma put_all_get:
  "put_all s ibs = Some s' \<Longrightarrow> (\<forall>b \<in> snd ` set ibs. ok b) \<Longrightarrow> distinct (map fst ibs) \<Longrightarrow>
     (i, b) \<in> set ibs \<Longrightarrow> get s' i = Some b"
proof (induction s ibs rule: put_all.induct)
  case (2 s k c ibs)
  from 2(2) obtain t where t: "put s k c = Some t" "put_all t ibs = Some s'"
    by (auto split: option.splits)
  show ?case
  proof (cases "(i, b) = (k, c)")
    case True
    then have "i \<notin> fst ` set ibs" using 2 by auto
    then have "get s' i = get t i" using put_all_other t(2) 2(3) by force
    then show ?thesis using True t(1) 2(3) by (simp add: get_put_same)
  next
    case False
    then show ?thesis using 2 t by auto
  qed
qed simp

end

end
