(* ===== verification/Wire.thy ===== *)
theory Wire
  imports Prelude
begin

text \<open>
  The message layer (\<^verbatim>\<open>utils/src/package\<close>): the byte images \<open>memcpy\<close> produces
  for integers and strings, packages, integer lists, and the receive functions over a socket.
  A serialized value is the list of its bytes; a deserializer consumes a prefix of the buffer,
  the running \<open>offset\<close> of the C code being the part already consumed, and is \<open>None\<close>
  where the code would read outside the buffer. Both ends run on the same little-endian machine.
\<close>

section \<open>Integers and strings as bytes\<close>

definition bytes_of_u32 :: "u32 \<Rightarrow> u8 list" where
  "bytes_of_u32 w = (let n = unat w in
     [of_nat (n mod 256), of_nat (n div 256 mod 256),
      of_nat (n div 65536 mod 256), of_nat (n div 16777216)])"

definition u32_of_bytes :: "u8 \<Rightarrow> u8 \<Rightarrow> u8 \<Rightarrow> u8 \<Rightarrow> u32" where
  "u32_of_bytes a b c d =
     of_nat (unat a + 256 * unat b + 65536 * unat c + 16777216 * unat d)"

definition take_bytes :: "nat \<Rightarrow> u8 list \<Rightarrow> (u8 list \<times> u8 list) option" where
  "take_bytes n bs = (if n \<le> length bs then Some (take n bs, drop n bs) else None)"

fun rd_u32 :: "u8 list \<Rightarrow> (u32 \<times> u8 list) option" where
  "rd_u32 (a # b # c # d # rest) = Some (u32_of_bytes a b c d, rest)"
| "rd_u32 _ = None"

definition byte_of_char :: "char \<Rightarrow> u8" where
  "byte_of_char c = of_nat (of_char c)"

definition char_of_byte :: "u8 \<Rightarrow> char" where
  "char_of_byte b = char_of (unat b)"

text \<open>\<open>memcpy\<close> of a string with its terminator, and the C string found in a byte array.\<close>

definition bytes_of_cstr :: "string \<Rightarrow> u8 list" where
  "bytes_of_cstr s = map byte_of_char s @ [0]"

definition cstr_of_bytes :: "u8 list \<Rightarrow> string" where
  "cstr_of_bytes bs = map char_of_byte (takeWhile (\<lambda>b. b \<noteq> 0) bs)"

text \<open>The pattern \<open>int n; memcpy(&n, \<dots>); char *s = malloc(n); memcpy(s, \<dots>, n)\<close> and its writer.\<close>

definition ser_str :: "string \<Rightarrow> u8 list" where
  "ser_str s = bytes_of_u32 (of_nat (length s + 1)) @ bytes_of_cstr s"

definition rd_str :: "u8 list \<Rightarrow> (string \<times> u8 list) option" where
  "rd_str bs = do {
     (n, bs) \<leftarrow> rd_u32 bs;
     (d, bs) \<leftarrow> take_bytes (unat n) bs;
     Some (cstr_of_bytes d, bs) }"

text \<open>The strings the messages can carry: NUL-free, and short enough for an \<open>int\<close> length.\<close>

definition wire_string :: "string \<Rightarrow> bool" where
  "wire_string s \<longleftrightarrow> c_string s \<and> length s < 2 ^ 31 - 1"

lemma length_bytes_of_u32 [simp]: "length (bytes_of_u32 w) = 4"
  by (simp add: bytes_of_u32_def Let_def)

lemma bytes_of_u32_neq_Nil [simp]: "bytes_of_u32 w \<noteq> []"
  by (simp add: bytes_of_u32_def Let_def)

lemma length_bytes_of_cstr [simp]: "length (bytes_of_cstr s) = length s + 1"
  by (simp add: bytes_of_cstr_def)

lemma unat_of_nat_u8: "n < 256 \<Longrightarrow> unat (of_nat n :: u8) = n"
  by (simp add: unat_of_nat)

lemma unat_of_nat_u32: "n < 2 ^ 32 \<Longrightarrow> unat (of_nat n :: u32) = n"
  by (simp add: unat_of_nat)

lemma nat_four_bytes:
  "n mod 256 + 256 * (n div 256 mod 256) + 65536 * (n div 65536 mod 256)
     + 16777216 * (n div 16777216) = (n :: nat)"
proof -
  have d: "n div 65536 = n div 256 div 256" "n div 16777216 = n div 256 div 256 div 256"
    by (simp_all add: div_mult2_eq[symmetric])
  have "256 * (m div 256) + m mod 256 = m" for m :: nat by simp
  from this[of n] this[of "n div 256"] this[of "n div 256 div 256"]
  show ?thesis unfolding d by linarith
qed

lemma rd_u32_bytes [codec_simps]: "rd_u32 (bytes_of_u32 w @ rest) = Some (w, rest)"
proof -
  have "unat w < 2 ^ 32" using unsigned_less[of w] by simp
  then have "unat w div 16777216 < 256" by simp
  then have "u32_of_bytes (of_nat (unat w mod 256)) (of_nat (unat w div 256 mod 256))
      (of_nat (unat w div 65536 mod 256)) (of_nat (unat w div 16777216)) = of_nat (unat w)"
    unfolding u32_of_bytes_def by (subst nat_four_bytes[symmetric]) (simp only: unat_of_nat_u8 mod_less_divisor zero_less_numeral)
  then show ?thesis by (simp add: bytes_of_u32_def Let_def del: of_nat_add of_nat_mult)
qed

lemma take_bytes_append [codec_simps]: "n = length d \<Longrightarrow> take_bytes n (d @ rest) = Some (d, rest)"
  by (simp add: take_bytes_def)

lemma char_of_byte_of_char [simp]: "char_of_byte (byte_of_char c) = c"
proof -
  have "(of_char c :: nat) < 256" by simp
  then show ?thesis
    by (simp add: char_of_byte_def byte_of_char_def unat_of_nat_u8)
qed

lemma byte_of_char_eq_0 [simp]: "byte_of_char c = 0 \<longleftrightarrow> c = NUL"
proof
  assume "byte_of_char c = 0"
  then have "char_of_byte (byte_of_char c) = char_of_byte 0" by simp
  then show "c = NUL" by (simp only: char_of_byte_of_char) (simp add: char_of_byte_def char_of_def)
qed (simp add: byte_of_char_def)

lemma cstr_of_bytes_of_cstr [codec_simps]: "c_string s \<Longrightarrow> cstr_of_bytes (bytes_of_cstr s) = s"
  by (induction s) (auto simp: cstr_of_bytes_def bytes_of_cstr_def c_string_def)

lemma length_ser_str [simp]: "length (ser_str s) = length s + 5"
  by (simp add: ser_str_def)

lemma rd_str_ser_str [codec_simps]:
  "wire_string s \<Longrightarrow> rd_str (ser_str s @ rest) = Some (s, rest)"
  using unat_of_nat_u32[of "length s + 1"]
  by (simp add: rd_str_def ser_str_def codec_simps wire_string_def del: of_nat_add of_nat_Suc)

section \<open>Codecs and repeated elements\<close>

fun rd_many :: "(u8 list \<Rightarrow> ('a \<times> u8 list) option) \<Rightarrow> nat \<Rightarrow> u8 list \<Rightarrow> ('a list \<times> u8 list) option" where
  "rd_many rd 0 bs = Some ([], bs)"
| "rd_many rd (Suc n) bs = do {
     (x, bs) \<leftarrow> rd bs;
     (xs, bs) \<leftarrow> rd_many rd n bs;
     Some (x # xs, bs) }"

text \<open>
  The contract of a serializer and its deserializer: reading back consumes exactly what was
  written. Its users read counted sequences of elements and rely on unambiguous images.
\<close>

locale codec =
  fixes enc :: "'a \<Rightarrow> u8 list"
    and dec :: "u8 list \<Rightarrow> ('a \<times> u8 list) option"
    and ok :: "'a \<Rightarrow> bool"
  assumes dec_enc: "ok x \<Longrightarrow> dec (enc x @ rest) = Some (x, rest)"
begin

lemma dec_enc_nil: "ok x \<Longrightarrow> dec (enc x) = Some (x, [])"
  using dec_enc[of x "[]"] by simp

lemma rd_many_enc:
  "list_all ok xs \<Longrightarrow> rd_many dec (length xs) (concat (map enc xs) @ rest) = Some (xs, rest)"
  by (induction xs) (simp_all add: dec_enc)

lemma unambiguous:
  "ok x \<Longrightarrow> ok y \<Longrightarrow> enc x @ r = enc y @ q \<Longrightarrow> x = y \<and> r = q"
  by (metis dec_enc option.inject prod.inject)

end

interpretation u32_codec: codec bytes_of_u32 rd_u32 "\<lambda>_. True"
  by unfold_locales (simp add: codec_simps)

interpretation str_codec: codec ser_str rd_str wire_string
  by unfold_locales (simp add: codec_simps)

section \<open>Packages\<close>

record t_package =
  op_code :: c_int
  size :: c_int
  buffer :: "u8 list"

definition create_empty_package :: "c_int \<Rightarrow> t_package" where
  "create_empty_package code = \<lparr>op_code = code, size = 0, buffer = []\<rparr>"

definition create_void_package :: "c_int \<Rightarrow> c_int \<Rightarrow> u8 list \<Rightarrow> t_package" where
  "create_void_package code block_size message =
     (create_empty_package code)\<lparr>size := block_size, buffer := message\<rparr>"

definition create_string_package :: "c_int \<Rightarrow> string \<Rightarrow> t_package" where
  "create_string_package code message =
     (create_empty_package code)\<lparr>size := of_nat (length message + 1), buffer := bytes_of_cstr message\<rparr>"

definition create_integer_package :: "c_int \<Rightarrow> c_int \<Rightarrow> t_package" where
  "create_integer_package code message =
     (create_empty_package code)\<lparr>size := 4, buffer := bytes_of_u32 message\<rparr>"

definition create_uint32_package :: "c_int \<Rightarrow> u32 \<Rightarrow> t_package" where
  "create_uint32_package code message =
     (create_empty_package code)\<lparr>size := 4, buffer := bytes_of_u32 message\<rparr>"

definition serialize_list :: "c_int list \<Rightarrow> u8 list" where
  "serialize_list xs = bytes_of_u32 (of_nat (length xs)) @ concat (map bytes_of_u32 xs)"

definition deserialize_list :: "u8 list \<Rightarrow> c_int list option" where
  "deserialize_list bs = do {
     (n, bs) \<leftarrow> rd_u32 bs;
     (xs, _) \<leftarrow> rd_many rd_u32 (nat (sint n)) bs;
     Some xs }"

text \<open>
  \<open>memcpy(serde_pkg + 8, package->buffer, package->size)\<close> reads \<open>size\<close> bytes of the
  buffer and writes them in the \<open>bytes\<close> bytes of \<open>serde_pkg\<close>.
\<close>

definition serialize_package :: "t_package \<Rightarrow> nat \<Rightarrow> u8 list option" where
  "serialize_package p bytes =
     (if 0 \<le> sint (size p) \<and> unat (size p) \<le> length (buffer p) \<and> 8 + unat (size p) \<le> bytes
      then Some (bytes_of_u32 (op_code p) @ bytes_of_u32 (size p) @ take (unat (size p)) (buffer p))
      else None)"

text \<open>The bytes \<open>send_package\<close> puts on the socket.\<close>

definition send_package :: "t_package \<Rightarrow> u8 list option" where
  "send_package p = serialize_package p (nat (sint (size p) + 8))"

definition send_list :: "c_int \<Rightarrow> c_int list \<Rightarrow> u8 list option" where
  "send_list code xs = send_package
     ((create_empty_package code)\<lparr>size := of_nat (4 + length xs * 4), buffer := serialize_list xs\<rparr>)"

section \<open>Receiving\<close>

text \<open>
  A socket is what the peer still sends before it closes the connection;
  \<open>recv\<close> with \<open>MSG_WAITALL\<close> waits for all the bytes asked for, or the end.
\<close>

type_synonym stream = "u8 list"

definition recv_waitall :: "nat \<Rightarrow> stream \<Rightarrow> u8 list \<times> stream" where
  "recv_waitall n s = (take n s, drop n s)"

definition check_recv :: "int \<Rightarrow> int" where
  "check_recv result = (if result = 0 then -1 else if result = -1 then -1 else 0)"

text \<open>\<open>None\<close> stands for the indeterminate value of an \<open>int\<close> that was received in part.\<close>

definition receive_op_code :: "stream \<Rightarrow> c_int option \<times> stream" where
  "receive_op_code s = (let (d, s) = recv_waitall 4 s in
     if check_recv (int (length d)) \<noteq> 0 then (Some (-1), s)
     else (map_option fst (rd_u32 d), s))"

datatype received = Null | Buf "u8 list" | Indeterminate

definition receive_buffer :: "stream \<Rightarrow> received \<times> stream" where
  "receive_buffer s = (let (d, s) = recv_waitall 4 s in
     if check_recv (int (length d)) \<noteq> 0 then (Null, s)
     else case rd_u32 d of
       None \<Rightarrow> (Indeterminate, s)
     | Some (n, _) \<Rightarrow>
         if sint n < 0 then (Indeterminate, s)
         else let (b, s) = recv_waitall (unat n) s in
           if check_recv (int (length b)) \<noteq> 0 then (Null, s)
           else if length b < unat n then (Indeterminate, s)
           else (Buf b, s))"

definition receive_list :: "stream \<Rightarrow> c_int list option \<times> stream" where
  "receive_list s = (case receive_buffer s of
      (Buf b, s) \<Rightarrow> (deserialize_list b, s)
    | (_, s) \<Rightarrow> (None, s))"

text \<open>A package whose size field is the length of its buffer, as every sender builds it.\<close>

definition package_ok :: "t_package \<Rightarrow> bool" where
  "package_ok p \<longleftrightarrow> unat (size p) = length (buffer p) \<and> length (buffer p) < 2 ^ 31"

lemmas package_defs = create_empty_package_def create_void_package_def create_string_package_def
  create_integer_package_def create_uint32_package_def

lemma package_ok_integer [simp]: "package_ok (create_integer_package c m)"
  and package_ok_uint32 [simp]: "package_ok (create_uint32_package c m)"
  by (simp_all add: package_ok_def package_defs)

lemma sint_small:
  assumes "unat (w :: u32) < 2 ^ 31"
  shows "sint w = int (unat w)"
proof -
  have u: "uint w = int (unat w)" by simp
  have "int (unat w) < int (2 ^ 31)" using assms by (simp only: of_nat_less_iff)
  then have "uint w < 2 ^ 31" by simp
  then have "signed_take_bit 31 (uint w) = uint w"
    by (intro signed_take_bit_int_eq_self) (auto intro: order_trans[of _ 0])
  with u show ?thesis by (simp add: sint_uint)
qed

lemma send_package_ok:
  "package_ok p \<Longrightarrow> send_package p = Some (bytes_of_u32 (op_code p) @ bytes_of_u32 (size p) @ buffer p)"
  by (simp add: package_ok_def send_package_def serialize_package_def sint_small nat_add_distrib)

lemma receive_op_code_bytes [codec_simps]:
  "receive_op_code (bytes_of_u32 c @ s) = (Some c, s)"
  using rd_u32_bytes[of c "[]"] by (simp add: receive_op_code_def recv_waitall_def check_recv_def)

lemma receive_buffer_bytes [codec_simps]:
  "b \<noteq> [] \<Longrightarrow> unat n = length b \<Longrightarrow> length b < 2 ^ 31 \<Longrightarrow>
     receive_buffer (bytes_of_u32 n @ b @ s) = (Buf b, s)"
  using rd_u32_bytes[of n "[]"]
  by (simp add: receive_buffer_def recv_waitall_def check_recv_def sint_small)

text \<open>
  A package a module sends is received whole by its peer: the operation code, then
  exactly the buffer, leaving the stream at the next package.
\<close>

theorem package_roundtrip:
  assumes "package_ok p" and "buffer p \<noteq> []"
  shows "\<exists>bs rest. send_package p = Some bs
     \<and> receive_op_code (bs @ s) = (Some (op_code p), rest)
     \<and> receive_buffer rest = (Buf (buffer p), s)"
  using assms by (simp add: send_package_ok codec_simps package_ok_def)

theorem package_roundtrip_witness:
  "\<exists>bs rest. send_package (create_integer_package 5 1) = Some bs
     \<and> receive_op_code (bs @ []) = (Some 5, rest) \<and> receive_buffer rest = (Buf (bytes_of_u32 1), [])"
  using package_roundtrip[of "create_integer_package 5 1" "[]"]
  by (simp add: create_integer_package_def create_empty_package_def package_ok_def)

end
