(* ===== verification/Page.thy ===== *)
theory Page
  imports Wire
begin

text \<open>
  The page messages (\<^verbatim>\<open>utils/src/page\<close>): logical addresses, register and block
  transfers, and swap images, each with its size function, serializer and deserializer.
  A \<^verbatim>\<open>void*\<close> payload is the list of the bytes the message carries.
\<close>

record t_pag =
  page_number :: c_int
  displacement :: c_int
  pag_pid :: u32

record t_mov_out =
  mo_page_number :: c_int
  mo_displacement :: c_int
  mo_pid :: u32
  mo_register_value :: u32

record t_mov_out_fs =
  mf_page_number :: c_int
  mf_displacement :: c_int
  mf_pid :: u32
  mf_register_value :: "u8 list"
  mf_size :: c_int

record t_pag_swap =
  swap_block :: c_int
  page_info_size :: c_int
  page_content :: "u8 list"

definition size_of_page :: int where
  "size_of_page = 4 + 2 * 4"

definition size_of_page_for_mov_out :: int where
  "size_of_page_for_mov_out = 2 * 4 + 2 * 4"

definition size_of_page_for_swap :: "int \<Rightarrow> int" where
  "size_of_page_for_swap content_size = 2 * 4 + content_size"

definition size_of_page_for_mov_out_fs :: "int \<Rightarrow> int" where
  "size_of_page_for_mov_out_fs content_size = 3 * 4 + content_size + 4"

definition page_new :: "u32 \<Rightarrow> c_int \<Rightarrow> c_int \<Rightarrow> t_pag" where
  "page_new p n d = \<lparr>page_number = n, displacement = d, pag_pid = p\<rparr>"

definition page_for_swap :: "c_int \<Rightarrow> c_int \<Rightarrow> u8 list \<Rightarrow> t_pag_swap" where
  "page_for_swap b n content = \<lparr>swap_block = b, page_info_size = n, page_content = content\<rparr>"

definition page_for_mov_out :: "u32 \<Rightarrow> c_int \<Rightarrow> c_int \<Rightarrow> u32 \<Rightarrow> t_mov_out" where
  "page_for_mov_out p n d v =
     \<lparr>mo_page_number = n, mo_displacement = d, mo_pid = p, mo_register_value = v\<rparr>"

definition page_for_mov_out_fs :: "u32 \<Rightarrow> c_int \<Rightarrow> c_int \<Rightarrow> u8 list \<Rightarrow> c_int \<Rightarrow> t_mov_out_fs" where
  "page_for_mov_out_fs p n d v sz =
     \<lparr>mf_page_number = n, mf_displacement = d, mf_pid = p, mf_register_value = v, mf_size = sz\<rparr>"

section \<open>Serializers\<close>

text \<open>A \<open>memcpy\<close> of \<open>n\<close> bytes out of a payload; \<open>None\<close> where it would read past its end.\<close>

definition payload :: "c_int \<Rightarrow> u8 list \<Rightarrow> u8 list option" where
  "payload n d = (if 0 \<le> sint n \<and> unat n \<le> length d then Some (take (unat n) d) else None)"

definition serialize_page :: "t_pag \<Rightarrow> u8 list" where
  "serialize_page p =
     bytes_of_u32 (page_number p) @ bytes_of_u32 (displacement p) @ bytes_of_u32 (pag_pid p)"

definition serialize_page_for_mov_out :: "t_mov_out \<Rightarrow> u8 list" where
  "serialize_page_for_mov_out p =
     bytes_of_u32 (mo_page_number p) @ bytes_of_u32 (mo_displacement p) @
     bytes_of_u32 (mo_pid p) @ bytes_of_u32 (mo_register_value p)"

definition serialize_page_for_mov_out_fs :: "t_mov_out_fs \<Rightarrow> u8 list option" where
  "serialize_page_for_mov_out_fs p = do {
     d \<leftarrow> payload (mf_size p) (mf_register_value p);
     Some (bytes_of_u32 (mf_page_number p) @ bytes_of_u32 (mf_displacement p) @
           bytes_of_u32 (mf_pid p) @ bytes_of_u32 (mf_size p) @ d) }"

definition serialize_page_for_swap :: "t_pag_swap \<Rightarrow> u8 list option" where
  "serialize_page_for_swap p = do {
     d \<leftarrow> payload (page_info_size p) (page_content p);
     Some (bytes_of_u32 (swap_block p) @ bytes_of_u32 (page_info_size p) @ d) }"

section \<open>Deserializers\<close>

text \<open>The field readers; the trailing bytes are returned as well, \<open>deserialize_\<close> drops them.\<close>

definition rd_page :: "u8 list \<Rightarrow> (t_pag \<times> u8 list) option" where
  "rd_page bs = do {
     (n, bs) \<leftarrow> rd_u32 bs;
     (d, bs) \<leftarrow> rd_u32 bs;
     (p, bs) \<leftarrow> rd_u32 bs;
     Some (\<lparr>page_number = n, displacement = d, pag_pid = p\<rparr>, bs) }"

definition deserialize_page :: "u8 list \<Rightarrow> t_pag option" where
  "deserialize_page bs = map_option fst (rd_page bs)"

definition deserialize_page_for_mov_out :: "u8 list \<Rightarrow> t_mov_out option" where
  "deserialize_page_for_mov_out bs = do {
     (n, bs) \<leftarrow> rd_u32 bs;
     (d, bs) \<leftarrow> rd_u32 bs;
     (p, bs) \<leftarrow> rd_u32 bs;
     (v, bs) \<leftarrow> rd_u32 bs;
     Some \<lparr>mo_page_number = n, mo_displacement = d, mo_pid = p, mo_register_value = v\<rparr> }"

definition rd_payload :: "c_int \<Rightarrow> u8 list \<Rightarrow> (u8 list \<times> u8 list) option" where
  "rd_payload n bs = (if 0 \<le> sint n then take_bytes (unat n) bs else None)"

definition deserialize_page_for_mov_out_fs :: "u8 list \<Rightarrow> t_mov_out_fs option" where
  "deserialize_page_for_mov_out_fs bs = do {
     (n, bs) \<leftarrow> rd_u32 bs;
     (d, bs) \<leftarrow> rd_u32 bs;
     (p, bs) \<leftarrow> rd_u32 bs;
     (sz, bs) \<leftarrow> rd_u32 bs;
     (v, bs) \<leftarrow> rd_payload sz bs;
     Some \<lparr>mf_page_number = n, mf_displacement = d, mf_pid = p, mf_register_value = v, mf_size = sz\<rparr> }"

definition deserialize_page_for_swap :: "u8 list \<Rightarrow> t_pag_swap option" where
  "deserialize_page_for_swap bs = do {
     (b, bs) \<leftarrow> rd_u32 bs;
     (sz, bs) \<leftarrow> rd_u32 bs;
     (v, bs) \<leftarrow> rd_payload sz bs;
     Some \<lparr>swap_block = b, page_info_size = sz, page_content = v\<rparr> }"

section \<open>Sending and receiving\<close>

definition send_page :: "c_int \<Rightarrow> t_pag \<Rightarrow> u8 list option" where
  "send_page code p = send_package
     ((create_empty_package code)\<lparr>size := word_of_int size_of_page, buffer := serialize_page p\<rparr>)"

definition send_page_for_mov_out :: "c_int \<Rightarrow> t_mov_out \<Rightarrow> u8 list option" where
  "send_page_for_mov_out code p = send_package
     ((create_empty_package code)\<lparr>size := word_of_int size_of_page_for_mov_out,
        buffer := serialize_page_for_mov_out p\<rparr>)"

definition send_page_for_mov_out_fs :: "c_int \<Rightarrow> t_mov_out_fs \<Rightarrow> u8 list option" where
  "send_page_for_mov_out_fs code p = do {
     b \<leftarrow> serialize_page_for_mov_out_fs p;
     send_package ((create_empty_package code)
       \<lparr>size := word_of_int (size_of_page_for_mov_out_fs (sint (mf_size p))), buffer := b\<rparr>) }"

definition send_page_for_swap :: "c_int \<Rightarrow> t_pag_swap \<Rightarrow> u8 list option" where
  "send_page_for_swap code p = do {
     b \<leftarrow> serialize_page_for_swap p;
     send_package ((create_empty_package code)
       \<lparr>size := word_of_int (size_of_page_for_swap (sint (page_info_size p))), buffer := b\<rparr>) }"

text \<open>Every \<open>receive_page\<close> variant is \<open>receive_buffer\<close> followed by its deserializer.\<close>

definition receive_with :: "(u8 list \<Rightarrow> 'a option) \<Rightarrow> stream \<Rightarrow> 'a option \<times> stream" where
  "receive_with des s = (case receive_buffer s of (Buf b, s) \<Rightarrow> (des b, s) | (_, s) \<Rightarrow> (None, s))"

definition receive_page :: "stream \<Rightarrow> t_pag option \<times> stream" where
  "receive_page = receive_with deserialize_page"

definition receive_page_for_mov_out :: "stream \<Rightarrow> t_mov_out option \<times> stream" where
  "receive_page_for_mov_out = receive_with deserialize_page_for_mov_out"

definition receive_page_for_mov_out_fs :: "stream \<Rightarrow> t_mov_out_fs option \<times> stream" where
  "receive_page_for_mov_out_fs = receive_with deserialize_page_for_mov_out_fs"

definition receive_page_for_swap :: "stream \<Rightarrow> t_pag_swap option \<times> stream" where
  "receive_page_for_swap = receive_with deserialize_page_for_swap"

section \<open>Round trips\<close>

lemma rd_page_serialize [codec_simps]: "rd_page (serialize_page p @ rest) = Some (p, rest)"
  by (simp add: rd_page_def serialize_page_def codec_simps)

interpretation page_codec: codec serialize_page rd_page "\<lambda>_. True"
  by unfold_locales (simp add: codec_simps)

lemma deserialize_serialize_page: "deserialize_page (serialize_page p) = Some p"
  by (simp add: deserialize_page_def page_codec.dec_enc_nil)

lemma length_serialize_page: "int (length (serialize_page p)) = size_of_page"
  by (simp add: serialize_page_def size_of_page_def)

lemma deserialize_serialize_mov_out:
  "deserialize_page_for_mov_out (serialize_page_for_mov_out p) = Some p"
  using rd_u32_bytes[of "mo_register_value p" "[]"]
  by (simp add: deserialize_page_for_mov_out_def serialize_page_for_mov_out_def rd_u32_bytes)

text \<open>A message that carries a payload is exact when its size field is the payload's length.\<close>

definition payload_ok :: "c_int \<Rightarrow> u8 list \<Rightarrow> bool" where
  "payload_ok n d \<longleftrightarrow> unat n = length d \<and> length d < 2 ^ 31 - 16"

lemma payload_ok_sint: "payload_ok n d \<Longrightarrow> sint n = int (length d)"
  by (simp add: payload_ok_def sint_small)

lemma payload_exact: "payload_ok n d \<Longrightarrow> payload n d = Some d"
  using payload_ok_sint[of n d] by (simp add: payload_def payload_ok_def)

lemma rd_payload_exact: "payload_ok n d \<Longrightarrow> rd_payload n (d @ rest) = Some (d, rest)"
  using payload_ok_sint[of n d] by (simp add: rd_payload_def payload_ok_def take_bytes_append)

lemma rd_payload_exact_nil: "payload_ok n d \<Longrightarrow> rd_payload n d = Some (d, [])"
  using rd_payload_exact[of n d "[]"] by simp

lemma serialize_swap_exact:
  "payload_ok (page_info_size p) (page_content p) \<Longrightarrow>
     \<exists>bs. serialize_page_for_swap p = Some bs \<and> deserialize_page_for_swap bs = Some p
        \<and> int (length bs) = size_of_page_for_swap (sint (page_info_size p))"
  by (simp add: serialize_page_for_swap_def deserialize_page_for_swap_def payload_exact codec_simps
      rd_payload_exact_nil payload_ok_sint size_of_page_for_swap_def)

lemma serialize_mov_out_fs_exact:
  "payload_ok (mf_size p) (mf_register_value p) \<Longrightarrow>
     \<exists>bs. serialize_page_for_mov_out_fs p = Some bs \<and> deserialize_page_for_mov_out_fs bs = Some p
        \<and> int (length bs) = size_of_page_for_mov_out_fs (sint (mf_size p))"
  by (simp add: serialize_page_for_mov_out_fs_def deserialize_page_for_mov_out_fs_def payload_exact
      codec_simps rd_payload_exact_nil payload_ok_sint size_of_page_for_mov_out_fs_def)

lemma unat_word_of_int_u32:
  assumes "0 \<le> i" and "i < 2 ^ 32"
  shows "unat (word_of_int i :: u32) = nat i"
proof -
  obtain n where n: "i = int n" using assms(1) zero_le_imp_eq_int by blast
  moreover have "n < 2 ^ 32" using assms(2) unfolding n by simp
  ultimately show ?thesis using unat_of_nat_u32[of n] by (simp del: unat_of_nat)
qed

text \<open>
  Every sender of a package with \<open>n\<close> payload bytes and every receiver of it meet in one
  lemma: what \<open>receive_with\<close> deserializes is the buffer that was sent.
\<close>

lemma send_receive_with:
  assumes sz: "int (length b) = n" and pos: "b \<noteq> []" and small: "n < 2 ^ 31"
  shows "\<exists>bs rest. send_package ((create_empty_package code)\<lparr>size := word_of_int n, buffer := b\<rparr>) = Some bs
     \<and> receive_op_code (bs @ s) = (Some code, rest) \<and> receive_with des rest = (des b, s)"
proof -
  let ?p = "(create_empty_package code)\<lparr>size := word_of_int n, buffer := b\<rparr>"
  have "unat (word_of_int n :: u32) = length b"
    using sz small unat_word_of_int_u32[of n] by simp
  then have "package_ok ?p"
    using sz small by (simp add: package_ok_def)
  then show ?thesis using pos
    by (simp add: send_package_ok codec_simps receive_with_def package_ok_def create_empty_package_def)
qed

text \<open>
  A logical address sent to a peer arrives unchanged, and the next package of the
  stream is intact.
\<close>

theorem page_message_roundtrip:
  "\<exists>bs rest. send_page code p = Some bs
     \<and> receive_op_code (bs @ s) = (Some code, rest) \<and> receive_page rest = (Some p, s)"
proof -
  have "serialize_page p \<noteq> []" by (simp add: serialize_page_def)
  from send_receive_with[OF length_serialize_page this, of code s deserialize_page] show ?thesis
    by (simp add: send_page_def receive_page_def deserialize_serialize_page size_of_page_def)
qed

lemma mov_out_message_roundtrip:
  "\<exists>bs rest. send_page_for_mov_out code p = Some bs
     \<and> receive_op_code (bs @ s) = (Some code, rest) \<and> receive_page_for_mov_out rest = (Some p, s)"
proof -
  have "int (length (serialize_page_for_mov_out p)) = size_of_page_for_mov_out"
    "serialize_page_for_mov_out p \<noteq> []"
    by (simp_all add: serialize_page_for_mov_out_def size_of_page_for_mov_out_def)
  from send_receive_with[OF this, of code s deserialize_page_for_mov_out] show ?thesis
    by (simp add: send_page_for_mov_out_def receive_page_for_mov_out_def
        deserialize_serialize_mov_out size_of_page_for_mov_out_def)
qed

text \<open>
  A page image sent to swap (block number, size and content) arrives unchanged, for
  every content whose length is the announced size.
\<close>

theorem swap_message_roundtrip:
  assumes ok: "payload_ok (page_info_size p) (page_content p)"
  shows "\<exists>bs rest. send_page_for_swap code p = Some bs
     \<and> receive_op_code (bs @ s) = (Some code, rest) \<and> receive_page_for_swap rest = (Some p, s)"
proof -
  from serialize_swap_exact[OF ok] obtain b where b: "serialize_page_for_swap p = Some b"
    "deserialize_page_for_swap b = Some p"
    "int (length b) = size_of_page_for_swap (sint (page_info_size p))" by blast
  moreover have "size_of_page_for_swap (sint (page_info_size p)) < 2 ^ 31" "b \<noteq> []"
    using ok b(3) by (auto simp: size_of_page_for_swap_def payload_ok_sint payload_ok_def)
  ultimately show ?thesis
    using send_receive_with[of b _ code s deserialize_page_for_swap]
    by (simp add: send_page_for_swap_def receive_page_for_swap_def)
qed

theorem swap_message_roundtrip_witness:
  "payload_ok 2 [7, 9] \<and> (\<exists>bs rest. send_page_for_swap 13 (page_for_swap 3 2 [7, 9]) = Some bs
     \<and> receive_op_code (bs @ []) = (Some 13, rest)
     \<and> receive_page_for_swap rest = (Some (page_for_swap 3 2 [7, 9]), []))"
proof -
  have "payload_ok (page_info_size (page_for_swap 3 2 [7, 9])) (page_content (page_for_swap 3 2 [7, 9]))"
    by (simp add: payload_ok_def page_for_swap_def)
  from swap_message_roundtrip[OF this, of 13 "[]"] show ?thesis
    by (simp add: payload_ok_def)
qed

lemma mov_out_fs_message_roundtrip:
  assumes ok: "payload_ok (mf_size p) (mf_register_value p)"
  shows "\<exists>bs rest. send_page_for_mov_out_fs code p = Some bs
     \<and> receive_op_code (bs @ s) = (Some code, rest) \<and> receive_page_for_mov_out_fs rest = (Some p, s)"
proof -
  from serialize_mov_out_fs_exact[OF ok] obtain b where b: "serialize_page_for_mov_out_fs p = Some b"
    "deserialize_page_for_mov_out_fs b = Some p"
    "int (length b) = size_of_page_for_mov_out_fs (sint (mf_size p))" by blast
  moreover have "size_of_page_for_mov_out_fs (sint (mf_size p)) < 2 ^ 31" "b \<noteq> []"
    using ok b(3) by (auto simp: size_of_page_for_mov_out_fs_def payload_ok_sint payload_ok_def)
  ultimately show ?thesis
    using send_receive_with[of b _ code s deserialize_page_for_mov_out_fs]
    by (simp add: send_page_for_mov_out_fs_def receive_page_for_mov_out_fs_def)
qed

end
