(* ===== verification/Pcb.thy ===== *)
theory Pcb
  imports Page
begin

text \<open>
  The process control block (\<^verbatim>\<open>utils/src/pcb\<close>) and the parameters of the file
  instructions: data, size functions, serializers and deserializers. The \<^verbatim>\<open>void* params\<close>
  field is a tagged union whose tag the code keeps in \<open>instruccion\<close>; a serializer that would
  read \<open>params\<close> under the wrong tag is \<open>None\<close>.
\<close>

section \<open>Data\<close>

record t_reg =
  AX :: u32
  BX :: u32
  CX :: u32
  DX :: u32

datatype ESTADO = BLOCKED | NEW | EXIT | EXEC | READY

datatype INSTRUCCION = NORMAL | FINISH | SIGNAL | WAIT | SLEEP | INTERRUPTED | INTERRUPT_FINISH
  | PAGE_FAULT | FOPEN | FCLOSE | FSEEK | FREAD | FWRITE | FTRUNCATE

datatype END_STATE = SUCCESS | INVALID_RESOURCE | INVALID_WRITE | MANUAL

record t_fopen =
  fo_file_name :: string
  open_mode :: string

record t_fmodify =
  fm_file_name :: string
  fm_page :: t_pag

record t_fchange =
  fc_file_name :: string
  fc_value :: c_int

text \<open>\<open>Unset\<close> is a pointer the code leaves uninitialised.\<close>

datatype params = NoParams | POpen t_fopen | PChange t_fchange | PModify t_fmodify
  | PStr string | PNum c_int | Unset

record t_openf =
  openf_file :: string
  seek :: c_int

record t_pcb =
  end_state :: END_STATE
  pid :: u32
  tamanio :: u32
  programCounter :: u32
  prioridad :: u32
  nom_arch_inst :: string
  registers :: t_reg
  estado :: ESTADO
  instruccion :: INSTRUCCION
  params :: params
  open_files :: "t_openf list"

fun estado_code :: "ESTADO \<Rightarrow> u32" where
  "estado_code BLOCKED = 1" | "estado_code NEW = 2" | "estado_code EXIT = 3"
| "estado_code EXEC = 4" | "estado_code READY = 5"

fun instr_code :: "INSTRUCCION \<Rightarrow> u32" where
  "instr_code NORMAL = 0" | "instr_code FINISH = 1" | "instr_code SIGNAL = 2"
| "instr_code WAIT = 3" | "instr_code SLEEP = 4" | "instr_code INTERRUPTED = 5"
| "instr_code INTERRUPT_FINISH = 6" | "instr_code PAGE_FAULT = 8" | "instr_code FOPEN = 7"
| "instr_code FCLOSE = 9" | "instr_code FSEEK = 10" | "instr_code FREAD = 11"
| "instr_code FWRITE = 12" | "instr_code FTRUNCATE = 13"

text \<open>
  The enumerations are finite, so a code is read back by searching the constructors; the code
  stores the raw number, and a number that is no enumerator is \<open>None\<close> here.
\<close>

definition all_estados :: "ESTADO list" where
  "all_estados = [BLOCKED, NEW, EXIT, EXEC, READY]"

definition all_instrs :: "INSTRUCCION list" where
  "all_instrs = [NORMAL, FINISH, SIGNAL, WAIT, SLEEP, INTERRUPTED, INTERRUPT_FINISH, PAGE_FAULT,
     FOPEN, FCLOSE, FSEEK, FREAD, FWRITE, FTRUNCATE]"

definition estado_of_code :: "u32 \<Rightarrow> ESTADO option" where
  "estado_of_code c = find (\<lambda>e. estado_code e = c) all_estados"

definition instr_of_code :: "u32 \<Rightarrow> INSTRUCCION option" where
  "instr_of_code c = find (\<lambda>i. instr_code i = c) all_instrs"

lemma estado_of_code [codec_simps]: "estado_of_code (estado_code e) = Some e"
  by (cases e) (simp_all add: estado_of_code_def all_estados_def)

lemma instr_of_code [codec_simps]: "instr_of_code (instr_code i) = Some i"
  by (cases i) (simp_all add: instr_of_code_def all_instrs_def)

definition create_empty_registers :: t_reg where
  "create_empty_registers = \<lparr>AX = 0, BX = 0, CX = 0, DX = 0\<rparr>"

text \<open>\<open>end_state = NULL\<close> stores 0, which is \<open>SUCCESS\<close>.\<close>

definition crear_pcb :: "u32 \<Rightarrow> string \<Rightarrow> u32 \<Rightarrow> u32 \<Rightarrow> t_pcb" where
  "crear_pcb p name tam priority =
     \<lparr>end_state = SUCCESS, pid = p, tamanio = tam, programCounter = 0, prioridad = priority,
      nom_arch_inst = name, registers = create_empty_registers, estado = NEW,
      instruccion = NORMAL, params = NoParams, open_files = []\<rparr>"

section \<open>Parameters of the file instructions (fs.c)\<close>

definition serialized_fopen_size :: "t_fopen \<Rightarrow> int" where
  "serialized_fopen_size f = (int (length (fo_file_name f)) + 1) + (int (length (open_mode f)) + 1) + 2 * 4"

definition serialize_fopen :: "t_fopen \<Rightarrow> u8 list" where
  "serialize_fopen f = ser_str (fo_file_name f) @ ser_str (open_mode f)"

definition deserialize_fopen :: "u8 list \<Rightarrow> t_fopen option" where
  "deserialize_fopen bs = do {
     (n, bs) \<leftarrow> rd_str bs;
     (m, bs) \<leftarrow> rd_str bs;
     Some \<lparr>fo_file_name = n, open_mode = m\<rparr> }"

definition serialized_fchange_size :: "t_fchange \<Rightarrow> int" where
  "serialized_fchange_size f = (int (length (fc_file_name f)) + 1) + 2 * 4"

definition serialize_fchange :: "t_fchange \<Rightarrow> u8 list" where
  "serialize_fchange f = ser_str (fc_file_name f) @ bytes_of_u32 (fc_value f)"

definition deserialize_fchange :: "u8 list \<Rightarrow> t_fchange option" where
  "deserialize_fchange bs = do {
     (n, bs) \<leftarrow> rd_str bs;
     (v, bs) \<leftarrow> rd_u32 bs;
     Some \<lparr>fc_file_name = n, fc_value = v\<rparr> }"

definition serialized_fmodify_size :: "t_fmodify \<Rightarrow> int" where
  "serialized_fmodify_size f = size_of_page + (int (length (fm_file_name f)) + 1) + 4"

definition serialize_fmodify :: "t_fmodify \<Rightarrow> u8 list" where
  "serialize_fmodify f = ser_str (fm_file_name f) @ serialize_page (fm_page f)"

definition deserialize_fmodify :: "u8 list \<Rightarrow> t_fmodify option" where
  "deserialize_fmodify bs = do {
     (n, bs) \<leftarrow> rd_str bs;
     (b, bs) \<leftarrow> take_bytes (nat size_of_page) bs;
     p \<leftarrow> deserialize_page b;
     Some \<lparr>fm_file_name = n, fm_page = p\<rparr> }"

section \<open>Size and serializers of the PCB (pcb.c)\<close>

definition serialized_open_file_size :: "t_openf \<Rightarrow> int" where
  "serialized_open_file_size f = (int (length (openf_file f)) + 1) + 2 * 4"

definition serialize_open_file :: "t_openf \<Rightarrow> u8 list" where
  "serialize_open_file f = ser_str (openf_file f) @ bytes_of_u32 (seek f)"

fun params_size :: "INSTRUCCION \<Rightarrow> params \<Rightarrow> int option" where
  "params_size FOPEN (POpen f) = Some (serialized_fopen_size f + 4)"
| "params_size FSEEK (PChange f) = Some (serialized_fchange_size f + 4)"
| "params_size FTRUNCATE (PChange f) = Some (serialized_fchange_size f + 4)"
| "params_size FWRITE (PModify f) = Some (serialized_fmodify_size f + 4)"
| "params_size FREAD (PModify f) = Some (serialized_fmodify_size f + 4)"
| "params_size WAIT (PStr s) = Some ((int (length s) + 1) + 4)"
| "params_size SIGNAL (PStr s) = Some ((int (length s) + 1) + 4)"
| "params_size FCLOSE (PStr s) = Some ((int (length s) + 1) + 4)"
| "params_size PAGE_FAULT (PNum n) = Some 4"
| "params_size SLEEP (PNum n) = Some 4"
| "params_size NORMAL _ = Some 0"
| "params_size FINISH _ = Some 0"
| "params_size INTERRUPTED _ = Some 0"
| "params_size INTERRUPT_FINISH _ = Some 0"
| "params_size _ _ = None"

definition serialized_pcb_size :: "t_pcb \<Rightarrow> int option" where
  "serialized_pcb_size p = do {
     instruction_size \<leftarrow> params_size (instruccion p) (params p);
     let open_files_size = 4 + sum_list (map serialized_open_file_size (open_files p));
     Some (9 * 4 + (int (length (nom_arch_inst p)) + 1) + 2 * 4 + instruction_size + open_files_size) }"

definition serialize_registers :: "t_reg \<Rightarrow> u8 list" where
  "serialize_registers r = bytes_of_u32 (AX r) @ bytes_of_u32 (BX r) @ bytes_of_u32 (CX r) @ bytes_of_u32 (DX r)"

text \<open>An inner structure is written with its size in front.\<close>

definition sized :: "int \<Rightarrow> u8 list \<Rightarrow> u8 list" where
  "sized n bs = bytes_of_u32 (word_of_int n) @ bs"

fun serialize_params :: "INSTRUCCION \<Rightarrow> params \<Rightarrow> u8 list option" where
  "serialize_params FOPEN (POpen f) = Some (sized (serialized_fopen_size f) (serialize_fopen f))"
| "serialize_params FSEEK (PChange f) = Some (sized (serialized_fchange_size f) (serialize_fchange f))"
| "serialize_params FTRUNCATE (PChange f) = Some (sized (serialized_fchange_size f) (serialize_fchange f))"
| "serialize_params FWRITE (PModify f) = Some (sized (serialized_fmodify_size f) (serialize_fmodify f))"
| "serialize_params FREAD (PModify f) = Some (sized (serialized_fmodify_size f) (serialize_fmodify f))"
| "serialize_params WAIT (PStr s) = Some (ser_str s)"
| "serialize_params SIGNAL (PStr s) = Some (ser_str s)"
| "serialize_params FCLOSE (PStr s) = Some (ser_str s)"
| "serialize_params PAGE_FAULT (PNum n) = Some (bytes_of_u32 n)"
| "serialize_params SLEEP (PNum n) = Some (bytes_of_u32 n)"
| "serialize_params NORMAL _ = Some []"
| "serialize_params FINISH _ = Some []"
| "serialize_params INTERRUPTED _ = Some []"
| "serialize_params INTERRUPT_FINISH _ = Some []"
| "serialize_params _ _ = None"

definition serialize_pcb :: "t_pcb \<Rightarrow> u8 list option" where
  "serialize_pcb p = do {
     ps \<leftarrow> serialize_params (instruccion p) (params p);
     Some (bytes_of_u32 (instr_code (instruccion p)) @ ps @
       bytes_of_u32 (pid p) @ bytes_of_u32 (tamanio p) @
       bytes_of_u32 (programCounter p) @ bytes_of_u32 (prioridad p) @
       ser_str (nom_arch_inst p) @ serialize_registers (registers p) @
       bytes_of_u32 (estado_code (estado p)) @
       bytes_of_u32 (of_nat (length (open_files p))) @
       concat (map serialize_open_file (open_files p))) }"

section \<open>Deserializers of the PCB\<close>

definition deserialize_registers :: "u8 list \<Rightarrow> (t_reg \<times> u8 list) option" where
  "deserialize_registers bs = do {
     (a, bs) \<leftarrow> rd_u32 bs; (b, bs) \<leftarrow> rd_u32 bs; (c, bs) \<leftarrow> rd_u32 bs; (d, bs) \<leftarrow> rd_u32 bs;
     Some (\<lparr>AX = a, BX = b, CX = c, DX = d\<rparr>, bs) }"

definition rd_open_file :: "u8 list \<Rightarrow> (t_openf \<times> u8 list) option" where
  "rd_open_file bs = do {
     (n, bs) \<leftarrow> rd_str bs; (v, bs) \<leftarrow> rd_u32 bs;
     Some (\<lparr>openf_file = n, seek = v\<rparr>, bs) }"

definition rd_sized :: "(u8 list \<Rightarrow> 'a option) \<Rightarrow> u8 list \<Rightarrow> ('a \<times> u8 list) option" where
  "rd_sized des bs = do {
     (n, bs) \<leftarrow> rd_u32 bs;
     (b, bs) \<leftarrow> rd_payload n bs;
     x \<leftarrow> des b;
     Some (x, bs) }"

definition tagged :: "('a \<Rightarrow> params) \<Rightarrow> ('a \<times> u8 list) option \<Rightarrow> (params \<times> u8 list) option" where
  "tagged c r = map_option (apfst c) r"

fun rd_params :: "INSTRUCCION \<Rightarrow> u8 list \<Rightarrow> (params \<times> u8 list) option" where
  "rd_params FINISH bs = Some (NoParams, bs)"
| "rd_params NORMAL bs = Some (NoParams, bs)"
| "rd_params FOPEN bs = tagged POpen (rd_sized deserialize_fopen bs)"
| "rd_params FTRUNCATE bs = tagged PChange (rd_sized deserialize_fchange bs)"
| "rd_params FSEEK bs = tagged PChange (rd_sized deserialize_fchange bs)"
| "rd_params FWRITE bs = tagged PModify (rd_sized deserialize_fmodify bs)"
| "rd_params FREAD bs = tagged PModify (rd_sized deserialize_fmodify bs)"
| "rd_params WAIT bs = tagged PStr (rd_str bs)"
| "rd_params SIGNAL bs = tagged PStr (rd_str bs)"
| "rd_params FCLOSE bs = tagged PStr (rd_str bs)"
| "rd_params PAGE_FAULT bs = tagged PNum (rd_u32 bs)"
| "rd_params SLEEP bs = tagged PNum (rd_u32 bs)"
| "rd_params INTERRUPTED bs = Some (Unset, bs)"
| "rd_params INTERRUPT_FINISH bs = Some (Unset, bs)"

definition deserialize_pcb :: "u8 list \<Rightarrow> t_pcb option" where
  "deserialize_pcb bs = do {
     (c, bs) \<leftarrow> rd_u32 bs;
     i \<leftarrow> instr_of_code c;
     (ps, bs) \<leftarrow> rd_params i bs;
     (p, bs) \<leftarrow> rd_u32 bs; (tam, bs) \<leftarrow> rd_u32 bs; (pc, bs) \<leftarrow> rd_u32 bs; (prio, bs) \<leftarrow> rd_u32 bs;
     (name, bs) \<leftarrow> rd_str bs;
     (regs, bs) \<leftarrow> deserialize_registers bs;
     (e, bs) \<leftarrow> rd_u32 bs;
     est \<leftarrow> estado_of_code e;
     (n, bs) \<leftarrow> rd_u32 bs;
     (files, bs) \<leftarrow> rd_many rd_open_file (nat (sint n)) bs;
     Some \<lparr>end_state = SUCCESS, pid = p, tamanio = tam, programCounter = pc, prioridad = prio,
        nom_arch_inst = name, registers = regs, estado = est, instruccion = i, params = ps,
        open_files = files\<rparr> }"

definition send_pcb :: "c_int \<Rightarrow> t_pcb \<Rightarrow> u8 list option" where
  "send_pcb code p = do {
     sz \<leftarrow> serialized_pcb_size p;
     b \<leftarrow> serialize_pcb p;
     send_package ((create_empty_package code)\<lparr>size := word_of_int sz, buffer := b\<rparr>) }"

definition receive_pcb :: "stream \<Rightarrow> t_pcb option \<times> stream" where
  "receive_pcb = receive_with deserialize_pcb"

section \<open>Well-formed blocks and the round trip\<close>

fun params_wf :: "INSTRUCCION \<Rightarrow> params \<Rightarrow> bool" where
  "params_wf FOPEN ps = (\<exists>f. ps = POpen f \<and> wire_string (fo_file_name f) \<and> wire_string (open_mode f)
      \<and> serialized_fopen_size f < 2 ^ 31 - 16)"
| "params_wf FSEEK ps = (\<exists>f. ps = PChange f \<and> wire_string (fc_file_name f) \<and> serialized_fchange_size f < 2 ^ 31 - 16)"
| "params_wf FTRUNCATE ps = (\<exists>f. ps = PChange f \<and> wire_string (fc_file_name f) \<and> serialized_fchange_size f < 2 ^ 31 - 16)"
| "params_wf FREAD ps = (\<exists>f. ps = PModify f \<and> wire_string (fm_file_name f) \<and> serialized_fmodify_size f < 2 ^ 31 - 16)"
| "params_wf FWRITE ps = (\<exists>f. ps = PModify f \<and> wire_string (fm_file_name f) \<and> serialized_fmodify_size f < 2 ^ 31 - 16)"
| "params_wf WAIT ps = (\<exists>s. ps = PStr s \<and> wire_string s)"
| "params_wf SIGNAL ps = (\<exists>s. ps = PStr s \<and> wire_string s)"
| "params_wf FCLOSE ps = (\<exists>s. ps = PStr s \<and> wire_string s)"
| "params_wf PAGE_FAULT ps = (\<exists>n. ps = PNum n)"
| "params_wf SLEEP ps = (\<exists>n. ps = PNum n)"
| "params_wf _ ps = True"

definition pcb_wf :: "t_pcb \<Rightarrow> bool" where
  "pcb_wf p \<longleftrightarrow> params_wf (instruccion p) (params p) \<and> wire_string (nom_arch_inst p)
     \<and> list_all (\<lambda>f. wire_string (openf_file f)) (open_files p) \<and> length (open_files p) < 2 ^ 31"

text \<open>What the receiver of a block holds: \<open>end_state\<close> does not travel.\<close>

fun received_params :: "INSTRUCCION \<Rightarrow> params \<Rightarrow> params" where
  "received_params NORMAL ps = NoParams"
| "received_params FINISH ps = NoParams"
| "received_params INTERRUPTED ps = Unset"
| "received_params INTERRUPT_FINISH ps = Unset"
| "received_params _ ps = ps"

definition received_pcb :: "t_pcb \<Rightarrow> t_pcb" where
  "received_pcb p = p\<lparr>end_state := SUCCESS, params := received_params (instruccion p) (params p)\<rparr>"

lemma rd_str_ser_str_nil: "wire_string s \<Longrightarrow> rd_str (ser_str s) = Some (s, [])"
  by (rule str_codec.dec_enc_nil)

lemma fopen_codec: "wire_string (fo_file_name f) \<Longrightarrow> wire_string (open_mode f) \<Longrightarrow>
    deserialize_fopen (serialize_fopen f) = Some f"
  by (simp add: deserialize_fopen_def serialize_fopen_def codec_simps rd_str_ser_str_nil)

lemma fchange_codec: "wire_string (fc_file_name f) \<Longrightarrow> deserialize_fchange (serialize_fchange f) = Some f"
  using rd_u32_bytes[of "fc_value f" "[]"]
  by (simp add: deserialize_fchange_def serialize_fchange_def codec_simps)

lemma take_page: "take_bytes (nat size_of_page) (serialize_page q) = Some (serialize_page q, [])"
  by (simp add: take_bytes_def size_of_page_def serialize_page_def)

lemma fmodify_codec: "wire_string (fm_file_name f) \<Longrightarrow> deserialize_fmodify (serialize_fmodify f) = Some f"
  by (simp add: deserialize_fmodify_def serialize_fmodify_def codec_simps deserialize_serialize_page
      take_page)

lemma fopen_length: "int (length (serialize_fopen f)) = serialized_fopen_size f"
  by (simp add: serialize_fopen_def serialized_fopen_size_def)

lemma fchange_length: "int (length (serialize_fchange f)) = serialized_fchange_size f"
  by (simp add: serialize_fchange_def serialized_fchange_size_def)

lemma fmodify_length: "int (length (serialize_fmodify f)) = serialized_fmodify_size f"
  using length_serialize_page[of "fm_page f"]
  by (simp add: serialize_fmodify_def serialized_fmodify_size_def)

lemma length_sized [simp]: "length (sized n b) = 4 + length b"
  by (simp add: sized_def)

lemma rd_sized_sized:
  assumes len: "int (length b) = n" and small: "n < 2 ^ 31 - 16" and des: "des b = Some x"
  shows "rd_sized des (sized n b @ rest) = Some (x, rest)"
proof -
  have "payload_ok (word_of_int n) b"
    using len small unat_word_of_int_u32[of n] by (simp add: payload_ok_def)
  then show ?thesis
    by (simp add: rd_sized_def sized_def codec_simps rd_payload_exact des)
qed

lemma rd_params_serialize:
  assumes "params_wf i ps"
  shows "\<exists>b. serialize_params i ps = Some b
     \<and> (\<forall>rest. rd_params i (b @ rest) = Some (received_params i ps, rest))
     \<and> params_size i ps = Some (int (length b))"
  using assms
  by (cases i) (auto simp: tagged_def codec_simps rd_sized_sized[OF fopen_length] fopen_codec
      rd_sized_sized[OF fchange_length] fchange_codec rd_sized_sized[OF fmodify_length] fmodify_codec
      fopen_length fchange_length fmodify_length)

lemma rd_registers [codec_simps]:
  "deserialize_registers (serialize_registers r @ rest) = Some (r, rest)"
  by (simp add: deserialize_registers_def serialize_registers_def codec_simps)

interpretation openf_codec: codec serialize_open_file rd_open_file "\<lambda>f. wire_string (openf_file f)"
  by unfold_locales (simp add: serialize_open_file_def rd_open_file_def codec_simps)

lemma open_files_length:
  "int (length (concat (map serialize_open_file fs))) = sum_list (map serialized_open_file_size fs)"
  by (induction fs) (simp_all add: serialize_open_file_def serialized_open_file_size_def)

text \<open>
  The size announced for a process control block is the number of bytes its serializer
  writes, and deserializing those bytes gives back every field but \<open>end_state\<close> (and the
  parameters of an instruction that has none).
\<close>

theorem pcb_roundtrip:
  assumes wf: "pcb_wf p"
  shows "\<exists>bs. serialize_pcb p = Some bs \<and> serialized_pcb_size p = Some (int (length bs))
     \<and> deserialize_pcb bs = Some (received_pcb p)"
proof -
  let ?n = "of_nat (length (open_files p)) :: u32"
  obtain b where b: "serialize_params (instruccion p) (params p) = Some b"
    "\<And>rest. rd_params (instruccion p) (b @ rest) = Some (received_params (instruccion p) (params p), rest)"
    "params_size (instruccion p) (params p) = Some (int (length b))"
    using rd_params_serialize[of "instruccion p" "params p"] wf by (auto simp: pcb_wf_def)
  have n: "nat (sint ?n) = length (open_files p)"
    using wf unat_of_nat_u32[of "length (open_files p)"] sint_small[of ?n] by (simp add: pcb_wf_def)
  have "rd_many rd_open_file (length (open_files p)) (concat (map serialize_open_file (open_files p)))
      = Some (open_files p, [])"
    using openf_codec.rd_many_enc[of "open_files p" "[]"] wf by (simp add: pcb_wf_def)
  then show ?thesis
    using wf b n open_files_length[of "open_files p"]
    by (simp add: serialize_pcb_def deserialize_pcb_def serialized_pcb_size_def codec_simps
        pcb_wf_def received_pcb_def serialize_registers_def[THEN arg_cong, of length])
qed

text \<open>
  A process control block sent by one module is received by its peer as \<open>received_pcb\<close>,
  for every block whose image fits an \<open>int\<close> size.
\<close>

theorem pcb_message_roundtrip:
  assumes wf: "pcb_wf p" and fits: "serialized_pcb_size p = Some n" "n < 2 ^ 31"
  shows "\<exists>bs rest. send_pcb code p = Some bs
     \<and> receive_op_code (bs @ s) = (Some code, rest) \<and> receive_pcb rest = (Some (received_pcb p), s)"
proof -
  from pcb_roundtrip[OF wf] obtain b where b: "serialize_pcb p = Some b" "int (length b) = n"
    "deserialize_pcb b = Some (received_pcb p)" using fits(1) by auto
  moreover have "b \<noteq> []" using b(1) by (auto simp: serialize_pcb_def bind_eq_Some_conv)
  ultimately show ?thesis
    using send_receive_with[OF b(2), of code s deserialize_pcb] fits
    by (simp add: send_pcb_def receive_pcb_def)
qed

text \<open>A process blocked in a file read, with an open file: every nested structure is present.\<close>

definition sample_pcb :: t_pcb where
  "sample_pcb = (crear_pcb 3 ''prog'' 64 1)\<lparr>instruccion := FREAD,
     params := PModify \<lparr>fm_file_name = ''f'', fm_page = page_new 3 2 0\<rparr>,
     open_files := [\<lparr>openf_file = ''f'', seek = 16\<rparr>]\<rparr>"

lemma sample_pcb_wf: "pcb_wf sample_pcb"
  and sample_pcb_size: "serialized_pcb_size sample_pcb = Some 85"
  by (simp_all add: sample_pcb_def crear_pcb_def pcb_wf_def wire_string_def c_string_def
      serialized_pcb_size_def serialized_fmodify_size_def serialized_open_file_size_def
      size_of_page_def)

theorem pcb_roundtrip_witness:
  "pcb_wf sample_pcb \<and> (\<exists>bs. serialize_pcb sample_pcb = Some bs
     \<and> serialized_pcb_size sample_pcb = Some (int (length bs))
     \<and> deserialize_pcb bs = Some (received_pcb sample_pcb))"
  using pcb_roundtrip[OF sample_pcb_wf] sample_pcb_wf by blast

theorem pcb_message_roundtrip_witness:
  "\<exists>bs rest. send_pcb 3 sample_pcb = Some bs
     \<and> receive_op_code (bs @ []) = (Some 3, rest)
     \<and> receive_pcb rest = (Some (received_pcb sample_pcb), [])"
  using pcb_message_roundtrip[OF sample_pcb_wf sample_pcb_size, of 3 "[]"] by simp

end
