(* ===== verification/Startup.thy ===== *)
theory Startup
  imports Wire "HOL-Library.Multiset"
begin

text \<open>
  The start of the modules: the arguments (\<^verbatim>\<open>utils/src/config/config.c\<close>), the handshakes
  (\<^verbatim>\<open>utils/src/handshake/handshake.c\<close>), the memory that waits for its three clients and the
  kernel that connects to its four servers. A socket is a number and the bytes that its peer
  has sent (\<open>None\<close> when \<open>recv\<close> fails); addresses, \<open>bind\<close> and \<open>listen\<close> are not modelled.
\<close>

section \<open>Handshakes\<close>

datatype MODULOS = FILESYSTEM | CPU | MEMORY | KERNEL

fun module_code :: "MODULOS \<Rightarrow> c_int" where
  "module_code FILESYSTEM = 1" | "module_code CPU = 2" | "module_code MEMORY = 3" | "module_code KERNEL = 4"

definition send_handshake :: "c_int \<Rightarrow> u8 list" where
  "send_handshake handshake = bytes_of_u32 handshake"

definition send_handshake_success :: "u8 list" where
  "send_handshake_success = bytes_of_u32 0"

definition send_handshake_error :: "u8 list" where
  "send_handshake_error = bytes_of_u32 (- 1)"

text \<open>
  A \<open>recv\<close> of an \<^verbatim>\<open>int\<close> with \<open>MSG_WAITALL\<close>: its result and the value, \<open>None\<close> when fewer bytes came
  than an \<^verbatim>\<open>int\<close> has and the variable is not set.
\<close>

definition recv_int :: "stream option \<Rightarrow> int \<times> c_int option \<times> stream option" where
  "recv_int s = (case s of None \<Rightarrow> (- 1, None, None)
     | Some bs \<Rightarrow> (let (d, bs) = recv_waitall 4 bs in (int (length d), map_option fst (rd_u32 d), Some bs)))"

text \<open>The result \<open>None\<close> is an indeterminate value.\<close>

definition receive_handshake :: "stream option \<Rightarrow> c_int option" where
  "receive_handshake s = (case recv_int s of (result, handshake, _) \<Rightarrow> if result = - 1 then Some (- 1) else handshake)"

definition check_handshake_result :: "stream option \<Rightarrow> int option" where
  "check_handshake_result s = (case recv_int s of (result, handshake, _) \<Rightarrow>
     if result = - 1 then Some result
     else (case handshake of None \<Rightarrow> None | Some h \<Rightarrow> if h = 0 then Some result else Some (- 1)))"

text \<open>
  The wait of a server for the kernel, after \<open>accept\<close> gave \<open>fd\<close>: the result, what is sent to the
  client, and whether the socket is closed.
\<close>

definition wait_for_initial_handshake_from_kernel :: "int \<Rightarrow> stream option \<Rightarrow> (int \<times> u8 list \<times> bool) option" where
  "wait_for_initial_handshake_from_kernel fd s = (case receive_handshake s of
      None \<Rightarrow> None
    | Some handshake \<Rightarrow>
        if handshake = - 1 then Some (- 1, [], False)
        else if handshake = module_code KERNEL then Some (fd, send_handshake_success, False)
        else Some (fd, send_handshake_error, True))"

section \<open>The memory waits for its clients\<close>

text \<open>The sockets of \<open>t_conn\<close>; they are \<open>None\<close> until set, since \<open>malloc\<close> does not initialise.\<close>

record t_conn =
  socket_filesystem :: "int option"
  socket_cpu :: "int option"
  socket_kernel :: "int option"

text \<open>What one accepted client changes, and what it is sent.\<close>

definition accept_client :: "int \<Rightarrow> c_int \<Rightarrow> t_conn \<Rightarrow> t_conn \<times> u8 list" where
  "accept_client fd handshake conn =
     (if handshake = module_code FILESYSTEM then (conn\<lparr>socket_filesystem := Some fd\<rparr>, send_handshake_success)
      else if handshake = module_code CPU then (conn\<lparr>socket_cpu := Some fd\<rparr>, send_handshake_success)
      else if handshake = module_code KERNEL then (conn\<lparr>socket_kernel := Some fd\<rparr>, send_handshake_success)
      else (conn, send_handshake_error))"

text \<open>
  The loop over \<open>MODULOS_A_CONECTAR\<close> clients: the inner \<open>None\<close> is the NULL after a failed \<open>recv\<close>,
  the outer one an indeterminate value or a client that never comes.
\<close>

fun accept_modules :: "nat \<Rightarrow> (int \<times> stream option) list \<Rightarrow> t_conn \<Rightarrow> t_conn option option" where
  "accept_modules 0 cs conn = Some (Some conn)"
| "accept_modules (Suc n) [] conn = None"
| "accept_modules (Suc n) ((fd, s) # cs) conn = (case receive_handshake s of
      None \<Rightarrow> None
    | Some handshake \<Rightarrow> if handshake = - 1 then Some None
        else accept_modules n cs (fst (accept_client fd handshake conn)))"

definition start_server_ports :: "(int \<times> stream option) list \<Rightarrow> t_conn option option" where
  "start_server_ports cs = accept_modules 3 cs \<lparr>socket_filesystem = None, socket_cpu = None, socket_kernel = None\<rparr>"

section \<open>The kernel connects to its servers\<close>

text \<open>
  One server as the loop meets it: its keys are in the configuration, the socket that \<open>connect\<close>
  gave, whether \<open>send\<close> succeeded, and what the server answers.
\<close>

record module_answer =
  keys_in_config :: bool
  connected :: "int option"
  sent_ok :: bool
  answer :: "stream option"

fun connect_loop :: "module_answer list \<Rightarrow> int list option" where
  "connect_loop [] = Some []"
| "connect_loop (a # as) =
     (if \<not> keys_in_config a then Some []
      else case connected a of None \<Rightarrow> Some []
      | Some fd \<Rightarrow> if \<not> sent_ok a then Some []
          else (case check_handshake_result (answer a) of
              None \<Rightarrow> None
            | Some r \<Rightarrow> if r = - 1 then Some [] else map_option (\<lambda>fds. fd # fds) (connect_loop as)))"

text \<open>The sockets, or the NULL with the sockets that are closed.\<close>

definition connect_to_modules :: "module_answer list \<Rightarrow> (int list + int list) option" where
  "connect_to_modules as = map_option (\<lambda>fds. if length fds = 4 then Inr fds else Inl fds) (connect_loop (take 4 as))"

section \<open>Arguments\<close>

text \<open>
  \<open>logs\<close> says whether the log opens and \<open>config_create\<close> reads a file. The caller passes \<open>argv[2]\<close>,
  which goes to \<open>atoi\<close> before the number of arguments is looked at; the outer \<open>None\<close> is its crash.
\<close>

definition create_initial_config :: "(string \<Rightarrow> 'c option) \<Rightarrow> bool \<Rightarrow> string list \<Rightarrow> 'c option option" where
  "create_initial_config config_create logs argv =
     (if length argv \<le> 2 then None
      else if \<not> logs then Some None
      else if length argv = 2 then Some None
      else Some (config_create (argv ! 1)))"

section \<open>Both sides agree\<close>

lemma receive_handshake_sent [simp]: "receive_handshake (Some (send_handshake h @ rest)) = Some h"
  using rd_u32_bytes[of h "[]"] by (simp add: receive_handshake_def recv_int_def recv_waitall_def send_handshake_def)

lemma receive_handshake_sent_only [simp]: "receive_handshake (Some (send_handshake h)) = Some h"
  using receive_handshake_sent[of h "[]"] by simp

lemma send_handshake_eq [simp]: "send_handshake a = send_handshake b \<longleftrightarrow> a = b"
  using receive_handshake_sent_only by (metis option.inject)

lemma check_handshake_sent [simp]:
  "check_handshake_result (Some send_handshake_success) = Some 4" "check_handshake_result (Some send_handshake_error) = Some (- 1)"
  using rd_u32_bytes[of 0 "[]"] rd_u32_bytes[of "- 1" "[]"]
  by (simp_all add: check_handshake_result_def recv_int_def recv_waitall_def send_handshake_success_def send_handshake_error_def)

text \<open>
  A server that waits for the kernel accepts the kernel, and the kernel sees it. Any other module is
  refused and sees the refusal, but the server goes on with the socket that it has closed as if it
  were the kernel's.
\<close>

theorem handshake_with_kernel:
  "\<exists>reply closed. wait_for_initial_handshake_from_kernel fd (Some (send_handshake (module_code m))) = Some (fd, reply, closed)
     \<and> (check_handshake_result (Some reply) \<noteq> Some (- 1) \<longleftrightarrow> m = KERNEL) \<and> (closed \<longleftrightarrow> m \<noteq> KERNEL)"
  by (cases m) (auto simp: wait_for_initial_handshake_from_kernel_def)

lemma three_orders:
  assumes "distinct [x, y, z]" and "set [x, y, z] = {a, b, c}"
  shows "x = a \<and> y = b \<and> z = c \<or> x = a \<and> z = b \<and> y = c \<or> y = a \<and> x = b \<and> z = c
     \<or> y = a \<and> z = b \<and> x = c \<or> z = a \<and> x = b \<and> y = c \<or> z = a \<and> y = b \<and> x = c"
proof -
  have "x \<in> {a, b, c}" "y \<in> {a, b, c}" "z \<in> {a, b, c}" unfolding assms(2)[symmetric] by simp_all
  then have "x = a \<or> x = b \<or> x = c" "y = a \<or> y = b \<or> y = c" "z = a \<or> z = b \<or> z = c" by simp_all
  moreover have "x \<noteq> y" "y \<noteq> z" "x \<noteq> z" using assms(1) by auto
  ultimately show ?thesis by metis
qed

text \<open>The three clients of the memory may come in any order, each gets its own socket.\<close>

theorem memory_start_any_order:
  assumes "mset cs = {#(f, Some (send_handshake (module_code FILESYSTEM))), (c, Some (send_handshake (module_code CPU))),
     (k, Some (send_handshake (module_code KERNEL)))#}"
  shows "start_server_ports cs = Some (Some \<lparr>socket_filesystem = Some f, socket_cpu = Some c, socket_kernel = Some k\<rparr>)"
proof -
  have "length cs = 3" using assms by (metis size_mset size_add_mset size_empty numeral_3_eq_3)
  then obtain x y z where cs: "cs = [x, y, z]" by (auto simp: length_Suc_conv eval_nat_numeral)
  let ?a = "(f, Some (send_handshake 1))" and ?b = "(c, Some (send_handshake 2))" and ?d = "(k, Some (send_handshake 4))"
  have m: "mset [x, y, z] = mset [?a, ?b, ?d]" using assms cs by simp
  have "send_handshake 1 \<noteq> send_handshake 2" "send_handshake 1 \<noteq> send_handshake 4" "send_handshake 2 \<noteq> send_handshake 4"
    by simp_all
  then have "distinct [?a, ?b, ?d]" by simp
  then have "distinct [x, y, z]" "set [x, y, z] = {?a, ?b, ?d}"
    using mset_eq_imp_distinct_iff[OF m] mset_eq_setD[OF m] by simp_all
  from three_orders[OF this] consider
    "x = (f, Some (send_handshake 1))" "y = (c, Some (send_handshake 2))" "z = (k, Some (send_handshake 4))"
  | "x = (f, Some (send_handshake 1))" "z = (c, Some (send_handshake 2))" "y = (k, Some (send_handshake 4))"
  | "y = (f, Some (send_handshake 1))" "x = (c, Some (send_handshake 2))" "z = (k, Some (send_handshake 4))"
  | "y = (f, Some (send_handshake 1))" "z = (c, Some (send_handshake 2))" "x = (k, Some (send_handshake 4))"
  | "z = (f, Some (send_handshake 1))" "x = (c, Some (send_handshake 2))" "y = (k, Some (send_handshake 4))"
  | "z = (f, Some (send_handshake 1))" "y = (c, Some (send_handshake 2))" "x = (k, Some (send_handshake 4))"
    by blast
  then show ?thesis
    by cases (simp_all add: cs start_server_ports_def accept_client_def numeral_3_eq_3)
qed

theorem memory_start_any_order_witness:
  "start_server_ports [(7, Some (send_handshake 4)), (5, Some (send_handshake 1)), (6, Some (send_handshake 2))]
     = Some (Some \<lparr>socket_filesystem = Some 5, socket_cpu = Some 6, socket_kernel = Some 7\<rparr>)"
  by (rule memory_start_any_order) simp

text \<open>
  A client that is refused counts as one of the three: the module starts with a socket that was
  never set.
\<close>

theorem refused_client_counts:
  "start_server_ports [(5, Some (send_handshake 1)), (6, Some (send_handshake 9)), (7, Some (send_handshake 4))]
     = Some (Some \<lparr>socket_filesystem = Some 5, socket_cpu = None, socket_kernel = Some 7\<rparr>)"
  by (simp add: start_server_ports_def accept_client_def numeral_3_eq_3)

text \<open>The kernel has its four sockets exactly when all servers accepted it.\<close>

definition accepted :: "module_answer \<Rightarrow> bool" where
  "accepted a \<longleftrightarrow> keys_in_config a \<and> connected a \<noteq> None \<and> sent_ok a \<and> answer a = Some send_handshake_success"

lemma connect_loop_accepted:
  "list_all (\<lambda>a. answer a \<in> {None, Some send_handshake_success, Some send_handshake_error}) as \<Longrightarrow>
     connect_loop as = Some (map (\<lambda>a. the (connected a)) (takeWhile accepted as))"
proof (induction as)
  case (Cons a as)
  have "check_handshake_result None = Some (- 1)" by (simp add: check_handshake_result_def recv_int_def)
  moreover have "send_handshake_success \<noteq> send_handshake_error" using check_handshake_sent by fastforce
  ultimately show ?case using Cons by (auto simp: accepted_def split: option.split)
qed simp

theorem kernel_connects_when_accepted:
  assumes "length as = 4"
    and "list_all (\<lambda>a. answer a \<in> {None, Some send_handshake_success, Some send_handshake_error}) as"
  shows "(\<exists>fds. connect_to_modules as = Some (Inr fds)) \<longleftrightarrow> list_all accepted as"
proof -
  have "length (takeWhile accepted as) = 4 \<longleftrightarrow> list_all accepted as"
    using assms(1) by (metis list_all_iff takeWhile_eq_all_conv set_takeWhileD length_takeWhile_le takeWhile_eq_take take_all_iff order_refl)
  then show ?thesis using assms connect_loop_accepted[OF assms(2)] by (auto simp: connect_to_modules_def)
qed

theorem kernel_connects_when_accepted_witness:
  "\<exists>fds. connect_to_modules (replicate 4 \<lparr>keys_in_config = True, connected = Some 3, sent_ok = True,
     answer = Some send_handshake_success\<rparr>) = Some (Inr fds)"
  by (subst kernel_connects_when_accepted) (simp_all add: accepted_def list_all_iff)

text \<open>
  The test of the number of arguments never has an effect: with two it has crashed before, with
  one there is no argument to test, and with three or more the file is read.
\<close>

theorem argument_check_never_fires:
  "create_initial_config config_create True argv = (if length argv \<le> 2 then None else Some (config_create (argv ! 1)))"
  by (simp add: create_initial_config_def)

end
