(* ===== verification/Locks.thy ===== *)
theory Locks
  imports Pcb "HOL-Library.Multiset"
begin

text \<open>
  The lock queue of an open file (\<^verbatim>\<open>kernel/src/planificadores\<close>:
  \<open>create_lock\<close>, \<open>add_read_lock\<close>, \<open>close_lock\<close> and the decision of \<open>f_open\<close>). The
  first lock of the queue is the one in force: either one writer or a set of readers; the
  locks behind it wait with \<open>is_blocked\<close>. \<open>write_locked\<close> is the semaphore the waiting
  threads of a lock sleep on.
\<close>

record t_lock =
  is_write_lock :: bool
  participants :: "u32 list"
  is_blocked :: bool
  write_locked :: nat

record t_open_file =
  locks :: "t_lock list"
  file_size :: c_int

text \<open>\<open>malloc\<close> leaves \<open>is_blocked\<close> unset; every caller of \<open>create_lock\<close> sets it at once.\<close>

definition create_lock :: "u32 \<Rightarrow> bool \<Rightarrow> bool \<Rightarrow> t_lock" where
  "create_lock p write blocked =
     \<lparr>is_write_lock = write, participants = [p], is_blocked = blocked, write_locked = 0\<rparr>"

text \<open>The first read lock of the queue is joined; without one, a new one goes to the end.\<close>

fun add_read_lock :: "u32 \<Rightarrow> bool \<Rightarrow> t_lock list \<Rightarrow> t_lock list" where
  "add_read_lock p blocked [] = [create_lock p False blocked]"
| "add_read_lock p blocked (l # ls) =
     (if \<not> is_write_lock l
      then l\<lparr>participants := participants l @ [p], is_blocked := blocked\<rparr> # ls
      else l # add_read_lock p blocked ls)"

definition add_write_lock :: "u32 \<Rightarrow> bool \<Rightarrow> t_lock list \<Rightarrow> t_lock list" where
  "add_write_lock p blocked ls = ls @ [create_lock p True blocked]"

text \<open>The part shared by both branches of \<open>close_lock\<close>: the new head is posted once per participant.\<close>

fun wake_next :: "t_lock list \<Rightarrow> t_lock list" where
  "wake_next [] = []"
| "wake_next (n # ls) =
     (if is_blocked n then n\<lparr>write_locked := write_locked n + length (participants n)\<rparr> # ls
      else n # ls)"

definition remove_pid :: "u32 \<Rightarrow> u32 list \<Rightarrow> u32 list" where
  "remove_pid p ps = snd (list_remove_by_condition (\<lambda>q. q = p) ps)"

text \<open>
  \<open>close_lock(pcb, file, lock)\<close> for the lock at position \<open>i\<close> of the queue. Whatever the
  lock is, the element that leaves the queue is \<open>list_remove(file->locks, 0)\<close> and the one that is
  freed is \<open>lock\<close>: when they differ the queue is left with a pointer to freed memory, \<open>None\<close>.
\<close>

definition release_lock :: "nat \<Rightarrow> t_lock list \<Rightarrow> t_lock list option" where
  "release_lock i ls = (if i = 0 then Some (wake_next (tl ls)) else None)"

definition close_lock :: "u32 \<Rightarrow> nat \<Rightarrow> t_lock list \<Rightarrow> t_lock list option" where
  "close_lock p i ls =
     (let l = ls ! i in
      if is_write_lock l then release_lock i ls
      else let l' = l\<lparr>participants := remove_pid p (participants l)\<rparr>; ls' = ls[i := l'] in
        if participants l' = [] then release_lock i ls' else Some ls')"

text \<open>\<open>f_close\<close> closes the head lock.\<close>

definition close_head :: "u32 \<Rightarrow> t_lock list \<Rightarrow> t_lock list option" where
  "close_head p ls = (if ls = [] then None else close_lock p 0 ls)"

text \<open>What \<open>f_open\<close> decides: a read waits behind a writer at the head, a write behind anything.\<close>

definition read_must_wait :: "t_lock list \<Rightarrow> bool" where
  "read_must_wait ls = (case ls of [] \<Rightarrow> False | l # _ \<Rightarrow> is_write_lock l)"

definition write_must_wait :: "t_lock list \<Rightarrow> bool" where
  "write_must_wait ls = (ls \<noteq> [])"

section \<open>The invariant of the queue\<close>

definition lock_ok :: "t_lock \<Rightarrow> bool" where
  "lock_ok l \<longleftrightarrow> participants l \<noteq> [] \<and> (is_write_lock l \<longrightarrow> length (participants l) = 1)"

definition read_locks :: "t_lock list \<Rightarrow> t_lock list" where
  "read_locks ls = filter (\<lambda>l. \<not> is_write_lock l) ls"

definition locks_inv :: "t_lock list \<Rightarrow> bool" where
  "locks_inv ls \<longleftrightarrow> (\<forall>l \<in> set ls. lock_ok l) \<and> length (read_locks ls) \<le> 1
     \<and> (\<forall>l \<in> set (tl ls). is_blocked l)"

text \<open>The processes the queue lets work on the file, and the mode.\<close>

definition holders :: "t_lock list \<Rightarrow> u32 list" where
  "holders ls = (case ls of [] \<Rightarrow> [] | l # _ \<Rightarrow> participants l)"

definition write_held :: "t_lock list \<Rightarrow> bool" where
  "write_held ls = (case ls of [] \<Rightarrow> False | l # _ \<Rightarrow> is_write_lock l)"

lemmas lock_defs = create_lock_def add_write_lock_def locks_inv_def lock_ok_def read_locks_def
  read_must_wait_def write_must_wait_def holders_def write_held_def

lemma locks_inv_Nil [simp]: "locks_inv []"
  by (simp add: lock_defs)

lemma locks_inv_ConsD: "locks_inv (l # ls) \<Longrightarrow> lock_ok l \<and> (\<forall>l \<in> set ls. is_blocked l \<and> lock_ok l)"
  by (simp add: locks_inv_def)

lemma wake_next_keeps [simp]:
  "map participants (wake_next ls) = map participants ls"
  "map is_write_lock (wake_next ls) = map is_write_lock ls"
  "map is_blocked (wake_next ls) = map is_blocked ls"
  by (cases ls; simp)+

text \<open>The invariant reads only the three fields \<open>wake_next\<close> keeps.\<close>

lemma locks_inv_wake_next: "locks_inv ls \<Longrightarrow> locks_inv (wake_next ls)"
  by (cases ls) (auto simp: locks_inv_def lock_ok_def read_locks_def)

lemma locks_inv_tl: "locks_inv ls \<Longrightarrow> locks_inv (tl ls)"
  by (cases ls; cases "tl ls") (auto simp: locks_inv_def read_locks_def split: if_splits)

lemma length_remove_pid: "p \<in> set ps \<Longrightarrow> length ps = Suc (length (remove_pid p ps))"
  by (induction ps) (auto simp: remove_pid_def split: prod.splits)

lemma remove_pid_mset: "p \<in> set ps \<Longrightarrow> mset (remove_pid p ps) = mset ps - {#p#}"
  by (induction ps) (auto simp: remove_pid_def split: prod.splits)

lemma remove_pid_absent: "p \<notin> set ps \<Longrightarrow> remove_pid p ps = ps"
  by (induction ps) (auto simp: remove_pid_def split: prod.splits)

lemma add_read_lock_blocked:
  assumes "\<forall>l \<in> set ls. is_blocked l" and "\<forall>l \<in> set ls. lock_ok l"
  shows "(\<forall>l \<in> set (add_read_lock p True ls). is_blocked l \<and> lock_ok l)"
  using assms by (induction ls) (auto simp: create_lock_def lock_ok_def)

lemma add_read_lock_reads:
  "length (read_locks ls) \<le> 1 \<Longrightarrow> length (read_locks (add_read_lock p b ls)) = 1"
  by (induction ls) (auto simp: read_locks_def create_lock_def)

lemma add_read_lock_head_write:
  "l = hd ls \<Longrightarrow> ls \<noteq> [] \<Longrightarrow> is_write_lock l \<Longrightarrow> add_read_lock p b ls = l # add_read_lock p b (tl ls)"
  by (cases ls) auto

text \<open>A reader that must wait, and one that is let in, both keep the invariant.\<close>

lemma locks_inv_read_wait:
  assumes inv: "locks_inv ls" and "read_must_wait ls"
  shows "locks_inv (add_read_lock p True ls) \<and> holders (add_read_lock p True ls) = holders ls"
proof -
  obtain l ls' where ls: "ls = l # ls'" "is_write_lock l"
    using assms(2) by (cases ls) (auto simp: read_must_wait_def)
  with locks_inv_ConsD[of l ls'] inv have "\<forall>l \<in> set (add_read_lock p True ls'). is_blocked l \<and> lock_ok l"
    by (intro add_read_lock_blocked) auto
  moreover have "length (read_locks (add_read_lock p True ls)) = 1"
    using inv by (intro add_read_lock_reads) (simp add: locks_inv_def)
  ultimately show ?thesis
    using ls inv by (auto simp: locks_inv_def holders_def)
qed

lemma locks_inv_read_now:
  assumes inv: "locks_inv ls" and "\<not> read_must_wait ls"
  shows "locks_inv (add_read_lock p False ls) \<and> holders (add_read_lock p False ls) = holders ls @ [p]
     \<and> \<not> write_held (add_read_lock p False ls)"
  using assms by (cases ls) (auto simp: lock_defs)

lemma locks_inv_write_wait:
  "locks_inv ls \<Longrightarrow> write_must_wait ls \<Longrightarrow>
     locks_inv (add_write_lock p True ls) \<and> holders (add_write_lock p True ls) = holders ls"
  by (cases ls) (auto simp: lock_defs)

lemma locks_inv_write_now:
  "\<not> write_must_wait ls \<Longrightarrow>
     locks_inv (add_write_lock p False ls) \<and> holders (add_write_lock p False ls) = [p]"
  by (simp add: lock_defs)

text \<open>Closing the head: a reader that is not the last leaves the rest in force.\<close>

lemma close_head_inv:
  assumes inv: "locks_inv (l # ls)"
    and c: "close_lock p 0 (l # ls) = Some ls'"
  shows "locks_inv ls'"
proof (cases "is_write_lock l \<or> remove_pid p (participants l) = []")
  case True
  then have "ls' = wake_next ls"
    using c by (auto simp: close_lock_def release_lock_def Let_def split: if_splits)
  then show ?thesis
    using locks_inv_wake_next locks_inv_tl[OF inv] by simp
next
  case False
  then have "ls' = l\<lparr>participants := remove_pid p (participants l)\<rparr> # ls"
    using c by (auto simp: close_lock_def Let_def)
  then show ?thesis using inv False by (auto simp: locks_inv_def lock_ok_def read_locks_def)
qed

section \<open>The queue as a state machine\<close>

text \<open>The operations the kernel performs on the queue of one file, with the guards of \<open>f_open\<close>.\<close>

inductive lock_step :: "t_lock list \<Rightarrow> t_lock list \<Rightarrow> bool" where
  read_now: "\<not> read_must_wait ls \<Longrightarrow> lock_step ls (add_read_lock p False ls)"
| read_wait: "read_must_wait ls \<Longrightarrow> lock_step ls (add_read_lock p True ls)"
| write_now: "\<not> write_must_wait ls \<Longrightarrow> lock_step ls (add_write_lock p False ls)"
| write_wait: "write_must_wait ls \<Longrightarrow> lock_step ls (add_write_lock p True ls)"
| close: "close_head p ls = Some ls' \<Longrightarrow> lock_step ls ls'"

inductive lock_reachable :: "t_lock list \<Rightarrow> bool" where
  lr_init: "lock_reachable []"
| lr_step: "lock_reachable ls \<Longrightarrow> lock_step ls ls' \<Longrightarrow> lock_reachable ls'"

inductive_cases lock_stepE: "lock_step ls ls'"

lemma lock_step_inv: "lock_step ls ls' \<Longrightarrow> locks_inv ls \<Longrightarrow> locks_inv ls'"
proof (induction rule: lock_step.induct)
  case (close p ls ls')
  then show ?case
    using close_head_inv[of "hd ls" "tl ls" p ls'] by (cases ls) (auto simp: close_head_def)
qed (auto simp: locks_inv_read_now locks_inv_read_wait locks_inv_write_now locks_inv_write_wait)

lemma lock_reachable_inv: "lock_reachable ls \<Longrightarrow> locks_inv ls"
  by (induction rule: lock_reachable.induct) (auto intro: lock_step_inv)

text \<open>
  Mutual exclusion of the file locks: however opens, waits and closes interleave, when a
  writer is in force it is the only holder of the file, every other lock of the queue is
  marked as waiting, and the queue never has two read locks.
\<close>

theorem write_lock_exclusive:
  assumes "lock_reachable ls" and "write_held ls"
  shows "length (holders ls) = 1 \<and> (\<forall>l \<in> set (tl ls). is_blocked l) \<and> length (read_locks ls) \<le> 1"
  using lock_reachable_inv[OF assms(1)] assms(2)
  by (cases ls) (auto simp: lock_defs)

definition sample_queue :: "t_lock list" where
  "sample_queue = add_read_lock 2 True (add_write_lock 1 False [])"

lemma sample_queue_reachable: "lock_reachable sample_queue"
  unfolding sample_queue_def
  by (intro lr_step[OF lr_step[OF lr_init lock_step.write_now] lock_step.read_wait])
    (simp_all add: lock_defs)

theorem write_lock_exclusive_witness:
  "write_held sample_queue \<and> length (holders sample_queue) = 1 \<and> length (read_locks sample_queue) \<le> 1"
proof -
  have "write_held sample_queue" by (simp add: sample_queue_def lock_defs)
  with write_lock_exclusive[OF sample_queue_reachable this] show ?thesis by blast
qed

text \<open>
  When the lock in force ends, the next lock in the queue takes over and its semaphore
  is posted exactly once for each of its participants, so every process waiting in it can
  continue; nobody behind it is woken.
\<close>

theorem close_wakes_next:
  assumes inv: "locks_inv (l # n # ls)"
    and last: "is_write_lock l \<or> participants l = [p]"
  shows "close_head p (l # n # ls) =
     Some (n\<lparr>write_locked := write_locked n + length (participants n)\<rparr> # ls)"
proof -
  have "is_blocked n" using locks_inv_ConsD[OF inv] by simp
  then show ?thesis
    using last by (auto simp: close_head_def close_lock_def release_lock_def remove_pid_def Let_def)
qed

theorem close_wakes_next_witness:
  "close_head 1 [create_lock 1 True False, create_lock 2 False True]
     = Some [(create_lock 2 False True)\<lparr>write_locked := 1\<rparr>]"
proof -
  have "locks_inv [create_lock 1 True False, create_lock 2 False True]"
    by (simp add: lock_defs)
  from close_wakes_next[OF this, of 1] show ?thesis by (simp add: create_lock_def)
qed

text \<open>
  A reader that is not the last one closes the file without disturbing the others: it
  leaves the holders, the remaining readers keep the lock and no waiting process is woken.
\<close>

theorem close_reader_keeps_others:
  assumes "\<not> is_write_lock l" and "p \<in> set (participants l)" and "length (participants l) \<ge> 2"
  shows "close_head p (l # ls) = Some (l\<lparr>participants := remove_pid p (participants l)\<rparr> # ls)
     \<and> mset (holders (the (close_head p (l # ls)))) = mset (holders (l # ls)) - {#p#}"
proof -
  have "remove_pid p (participants l) \<noteq> []"
    using length_remove_pid[OF assms(2)] assms(3) by auto
  then show ?thesis
    using assms remove_pid_mset by (simp add: close_head_def close_lock_def holders_def Let_def)
qed

theorem close_reader_keeps_others_witness:
  "close_head 1 [(create_lock 1 False False)\<lparr>participants := [1, 2]\<rparr>]
     = Some [(create_lock 1 False False)\<lparr>participants := [2]\<rparr>]"
  using close_reader_keeps_others[of "(create_lock 1 False False)\<lparr>participants := [1, 2]\<rparr>" 1 "[]"]
  by (simp add: create_lock_def remove_pid_def)

end
