(* ===== verification/Kernel_State.thy ===== *)
theory Kernel_State
  imports Locks
begin

text \<open>
  The state of the kernel and its basic operations (\<^verbatim>\<open>planificador.c\<close>,
  \<^verbatim>\<open>iniciar_proceso.c\<close>, \<^verbatim>\<open>common.c\<close>). The global lists are lists of
  process control blocks, the semaphores are their counters, and the detached threads the
  kernel starts are kept as data: what such a thread still has to do is an element of
  \<open>threads\<close>. \<open>colas_BLOCKED\<close> lists the resources in the order
  \<open>dictionary_iterator\<close> visits them. \<open>sent\<close> records the messages to the other
  modules, oldest first.
\<close>

record t_block =
  instances :: int
  pids :: "string \<rightharpoonup> int"
  blocked_list :: "t_pcb list"

text \<open>The messages of the kernel, with the operation code of each.\<close>

datatype kmsg = ToMemory c_int t_pcb | PageToMemory c_int t_pag | ToDispatch c_int t_pcb
  | ToInterrupt c_int t_pcb | ToFilesystem c_int t_pcb

text \<open>
  The threads, each by the point where it stands. The loops of the planners (NEW, EXIT, one
  of the three short-term algorithms, the dispatcher, the unblocker) stand at their
  \<open>sem_wait\<close>; \<open>TAdmit\<close> is the long-term planner waiting on \<open>grd_mult\<close>, \<open>TRunning\<close> the
  dispatcher waiting for the CPU. The detached threads: the quantum of a process, a process
  about to sleep (or interrupted) and not yet in its list, one already in the list
  \<open>SLEEP\<close> (\<open>True\<close>) or \<open>INTERRUPT\<close>, the two phases of a page fault, a call to the file
  system, and a process that must wait for a file lock, before and after its lock is in the
  queue of the file (the flag tells a write lock). \<open>TGradeWait\<close> takes one unit of
  \<open>grd_mult\<close> away; \<open>TFinalize\<close> is the console waiting for an interrupted process and
  \<open>TStuck\<close> the console at a mutex that is never released.
\<close>

datatype thread = TLong | TAdmit | TExit | TFifo | TRr | TPrioridades | TExecute
  | TRunning t_pcb | TUnblock | TQuantum u32 | TInterrupted t_pcb | TSleeping u32 bool
  | TPageFault t_pcb | TPageWait u32 | TFsCall t_pcb c_int | TLockWait t_pcb string bool
  | TLockQueued t_pcb string bool | TGradeWait | TFinalize u32 | TStuck

record kernel =
  lista_NEW :: "t_pcb list"
  lista_READY :: "t_pcb list"
  lista_EXIT :: "t_pcb list"
  lista_SLEEP :: "t_pcb list"
  lista_INTERRUPT :: "t_pcb list"
  colas_BLOCKED :: "(string \<times> t_block) list"
  estado_EXEC :: "t_pcb option"
  open_files_global_table :: "string \<rightharpoonup> t_open_file"
  threads :: "thread list"
  grd_mult :: nat
  proceso_en_cola_ready :: nat
  executing_process :: nat
  freed_resource :: nat
  process_in_exit :: nat
  process_in_new :: nat
  finish_interrupted_process :: nat
  sig_PID :: u32
  working :: bool
  actual_grd_mult :: int
  cola_sleep_locked :: bool
  cola_interrupt_locked :: bool
  sent :: "kmsg list"

definition empty_kernel :: kernel where
  "empty_kernel = \<lparr>lista_NEW = [], lista_READY = [], lista_EXIT = [], lista_SLEEP = [],
     lista_INTERRUPT = [], colas_BLOCKED = [], estado_EXEC = None,
     open_files_global_table = Map.empty, threads = [], grd_mult = 0, proceso_en_cola_ready = 0,
     executing_process = 0, freed_resource = 0, process_in_exit = 0, process_in_new = 0,
     finish_interrupted_process = 0, sig_PID = 0, working = True, actual_grd_mult = 0,
     cola_sleep_locked = False, cola_interrupt_locked = False, sent = []\<rparr>"

text \<open>\<open>dictionary_put\<close> on the dictionary of resources: a repeated name replaces its block.\<close>

fun put_block :: "string \<Rightarrow> t_block \<Rightarrow> (string \<times> t_block) list \<Rightarrow> (string \<times> t_block) list" where
  "put_block r b [] = [(r, b)]"
| "put_block r b ((q, c) # cs) = (if q = r then (q, b) # cs else (q, c) # put_block r b cs)"

fun init_resources :: "string list \<Rightarrow> string list \<Rightarrow> (string \<times> t_block) list \<Rightarrow> (string \<times> t_block) list option" where
  "init_resources [] _ cs = Some cs"
| "init_resources (r # rs) [] cs = None"
| "init_resources (r # rs) (n # ns) cs =
     init_resources rs ns (put_block r \<lparr>instances = atoi n, pids = Map.empty, blocked_list = []\<rparr> cs)"

definition iniciar_estructuras_planificadores :: "string list \<Rightarrow> string list \<Rightarrow> int \<Rightarrow> kernel option" where
  "iniciar_estructuras_planificadores resources resources_instances grado = do {
     cs \<leftarrow> init_resources resources resources_instances [];
     Some (empty_kernel\<lparr>sig_PID := 1, colas_BLOCKED := cs, actual_grd_mult := grado,
       grd_mult := nat grado\<rparr>) }"

section \<open>Basic operations\<close>

definition send :: "kmsg \<Rightarrow> kernel \<Rightarrow> kernel" where
  "send m k = k\<lparr>sent := sent k @ [m]\<rparr>"

text \<open>
  Both functions free the block of \<open>estado_EXEC\<close> first, which must not be NULL: every caller is a case
  of \<open>execute_switch\<close>, where this is a guard, or (at the end of the kernel) tests the pointer.
\<close>

definition destroy_executing_process :: "kernel \<Rightarrow> kernel" where
  "destroy_executing_process k = k\<lparr>estado_EXEC := None\<rparr>"

definition modify_executing_process :: "t_pcb \<Rightarrow> kernel \<Rightarrow> kernel" where
  "modify_executing_process p k = k\<lparr>estado_EXEC := Some p\<rparr>"

definition post_executing :: "kernel \<Rightarrow> kernel" where
  "post_executing k = k\<lparr>executing_process := executing_process k + 1\<rparr>"

definition post_ready :: "kernel \<Rightarrow> kernel" where
  "post_ready k = k\<lparr>proceso_en_cola_ready := proceso_en_cola_ready k + 1\<rparr>"

definition execute_ready_process :: "t_pcb \<Rightarrow> kernel \<Rightarrow> kernel" where
  "execute_ready_process p k = post_executing (k\<lparr>estado_EXEC := Some (p\<lparr>estado := EXEC\<rparr>)\<rparr>)"

definition agregar_pcb_a_cola_READY :: "t_pcb \<Rightarrow> kernel \<Rightarrow> kernel" where
  "agregar_pcb_a_cola_READY p k = post_ready (k\<lparr>lista_READY := lista_READY k @ [p\<lparr>estado := READY\<rparr>]\<rparr>)"

definition send_to_exit :: "t_pcb \<Rightarrow> END_STATE \<Rightarrow> kernel \<Rightarrow> kernel" where
  "send_to_exit p motive k = post_ready (k\<lparr>grd_mult := grd_mult k + 1,
     lista_EXIT := lista_EXIT k @ [p\<lparr>estado := EXIT, end_state := motive\<rparr>],
     process_in_exit := process_in_exit k + 1\<rparr>)"

definition obt_sig_PID :: "kernel \<Rightarrow> u32" where
  "obt_sig_PID k = sig_PID k + 1"

definition spawn :: "thread \<Rightarrow> kernel \<Rightarrow> kernel" where
  "spawn t k = k\<lparr>threads := threads k @ [t]\<rparr>"

text \<open>The copy of the process that is blocked, as every blocking handler starts.\<close>

definition block_executing :: "t_pcb \<Rightarrow> (t_pcb \<Rightarrow> thread) \<Rightarrow> kernel \<Rightarrow> kernel" where
  "block_executing p mk k =
     post_ready (spawn (mk (p\<lparr>estado := BLOCKED\<rparr>)) (destroy_executing_process k))"

text \<open>
  \<open>encontrar_proceso_por_PID\<close> dereferences \<open>estado_EXEC\<close> unconditionally (the outer
  \<open>None\<close>); of several blocked matches the last one visited is returned.
\<close>

definition encontrar_proceso_por_PID :: "u32 \<Rightarrow> kernel \<Rightarrow> t_pcb option option" where
  "encontrar_proceso_por_PID p k = (case estado_EXEC k of
      None \<Rightarrow> None
    | Some e \<Rightarrow> Some (
        if pid e = p then Some e
        else case find (\<lambda>q. pid q = p) (lista_NEW k) of Some q \<Rightarrow> Some q
        | None \<Rightarrow> (case find (\<lambda>q. pid q = p) (lista_READY k) of Some q \<Rightarrow> Some q
        | None \<Rightarrow> (case find (\<lambda>q. pid q = p) (lista_EXIT k) of Some q \<Rightarrow> Some q
        | None \<Rightarrow> fold (\<lambda>(_, b) r. case find (\<lambda>q. pid q = p) (blocked_list b) of
                     Some q \<Rightarrow> Some q | None \<Rightarrow> r) (colas_BLOCKED k) None))))"

section \<open>Creation of a process (iniciar_proceso.c)\<close>

abbreviation CREATE_PROCESS :: c_int where "CREATE_PROCESS \<equiv> 2"
abbreviation FINISH_PROCESS :: c_int where "FINISH_PROCESS \<equiv> 6"
abbreviation PAGE_FAULT_COMMAND :: c_int where "PAGE_FAULT_COMMAND \<equiv> 11"
abbreviation INSTRUCTION_CMD :: c_int where "INSTRUCTION_CMD \<equiv> 3"
abbreviation INTERRUPT_INSTRUCTION :: c_int where "INTERRUPT_INSTRUCTION \<equiv> 4"
abbreviation INTERRUPT_FINISH_INSTRUCTION :: c_int where "INTERRUPT_FINISH_INSTRUCTION \<equiv> 5"
abbreviation F_OPEN_COMMAND :: c_int where "F_OPEN_COMMAND \<equiv> 19"
abbreviation F_CREATE_COMMAND :: c_int where "F_CREATE_COMMAND \<equiv> 20"
abbreviation F_TRUNCATE_COMMAND :: c_int where "F_TRUNCATE_COMMAND \<equiv> 21"
abbreviation F_READ_COMMAND :: c_int where "F_READ_COMMAND \<equiv> 22"
abbreviation F_WRITE_COMMAND :: c_int where "F_WRITE_COMMAND \<equiv> 23"

definition crear_proceso :: "string \<Rightarrow> string \<Rightarrow> string \<Rightarrow> kernel \<Rightarrow> t_pcb" where
  "crear_proceso source tam prio k =
     crear_pcb (sig_PID k) source (word_of_int (atoi tam)) (word_of_int (atoi prio))"

text \<open>The reply of the memory is read and logged, and the process is queued whatever it says.\<close>

definition avisar_a_memoria_nuevo_proceso :: "t_pcb \<Rightarrow> kernel \<Rightarrow> kernel" where
  "avisar_a_memoria_nuevo_proceso p = send (ToMemory CREATE_PROCESS p)"

definition agregar_pcb_a_cola_NEW :: "t_pcb \<Rightarrow> kernel \<Rightarrow> kernel" where
  "agregar_pcb_a_cola_NEW p k = k\<lparr>lista_NEW := lista_NEW k @ [p], sig_PID := obt_sig_PID k,
     process_in_new := process_in_new k + 1\<rparr>"

definition iniciar_proceso :: "string \<Rightarrow> string \<Rightarrow> string \<Rightarrow> kernel \<Rightarrow> kernel" where
  "iniciar_proceso source tam prio k = (let p = crear_proceso source tam prio k in
     agregar_pcb_a_cola_NEW p (avisar_a_memoria_nuevo_proceso p k))"

text \<open>\<open>interrupt_executing_process\<close> serializes \<open>estado_EXEC\<close>, which must not be NULL.\<close>

definition interrupt_executing_process :: "kernel \<Rightarrow> kernel option" where
  "interrupt_executing_process k = (case estado_EXEC k of None \<Rightarrow> None
     | Some e \<Rightarrow> Some (send (ToInterrupt INTERRUPT_INSTRUCTION e) k))"

definition interrupt_finish_executing_process :: "kernel \<Rightarrow> kernel option" where
  "interrupt_finish_executing_process k = (case estado_EXEC k of None \<Rightarrow> None
     | Some e \<Rightarrow> Some (send (ToInterrupt INTERRUPT_FINISH_INSTRUCTION e) k))"

lemmas kernel_basic_defs = send_def destroy_executing_process_def modify_executing_process_def
  post_executing_def post_ready_def execute_ready_process_def agregar_pcb_a_cola_READY_def
  send_to_exit_def spawn_def block_executing_def avisar_a_memoria_nuevo_proceso_def
  agregar_pcb_a_cola_NEW_def

section \<open>Where a process can be\<close>

text \<open>
  A process is in a queue, executing, or owned by a thread. The processes inside the
  multiprogramming degree are all of these but NEW and EXIT.
\<close>

fun thread_pids :: "thread \<Rightarrow> u32 list" where
  "thread_pids (TInterrupted p) = [pid p]"
| "thread_pids (TPageFault p) = [pid p]"
| "thread_pids (TFsCall p _) = [pid p]"
| "thread_pids (TLockWait p _ _) = [pid p]"
| "thread_pids (TLockQueued p _ _) = [pid p]"
| "thread_pids _ = []"

definition blocked_pids :: "(string \<times> t_block) list \<Rightarrow> u32 list" where
  "blocked_pids cs = concat (map (\<lambda>(_, b). map pid (blocked_list b)) cs)"

definition exec_pids :: "kernel \<Rightarrow> u32 list" where
  "exec_pids k = (case estado_EXEC k of None \<Rightarrow> [] | Some p \<Rightarrow> [pid p])"

definition admitted_pids :: "kernel \<Rightarrow> u32 list" where
  "admitted_pids k = map pid (lista_READY k) @ exec_pids k @ map pid (lista_SLEEP k)
     @ map pid (lista_INTERRUPT k) @ blocked_pids (colas_BLOCKED k)
     @ concat (map thread_pids (threads k))"

definition all_pids :: "kernel \<Rightarrow> u32 list" where
  "all_pids k = map pid (lista_NEW k) @ map pid (lista_EXIT k) @ admitted_pids k"

lemmas place_defs = admitted_pids_def all_pids_def exec_pids_def

end
