(* ===== verification/Resources.thy ===== *)
theory Resources
  imports Kernel_State
begin

text \<open>
  The resources of the kernel (\<^verbatim>\<open>resources.c\<close>, \<^verbatim>\<open>block.c\<close>): taking and
  returning instances, blocking on a resource and unblocking. The dictionary of the holders of
  a resource is keyed by \<open>string_itoa(pid)\<close> of the so-commons library, which is the parameter
  \<open>itoa\<close>; where distinct processes must have distinct keys, this is the hypothesis \<open>inj itoa\<close>.
\<close>

type_synonym itoa = "u32 \<Rightarrow> string"

section \<open>Operations\<close>

definition use_instance_of_resource :: "itoa \<Rightarrow> t_pcb \<Rightarrow> t_block \<Rightarrow> t_block" where
  "use_instance_of_resource itoa p b =
     (let key = itoa (pid p);
          n = (case pids b key of None \<Rightarrow> 1 | Some m \<Rightarrow> m + 1)
      in b\<lparr>instances := instances b - 1, pids := (pids b)(key \<mapsto> n)\<rparr>)"

definition release_instance :: "itoa \<Rightarrow> t_pcb \<Rightarrow> t_block \<Rightarrow> t_block" where
  "release_instance itoa p b = (let key = itoa (pid p) in case pids b key of
      None \<Rightarrow> b
    | Some m \<Rightarrow> b\<lparr>instances := instances b + 1,
        pids := (if m - 1 = 0 then (pids b)(key := None) else (pids b)(key \<mapsto> m - 1))\<rparr>)"

definition set_block :: "string \<Rightarrow> t_block \<Rightarrow> kernel \<Rightarrow> kernel" where
  "set_block r b k = k\<lparr>colas_BLOCKED := put_block r b (colas_BLOCKED k)\<rparr>"

definition enqueue_blocked :: "t_pcb \<Rightarrow> t_block \<Rightarrow> t_block" where
  "enqueue_blocked p b = b\<lparr>blocked_list := blocked_list b @ [p\<lparr>estado := BLOCKED\<rparr>]\<rparr>"

text \<open>\<open>None\<close> is the dereference of a block that does not exist.\<close>

definition wait_instance_of_resource :: "itoa \<Rightarrow> string \<Rightarrow> t_pcb \<Rightarrow> kernel \<Rightarrow> kernel option" where
  "wait_instance_of_resource itoa r p k = (case map_of (colas_BLOCKED k) r of
      None \<Rightarrow> None
    | Some b \<Rightarrow>
        if instances b > 0
        then Some (post_executing (modify_executing_process p
               (set_block r (use_instance_of_resource itoa p b) k)))
        else Some (post_ready (set_block r (enqueue_blocked p b) (destroy_executing_process k))))"

definition signal_instance_of_resource :: "itoa \<Rightarrow> string \<Rightarrow> t_pcb \<Rightarrow> kernel \<Rightarrow> kernel option" where
  "signal_instance_of_resource itoa r p k = (case map_of (colas_BLOCKED k) r of
      None \<Rightarrow> None
    | Some b \<Rightarrow>
        if pids b (itoa (pid p)) \<noteq> None
        then Some (post_executing (modify_executing_process p
               ((set_block r (release_instance itoa p b) k)\<lparr>freed_resource := freed_resource k + 1\<rparr>)))
        else Some (send_to_exit p INVALID_RESOURCE (destroy_executing_process k)))"

text \<open>
  The body of \<open>unblock_processes\<close>: every resource, in the order of the dictionary, lets at
  most one process go. The second component lists the processes made ready.
\<close>

definition unblock_block :: "itoa \<Rightarrow> t_block \<Rightarrow> t_block \<times> t_pcb list" where
  "unblock_block itoa b = (case blocked_list b of
      p # ps \<Rightarrow> if instances b \<ge> 1
               then (use_instance_of_resource itoa p (b\<lparr>blocked_list := ps\<rparr>), [p]) else (b, [])
    | [] \<Rightarrow> (b, []))"

definition unblock_processes :: "itoa \<Rightarrow> kernel \<Rightarrow> kernel" where
  "unblock_processes itoa k =
     (let rs = map (\<lambda>(r, b). (r, unblock_block itoa b)) (colas_BLOCKED k);
          released = concat (map (\<lambda>(r, b, ps). ps) rs)
      in fold agregar_pcb_a_cola_READY released
           (k\<lparr>colas_BLOCKED := map (\<lambda>(r, b, ps). (r, b)) rs\<rparr>))"

text \<open>What \<open>eliminar_proceso\<close> does on each block: all the instances of the process come back.\<close>

definition free_instances :: "itoa \<Rightarrow> t_pcb \<Rightarrow> t_block \<Rightarrow> t_block" where
  "free_instances itoa p b = (case pids b (itoa (pid p)) of
      None \<Rightarrow> b
    | Some n \<Rightarrow> b\<lparr>instances := instances b + n, pids := (pids b)(itoa (pid p) := None)\<rparr>)"

definition free_all_instances :: "itoa \<Rightarrow> t_pcb \<Rightarrow> kernel \<Rightarrow> kernel" where
  "free_all_instances itoa p k = k\<lparr>
     colas_BLOCKED := map (apsnd (free_instances itoa p)) (colas_BLOCKED k),
     freed_resource := freed_resource k +
       length (filter (\<lambda>(_, b). pids b (itoa (pid p)) \<noteq> None) (colas_BLOCKED k))\<rparr>"

section \<open>Accounting\<close>

definition map_sum :: "('k \<rightharpoonup> int) \<Rightarrow> int" where
  "map_sum m = (\<Sum>q \<in> dom m. the (m q))"

definition held :: "t_block \<Rightarrow> int" where
  "held b = map_sum (pids b)"

definition block_units :: "t_block \<Rightarrow> int" where
  "block_units b = instances b + held b"

definition block_ok :: "t_block \<Rightarrow> bool" where
  "block_ok b \<longleftrightarrow> 0 \<le> instances b \<and> finite (dom (pids b)) \<and> (\<forall>q n. pids b q = Some n \<longrightarrow> 1 \<le> n)"

text \<open>The accounts of all resources: names and total units, in the order of the dictionary.\<close>

definition unit_table :: "(string \<times> t_block) list \<Rightarrow> (string \<times> int) list" where
  "unit_table cs = map (apsnd block_units) cs"

definition blocks_ok :: "(string \<times> t_block) list \<Rightarrow> bool" where
  "blocks_ok cs \<longleftrightarrow> distinct (map fst cs) \<and> (\<forall>b \<in> snd ` set cs. block_ok b)"

lemma map_sum_upd:
  assumes "finite (dom m)"
  shows "map_sum (m(k \<mapsto> v)) = map_sum m - (case m k of None \<Rightarrow> 0 | Some n \<Rightarrow> n) + v"
proof -
  let ?f = "\<lambda>q. the ((m(k \<mapsto> v)) q)"
  have "sum ?f (insert k (dom m)) = ?f k + sum ?f (dom m - {k})"
    using assms by (simp add: sum.insert_remove)
  also have "sum ?f (dom m - {k}) = (\<Sum>q \<in> dom m - {k}. the (m q))"
    by (rule sum.cong) auto
  also have "\<dots> = (\<Sum>q \<in> dom m. the (m q)) - (case m k of None \<Rightarrow> 0 | Some n \<Rightarrow> n)"
    using assms by (auto simp: sum_diff1 split: option.splits)
  finally show ?thesis by (simp add: map_sum_def)
qed

lemma map_sum_del:
  assumes "finite (dom m)"
  shows "map_sum (m(k := None)) = map_sum m - (case m k of None \<Rightarrow> 0 | Some n \<Rightarrow> n)"
proof -
  have "(\<Sum>q \<in> dom m - {k}. the ((m(k := None)) q)) = (\<Sum>q \<in> dom m - {k}. the (m q))"
    by (rule sum.cong) auto
  then show ?thesis using assms by (auto simp: map_sum_def sum_diff1 split: option.splits)
qed

lemma use_instance_units: "block_ok b \<Longrightarrow> block_units (use_instance_of_resource itoa p b) = block_units b"
  by (simp add: block_units_def held_def use_instance_of_resource_def block_ok_def Let_def
      map_sum_upd split: option.splits)

lemma use_instance_ok:
  "block_ok b \<Longrightarrow> 1 \<le> instances b \<Longrightarrow> block_ok (use_instance_of_resource itoa p b)"
  by (fastforce simp: block_ok_def use_instance_of_resource_def Let_def split: option.splits)

lemma release_units: "block_ok b \<Longrightarrow> block_units (release_instance itoa p b) = block_units b"
  by (auto simp: block_units_def held_def release_instance_def block_ok_def Let_def
      map_sum_upd map_sum_del split: option.splits)

lemma release_ok: "block_ok b \<Longrightarrow> block_ok (release_instance itoa p b)"
  by (fastforce simp: block_ok_def release_instance_def Let_def split: option.splits)

lemma free_instances_units: "block_ok b \<Longrightarrow> block_units (free_instances itoa p b) = block_units b"
  by (auto simp: block_units_def held_def free_instances_def block_ok_def map_sum_del split: option.splits)

lemma free_instances_ok: "block_ok b \<Longrightarrow> block_ok (free_instances itoa p b)"
  by (fastforce simp: block_ok_def free_instances_def split: option.splits)

lemma block_ok_queue [simp]: "block_ok (b\<lparr>blocked_list := xs\<rparr>) = block_ok b"
  and block_units_queue [simp]: "block_units (b\<lparr>blocked_list := xs\<rparr>) = block_units b"
  by (simp_all add: block_ok_def block_units_def held_def)

lemma unblock_block_units: "block_ok b \<Longrightarrow> block_units (fst (unblock_block itoa b)) = block_units b"
  by (auto simp: unblock_block_def use_instance_units split: list.splits)

lemma unblock_block_ok: "block_ok b \<Longrightarrow> block_ok (fst (unblock_block itoa b))"
  by (auto simp: unblock_block_def use_instance_ok split: list.splits)

section \<open>The dictionary of resources\<close>

lemma put_block_present:
  "map_of cs r = Some b \<Longrightarrow> map fst (put_block r b' cs) = map fst cs"
  by (induction cs) auto

lemma put_block_lookup: "map_of (put_block r b cs) = (map_of cs)(r \<mapsto> b)"
  by (induction cs) auto

lemma put_block_units:
  "map_of cs r = Some b \<Longrightarrow> block_units b' = block_units b \<Longrightarrow> unit_table (put_block r b' cs) = unit_table cs"
  by (induction cs) (auto simp: unit_table_def)

lemma set_put_block: "x \<in> set (put_block r b cs) \<Longrightarrow> snd x = b \<or> x \<in> set cs"
  by (induction cs) (auto split: if_splits)

lemma blocks_ok_put:
  "blocks_ok cs \<Longrightarrow> map_of cs r = Some b \<Longrightarrow> block_ok b' \<Longrightarrow> blocks_ok (put_block r b' cs)"
  by (auto simp: blocks_ok_def put_block_present dest!: set_put_block)

lemma blocks_ok_lookup: "blocks_ok cs \<Longrightarrow> map_of cs r = Some b \<Longrightarrow> block_ok b"
  by (auto simp: blocks_ok_def dest!: map_of_SomeD)

lemma blocks_ok_map:
  "blocks_ok cs \<Longrightarrow> (\<And>b. block_ok b \<Longrightarrow> block_ok (f b)) \<Longrightarrow> blocks_ok (map (apsnd f) cs)"
  by (auto simp: blocks_ok_def)

lemma unit_table_map:
  "blocks_ok cs \<Longrightarrow> (\<And>b. block_ok b \<Longrightarrow> block_units (f b) = block_units b) \<Longrightarrow>
     unit_table (map (apsnd f) cs) = unit_table cs"
  by (auto simp: unit_table_def blocks_ok_def)

text \<open>A change of the resources that keeps the accounts.\<close>

definition accounts_kept :: "kernel \<Rightarrow> kernel \<Rightarrow> bool" where
  "accounts_kept k k' \<longleftrightarrow> unit_table (colas_BLOCKED k') = unit_table (colas_BLOCKED k)
     \<and> blocks_ok (colas_BLOCKED k')"

lemma accounts_same [simp]:
  "colas_BLOCKED k' = colas_BLOCKED k \<Longrightarrow> accounts_kept k k' = blocks_ok (colas_BLOCKED k)"
  by (simp add: accounts_kept_def)

lemma fold_ready_colas [simp]:
  "colas_BLOCKED (fold agregar_pcb_a_cola_READY ps k) = colas_BLOCKED k"
  by (induction ps arbitrary: k) (simp_all add: kernel_basic_defs)

lemma unblock_colas: "colas_BLOCKED (unblock_processes itoa k) =
    map (apsnd (fst \<circ> unblock_block itoa)) (colas_BLOCKED k)"
  by (simp add: unblock_processes_def Let_def comp_def split_def) (auto simp: apsnd_def map_prod_def split_def)

lemma wait_accounts:
  "blocks_ok (colas_BLOCKED k) \<Longrightarrow> wait_instance_of_resource itoa r p k = Some k' \<Longrightarrow> accounts_kept k k'"
  using blocks_ok_lookup[of "colas_BLOCKED k" r]
  by (auto simp: wait_instance_of_resource_def kernel_basic_defs set_block_def enqueue_blocked_def
      use_instance_units use_instance_ok accounts_kept_def put_block_units blocks_ok_put
      split: option.splits if_splits)

lemma signal_accounts:
  "blocks_ok (colas_BLOCKED k) \<Longrightarrow> signal_instance_of_resource itoa r p k = Some k' \<Longrightarrow> accounts_kept k k'"
  using blocks_ok_lookup[of "colas_BLOCKED k" r]
  by (auto simp: signal_instance_of_resource_def kernel_basic_defs set_block_def
      release_units release_ok accounts_kept_def put_block_units blocks_ok_put
      split: option.splits if_splits)

lemma unblock_accounts: "blocks_ok (colas_BLOCKED k) \<Longrightarrow> accounts_kept k (unblock_processes itoa k)"
  by (simp add: accounts_kept_def unblock_colas unit_table_map blocks_ok_map
      unblock_block_units unblock_block_ok)

lemma free_accounts: "blocks_ok (colas_BLOCKED k) \<Longrightarrow> accounts_kept k (free_all_instances itoa p k)"
  by (simp add: accounts_kept_def free_all_instances_def unit_table_map blocks_ok_map
      free_instances_units free_instances_ok)

text \<open>
  Conservation of resources: no operation of the kernel creates or loses an instance.
  For every resource, the free instances plus the instances held by processes stay the
  number it was configured with, free counts never go negative and every recorded holder
  holds at least one, whether a process waits, signals, is unblocked or is eliminated.
\<close>

theorem resource_conservation:
  assumes ok: "blocks_ok (colas_BLOCKED k)"
  shows "(\<forall>k'. wait_instance_of_resource itoa r p k = Some k' \<longrightarrow> accounts_kept k k')
     \<and> (\<forall>k'. signal_instance_of_resource itoa r p k = Some k' \<longrightarrow> accounts_kept k k')
     \<and> accounts_kept k (unblock_processes itoa k)
     \<and> accounts_kept k (free_all_instances itoa p k)"
  using ok by (simp add: wait_accounts signal_accounts unblock_accounts free_accounts)

definition sample_kernel :: kernel where
  "sample_kernel = empty_kernel\<lparr>estado_EXEC := Some (crear_pcb 1 ''p'' 64 1), colas_BLOCKED :=
     [(''R'', \<lparr>instances = 1, pids = Map.empty, blocked_list = [crear_pcb 2 ''q'' 64 1]\<rparr>)]\<rparr>"

lemma sample_kernel_ok: "blocks_ok (colas_BLOCKED sample_kernel)"
  by (simp add: sample_kernel_def blocks_ok_def block_ok_def)

theorem resource_conservation_witness:
  "\<exists>k'. wait_instance_of_resource (\<lambda>w. ''x'') ''R'' (crear_pcb 1 ''p'' 64 1) sample_kernel = Some k'
     \<and> accounts_kept sample_kernel k'"
proof -
  obtain k' where "wait_instance_of_resource (\<lambda>w. ''x'') ''R'' (crear_pcb 1 ''p'' 64 1) sample_kernel = Some k'"
    by (simp add: wait_instance_of_resource_def sample_kernel_def)
  with resource_conservation[OF sample_kernel_ok, of "\<lambda>w. ''x''" "''R''" "crear_pcb 1 ''p'' 64 1"]
  show ?thesis by blast
qed

section \<open>Functional behaviour\<close>

text \<open>Giving an instance back undoes taking it, whether or not the process already held some.\<close>

lemma release_use:
  assumes "block_ok b"
  shows "release_instance itoa p (use_instance_of_resource itoa p b) = b"
proof (cases "pids b (itoa (pid p))")
  case None
  then show ?thesis
    by (simp add: release_instance_def use_instance_of_resource_def Let_def fun_upd_idem)
next
  case (Some n)
  with assms have "n + 1 \<noteq> 1" unfolding block_ok_def by fastforce
  with Some show ?thesis
    by (simp add: release_instance_def use_instance_of_resource_def Let_def fun_upd_idem)
qed

lemma put_block_same: "map_of cs r = Some b \<Longrightarrow> put_block r b cs = cs"
  by (induction cs) auto

lemma put_block_twice: "put_block r b (put_block r c cs) = put_block r b cs"
  by (induction cs) auto

text \<open>
  A process that waits for a free resource and then signals it is executing again with
  every resource exactly as before, and one unblocking round has been requested.
\<close>

theorem wait_signal_restores:
  assumes ok: "blocks_ok (colas_BLOCKED k)"
    and b: "map_of (colas_BLOCKED k) r = Some b" "instances b > 0"
  shows "\<exists>k1 k2. wait_instance_of_resource itoa r p k = Some k1
     \<and> signal_instance_of_resource itoa r p k1 = Some k2
     \<and> colas_BLOCKED k2 = colas_BLOCKED k \<and> estado_EXEC k2 = Some p
     \<and> freed_resource k2 = freed_resource k + 1"
proof -
  have "pids (use_instance_of_resource itoa p b) (itoa (pid p)) \<noteq> None"
    by (simp add: use_instance_of_resource_def Let_def)
  with b release_use[OF blocks_ok_lookup[OF ok b(1)]] show ?thesis
    by (simp add: wait_instance_of_resource_def signal_instance_of_resource_def kernel_basic_defs
        set_block_def put_block_lookup put_block_twice put_block_same)
qed

theorem wait_signal_restores_witness:
  "\<exists>k1 k2. wait_instance_of_resource (\<lambda>w. ''x'') ''R'' (crear_pcb 1 ''p'' 64 1) sample_kernel = Some k1
     \<and> signal_instance_of_resource (\<lambda>w. ''x'') ''R'' (crear_pcb 1 ''p'' 64 1) k1 = Some k2
     \<and> colas_BLOCKED k2 = colas_BLOCKED sample_kernel"
  using wait_signal_restores[OF sample_kernel_ok, of "''R''" _ "\<lambda>w. ''x''" "crear_pcb 1 ''p'' 64 1"]
  by (auto simp: sample_kernel_def)

text \<open>
  A process that signals a resource it holds no instance of is sent to EXIT with
  INVALID_RESOURCE: the resources do not change, the CPU is free, its place in the
  multiprogramming degree is returned and both planners are woken.
\<close>

theorem signal_without_instance:
  assumes "map_of (colas_BLOCKED k) r = Some b" and "pids b (itoa (pid p)) = None"
  shows "\<exists>k'. signal_instance_of_resource itoa r p k = Some k'
     \<and> colas_BLOCKED k' = colas_BLOCKED k \<and> estado_EXEC k' = None
     \<and> lista_EXIT k' = lista_EXIT k @ [p\<lparr>estado := EXIT, end_state := INVALID_RESOURCE\<rparr>]
     \<and> grd_mult k' = grd_mult k + 1 \<and> process_in_exit k' = process_in_exit k + 1
     \<and> proceso_en_cola_ready k' = proceso_en_cola_ready k + 1"
  using assms by (simp add: signal_instance_of_resource_def kernel_basic_defs)

theorem signal_without_instance_witness:
  "\<exists>k'. signal_instance_of_resource (\<lambda>w. ''x'') ''R'' (crear_pcb 1 ''p'' 64 1) sample_kernel = Some k'
     \<and> estado_EXEC k' = None \<and> grd_mult k' = 1"
  using signal_without_instance[of sample_kernel "''R''" _ "\<lambda>w. ''x''" "crear_pcb 1 ''p'' 64 1"]
  by (auto simp: sample_kernel_def empty_kernel_def)

text \<open>
  Unblocking is first come, first served: when a resource has an instance and waiting
  processes, the first of them gets it and becomes ready, the rest keep their order; without
  an instance nobody moves.
\<close>

theorem unblock_first_waiter:
  assumes "colas_BLOCKED k = [(r, b)]"
  shows "(\<forall>p ps. blocked_list b = p # ps \<longrightarrow> instances b \<ge> 1 \<longrightarrow>
        colas_BLOCKED (unblock_processes itoa k)
          = [(r, use_instance_of_resource itoa p (b\<lparr>blocked_list := ps\<rparr>))]
        \<and> lista_READY (unblock_processes itoa k) = lista_READY k @ [p\<lparr>estado := READY\<rparr>])
     \<and> (instances b < 1 \<longrightarrow> unblock_processes itoa k = k)"
  using assms
  by (auto simp: unblock_processes_def unblock_block_def kernel_basic_defs Let_def split: list.splits)

theorem unblock_first_waiter_witness:
  "lista_READY (unblock_processes (\<lambda>w. ''x'') sample_kernel) = [(crear_pcb 2 ''q'' 64 1)\<lparr>estado := READY\<rparr>]"
  using unblock_first_waiter[of sample_kernel "''R''" "snd (hd (colas_BLOCKED sample_kernel))" "\<lambda>w. ''x''"]
  by (simp add: sample_kernel_def empty_kernel_def)

end
