(* ===== verification/Deadlock.thy ===== *)
theory Deadlock
  imports Resources "HOL-Library.AList"
begin

text \<open>
  The deadlock analysis (\<^verbatim>\<open>deadlock.c\<close>) that runs when a process blocks on a resource,
  and the two list printers of the kernel. The analysis builds a dictionary from the processes
  involved with the resource to the resources each is blocked on. \<open>order\<close> is the order in
  which \<open>dictionary_iterator\<close> visits the holders of the resource; \<open>itoa\<close> is
  \<open>string_itoa\<close>, which the code reads back with \<open>atoi\<close>.
\<close>

type_synonym blocked_dict = "(string \<times> string list) list"

definition itoa_ok :: "itoa \<Rightarrow> bool" where
  "itoa_ok itoa \<longleftrightarrow> (\<forall>p. word_of_int (atoi (itoa p)) = p)"

definition add_to_blocked_resources_from_dict :: "string list \<Rightarrow> blocked_dict \<Rightarrow> blocked_dict" where
  "add_to_blocked_resources_from_dict order d = fold (\<lambda>key d. AList.update key [] d) order d"

definition add_to_blocked_resources_from_list :: "itoa \<Rightarrow> t_pcb list \<Rightarrow> blocked_dict \<Rightarrow> blocked_dict" where
  "add_to_blocked_resources_from_list itoa ps d =
     fold (\<lambda>p d. if map_of d (itoa (pid p)) = None then AList.update (itoa (pid p)) [] d else d) ps d"

definition blocked_on :: "(string \<times> t_block) list \<Rightarrow> u32 \<Rightarrow> string list" where
  "blocked_on cs p = map fst (filter (\<lambda>(_, b). list_ex (\<lambda>q. pid q = p) (blocked_list b)) cs)"

definition check_all_resources_of_blocked_processes ::
    "(string \<times> t_block) list \<Rightarrow> blocked_dict \<Rightarrow> blocked_dict" where
  "check_all_resources_of_blocked_processes cs d =
     map (\<lambda>(key, l). (key, l @ blocked_on cs (word_of_int (atoi key)))) d"

definition check_if_all_processes_are_blocked :: "blocked_dict \<Rightarrow> bool" where
  "check_if_all_processes_are_blocked d \<longleftrightarrow> list_all (\<lambda>(_, l). l \<noteq> []) d"

text \<open>\<open>Some d\<close> is the report, one line per entry; \<open>None\<close> is silence.\<close>

definition analize_resource_deadlock ::
    "itoa \<Rightarrow> string list \<Rightarrow> t_block \<Rightarrow> (string \<times> t_block) list \<Rightarrow> blocked_dict option" where
  "analize_resource_deadlock itoa order b cs =
     (let d = add_to_blocked_resources_from_dict order [];
          d = add_to_blocked_resources_from_list itoa (blocked_list b) d;
          d = check_all_resources_of_blocked_processes cs d
      in if check_if_all_processes_are_blocked d then Some d else None)"

section \<open>The printers\<close>

fun comma_separated :: "string list \<Rightarrow> string" where
  "comma_separated [] = []"
| "comma_separated [s] = s"
| "comma_separated (s # ss) = s @ '','' @ comma_separated ss"

definition get_string_of_resources_in_list :: "string list \<Rightarrow> string" where
  "get_string_of_resources_in_list = comma_separated"

definition get_string_of_pids_in_list :: "itoa \<Rightarrow> t_pcb list \<Rightarrow> string" where
  "get_string_of_pids_in_list itoa ps = comma_separated (map (\<lambda>p. itoa (pid p)) ps)"

section \<open>What the analysis decides\<close>

lemma keys_update: "fst ` set (AList.update k v d) = insert k (fst ` set d)"
  by (induction d) auto

lemma dict_keys_from_dict:
  "fst ` set (add_to_blocked_resources_from_dict order d) = set order \<union> fst ` set d"
  unfolding add_to_blocked_resources_from_dict_def
  by (induction order arbitrary: d) (auto simp: keys_update)

lemma dict_keys_from_list:
  "fst ` set (add_to_blocked_resources_from_list itoa ps d) = (\<lambda>p. itoa (pid p)) ` set ps \<union> fst ` set d"
proof (induction ps arbitrary: d)
  case Nil
  then show ?case by (simp add: add_to_blocked_resources_from_list_def)
next
  case (Cons p ps)
  let ?k = "itoa (pid p)"
  let ?e = "if map_of d ?k = None then AList.update ?k [] d else d"
  have "add_to_blocked_resources_from_list itoa (p # ps) d = add_to_blocked_resources_from_list itoa ps ?e"
    by (simp add: add_to_blocked_resources_from_list_def)
  moreover have "fst ` set ?e = insert ?k (fst ` set d)"
    by (auto simp: keys_update map_of_eq_None_iff)
  ultimately show ?case by (simp add: Cons.IH)
qed

lemma dict_values_from_dict:
  "\<forall>l \<in> snd ` set d. l = [] \<Longrightarrow> \<forall>l \<in> snd ` set (add_to_blocked_resources_from_dict order d). l = []"
  unfolding add_to_blocked_resources_from_dict_def
proof (induction order arbitrary: d)
  case (Cons k ks)
  have "\<forall>l \<in> snd ` set (AList.update k [] d). l = []"
    using Cons.prems by (induction d) auto
  then show ?case using Cons.IH by simp
qed simp

lemma dict_values_from_list:
  "\<forall>l \<in> snd ` set d. l = [] \<Longrightarrow>
     \<forall>l \<in> snd ` set (add_to_blocked_resources_from_list itoa ps d). l = []"
  unfolding add_to_blocked_resources_from_list_def
proof (induction ps arbitrary: d)
  case (Cons p ps)
  have "\<forall>l \<in> snd ` set (AList.update (itoa (pid p)) [] d). l = []"
    using Cons.prems by (induction d) auto
  then show ?case using Cons by simp
qed simp

definition involved :: "itoa \<Rightarrow> string list \<Rightarrow> t_block \<Rightarrow> string set" where
  "involved itoa order b = set order \<union> (\<lambda>p. itoa (pid p)) ` set (blocked_list b)"

text \<open>The dictionary the analysis checks: exactly the processes involved, each with its resources.\<close>

lemma analysis_dict:
  "set (check_all_resources_of_blocked_processes cs
       (add_to_blocked_resources_from_list itoa (blocked_list b) (add_to_blocked_resources_from_dict order [])))
     = (\<lambda>key. (key, blocked_on cs (word_of_int (atoi key)))) ` involved itoa order b"
proof -
  let ?d = "add_to_blocked_resources_from_list itoa (blocked_list b) (add_to_blocked_resources_from_dict order [])"
  have keys: "fst ` set ?d = involved itoa order b"
    by (auto simp: dict_keys_from_list dict_keys_from_dict involved_def)
  have "\<forall>l \<in> snd ` set ?d. l = []"
    by (intro dict_values_from_list dict_values_from_dict) simp
  then have "set ?d = (\<lambda>key. (key, [])) ` fst ` set ?d" by force
  then show ?thesis
    unfolding keys check_all_resources_of_blocked_processes_def by (auto simp: image_iff)
qed

lemma blocked_on_nonempty:
  "blocked_on cs p \<noteq> [] \<longleftrightarrow> (\<exists>(r, b) \<in> set cs. p \<in> pid ` set (blocked_list b))"
  by (fastforce simp: blocked_on_def filter_empty_conv list_ex_iff)

text \<open>
  C28. The deadlock analysis reports exactly when every process involved with the resource,
  holder or waiter, is itself in the queue of some resource; the report has one line per
  such process.
\<close>

theorem deadlock_report_exact:
  assumes "itoa_ok itoa" and "set order = itoa ` hs"
  shows "(\<exists>d. analize_resource_deadlock itoa order b cs = Some d
        \<and> fst ` set d = itoa ` (hs \<union> pid ` set (blocked_list b)))
     \<longleftrightarrow> (\<forall>p \<in> hs \<union> pid ` set (blocked_list b).
           \<exists>(r, c) \<in> set cs. p \<in> pid ` set (blocked_list c))"
proof -
  have inv: "involved itoa order b = itoa ` (hs \<union> pid ` set (blocked_list b))"
    using assms(2) by (auto simp: involved_def)
  have rd: "word_of_int (atoi (itoa p)) = p" for p
    using assms(1) by (simp add: itoa_ok_def)
  let ?d = "check_all_resources_of_blocked_processes cs
       (add_to_blocked_resources_from_list itoa (blocked_list b) (add_to_blocked_resources_from_dict order []))"
  have "check_if_all_processes_are_blocked ?d
      \<longleftrightarrow> (\<forall>p \<in> hs \<union> pid ` set (blocked_list b). blocked_on cs p \<noteq> [])"
    unfolding check_if_all_processes_are_blocked_def list_all_iff analysis_dict inv
    by (simp add: rd image_image ball_Un)
  moreover have "fst ` set ?d = itoa ` (hs \<union> pid ` set (blocked_list b))"
    unfolding analysis_dict inv by (simp add: image_image)
  ultimately show ?thesis
    by (simp add: analize_resource_deadlock_def Let_def blocked_on_nonempty)
qed

text \<open>A concrete \<open>string_itoa\<close>: the decimal numeral.\<close>

fun decimal :: "nat \<Rightarrow> string" where
  "decimal n = (if n < 10 then [char_of (48 + n)] else decimal (n div 10) @ [char_of (48 + n mod 10)])"

declare decimal.simps [simp del]

lemma digit_char: "d < 10 \<Longrightarrow> is_digit (char_of (48 + d)) \<and> digit_val (char_of (48 + d)) = int d"
  by (simp add: is_digit_def digit_val_def)

lemma decimal_digits: "\<forall>c \<in> set (decimal n). is_digit c"
proof (induction n rule: decimal.induct)
  case (1 n)
  then show ?case by (subst decimal.simps) (auto simp: digit_char)
qed

lemma atoi_digits_decimal: "atoi_digits 0 (decimal n) = int n"
proof (induction n rule: decimal.induct)
  case (1 n)
  show ?case
  proof (cases "n < 10")
    case True
    then show ?thesis by (subst decimal.simps) (simp add: digit_char)
  next
    case False
    have "10 * int (n div 10) + int (n mod 10) = int n" by (simp add: of_nat_div of_nat_mod)
    with False show ?thesis using 1 decimal_digits[of "n div 10"]
      by (subst decimal.simps) (simp add: atoi_digits_append digit_char)
  qed
qed

lemma decimal_nonempty: "decimal n \<noteq> []"
  by (subst decimal.simps) simp

lemma digit_not_special: "is_digit c \<Longrightarrow> \<not> is_space c \<and> c \<noteq> CHR ''-'' \<and> c \<noteq> CHR ''+''"
  by (auto simp: is_digit_def is_space_def)

lemma atoi_decimal: "atoi (decimal n) = int n"
proof -
  obtain c cs where d: "decimal n = c # cs" using decimal_nonempty by (cases "decimal n") auto
  then have "is_digit c" using decimal_digits[of n] by simp
  then show ?thesis
    using atoi_digits_decimal[of n] digit_not_special[of c] by (simp add: atoi_def d)
qed

definition dec_itoa :: itoa where
  "dec_itoa p = decimal (unat p)"

lemma itoa_ok_dec: "itoa_ok dec_itoa"
  by (simp add: itoa_ok_def dec_itoa_def atoi_decimal)

lemma itoa_ok_inj: "itoa_ok itoa \<Longrightarrow> inj itoa"
  unfolding itoa_ok_def inj_def by metis

text \<open>Two processes, each holding the resource the other waits for.\<close>

definition cycle_blocks :: "(string \<times> t_block) list" where
  "cycle_blocks =
     [(''A'', \<lparr>instances = 0, pids = [dec_itoa 1 \<mapsto> 1], blocked_list = [crear_pcb 2 ''q'' 0 0]\<rparr>),
      (''B'', \<lparr>instances = 0, pids = [dec_itoa 2 \<mapsto> 1], blocked_list = [crear_pcb 1 ''p'' 0 0]\<rparr>)]"

theorem deadlock_report_exact_witness:
  "\<exists>d. analize_resource_deadlock dec_itoa [dec_itoa 1] (snd (hd cycle_blocks)) cycle_blocks = Some d
     \<and> fst ` set d = dec_itoa ` {1, 2}"
  using deadlock_report_exact[OF itoa_ok_dec, of "[dec_itoa 1]" "{1}" "snd (hd cycle_blocks)" cycle_blocks]
  by (auto simp: cycle_blocks_def crear_pcb_def insert_commute)

text \<open>
  The analysis can report a deadlock that is not one: process 3 runs and holds B, process
  2 holds A and waits for B, process 1 waits for A. When 1 blocks, the analysis of A reports
  both blocked processes although process 3 is in no queue and can release B.
\<close>

theorem deadlock_false_alarm:
  "let a = \<lparr>instances = 0, pids = [dec_itoa 2 \<mapsto> 1], blocked_list = [crear_pcb 1 ''p'' 0 0]\<rparr>;
       b = \<lparr>instances = 0, pids = [dec_itoa 3 \<mapsto> 1], blocked_list = [crear_pcb 2 ''q'' 0 0]\<rparr>;
       cs = [(''A'', a), (''B'', b)]
   in (\<exists>d. analize_resource_deadlock dec_itoa [dec_itoa 2] a cs = Some d)
      \<and> blocked_on cs 3 = [] \<and> pids b (dec_itoa 3) = Some 1"
proof -
  have "word_of_int (atoi (dec_itoa p)) = p" for p
    using itoa_ok_dec by (simp add: itoa_ok_def)
  moreover have "dec_itoa 2 \<noteq> dec_itoa 1"
    using itoa_ok_inj[OF itoa_ok_dec] by (simp add: inj_eq)
  ultimately show ?thesis
    by (simp add: analize_resource_deadlock_def add_to_blocked_resources_from_dict_def
        add_to_blocked_resources_from_list_def check_all_resources_of_blocked_processes_def
        check_if_all_processes_are_blocked_def blocked_on_def crear_pcb_def)
qed

text \<open>
  The list the report prints as the resources in possession of a process is the list of
  resources whose queues it waits in.
\<close>

theorem deadlock_report_lists_waited:
  assumes "itoa_ok itoa" and "analize_resource_deadlock itoa order b cs = Some d"
    and "(itoa p, l) \<in> set d"
  shows "l = blocked_on cs p"
proof -
  have "(itoa p, l) \<in> (\<lambda>key. (key, blocked_on cs (word_of_int (atoi key)))) ` involved itoa order b"
    using assms(2,3) analysis_dict[of cs itoa b order]
    by (auto simp: analize_resource_deadlock_def Let_def split: if_splits)
  then show ?thesis using assms(1) by (auto simp: itoa_ok_def)
qed

lemma cycle_reported:
  "\<exists>d. analize_resource_deadlock dec_itoa [dec_itoa 1] (snd (hd cycle_blocks)) cycle_blocks = Some d
     \<and> (dec_itoa 1, [''B'']) \<in> set d"
proof -
  have "word_of_int (atoi (dec_itoa p)) = p" for p
    using itoa_ok_dec by (simp add: itoa_ok_def)
  moreover have "dec_itoa 1 \<noteq> dec_itoa 2"
    using itoa_ok_inj[OF itoa_ok_dec] by (simp add: inj_eq)
  ultimately show ?thesis
    by (simp add: analize_resource_deadlock_def add_to_blocked_resources_from_dict_def
        add_to_blocked_resources_from_list_def check_all_resources_of_blocked_processes_def
        check_if_all_processes_are_blocked_def blocked_on_def crear_pcb_def cycle_blocks_def)
qed

theorem deadlock_report_lists_waited_witness:
  "\<exists>d l. (dec_itoa 1, l) \<in> set d \<and> l = blocked_on cycle_blocks 1 \<and> l = [''B'']"
proof -
  from cycle_reported obtain d where d:
    "analize_resource_deadlock dec_itoa [dec_itoa 1] (snd (hd cycle_blocks)) cycle_blocks = Some d"
    "(dec_itoa 1, [''B'']) \<in> set d" by blast
  from deadlock_report_lists_waited[OF itoa_ok_dec d] d(2) show ?thesis by blast
qed

end
