(* ===== verification/Kernel_Files.thy ===== *)
theory Kernel_Files
  imports Resources
begin

text \<open>
  The file instructions of the kernel (\<^verbatim>\<open>corto_plazo/file_system\<close>) and the
  elimination of a process (\<^verbatim>\<open>eliminar_proceso\<close>). A handler is a function of the
  kernel state; \<open>None\<close> is the dereference of a NULL pointer. The request a handler sends to
  the file system and the reply it waits for are the message in \<open>sent\<close>; the reply is only
  logged.
\<close>

section \<open>Open files of a process\<close>

definition find_seek :: "t_pcb \<Rightarrow> string \<Rightarrow> t_openf option" where
  "find_seek p name = find (\<lambda>f. openf_file f = name) (open_files p)"

fun set_seek :: "string \<Rightarrow> c_int \<Rightarrow> t_openf list \<Rightarrow> t_openf list" where
  "set_seek name v [] = []"
| "set_seek name v (f # fs) =
     (if openf_file f = name then f\<lparr>seek := v\<rparr> # fs else f # set_seek name v fs)"

text \<open>The process goes on in the CPU: its new block replaces the executing one.\<close>

definition resume_executing :: "t_pcb \<Rightarrow> kernel \<Rightarrow> kernel" where
  "resume_executing p k = post_executing (modify_executing_process p k)"

definition f_seek :: "t_fchange \<Rightarrow> t_pcb \<Rightarrow> kernel \<Rightarrow> kernel option" where
  "f_seek c p k = (case find_seek p (fc_file_name c) of
      None \<Rightarrow> None
    | Some _ \<Rightarrow> Some (resume_executing
        (p\<lparr>open_files := set_seek (fc_file_name c) (fc_value c) (open_files p)\<rparr>) k))"

section \<open>Opening\<close>

definition set_locks :: "string \<Rightarrow> t_lock list \<Rightarrow> kernel \<Rightarrow> kernel" where
  "set_locks name ls k = (case open_files_global_table k name of
      None \<Rightarrow> k
    | Some f \<Rightarrow> k\<lparr>open_files_global_table := (open_files_global_table k)(name \<mapsto> f\<lparr>locks := ls\<rparr>)\<rparr>)"

text \<open>The entry of the global table, created on the first open, and the message to the file system.\<close>

definition open_entry :: "string \<Rightarrow> t_pcb \<Rightarrow> kernel \<Rightarrow> kernel" where
  "open_entry name p k = (case open_files_global_table k name of
      Some _ \<Rightarrow> send (ToFilesystem F_OPEN_COMMAND p) k
    | None \<Rightarrow> send (ToFilesystem F_CREATE_COMMAND p)
        (k\<lparr>open_files_global_table := (open_files_global_table k)(name \<mapsto> \<lparr>locks = [], file_size = 0\<rparr>)\<rparr>))"

definition locks_of :: "kernel \<Rightarrow> string \<Rightarrow> t_lock list" where
  "locks_of k name = (case open_files_global_table k name of None \<Rightarrow> [] | Some f \<Rightarrow> locks f)"

text \<open>
  The opener waits or goes on according to the locks that the file has then: the decision and the
  lock that it adds are one step here. Another mode ends in \<open>log_error\<close> with the message in the place
  of the log, \<open>None\<close>.
\<close>

definition f_open :: "t_fopen \<Rightarrow> t_pcb \<Rightarrow> kernel \<Rightarrow> kernel option" where
  "f_open d p k =
     (let name = fo_file_name d;
          p = p\<lparr>open_files := open_files p @ [\<lparr>openf_file = name, seek = 0\<rparr>]\<rparr>;
          k = open_entry name p k;
          ls = locks_of k name
      in if open_mode d = ''R'' then
           Some (if read_must_wait ls then block_executing p (\<lambda>q. TLockWait q name False) k
                 else resume_executing p (set_locks name (add_read_lock (pid p) False ls) k))
         else if open_mode d = ''W'' then
           Some (if write_must_wait ls then block_executing p (\<lambda>q. TLockWait q name True) k
                 else resume_executing p (set_locks name (add_write_lock (pid p) False ls) k))
         else None)"

text \<open>
  The threads \<open>treat_wait_for_read_lock\<close> and \<open>treat_wait_for_write_lock\<close>: first the lock
  joins the queue, whatever the queue is by then; later \<open>sem_wait\<close> on that lock lets the
  process become ready.
\<close>

definition enqueue_lock :: "t_pcb \<Rightarrow> string \<Rightarrow> bool \<Rightarrow> kernel \<Rightarrow> kernel" where
  "enqueue_lock p name write k =
     set_locks name (if write then add_write_lock (pid p) True (locks_of k name)
                     else add_read_lock (pid p) True (locks_of k name)) k"

fun sem_wait_lock :: "u32 \<Rightarrow> bool \<Rightarrow> t_lock list \<Rightarrow> t_lock list option" where
  "sem_wait_lock p write [] = None"
| "sem_wait_lock p write (l # ls) =
     (if is_write_lock l = write \<and> p \<in> set (participants l)
      then (if write_locked l > 0 then Some (l\<lparr>write_locked := write_locked l - 1\<rparr> # ls) else None)
      else map_option ((#) l) (sem_wait_lock p write ls))"

definition wake_lock_waiter :: "t_pcb \<Rightarrow> string \<Rightarrow> bool \<Rightarrow> kernel \<Rightarrow> kernel option" where
  "wake_lock_waiter p name write k = (case sem_wait_lock (pid p) write (locks_of k name) of
      None \<Rightarrow> None
    | Some ls \<Rightarrow> Some (agregar_pcb_a_cola_READY p (set_locks name ls k)))"

section \<open>Closing, truncating, reading and writing\<close>

definition f_close :: "string \<Rightarrow> t_pcb \<Rightarrow> kernel \<Rightarrow> kernel option" where
  "f_close name p k = do {
     f \<leftarrow> open_files_global_table k name;
     (_, ofs) \<leftarrow> (case list_remove_by_condition (\<lambda>f. openf_file f = name) (open_files p) of
                   (None, _) \<Rightarrow> None | (Some g, ofs) \<Rightarrow> Some (g, ofs));
     ls \<leftarrow> close_head (pid p) (locks f);
     Some (resume_executing (p\<lparr>open_files := ofs\<rparr>) (set_locks name ls k)) }"

definition f_truncate :: "t_fchange \<Rightarrow> t_pcb \<Rightarrow> kernel \<Rightarrow> kernel option" where
  "f_truncate c p k = do {
     f \<leftarrow> open_files_global_table k (fc_file_name c);
     let k = k\<lparr>open_files_global_table :=
         (open_files_global_table k)(fc_file_name c \<mapsto> f\<lparr>file_size := fc_value c\<rparr>)\<rparr>;
     Some (block_executing p (\<lambda>q. TFsCall q F_TRUNCATE_COMMAND) k) }"

definition f_read :: "t_fmodify \<Rightarrow> t_pcb \<Rightarrow> kernel \<Rightarrow> kernel" where
  "f_read m p k = block_executing p (\<lambda>q. TFsCall q F_READ_COMMAND) k"

definition f_write :: "t_fmodify \<Rightarrow> t_pcb \<Rightarrow> kernel \<Rightarrow> kernel option" where
  "f_write m p k = do {
     f \<leftarrow> open_files_global_table k (fm_file_name m);
     l \<leftarrow> list_get (locks f) 0;
     Some (if \<not> is_write_lock l then send_to_exit p INVALID_WRITE (destroy_executing_process k)
           else block_executing p (\<lambda>q. TFsCall q F_WRITE_COMMAND) k) }"

text \<open>
  The thread of a file-system call: request, reply, and back to READY. The log line of a read
  or a write dereferences the open file of the process.
\<close>

definition treat_fs_function :: "t_pcb \<Rightarrow> c_int \<Rightarrow> kernel \<Rightarrow> kernel option" where
  "treat_fs_function p command k =
     (let k' = agregar_pcb_a_cola_READY p (send (ToFilesystem command p) k);
          needs_seek = (command = F_READ_COMMAND \<or> command = F_WRITE_COMMAND)
      in case params p of
           PModify m \<Rightarrow> if needs_seek \<and> find_seek p (fm_file_name m) = None then None else Some k'
         | _ \<Rightarrow> if needs_seek then None else Some k')"

section \<open>Elimination of a process\<close>

fun find_lock_index :: "u32 \<Rightarrow> t_lock list \<Rightarrow> nat option" where
  "find_lock_index p [] = None"
| "find_lock_index p (l # ls) =
     (if p \<in> set (participants l) then Some 0 else map_option Suc (find_lock_index p ls))"

definition close_file_of :: "u32 \<Rightarrow> string \<Rightarrow> kernel \<Rightarrow> kernel option" where
  "close_file_of p name k = do {
     f \<leftarrow> open_files_global_table k name;
     i \<leftarrow> find_lock_index p (locks f);
     ls \<leftarrow> close_lock p i (locks f);
     Some (set_locks name ls k) }"

fun close_files_of :: "u32 \<Rightarrow> t_openf list \<Rightarrow> kernel \<Rightarrow> kernel option" where
  "close_files_of p [] k = Some k"
| "close_files_of p (f # fs) k =
     (case close_file_of p (openf_file f) k of None \<Rightarrow> None | Some k' \<Rightarrow> close_files_of p fs k')"

definition eliminar_proceso :: "itoa \<Rightarrow> t_pcb \<Rightarrow> kernel \<Rightarrow> kernel option" where
  "eliminar_proceso itoa p k = do {
     k \<leftarrow> close_files_of (pid p) (open_files p) k;
     Some (free_all_instances itoa p (send (ToMemory FINISH_PROCESS p) k)) }"

section \<open>Lock queues of the whole table\<close>

definition open_table_ok :: "(string \<rightharpoonup> t_open_file) \<Rightarrow> bool" where
  "open_table_ok t \<longleftrightarrow> (\<forall>name f. t name = Some f \<longrightarrow> locks_inv (locks f))"

definition table_inv :: "kernel \<Rightarrow> bool" where
  "table_inv k \<longleftrightarrow> open_table_ok (open_files_global_table k)"

lemma open_table_ok_upd [intro]: "open_table_ok t \<Longrightarrow> locks_inv (locks f) \<Longrightarrow> open_table_ok (t(name \<mapsto> f))"
  by (simp add: open_table_ok_def)

lemma open_table_ok_lookup: "open_table_ok t \<Longrightarrow> t name = Some f \<Longrightarrow> locks_inv (locks f)"
  by (simp add: open_table_ok_def)

lemma table_inv_locks_of: "table_inv k \<Longrightarrow> locks_inv (locks_of k name)"
  by (auto simp: table_inv_def locks_of_def open_table_ok_def split: option.splits)

lemma table_inv_set_locks: "table_inv k \<Longrightarrow> locks_inv ls \<Longrightarrow> table_inv (set_locks name ls k)"
  by (auto simp: table_inv_def set_locks_def split: option.splits)

lemma table_inv_open_entry: "table_inv k \<Longrightarrow> table_inv (open_entry name p k)"
  by (auto simp: table_inv_def open_entry_def send_def split: option.splits)

lemma table_inv_resume [simp]: "table_inv (resume_executing p k) = table_inv k"
  and table_inv_block [simp]: "table_inv (block_executing p mk k) = table_inv k"
  by (simp_all add: resume_executing_def kernel_basic_defs table_inv_def)

text \<open>
  Opening a file keeps the lock queue of every file correct, whichever mode the process
  asks for and whether it gets the file at once or is blocked.
\<close>

theorem f_open_keeps_queues:
  assumes "table_inv k" and opened: "f_open d p k = Some k'"
  shows "table_inv k'"
proof -
  let ?k = "open_entry (fo_file_name d) (p\<lparr>open_files := open_files p @
      [\<lparr>openf_file = fo_file_name d, seek = 0\<rparr>]\<rparr>) k"
  have t: "table_inv ?k" using assms(1) by (rule table_inv_open_entry)
  then have "locks_inv (locks_of ?k (fo_file_name d))" by (rule table_inv_locks_of)
  with t opened show ?thesis
    by (auto simp: f_open_def Let_def table_inv_set_locks locks_inv_read_now locks_inv_write_now split: if_splits)
qed

theorem f_open_keeps_queues_witness:
  "\<exists>k'. f_open \<lparr>fo_file_name = ''f'', open_mode = ''W''\<rparr> (crear_pcb 1 ''p'' 64 1) empty_kernel = Some k' \<and> table_inv k'"
proof -
  have "table_inv empty_kernel" by (simp add: table_inv_def open_table_ok_def empty_kernel_def)
  moreover obtain k' where k': "f_open \<lparr>fo_file_name = ''f'', open_mode = ''W''\<rparr> (crear_pcb 1 ''p'' 64 1) empty_kernel = Some k'"
    by (simp add: f_open_def Let_def)
  ultimately show ?thesis using f_open_keeps_queues[OF _ k'] k' by blast
qed

text \<open>
  A first open creates the file and executes on: the table gains the file with the
  opener as its only holder in the mode asked for, the process has the file at position 0,
  the file system is asked to create it, and the process stays in the CPU.
\<close>

theorem f_open_first:
  assumes "open_files_global_table k (fo_file_name d) = None"
    and "open_mode d = ''R'' \<or> open_mode d = ''W''"
  shows "\<exists>k'. f_open d p k = Some k' \<and> (let
      p' = p\<lparr>open_files := open_files p @ [\<lparr>openf_file = fo_file_name d, seek = 0\<rparr>]\<rparr>
    in holders (locks_of k' (fo_file_name d)) = [pid p]
     \<and> write_held (locks_of k' (fo_file_name d)) = (open_mode d = ''W'')
     \<and> estado_EXEC k' = Some p' \<and> executing_process k' = executing_process k + 1
     \<and> sent k' = sent k @ [ToFilesystem F_CREATE_COMMAND p']
     \<and> threads k' = threads k)"
  using assms
  by (auto simp: f_open_def Let_def open_entry_def locks_of_def set_locks_def resume_executing_def
      kernel_basic_defs lock_defs)

theorem f_open_first_witness:
  "\<exists>k'. f_open \<lparr>fo_file_name = ''f'', open_mode = ''W''\<rparr> (crear_pcb 1 ''p'' 64 1) empty_kernel = Some k'
     \<and> holders (locks_of k' ''f'') = [1]"
  using f_open_first[of empty_kernel "\<lparr>fo_file_name = ''f'', open_mode = ''W''\<rparr>" "crear_pcb 1 ''p'' 64 1"]
  by (auto simp: empty_kernel_def crear_pcb_def Let_def)

text \<open>
  A write on a file that is open for reading is refused: the process goes to EXIT with
  INVALID_WRITE, its place in the multiprogramming degree is returned, no request reaches the
  file system and the locks do not change.
\<close>

theorem f_write_read_only:
  assumes "open_files_global_table k (fm_file_name m) = Some f"
    and "locks f = l # ls" and "\<not> is_write_lock l"
  shows "\<exists>k'. f_write m p k = Some k'
     \<and> lista_EXIT k' = lista_EXIT k @ [p\<lparr>estado := EXIT, end_state := INVALID_WRITE\<rparr>]
     \<and> estado_EXEC k' = None \<and> grd_mult k' = grd_mult k + 1 \<and> sent k' = sent k
     \<and> threads k' = threads k \<and> open_files_global_table k' = open_files_global_table k"
  using assms by (simp add: f_write_def list_get_def kernel_basic_defs)

theorem f_write_read_only_witness:
  "\<exists>k'. f_write \<lparr>fm_file_name = ''f'', fm_page = page_new 1 0 0\<rparr> (crear_pcb 1 ''p'' 64 1)
      (empty_kernel\<lparr>open_files_global_table := [''f'' \<mapsto> \<lparr>locks = [create_lock 1 False False], file_size = 0\<rparr>]\<rparr>)
      = Some k' \<and> estado_EXEC k' = None \<and> grd_mult k' = 1"
proof -
  let ?k = "empty_kernel\<lparr>open_files_global_table := [''f'' \<mapsto> \<lparr>locks = [create_lock 1 False False], file_size = 0\<rparr>]\<rparr>"
  from f_write_read_only[of ?k "\<lparr>fm_file_name = ''f'', fm_page = page_new 1 0 0\<rparr>" _
      "create_lock 1 False False" "[]" "crear_pcb 1 ''p'' 64 1"]
  show ?thesis by (auto simp: empty_kernel_def create_lock_def)
qed

section \<open>What an elimination leaves\<close>

lemma set_locks_colas [simp]: "colas_BLOCKED (set_locks name ls k) = colas_BLOCKED k"
  by (simp add: set_locks_def split: option.splits)

lemma close_files_colas:
  "close_files_of p fs k = Some k' \<Longrightarrow> colas_BLOCKED k' = colas_BLOCKED k"
  by (induction p fs k rule: close_files_of.induct)
    (auto simp: close_file_of_def bind_eq_Some_conv split: option.splits)

lemma eliminar_accounts:
  "blocks_ok (colas_BLOCKED k) \<Longrightarrow> eliminar_proceso itoa p k = Some k' \<Longrightarrow> accounts_kept k k'"
proof -
  assume ok: "blocks_ok (colas_BLOCKED k)" and e: "eliminar_proceso itoa p k = Some k'"
  then obtain k1 where k1: "close_files_of (pid p) (open_files p) k = Some k1"
    "k' = free_all_instances itoa p (send (ToMemory FINISH_PROCESS p) k1)"
    by (auto simp: eliminar_proceso_def bind_eq_Some_conv)
  then have "colas_BLOCKED (send (ToMemory FINISH_PROCESS p) k1) = colas_BLOCKED k"
    using close_files_colas by (simp add: send_def)
  with k1 ok free_accounts[of "send (ToMemory FINISH_PROCESS p) k1" itoa p] show ?thesis
    by (simp add: accounts_kept_def)
qed

text \<open>
  An eliminated process holds nothing: no resource records an instance of it any more,
  every instance it held is free again, and the memory has been told to free its pages.
\<close>

theorem eliminar_releases_all:
  assumes ok: "blocks_ok (colas_BLOCKED k)" and e: "eliminar_proceso itoa p k = Some k'"
  shows "(\<forall>(r, b) \<in> set (colas_BLOCKED k'). pids b (itoa (pid p)) = None)
     \<and> accounts_kept k k' \<and> ToMemory FINISH_PROCESS p \<in> set (sent k')"
proof -
  obtain k1 where "k' = free_all_instances itoa p (send (ToMemory FINISH_PROCESS p) k1)"
    using e by (auto simp: eliminar_proceso_def bind_eq_Some_conv)
  then show ?thesis using eliminar_accounts[OF ok e]
    by (auto simp: free_all_instances_def free_instances_def send_def split: option.splits)
qed

theorem eliminar_releases_all_witness:
  "\<exists>k'. eliminar_proceso (\<lambda>w. ''x'') (crear_pcb 1 ''p'' 64 1) sample_kernel = Some k'
     \<and> accounts_kept sample_kernel k' \<and> ToMemory FINISH_PROCESS (crear_pcb 1 ''p'' 64 1) \<in> set (sent k')"
proof -
  obtain k' where k': "eliminar_proceso (\<lambda>w. ''x'') (crear_pcb 1 ''p'' 64 1) sample_kernel = Some k'"
    by (simp add: eliminar_proceso_def crear_pcb_def)
  from eliminar_releases_all[OF sample_kernel_ok k'] k' show ?thesis by blast
qed

end
