(* ===== verification/Scheduler.thy ===== *)
theory Scheduler
  imports Kernel_Files Deadlock
begin

text \<open>
  The threads of the kernel and its console, one atomic step at a time: the long-term planner
  (\<^verbatim>\<open>largo_plazo.c\<close>), the short-term planners (\<^verbatim>\<open>fifo.c\<close>, \<^verbatim>\<open>rr.c\<close>,
  \<^verbatim>\<open>prioridades.c\<close>), the dispatcher (\<^verbatim>\<open>execute.c\<close>), the detached threads
  (\<^verbatim>\<open>block.c\<close>, \<^verbatim>\<open>page_fault.c\<close>) and the commands of the console. A step of a
  thread runs from one of its waiting points to the next. It runs, waits (for a semaphore, a mutex or
  a reply) or crashes (a NULL pointer is dereferenced).
\<close>

text \<open>
  What the kernel takes from outside its sources: \<open>string_itoa\<close> and \<open>list_get_minimum\<close> of the
  so-commons library, and the algorithm of the configuration file.
\<close>

record env =
  string_itoa :: itoa
  list_get_minimum :: "(t_pcb \<Rightarrow> t_pcb \<Rightarrow> t_pcb) \<Rightarrow> t_pcb list \<Rightarrow> t_pcb"
  algoritmo :: string

section \<open>Long-term planner\<close>

definition planificador_largo_plazo :: "kernel \<Rightarrow> kernel outcome" where
  "planificador_largo_plazo k =
     (if process_in_new k = 0 then Waits
      else let k = k\<lparr>process_in_new := process_in_new k - 1\<rparr> in
        if \<not> working k then Runs k
        else if lista_NEW k \<noteq> [] then Runs (spawn TAdmit k)
        else Runs (spawn TLong k))"

text \<open>
  The second half of the loop body, from \<open>sem_wait(&grd_mult)\<close> on. The list is not checked
  again: when the console has finalized the new process meanwhile, the removed element is NULL.
\<close>

definition admitir_proceso :: "kernel \<Rightarrow> kernel outcome" where
  "admitir_proceso k =
     (if grd_mult k = 0 then Waits
      else let k = k\<lparr>grd_mult := grd_mult k - 1\<rparr> in
        case list_remove_first (lista_NEW k) of
          (None, _) \<Rightarrow> Crashes
        | (Some p, ps) \<Rightarrow> Runs (spawn TLong (agregar_pcb_a_cola_READY p (k\<lparr>lista_NEW := ps\<rparr>))))"

definition atender_procesos_en_EXIT :: "env \<Rightarrow> kernel \<Rightarrow> kernel outcome" where
  "atender_procesos_en_EXIT env k =
     (if process_in_exit k = 0 then Waits
      else let k = k\<lparr>process_in_exit := process_in_exit k - 1\<rparr> in
        if \<not> working k then Runs k
        else case list_remove_first (lista_EXIT k) of
          (None, _) \<Rightarrow> Runs (spawn TExit k)
        | (Some p, ps) \<Rightarrow>
            or_crash (map_option (spawn TExit) (eliminar_proceso (string_itoa env) p (k\<lparr>lista_EXIT := ps\<rparr>))))"

section \<open>Short-term planners\<close>

definition execute_first_ready :: "t_pcb \<Rightarrow> t_pcb list \<Rightarrow> kernel \<Rightarrow> kernel" where
  "execute_first_ready p ps k = execute_ready_process p (k\<lparr>lista_READY := ps\<rparr>)"

definition planificador_fifo :: "kernel \<Rightarrow> kernel outcome" where
  "planificador_fifo k =
     (if proceso_en_cola_ready k = 0 then Waits
      else let k = k\<lparr>proceso_en_cola_ready := proceso_en_cola_ready k - 1\<rparr> in
        if \<not> working k then Runs k
        else case (estado_EXEC k, lista_READY k) of
          (None, p # ps) \<Rightarrow> Runs (spawn TFifo (execute_first_ready p ps k))
        | _ \<Rightarrow> Runs (spawn TFifo k))"

definition planificador_rr :: "kernel \<Rightarrow> kernel outcome" where
  "planificador_rr k =
     (if proceso_en_cola_ready k = 0 then Waits
      else let k = k\<lparr>proceso_en_cola_ready := proceso_en_cola_ready k - 1\<rparr> in
        if \<not> working k then Runs k
        else case (estado_EXEC k, lista_READY k) of
          (None, p # ps) \<Rightarrow> Runs (spawn TRr (spawn (TQuantum (pid p)) (execute_first_ready p ps k)))
        | _ \<Rightarrow> Runs (spawn TRr k))"

text \<open>The end of a quantum only sends an interruption, when somebody else could run.\<close>

definition quantum_checker :: "u32 \<Rightarrow> kernel \<Rightarrow> kernel outcome" where
  "quantum_checker p k = (case estado_EXEC k of
      None \<Rightarrow> Runs k
    | Some e \<Rightarrow> if pid e = p \<and> lista_READY k \<noteq> [] then or_crash (interrupt_executing_process k) else Runs k)"

definition min_priority :: "t_pcb \<Rightarrow> t_pcb \<Rightarrow> t_pcb" where
  "min_priority p q = (if prioridad p \<le> prioridad q then p else q)"

definition planificador_prioridades :: "env \<Rightarrow> kernel \<Rightarrow> kernel outcome" where
  "planificador_prioridades env k =
     (if proceso_en_cola_ready k = 0 then Waits
      else let k = k\<lparr>proceso_en_cola_ready := proceso_en_cola_ready k - 1\<rparr>; ready = lista_READY k in
        if \<not> working k then Runs k
        else if ready = [] then Runs (spawn TPrioridades k)
        else case estado_EXEC k of
          None \<Rightarrow>
            (if length ready > 1
             then let p = list_get_minimum env min_priority ready
                  in Runs (spawn TPrioridades (execute_first_ready p (remove1 p ready) k))
             else Runs (spawn TPrioridades (execute_first_ready (hd ready) (tl ready) k)))
        | Some e \<Rightarrow>
            (if prioridad e > prioridad (last ready)
             then or_crash (map_option (spawn TPrioridades) (interrupt_executing_process k))
             else Runs (spawn TPrioridades k)))"

section \<open>Dispatcher\<close>

definition interrupt_process :: "t_pcb \<Rightarrow> kernel \<Rightarrow> kernel" where
  "interrupt_process p k = post_ready (spawn (TInterrupted (p\<lparr>estado := BLOCKED\<rparr>)) k)"

definition manage_page_fault :: "t_pcb \<Rightarrow> kernel \<Rightarrow> kernel" where
  "manage_page_fault p k = post_ready (spawn (TPageFault (p\<lparr>estado := BLOCKED\<rparr>)) k)"

definition resource_call ::
  "(string \<Rightarrow> t_pcb \<Rightarrow> kernel \<Rightarrow> kernel option) \<Rightarrow> t_pcb \<Rightarrow> kernel \<Rightarrow> kernel option" where
  "resource_call op p k = (case params p of
      PStr r \<Rightarrow> if map_of (colas_BLOCKED k) r = None
                then Some (send_to_exit p INVALID_RESOURCE (destroy_executing_process k))
                else op r p k
    | _ \<Rightarrow> None)"

text \<open>
  The switch on the instruction with which the CPU gives the process back. \<open>None\<close> is a NULL
  dereference, or parameters that are not those of the instruction. All the instructions but two
  start by destroying the executing process, which must not be NULL. The handlers that do so (here
  and in the theories above) are called only from here, so that the guard is written once; the end
  of the structures tests the pointer itself.
\<close>

definition execute_switch :: "env \<Rightarrow> t_pcb \<Rightarrow> kernel \<Rightarrow> kernel option" where
  "execute_switch env p k =
     (if estado_EXEC k = None \<and> instruccion p \<noteq> INTERRUPT_FINISH \<and> instruccion p \<noteq> NORMAL then None
      else case instruccion p of
      FSEEK \<Rightarrow> (case params p of PChange c \<Rightarrow> f_seek c p k | _ \<Rightarrow> None)
    | FCLOSE \<Rightarrow> (case params p of PStr name \<Rightarrow> f_close name p k | _ \<Rightarrow> None)
    | FTRUNCATE \<Rightarrow> (case params p of PChange c \<Rightarrow> f_truncate c p k | _ \<Rightarrow> None)
    | FREAD \<Rightarrow> (case params p of PModify m \<Rightarrow> Some (f_read m p k) | _ \<Rightarrow> None)
    | FWRITE \<Rightarrow> (case params p of PModify m \<Rightarrow> f_write m p k | _ \<Rightarrow> None)
    | FOPEN \<Rightarrow> (case params p of POpen d \<Rightarrow> f_open d p k | _ \<Rightarrow> None)
    | INTERRUPTED \<Rightarrow> Some (interrupt_process p (destroy_executing_process k))
    | SLEEP \<Rightarrow> Some (interrupt_process p (destroy_executing_process k))
    | INTERRUPT_FINISH \<Rightarrow>
        Some (k\<lparr>finish_interrupted_process := finish_interrupted_process k + 1\<rparr>)
    | FINISH \<Rightarrow> Some (send_to_exit p SUCCESS (destroy_executing_process k))
    | WAIT \<Rightarrow> resource_call (wait_instance_of_resource (string_itoa env)) p k
    | PAGE_FAULT \<Rightarrow> Some (manage_page_fault p (destroy_executing_process k))
    | SIGNAL \<Rightarrow> resource_call (signal_instance_of_resource (string_itoa env)) p k
    | NORMAL \<Rightarrow> Some k)"

text \<open>The dispatcher up to the reply of the CPU, and from the reply on.\<close>

definition execute_process :: "kernel \<Rightarrow> kernel outcome" where
  "execute_process k =
     (if executing_process k = 0 then Waits
      else let k = k\<lparr>executing_process := executing_process k - 1\<rparr> in
        if \<not> working k then Runs k
        else case estado_EXEC k of
          None \<Rightarrow> Runs (spawn TExecute k)
        | Some e \<Rightarrow> Runs (spawn (TRunning e) (send (ToDispatch INSTRUCTION_CMD e) k)))"

definition execute_reply :: "env \<Rightarrow> t_pcb \<Rightarrow> kernel \<Rightarrow> kernel outcome" where
  "execute_reply env p k = or_crash (map_option (spawn TExecute) (execute_switch env p k))"

definition unblock_loop :: "env \<Rightarrow> kernel \<Rightarrow> kernel outcome" where
  "unblock_loop env k =
     (if freed_resource k = 0 then Waits
      else let k = k\<lparr>freed_resource := freed_resource k - 1\<rparr> in
        if \<not> working k then Runs k else Runs (spawn TUnblock (unblock_processes (string_itoa env) k)))"

section \<open>Detached threads\<close>

definition mutex_of :: "bool \<Rightarrow> kernel \<Rightarrow> bool" where
  "mutex_of sleeping k = (if sleeping then cola_sleep_locked k else cola_interrupt_locked k)"

definition list_of :: "bool \<Rightarrow> kernel \<Rightarrow> t_pcb list" where
  "list_of sleeping k = (if sleeping then lista_SLEEP k else lista_INTERRUPT k)"

definition set_list :: "bool \<Rightarrow> t_pcb list \<Rightarrow> kernel \<Rightarrow> kernel" where
  "set_list sleeping ps k = (if sleeping then k\<lparr>lista_SLEEP := ps\<rparr> else k\<lparr>lista_INTERRUPT := ps\<rparr>)"

text \<open>
  \<open>treat_interrupted_process\<close>: join the list of the instruction (and sleep), then leave it,
  and be eliminated when the console has marked the process meanwhile.
\<close>

definition treat_interrupted_enter :: "t_pcb \<Rightarrow> kernel \<Rightarrow> kernel outcome" where
  "treat_interrupted_enter p k = (let s = (instruccion p = SLEEP) in
     if mutex_of s k then Waits
     else Runs (spawn (TSleeping (pid p) s) (set_list s (list_of s k @ [p]) k)))"

definition treat_interrupted_leave :: "env \<Rightarrow> u32 \<Rightarrow> bool \<Rightarrow> kernel \<Rightarrow> kernel outcome" where
  "treat_interrupted_leave env i s k =
     (if mutex_of s k then Waits
      else case list_remove_by_condition (\<lambda>p. pid p = i) (list_of s k) of
        (None, _) \<Rightarrow> Crashes
      | (Some p, ps) \<Rightarrow> let k = set_list s ps k in
          if end_state p = MANUAL
          then or_crash (eliminar_proceso (string_itoa env) p (k\<lparr>grd_mult := grd_mult k + 1\<rparr>))
          else Runs (agregar_pcb_a_cola_READY p k))"

text \<open>The page fault: the request, then the reply of the memory, which is only logged.\<close>

definition treat_page_fault :: "t_pcb \<Rightarrow> kernel \<Rightarrow> kernel outcome" where
  "treat_page_fault p k =
     (if cola_interrupt_locked k then Waits
      else case params p of
        PNum n \<Rightarrow> Runs (spawn (TPageWait (pid p)) (send (PageToMemory PAGE_FAULT_COMMAND (page_new (pid p) n 0))
                    (k\<lparr>lista_INTERRUPT := lista_INTERRUPT k @ [p]\<rparr>)))
      | _ \<Rightarrow> Crashes)"

definition treat_page_fault_reply :: "u32 \<Rightarrow> kernel \<Rightarrow> kernel outcome" where
  "treat_page_fault_reply i k =
     (if cola_interrupt_locked k then Waits
      else case list_remove_by_condition (\<lambda>p. pid p = i) (lista_INTERRUPT k) of
        (None, _) \<Rightarrow> Crashes
      | (Some p, ps) \<Rightarrow> Runs (agregar_pcb_a_cola_READY p (k\<lparr>lista_INTERRUPT := ps\<rparr>)))"

definition wait_grd_mlt :: "kernel \<Rightarrow> kernel outcome" where
  "wait_grd_mlt k = (if grd_mult k = 0 then Waits else Runs (k\<lparr>grd_mult := grd_mult k - 1\<rparr>))"

text \<open>The console after the CPU has confirmed the interruption of the executing process.\<close>

definition finalizar_executing :: "env \<Rightarrow> kernel \<Rightarrow> kernel outcome" where
  "finalizar_executing env k =
     (if finish_interrupted_process k = 0 then Waits
      else let k = k\<lparr>finish_interrupted_process := finish_interrupted_process k - 1\<rparr> in
        case estado_EXEC k of None \<Rightarrow> Crashes
        | Some e \<Rightarrow> or_crash (map_option (\<lambda>k. post_ready (k\<lparr>grd_mult := grd_mult k + 1\<rparr>))
            (eliminar_proceso (string_itoa env) e (k\<lparr>estado_EXEC := None\<rparr>))))"

fun thread_step :: "env \<Rightarrow> t_pcb \<Rightarrow> thread \<Rightarrow> kernel \<Rightarrow> kernel outcome" where
  "thread_step env q TLong k = planificador_largo_plazo k"
| "thread_step env q TAdmit k = admitir_proceso k"
| "thread_step env q TExit k = atender_procesos_en_EXIT env k"
| "thread_step env q TFifo k = planificador_fifo k"
| "thread_step env q TRr k = planificador_rr k"
| "thread_step env q TPrioridades k = planificador_prioridades env k"
| "thread_step env q TExecute k = execute_process k"
| "thread_step env q (TRunning p) k = execute_reply env q k"
| "thread_step env q TUnblock k = unblock_loop env k"
| "thread_step env q (TQuantum i) k = quantum_checker i k"
| "thread_step env q (TInterrupted p) k = treat_interrupted_enter p k"
| "thread_step env q (TSleeping i s) k = treat_interrupted_leave env i s k"
| "thread_step env q (TPageFault p) k = treat_page_fault p k"
| "thread_step env q (TPageWait i) k = treat_page_fault_reply i k"
| "thread_step env q (TFsCall p c) k = or_crash (treat_fs_function p c k)"
| "thread_step env q (TLockWait p name w) k = Runs (spawn (TLockQueued p name w) (enqueue_lock p name w k))"
| "thread_step env q (TLockQueued p name w) k =
     (case wake_lock_waiter p name w k of None \<Rightarrow> Waits | Some k' \<Rightarrow> Runs k')"
| "thread_step env q TGradeWait k = wait_grd_mlt k"
| "thread_step env q (TFinalize i) k = finalizar_executing env k"
| "thread_step env q TStuck k = Waits"

section \<open>Console\<close>

text \<open>A planner that ends is not joined; \<open>iniciar_planificacion\<close> starts new ones.\<close>

definition iniciar_planificador_largo_plazo :: "kernel \<Rightarrow> kernel" where
  "iniciar_planificador_largo_plazo k = spawn TExit (spawn TLong k)"

definition iniciar_planificador_corto_plazo :: "env \<Rightarrow> kernel \<Rightarrow> kernel" where
  "iniciar_planificador_corto_plazo env k =
     (let k = if algoritmo env = ''FIFO'' then spawn TFifo k else k;
          k = if algoritmo env = ''RR'' then spawn TRr k else k;
          k = if algoritmo env = ''PRIORIDADES'' then spawn TPrioridades k else k
      in spawn TUnblock (spawn TExecute k))"

definition iniciar_planificacion :: "env \<Rightarrow> kernel \<Rightarrow> kernel" where
  "iniciar_planificacion env k = (if \<not> working k
     then iniciar_planificador_corto_plazo env (iniciar_planificador_largo_plazo (k\<lparr>working := True\<rparr>))
     else k)"

definition post_all :: "kernel \<Rightarrow> kernel" where
  "post_all k = k\<lparr>executing_process := executing_process k + 1, freed_resource := freed_resource k + 1,
     process_in_exit := process_in_exit k + 1, process_in_new := process_in_new k + 1,
     proceso_en_cola_ready := proceso_en_cola_ready k + 1\<rparr>"

definition detener_planificacion :: "kernel \<Rightarrow> kernel" where
  "detener_planificacion k = post_all (k\<lparr>working := False\<rparr>)"

text \<open>
  \<open>cambiar_grado_multiprogramacion\<close> ends with \<open>actual_grd_mult = valor\<close>, the address of the
  text: \<open>addr\<close> is that number.
\<close>

definition cambiar_grado_multiprogramacion :: "int \<Rightarrow> string \<Rightarrow> kernel \<Rightarrow> kernel" where
  "cambiar_grado_multiprogramacion addr valor k =
     (let new_grade = atoi valor;
          k = (if new_grade > actual_grd_mult k
               then k\<lparr>grd_mult := grd_mult k + nat (new_grade - actual_grd_mult k)\<rparr> else k);
          k = (if new_grade < actual_grd_mult k
               then k\<lparr>threads := threads k @ replicate (nat (actual_grd_mult k - new_grade)) TGradeWait\<rparr> else k)
      in k\<lparr>actual_grd_mult := addr\<rparr>)"

fun mark_manual :: "u32 \<Rightarrow> t_pcb list \<Rightarrow> t_pcb list" where
  "mark_manual i [] = []"
| "mark_manual i (p # ps) = (if pid p = i then p\<lparr>end_state := MANUAL\<rparr> # ps else p # mark_manual i ps)"

text \<open>
  The search through the queues of the resources. Each block is read again, because
  \<open>eliminar_proceso\<close> works on the same dictionary; the flag is \<open>eliminado\<close>.
\<close>

fun finalizar_blocked :: "env \<Rightarrow> u32 \<Rightarrow> string list \<Rightarrow> kernel \<Rightarrow> kernel option" where
  "finalizar_blocked env i [] k = Some k"
| "finalizar_blocked env i (r # rs) k = (case map_of (colas_BLOCKED k) r of
      None \<Rightarrow> finalizar_blocked env i rs k
    | Some b \<Rightarrow> (case list_remove_by_condition (\<lambda>p. pid p = i) (blocked_list b) of
        (None, _) \<Rightarrow> finalizar_blocked env i rs k
      | (Some p, ps) \<Rightarrow>
         (case eliminar_proceso (string_itoa env) p
            ((set_block r (b\<lparr>blocked_list := ps\<rparr>) k)\<lparr>grd_mult := grd_mult k + 1\<rparr>) of
            None \<Rightarrow> None
          | Some k' \<Rightarrow> finalizar_blocked env i rs k')))"

text \<open>
  \<open>finalizar_proceso\<close> tries the places in the order of the source. It returns with the mutex
  of the list held when the process is in \<open>SLEEP\<close> or \<open>INTERRUPT\<close>.
\<close>

definition finalizar_waiting :: "env \<Rightarrow> u32 \<Rightarrow> kernel \<Rightarrow> kernel outcome" where
  "finalizar_waiting env i k =
     (if cola_sleep_locked k then Runs (spawn TStuck k)
      else if find (\<lambda>p. pid p = i) (lista_SLEEP k) \<noteq> None
      then Runs (k\<lparr>lista_SLEEP := mark_manual i (lista_SLEEP k), cola_sleep_locked := True\<rparr>)
      else if cola_interrupt_locked k then Runs (spawn TStuck k)
      else if find (\<lambda>p. pid p = i) (lista_INTERRUPT k) \<noteq> None
      then Runs (k\<lparr>lista_INTERRUPT := mark_manual i (lista_INTERRUPT k), cola_interrupt_locked := True\<rparr>)
      else or_crash (finalizar_blocked env i (map fst (colas_BLOCKED k)) k))"

definition finalizar_proceso :: "env \<Rightarrow> u32 \<Rightarrow> kernel \<Rightarrow> kernel outcome" where
  "finalizar_proceso env i k =
     (if (case estado_EXEC k of Some e \<Rightarrow> pid e = i | None \<Rightarrow> False)
      then or_crash (map_option (spawn (TFinalize i)) (interrupt_finish_executing_process k))
      else case list_remove_by_condition (\<lambda>p. pid p = i) (lista_NEW k) of
        (Some p, ps) \<Rightarrow> or_crash (eliminar_proceso (string_itoa env) p (k\<lparr>lista_NEW := ps\<rparr>))
      | (None, _) \<Rightarrow> (case list_remove_by_condition (\<lambda>p. pid p = i) (lista_READY k) of
        (Some p, ps) \<Rightarrow> or_crash (eliminar_proceso (string_itoa env) p
            (k\<lparr>lista_READY := ps, grd_mult := grd_mult k + 1\<rparr>))
      | (None, _) \<Rightarrow> (case list_remove_by_condition (\<lambda>p. pid p = i) (lista_EXIT k) of
        (Some p, ps) \<Rightarrow> or_crash (eliminar_proceso (string_itoa env) p (k\<lparr>lista_EXIT := ps\<rparr>))
      | (None, _) \<Rightarrow> finalizar_waiting env i k)))"

text \<open>
  One line of the console, as \<open>string_split\<close> gives it; a missing parameter is NULL.
  \<open>PROCESO_ESTADO\<close> only prints, after it has locked a copy of the mutex of each list: the copy of a mutex
  that is held is never unlocked, and the console stays there. \<open>ECHO\<close> frees its parameter twice. \<open>addr\<close> is the address
  of the second word.
\<close>

definition word_at :: "string list \<Rightarrow> nat \<Rightarrow> string option" where
  "word_at ws i = (if i < length ws then Some (ws ! i) else None)"

definition lock_list_copies :: "kernel \<Rightarrow> kernel outcome" where
  "lock_list_copies k =
     (if cola_sleep_locked k \<or> cola_interrupt_locked k then Runs (spawn TStuck k) else Runs k)"

definition consola_interactiva :: "env \<Rightarrow> int \<Rightarrow> string list \<Rightarrow> kernel \<Rightarrow> kernel outcome" where
  "consola_interactiva env addr ws k = (case word_at ws 0 of
      None \<Rightarrow> Crashes
    | Some c \<Rightarrow>
      if c = ''INICIAR_PROCESO''
      then (case (word_at ws 1, word_at ws 2, word_at ws 3) of
              (Some src, Some tam, Some prio) \<Rightarrow> Runs (iniciar_proceso src tam prio k) | _ \<Rightarrow> Crashes)
      else if c = ''FINALIZAR_PROCESO''
      then (case word_at ws 1 of Some s \<Rightarrow> finalizar_proceso env (word_of_int (atoi s)) k | None \<Rightarrow> Crashes)
      else if c = ''DETENER_PLANIFICACION'' then Runs (detener_planificacion k)
      else if c = ''INICIAR_PLANIFICACION'' then Runs (iniciar_planificacion env k)
      else if c = ''MULTIPROGRAMACION''
      then (case word_at ws 1 of Some s \<Rightarrow> Runs (cambiar_grado_multiprogramacion addr s k) | None \<Rightarrow> Crashes)
      else if c = ''PROCESO_ESTADO'' then lock_list_copies k
      else if c = ''ECHO'' then Crashes
      else Runs k)"

section \<open>The kernel as a transition system\<close>

text \<open>
  \<open>LConsole\<close> is a line of the console, \<open>LThread i q\<close> a step of the thread at position \<open>i\<close>,
  \<open>q\<close> being the block the CPU answers with if that thread waits for it.
\<close>

datatype label = LConsole int "string list" | LThread nat t_pcb

fun blocks_console :: "thread \<Rightarrow> bool" where
  "blocks_console (TFinalize _) = True"
| "blocks_console TStuck = True"
| "blocks_console _ = False"

definition remove_thread :: "nat \<Rightarrow> kernel \<Rightarrow> kernel" where
  "remove_thread i k = k\<lparr>threads := take i (threads k) @ drop (Suc i) (threads k)\<rparr>"

fun kernel_step :: "env \<Rightarrow> label \<Rightarrow> kernel \<Rightarrow> kernel outcome" where
  "kernel_step env (LConsole addr ws) k =
     (if list_ex blocks_console (threads k) then Waits else consola_interactiva env addr ws k)"
| "kernel_step env (LThread i q) k =
     (if i < length (threads k) then thread_step env q (threads k ! i) (remove_thread i k) else Waits)"

definition kernel_start :: "env \<Rightarrow> string list \<Rightarrow> string list \<Rightarrow> int \<Rightarrow> kernel option" where
  "kernel_start env resources resources_instances grado =
     map_option (\<lambda>k. iniciar_planificador_corto_plazo env (iniciar_planificador_largo_plazo k))
       (iniciar_estructuras_planificadores resources resources_instances grado)"

text \<open>The CPU answers with the process it was given.\<close>

definition cpu_answers :: "label \<Rightarrow> kernel \<Rightarrow> bool" where
  "cpu_answers l k = (case l of LConsole _ _ \<Rightarrow> True
     | LThread i q \<Rightarrow> i < length (threads k) \<longrightarrow>
         (case threads k ! i of TRunning p \<Rightarrow> pid q = pid p | _ \<Rightarrow> True))"

inductive kstep :: "env \<Rightarrow> kernel \<Rightarrow> label \<Rightarrow> kernel \<Rightarrow> bool" for env where
  kstep: "cpu_answers l k \<Longrightarrow> kernel_step env l k = Runs k' \<Longrightarrow> kstep env k l k'"

inductive_simps kstep_iff: "kstep env k l k'"

text \<open>The states reached by steps whose label and state satisfy \<open>P\<close>.\<close>

inductive kreach :: "env \<Rightarrow> (label \<Rightarrow> kernel \<Rightarrow> bool) \<Rightarrow> kernel \<Rightarrow> kernel \<Rightarrow> bool" for env P k0 where
  kr_refl: "kreach env P k0 k0"
| kr_step: "kreach env P k0 k \<Longrightarrow> P l k \<Longrightarrow> kstep env k l k' \<Longrightarrow> kreach env P k0 k'"

lemma kreach_invariant:
  assumes "kreach env P k0 k" and "I k0"
    and "\<And>k l k'. I k \<Longrightarrow> P l k \<Longrightarrow> kstep env k l k' \<Longrightarrow> I k'"
  shows "I k"
  using assms(1,2) by (induction rule: kreach.induct) (auto intro: assms(3))

end
