(* ===== verification/Scheduler_Inv.thy ===== *)
theory Scheduler_Inv
  imports Scheduler
begin

text \<open>
  The invariants of the scheduler over all reachable states. Where the processes are is
  measured with multisets of process numbers, so that a step that moves a process is an
  equation between them.
\<close>

section \<open>Measures\<close>

abbreviation ms :: "t_pcb list \<Rightarrow> u32 multiset" where
  "ms ps \<equiv> image_mset pid (mset ps)"

abbreviation msize :: "'a multiset \<Rightarrow> nat" where
  "msize \<equiv> size_class.size"

text \<open>What the threads contribute: the sum over all threads of a list per thread.\<close>

definition thr :: "(thread \<Rightarrow> 'a list) \<Rightarrow> thread list \<Rightarrow> 'a multiset" where
  "thr f ts = mset (concat (map f ts))"

fun sleeping_pids :: "bool \<Rightarrow> thread \<Rightarrow> u32 list" where
  "sleeping_pids s (TSleeping i s') = (if s = s' then [i] else [])"
| "sleeping_pids s (TPageWait i) = (if s then [] else [i])"
| "sleeping_pids s _ = []"

fun dispatched :: "thread \<Rightarrow> t_pcb list" where
  "dispatched (TRunning p) = [p]"
| "dispatched _ = []"

fun grade_taken :: "thread \<Rightarrow> unit list" where
  "grade_taken TGradeWait = [()]"
| "grade_taken _ = []"

definition blocked_ms :: "(string \<times> t_block) list \<Rightarrow> u32 multiset" where
  "blocked_ms cs = mset (blocked_pids cs)"

definition exec_ms :: "kernel \<Rightarrow> u32 multiset" where
  "exec_ms k = (case estado_EXEC k of None \<Rightarrow> {#} | Some p \<Rightarrow> {#pid p#})"

text \<open>The processes inside the multiprogramming degree, and all of them.\<close>

definition adm_ms :: "kernel \<Rightarrow> u32 multiset" where
  "adm_ms k = ms (lista_READY k) + exec_ms k + ms (lista_SLEEP k) + ms (lista_INTERRUPT k)
     + blocked_ms (colas_BLOCKED k) + thr thread_pids (threads k)"

definition all_ms :: "kernel \<Rightarrow> u32 multiset" where
  "all_ms k = ms (lista_NEW k) + ms (lista_EXIT k) + adm_ms k"

lemma adm_ms_pids: "mset (admitted_pids k) = adm_ms k"
  and all_ms_pids: "mset (all_pids k) = all_ms k"
  by (simp_all add: place_defs blocked_ms_def adm_ms_def all_ms_def exec_ms_def thr_def split: option.splits)

text \<open>The degree of multiprogramming that is in use, free, or about to be taken away.\<close>

definition degree :: "kernel \<Rightarrow> int" where
  "degree k = int (msize (adm_ms k)) + int (grd_mult k) - int (msize (thr grade_taken (threads k)))"

lemma thr_simps [simp]:
  "thr f [] = {#}" "thr f (t # ts) = mset (f t) + thr f ts" "thr f (ts @ us) = thr f ts + thr f us"
  by (simp_all add: thr_def)

lemma thr_replicate [simp]: "f t = [] \<Longrightarrow> thr f (replicate n t) = {#}"
  by (simp add: thr_def)

lemma size_grades [simp]: "msize (thr grade_taken (replicate n TGradeWait)) = n"
  by (induction n) simp_all

section \<open>The invariant\<close>

text \<open>
  The dispatcher works with at most one token: a post of \<open>executing_process\<close>, a process in
  the CPU, or the confirmation of an interruption; without an executing process there is none.
\<close>

definition dispatch_inv :: "kernel \<Rightarrow> bool" where
  "dispatch_inv k \<longleftrightarrow>
     (\<forall>p \<in># thr dispatched (threads k). estado_EXEC k = Some p) \<and>
     msize (thr dispatched (threads k)) + executing_process k + finish_interrupted_process k
       \<le> (if estado_EXEC k = None then 0 else 1)"

text \<open>A sleeping (or interrupted) process is in its list exactly while its thread waits.\<close>

definition sleep_inv :: "kernel \<Rightarrow> bool" where
  "sleep_inv k \<longleftrightarrow> ms (lista_SLEEP k) = thr (sleeping_pids True) (threads k)
     \<and> ms (lista_INTERRUPT k) = thr (sleeping_pids False) (threads k)"

definition places_inv :: "kernel \<Rightarrow> bool" where
  "places_inv k \<longleftrightarrow> (\<forall>p. count (all_ms k) p \<le> 1) \<and> (\<forall>p \<in># all_ms k. p < sig_PID k)"

definition sched_inv :: "int \<Rightarrow> kernel \<Rightarrow> bool" where
  "sched_inv d k \<longleftrightarrow> places_inv k \<and> degree k = d \<and> sleep_inv k \<and> dispatch_inv k"

lemmas measure_defs = adm_ms_def all_ms_def exec_ms_def degree_def

lemma places_inv_mono: "places_inv k \<Longrightarrow> all_ms k' \<subseteq># all_ms k \<Longrightarrow> sig_PID k' = sig_PID k \<Longrightarrow> places_inv k'"
  unfolding places_inv_def by (metis le_trans mset_subset_eq_count mset_subset_eqD)

lemma sched_inv_step:
  assumes "sched_inv d k" and "all_ms k' \<subseteq># all_ms k" and "sig_PID k' = sig_PID k"
    and "degree k' = degree k" and "sleep_inv k \<Longrightarrow> sleep_inv k'" and "dispatch_inv k \<Longrightarrow> dispatch_inv k'"
  shows "sched_inv d k'"
  using assms by (auto simp: sched_inv_def intro: places_inv_mono)

text \<open>The position of a thread in the list does not matter.\<close>

lemma thr_sum: "thr f ts = sum_mset (image_mset (\<lambda>t. mset (f t)) (mset ts))"
  by (induction ts) simp_all

lemma sched_inv_perm:
  "mset ts = mset (threads k) \<Longrightarrow> sched_inv d (k\<lparr>threads := ts\<rparr>) = sched_inv d k"
  by (simp add: sched_inv_def places_inv_def sleep_inv_def dispatch_inv_def measure_defs thr_sum)

lemma sched_inv_at:
  assumes i: "i < length (threads k)"
  shows "sched_inv d (spawn (threads k ! i) (remove_thread i k)) = sched_inv d k"
proof -
  have "mset (threads k) = mset (take i (threads k) @ threads k ! i # drop (Suc i) (threads k))"
    by (subst id_take_nth_drop[OF i, symmetric]) (rule refl)
  then show ?thesis
    using sched_inv_perm[of "take i (threads k) @ drop (Suc i) (threads k) @ [threads k ! i]" k d]
    by (simp add: spawn_def remove_thread_def)
qed

section \<open>Frames\<close>

text \<open>What an elimination changes: the lock queues, the accounts and the messages.\<close>

lemma set_locks_frame: "\<exists>t. set_locks name ls k = k\<lparr>open_files_global_table := t\<rparr>"
  by (auto simp: set_locks_def split: option.splits) (metis kernel.surjective kernel.update_convs(8))

lemma close_files_frame: "close_files_of p fs k = Some k' \<Longrightarrow> \<exists>t. k' = k\<lparr>open_files_global_table := t\<rparr>"
proof (induction p fs k rule: close_files_of.induct)
  case (1 p k)
  then show ?case by (auto intro: exI[of _ "open_files_global_table k"])
next
  case (2 p f fs k)
  then obtain k1 where k1: "close_file_of p (openf_file f) k = Some k1" "close_files_of p fs k1 = Some k'"
    by (auto split: option.splits)
  then obtain t where "k1 = k\<lparr>open_files_global_table := t\<rparr>"
    using set_locks_frame by (force simp: close_file_of_def bind_eq_Some_conv)
  with 2(1)[OF k1] show ?case by auto
qed

lemma blocked_pids_map:
  "(\<And>b. blocked_list (f b) = blocked_list b) \<Longrightarrow> blocked_pids (map (apsnd f) cs) = blocked_pids cs"
  by (induction cs) (auto simp: blocked_pids_def)

lemma free_instances_list [simp]: "blocked_list (free_instances itoa p b) = blocked_list b"
  by (simp add: free_instances_def split: option.splits)

lemma eliminar_frame:
  assumes "eliminar_proceso itoa p k = Some k'"
  obtains t s n cs where "blocked_ms cs = blocked_ms (colas_BLOCKED k)"
    "k' = k\<lparr>open_files_global_table := t, sent := s, colas_BLOCKED := cs, freed_resource := n\<rparr>"
proof -
  obtain k1 where k1: "close_files_of (pid p) (open_files p) k = Some k1"
    "k' = free_all_instances itoa p (send (ToMemory FINISH_PROCESS p) k1)"
    using assms by (auto simp: eliminar_proceso_def bind_eq_Some_conv)
  with close_files_frame obtain t where "k1 = k\<lparr>open_files_global_table := t\<rparr>" by blast
  with k1(2) show ?thesis
    by (intro that[of "map (apsnd (free_instances itoa p)) (colas_BLOCKED k)"])
      (auto simp: free_all_instances_def send_def blocked_ms_def blocked_pids_map)
qed

lemma blocked_pids_put:
  assumes "map_of cs r = Some b"
  shows "blocked_ms (put_block r b' cs) + ms (blocked_list b)
     = blocked_ms cs + ms (blocked_list b')"
  using assms by (induction cs) (auto simp: blocked_ms_def blocked_pids_def split: if_splits)

lemma blocked_pids_put_same:
  "map_of cs r = Some b \<Longrightarrow> blocked_list b' = blocked_list b \<Longrightarrow>
     blocked_ms (put_block r b' cs) = blocked_ms cs"
  using blocked_pids_put[of cs r b b'] by simp

lemma remove_by_pid_ms:
  "list_remove_by_condition (\<lambda>p. pid p = i) ps = (Some p, qs) \<Longrightarrow> ms ps = add_mset i (ms qs) \<and> pid p = i"
  using list_remove_by_condition_split[of "\<lambda>p. pid p = i" ps p qs] by auto

lemma unblock_queue: "unblock_block itoa b = (b', ps) \<Longrightarrow> ms (blocked_list b) = ms (blocked_list b') + ms ps"
  by (auto simp: unblock_block_def use_instance_of_resource_def Let_def split: list.splits if_splits)

lemma fold_ready:
  "fold agregar_pcb_a_cola_READY ps k = k\<lparr>lista_READY := lista_READY k @ map (estado_update (\<lambda>_. READY)) ps,
     proceso_en_cola_ready := proceso_en_cola_ready k + length ps\<rparr>"
  by (induction ps arbitrary: k) (simp_all add: kernel_basic_defs)

lemma unblock_moves:
  "blocked_ms cs = blocked_ms (map (\<lambda>(r, b). (r, fst (unblock_block itoa b))) cs)
     + ms (concat (map (\<lambda>(r, b). snd (unblock_block itoa b)) cs))"
proof (induction cs)
  case (Cons c cs)
  obtain r b where "c = (r, b)" by force
  then show ?case using Cons unblock_queue[of itoa b "fst (unblock_block itoa b)" "snd (unblock_block itoa b)"]
    by (simp add: blocked_ms_def blocked_pids_def)
qed (simp add: blocked_ms_def blocked_pids_def)

lemma ms_ready [simp]: "image_mset pid (image_mset (estado_update f) M) = image_mset pid M"
  by (induction M) simp_all

section \<open>Handlers of the dispatcher\<close>

text \<open>
  What every handler of the switch does with the process the CPU gave back: it stays the
  executing one, or leaves the CPU for another place; no process appears or disappears.
\<close>

definition handled :: "kernel \<Rightarrow> kernel \<Rightarrow> bool" where
  "handled k k' \<longleftrightarrow> all_ms k' = all_ms k \<and> sig_PID k' = sig_PID k \<and> degree k' = degree k
     \<and> lista_SLEEP k' = lista_SLEEP k \<and> lista_INTERRUPT k' = lista_INTERRUPT k
     \<and> (\<forall>s. thr (sleeping_pids s) (threads k') = thr (sleeping_pids s) (threads k))
     \<and> thr dispatched (threads k') = thr dispatched (threads k)
     \<and> executing_process k' + finish_interrupted_process k'
        \<le> executing_process k + finish_interrupted_process k + (if estado_EXEC k' = None then 0 else 1)"

lemmas handler_defs = handled_def measure_defs kernel_basic_defs resume_executing_def

lemma handled_seek:
  "estado_EXEC k = Some e \<Longrightarrow> pid e = pid p \<Longrightarrow> f_seek c p k = Some k' \<Longrightarrow> handled k k'"
  by (auto simp: f_seek_def handler_defs split: option.splits)

lemma handled_set_locks:
  "estado_EXEC k = Some e \<Longrightarrow> pid e = pid p \<Longrightarrow> handled k (resume_executing p (set_locks name ls k))"
  using set_locks_frame[of name ls k] by (auto simp: handler_defs)

lemma handled_close:
  "estado_EXEC k = Some e \<Longrightarrow> pid e = pid p \<Longrightarrow> f_close name p k = Some k' \<Longrightarrow> handled k k'"
  by (auto simp: f_close_def bind_eq_Some_conv handled_set_locks split: option.splits prod.splits)

lemma handled_block:
  "estado_EXEC k = Some e \<Longrightarrow> pid e = pid p \<Longrightarrow> thread_pids (mk (p\<lparr>estado := BLOCKED\<rparr>)) = [pid p] \<Longrightarrow>
   sleeping_pids True (mk (p\<lparr>estado := BLOCKED\<rparr>)) = [] \<Longrightarrow> sleeping_pids False (mk (p\<lparr>estado := BLOCKED\<rparr>)) = [] \<Longrightarrow>
   dispatched (mk (p\<lparr>estado := BLOCKED\<rparr>)) = [] \<Longrightarrow> grade_taken (mk (p\<lparr>estado := BLOCKED\<rparr>)) = [] \<Longrightarrow>
   handled k (block_executing p mk k)"
  by (auto simp: handler_defs all_bool_eq)

lemma handled_truncate:
  "estado_EXEC k = Some e \<Longrightarrow> pid e = pid p \<Longrightarrow> f_truncate c p k = Some k' \<Longrightarrow> handled k k'"
  by (auto simp: f_truncate_def bind_eq_Some_conv handler_defs)

lemma handled_exit:
  "estado_EXEC k = Some e \<Longrightarrow> pid e = pid p \<Longrightarrow> handled k (send_to_exit p m (destroy_executing_process k))"
  by (auto simp: handler_defs)

lemma handled_write:
  "estado_EXEC k = Some e \<Longrightarrow> pid e = pid p \<Longrightarrow> f_write m p k = Some k' \<Longrightarrow> handled k k'"
  by (auto simp: f_write_def bind_eq_Some_conv handled_block handled_exit split: if_splits)

lemma open_entry_frame: "\<exists>t s. open_entry name p k = k\<lparr>open_files_global_table := t, sent := s\<rparr>"
proof (cases "open_files_global_table k name")
  case None
  then show ?thesis by (auto simp: open_entry_def send_def)
next
  case (Some f)
  then have "open_entry name p k = k\<lparr>open_files_global_table := open_files_global_table k,
      sent := sent k @ [ToFilesystem F_OPEN_COMMAND p]\<rparr>"
    by (simp add: open_entry_def send_def)
  then show ?thesis by blast
qed

lemma handled_message:
  "handled (k\<lparr>open_files_global_table := t, sent := s\<rparr>) k' = handled k k'"
  by (simp add: handled_def measure_defs)

lemma handled_open:
  assumes "estado_EXEC k = Some e" and "pid e = pid p" and "f_open d p k = Some k'"
  shows "handled k k'"
proof -
  let ?p = "p\<lparr>open_files := open_files p @ [\<lparr>openf_file = fo_file_name d, seek = 0\<rparr>]\<rparr>"
  obtain t s where o: "open_entry (fo_file_name d) ?p k = k\<lparr>open_files_global_table := t, sent := s\<rparr>"
    using open_entry_frame by blast
  let ?k = "k\<lparr>open_files_global_table := t, sent := s\<rparr>"
  have "handled ?k k'"
  proof -
    have "handled ?k ?k" by (simp add: handled_def)
    then show ?thesis using assms
      by (auto simp: f_open_def o Let_def intro: handled_block handled_set_locks split: if_splits)
  qed
  then show ?thesis by (simp only: handled_message)
qed

lemma handled_wait:
  assumes "estado_EXEC k = Some e" and "pid e = pid p"
    and "wait_instance_of_resource itoa r p k = Some k'"
  shows "handled k k'"
proof -
  obtain b where b: "map_of (colas_BLOCKED k) r = Some b"
    using assms(3) by (auto simp: wait_instance_of_resource_def split: option.splits)
  show ?thesis
    using assms b blocked_pids_put[OF b, of "enqueue_blocked p b"]
      blocked_pids_put_same[OF b, of "use_instance_of_resource itoa p b"]
    by (auto simp: wait_instance_of_resource_def handler_defs set_block_def enqueue_blocked_def
        use_instance_of_resource_def Let_def split: if_splits)
qed

lemma release_list [simp]: "blocked_list (release_instance itoa p b) = blocked_list b"
  by (simp add: release_instance_def Let_def split: option.splits)

lemma handled_signal:
  assumes "estado_EXEC k = Some e" and "pid e = pid p"
    and "signal_instance_of_resource itoa r p k = Some k'"
  shows "handled k k'"
proof -
  obtain b where b: "map_of (colas_BLOCKED k) r = Some b"
    using assms(3) by (auto simp: signal_instance_of_resource_def split: option.splits)
  show ?thesis
    using assms b blocked_pids_put_same[OF b, of "release_instance itoa p b"]
    by (auto simp: signal_instance_of_resource_def handler_defs set_block_def split: if_splits)
qed

lemma handled_resource:
  assumes "estado_EXEC k = Some e" and "pid e = pid p" and "resource_call op p k = Some k'"
    and "\<And>r k'. op r p k = Some k' \<Longrightarrow> handled k k'"
  shows "handled k k'"
  using assms by (auto simp: resource_call_def handled_exit split: params.splits if_splits)

lemmas handlers = handled_seek handled_close handled_truncate handled_write handled_open
  handled_exit handled_block

lemma execute_switch_handled:
  assumes "estado_EXEC k = Some e" and "pid e = pid p" and "execute_switch env p k = Some k'"
  shows "handled k k'"
proof (cases "instruccion p")
  case WAIT
  with assms show ?thesis by (auto simp: execute_switch_def intro: handled_resource handled_wait)
next
  case SIGNAL
  with assms show ?thesis by (auto simp: execute_switch_def intro: handled_resource handled_signal)
qed (use assms in \<open>auto simp: execute_switch_def f_read_def interrupt_process_def
      manage_page_fault_def handlers split: params.splits\<close>,
    (auto simp: handler_defs)?)

section \<open>Steps of the threads\<close>

lemma sched_invD:
  assumes "sched_inv d k"
  shows "places_inv k" "degree k = d" "sleep_inv k" "dispatch_inv k"
  using assms by (simp_all add: sched_inv_def)

lemma degree_spawn:
  "degree (spawn t k) = degree k + int (length (thread_pids t)) - int (length (grade_taken t))"
  by (simp add: degree_def adm_ms_def exec_ms_def spawn_def)

lemma all_ms_spawn: "all_ms (spawn t k) = all_ms k + mset (thread_pids t)"
  by (simp add: measure_defs spawn_def)

lemma sched_reply:
  assumes inv: "sched_inv d (spawn (TRunning p) k)" and q: "pid q = pid p"
    and r: "execute_reply env q k = Runs k'"
  shows "sched_inv d k'"
proof -
  obtain k1 where k1: "execute_switch env q k = Some k1" "k' = spawn TExecute k1"
    using r by (auto simp: execute_reply_def)
  have d: "estado_EXEC k = Some p" "thr dispatched (threads k) = {#}"
    "executing_process k = 0" "finish_interrupted_process k = 0"
    using sched_invD(4)[OF inv] by (auto simp: dispatch_inv_def spawn_def split: if_splits)
  have "handled k k1" by (rule execute_switch_handled[OF d(1) _ k1(1)]) (simp add: q)
  then have h: "handled k k1" .
  show ?thesis unfolding k1(2)
  proof (rule sched_inv_step[OF inv])
    show "degree (spawn TExecute k1) = degree (spawn (TRunning p) k)"
      using h by (simp add: handled_def degree_spawn)
    show "dispatch_inv (spawn TExecute k1)"
      using h d by (auto simp: handled_def dispatch_inv_def spawn_def split: if_splits)
    show "all_ms (spawn TExecute k1) \<subseteq># all_ms (spawn (TRunning p) k)"
      using h by (simp add: handled_def all_ms_spawn)
  qed (use h in \<open>simp_all add: handled_def sleep_inv_def spawn_def\<close>)
qed

lemmas step_defs = sched_inv_def spawn_def places_inv_def sleep_inv_def dispatch_inv_def
  measure_defs kernel_basic_defs

lemma sched_execute:
  "sched_inv d (spawn TExecute k) \<Longrightarrow> execute_process k = Runs k' \<Longrightarrow> sched_inv d k'"
  by (erule sched_inv_step; cases "thr dispatched (threads k)")
    (auto simp: execute_process_def Let_def step_defs split: if_splits option.splits)

lemma sched_ready_first:
  assumes "sched_inv d k" and "estado_EXEC k = None" and "mset (lista_READY k) = add_mset p (mset ps)"
  shows "sched_inv d (execute_first_ready p ps k)"
proof (rule sched_inv_step[OF assms(1)])
  have r: "ms (lista_READY k) = add_mset (pid p) (ms ps)"
    unfolding assms(3) by simp
  then have "length (lista_READY k) = Suc (length ps)"
    using arg_cong[OF assms(3), of size_class.size] by simp
  with r assms(2) show "all_ms (execute_first_ready p ps k) \<subseteq># all_ms k"
    and "degree (execute_first_ready p ps k) = degree k"
    by (simp_all add: execute_first_ready_def measure_defs kernel_basic_defs)
qed (use assms(2) in \<open>auto simp: execute_first_ready_def kernel_basic_defs sleep_inv_def dispatch_inv_def\<close>)

lemma sched_idle [simp]:
  "thread_pids t = [] \<Longrightarrow> sleeping_pids True t = [] \<Longrightarrow> sleeping_pids False t = [] \<Longrightarrow>
     dispatched t = [] \<Longrightarrow> grade_taken t = [] \<Longrightarrow> sched_inv d (spawn t k) = sched_inv d k"
  by (simp add: step_defs)

lemma sched_counters [simp]:
  "sched_inv d (k\<lparr>proceso_en_cola_ready := n\<rparr>) = sched_inv d k"
  "sched_inv d (k\<lparr>process_in_exit := n\<rparr>) = sched_inv d k"
  "sched_inv d (k\<lparr>freed_resource := n\<rparr>) = sched_inv d k"
  "sched_inv d (k\<lparr>process_in_new := n\<rparr>) = sched_inv d k"
  "sched_inv d (send m k) = sched_inv d k"
  "sched_inv d (set_locks name ls k) = sched_inv d k"
  using set_locks_frame[of name ls k] by (auto simp: step_defs)

lemma interrupt_sends: "interrupt_executing_process k = Some k' \<longleftrightarrow>
    (\<exists>e. estado_EXEC k = Some e \<and> k' = send (ToInterrupt INTERRUPT_INSTRUCTION e) k)"
  by (auto simp: interrupt_executing_process_def split: option.splits)

lemma sched_long:
  "sched_inv d (spawn TLong k) \<Longrightarrow> planificador_largo_plazo k = Runs k' \<Longrightarrow> sched_inv d k'"
  by (auto simp: planificador_largo_plazo_def Let_def split: if_splits)

lemma sched_admit:
  assumes inv: "sched_inv d (spawn TAdmit k)" and r: "admitir_proceso k = Runs k'"
  shows "sched_inv d k'"
proof -
  obtain p ps where n: "lista_NEW k = p # ps" "grd_mult k \<noteq> 0"
    "k' = spawn TLong (agregar_pcb_a_cola_READY p (k\<lparr>grd_mult := grd_mult k - 1, lista_NEW := ps\<rparr>))"
    using r by (cases "lista_NEW k") (auto simp: admitir_proceso_def list_remove_first_def split: if_splits)
  from inv have "sched_inv d k" by simp
  then show ?thesis unfolding n(3)
    by (rule sched_inv_step)
      (use n(1,2) in \<open>auto simp: all_ms_spawn degree_spawn measure_defs kernel_basic_defs
        sleep_inv_def dispatch_inv_def\<close>)
qed

lemma sched_fifo:
  "sched_inv d (spawn TFifo k) \<Longrightarrow> planificador_fifo k = Runs k' \<Longrightarrow> sched_inv d k'"
  by (auto simp: planificador_fifo_def Let_def sched_ready_first
      split: if_splits option.splits list.splits)

lemma sched_rr:
  "sched_inv d (spawn TRr k) \<Longrightarrow> planificador_rr k = Runs k' \<Longrightarrow> sched_inv d k'"
  by (auto simp: planificador_rr_def Let_def sched_ready_first
      split: if_splits option.splits list.splits)

lemma sched_quantum:
  "sched_inv d (spawn (TQuantum i) k) \<Longrightarrow> quantum_checker i k = Runs k' \<Longrightarrow> sched_inv d k'"
  by (auto simp: quantum_checker_def interrupt_sends split: if_splits option.splits)

text \<open>What \<open>list_get_minimum\<close> promises: an element of the list, minimal for the comparator.\<close>

definition minimum_law :: "env \<Rightarrow> bool" where
  "minimum_law env \<longleftrightarrow> (\<forall>ps. ps \<noteq> [] \<longrightarrow>
     list_get_minimum env min_priority ps \<in> set ps \<and>
     (\<forall>p \<in> set ps. prioridad (list_get_minimum env min_priority ps) \<le> prioridad p))"

lemma sched_prioridades:
  assumes min: "minimum_law env" and inv: "sched_inv d (spawn TPrioridades k)"
    and r: "planificador_prioridades env k = Runs k'"
  shows "sched_inv d k'"
proof -
  let ?k = "k\<lparr>proceso_en_cola_ready := proceso_en_cola_ready k - 1\<rparr>"
  let ?m = "list_get_minimum env min_priority (lista_READY k)"
  have inv: "sched_inv d ?k" using inv by simp
  have pick: "sched_inv d (execute_first_ready ?m (remove1 ?m (lista_READY k)) ?k)"
    if "lista_READY k \<noteq> []" "estado_EXEC k = None"
    by (rule sched_ready_first[OF inv]) (use min that in \<open>auto simp: minimum_law_def\<close>)
  have only: "sched_inv d (execute_first_ready (hd (lista_READY k)) (tl (lista_READY k)) ?k)"
    if "lista_READY k \<noteq> []" "estado_EXEC k = None"
    by (rule sched_ready_first[OF inv]) (use that in \<open>auto simp flip: mset.simps\<close>)
  show ?thesis
    using r inv pick only
    by (auto simp: planificador_prioridades_def Let_def interrupt_sends
        split: if_splits option.splits)
qed

lemma sched_unblock:
  assumes "sched_inv d k"
  shows "sched_inv d (unblock_processes itoa k)"
proof (rule sched_inv_step[OF assms])
  note m = unblock_moves[of "colas_BLOCKED k" itoa]
  have u: "unblock_processes itoa k = fold agregar_pcb_a_cola_READY
      (concat (map (\<lambda>(r, b). snd (unblock_block itoa b)) (colas_BLOCKED k)))
      (k\<lparr>colas_BLOCKED := map (\<lambda>(r, b). (r, fst (unblock_block itoa b))) (colas_BLOCKED k)\<rparr>)"
    by (simp add: unblock_processes_def Let_def split_def comp_def)
  show "all_ms (unblock_processes itoa k) \<subseteq># all_ms k"
    by (simp add: u fold_ready measure_defs m)
  show "degree (unblock_processes itoa k) = degree k"
    using arg_cong[OF m, of size_class.size]
    by (simp add: u fold_ready measure_defs)
qed (simp_all add: unblock_processes_def Let_def fold_ready sleep_inv_def dispatch_inv_def)

lemma sched_eliminar:
  assumes "eliminar_proceso itoa p k = Some k'"
  shows "sched_inv d k' = sched_inv d k"
proof -
  obtain t s n cs where cs: "blocked_ms cs = blocked_ms (colas_BLOCKED k)"
    and k': "k' = k\<lparr>open_files_global_table := t, sent := s, colas_BLOCKED := cs, freed_resource := n\<rparr>"
    by (rule eliminar_frame[OF assms])
  show ?thesis
    by (simp add: k' cs sched_inv_def places_inv_def measure_defs sleep_inv_def dispatch_inv_def)
qed

lemma remove_ms:
  assumes "list_remove_by_condition (\<lambda>p. pid p = i) ps = (Some p, qs)"
  shows "ms ps = add_mset (pid p) (ms qs)" "length ps = Suc (length qs)" "pid p = i"
  using remove_by_pid_ms[OF assms] list_remove_by_condition_length[OF assms] by simp_all

lemma sched_exit:
  assumes inv: "sched_inv d (spawn TExit k)" and r: "atender_procesos_en_EXIT env k = Runs k'"
  shows "sched_inv d k'"
proof -
  have "sched_inv d (k\<lparr>process_in_exit := n, lista_EXIT := ps\<rparr>)"
    if "lista_EXIT k = p # ps" for p ps n
    by (rule sched_inv_step[of d "k\<lparr>process_in_exit := n\<rparr>"])
      (use inv that in \<open>auto simp: measure_defs sleep_inv_def dispatch_inv_def\<close>)
  then show ?thesis
    using inv r by (auto simp: atender_procesos_en_EXIT_def list_remove_first_def Let_def sched_eliminar
        split: if_splits list.splits)
qed

lemma sched_interrupted_enter:
  assumes inv: "sched_inv d (spawn (TInterrupted p) k)" and r: "treat_interrupted_enter p k = Runs k'"
  shows "sched_inv d k'"
  by (rule sched_inv_step[OF inv])
    (use r in \<open>auto simp: treat_interrupted_enter_def Let_def set_list_def list_of_def all_ms_spawn
      degree_spawn measure_defs spawn_def sleep_inv_def dispatch_inv_def split: if_splits\<close>)

lemma sched_page_fault:
  assumes inv: "sched_inv d (spawn (TPageFault p) k)" and r: "treat_page_fault p k = Runs k'"
  shows "sched_inv d k'"
  by (rule sched_inv_step[OF inv])
    (use r in \<open>auto simp: treat_page_fault_def all_ms_spawn send_def
      degree_spawn measure_defs spawn_def sleep_inv_def dispatch_inv_def split: if_splits params.splits\<close>)

lemma sched_set_list:
  assumes inv: "sched_inv d (spawn (TSleeping i s) k)"
    and rm: "list_remove_by_condition (\<lambda>p. pid p = i) (list_of s k) = (Some p, ps)"
  shows "sched_inv d (agregar_pcb_a_cola_READY p (set_list s ps k))"
    and "sched_inv d ((set_list s ps k)\<lparr>grd_mult := grd_mult k + 1\<rparr>)"
proof -
  note m = remove_ms[OF rm]
  show "sched_inv d (agregar_pcb_a_cola_READY p (set_list s ps k))"
    by (rule sched_inv_step[OF inv])
      (use m in \<open>auto simp: set_list_def list_of_def all_ms_spawn degree_spawn measure_defs
        kernel_basic_defs sleep_inv_def dispatch_inv_def\<close>)
  show "sched_inv d ((set_list s ps k)\<lparr>grd_mult := grd_mult k + 1\<rparr>)"
    by (rule sched_inv_step[OF inv])
      (use m in \<open>auto simp: set_list_def list_of_def all_ms_spawn degree_spawn measure_defs
        spawn_def sleep_inv_def dispatch_inv_def\<close>)
qed

lemma sched_interrupted_leave:
  assumes inv: "sched_inv d (spawn (TSleeping i s) k)"
    and r: "treat_interrupted_leave env i s k = Runs k'"
  shows "sched_inv d k'"
proof -
  obtain p ps where rm: "list_remove_by_condition (\<lambda>p. pid p = i) (list_of s k) = (Some p, ps)"
    using r by (auto simp: treat_interrupted_leave_def split: if_splits prod.splits option.splits)
  have "grd_mult (set_list s ps k) = grd_mult k" by (simp add: set_list_def)
  then show ?thesis
    using r rm sched_set_list[OF inv rm]
    by (auto simp: treat_interrupted_leave_def Let_def sched_eliminar split: if_splits)
qed

lemma sched_page_reply:
  assumes inv: "sched_inv d (spawn (TPageWait i) k)" and r: "treat_page_fault_reply i k = Runs k'"
  shows "sched_inv d k'"
proof -
  obtain p ps where rm: "list_remove_by_condition (\<lambda>p. pid p = i) (lista_INTERRUPT k) = (Some p, ps)"
    and k': "k' = agregar_pcb_a_cola_READY p (k\<lparr>lista_INTERRUPT := ps\<rparr>)"
    using r by (auto simp: treat_page_fault_reply_def split: if_splits prod.splits option.splits)
  show ?thesis unfolding k'
    by (rule sched_inv_step[OF inv])
      (use remove_ms[OF rm] in \<open>auto simp: all_ms_spawn degree_spawn measure_defs
        kernel_basic_defs sleep_inv_def dispatch_inv_def\<close>)
qed

lemma sched_ready_owned:
  assumes "sched_inv d (spawn t k)" and "thread_pids t = [pid p]" "sleeping_pids True t = []"
    "sleeping_pids False t = []" "dispatched t = []" "grade_taken t = []"
  shows "sched_inv d (agregar_pcb_a_cola_READY p k)"
  by (rule sched_inv_step[OF assms(1)])
    (use assms in \<open>auto simp: all_ms_spawn degree_spawn measure_defs
        kernel_basic_defs sleep_inv_def dispatch_inv_def\<close>)

lemma sched_owner:
  assumes "sched_inv d (spawn t k)" and "thread_pids t = thread_pids t'" "sleeping_pids True t = []"
    "sleeping_pids False t = []" "dispatched t = []" "grade_taken t = []" "sleeping_pids True t' = []"
    "sleeping_pids False t' = []" "dispatched t' = []" "grade_taken t' = []"
  shows "sched_inv d (spawn t' k)"
  by (rule sched_inv_step[OF assms(1)])
    (use assms in \<open>simp_all add: all_ms_spawn degree_spawn, simp_all add: spawn_def sleep_inv_def dispatch_inv_def\<close>)

lemma spawn_set_locks: "spawn t (set_locks name ls k) = set_locks name ls (spawn t k)"
  by (simp add: spawn_def set_locks_def split: option.splits)

lemma spawn_send: "spawn t (send m k) = send m (spawn t k)"
  by (simp add: spawn_def send_def)

lemma sched_fs:
  assumes inv: "sched_inv d (spawn (TFsCall p c) k)" and r: "treat_fs_function p c k = Some k'"
  shows "sched_inv d k'"
proof -
  have "k' = agregar_pcb_a_cola_READY p (send (ToFilesystem c p) k)"
    using r by (auto simp: treat_fs_function_def Let_def split: if_splits params.splits)
  then show ?thesis
    using inv by (auto intro!: sched_ready_owned[of d "TFsCall p c"] simp: spawn_send)
qed

lemma sched_lock_queued:
  assumes inv: "sched_inv d (spawn (TLockQueued p name w) k)" and r: "wake_lock_waiter p name w k = Some k'"
  shows "sched_inv d k'"
proof -
  obtain ls where "k' = agregar_pcb_a_cola_READY p (set_locks name ls k)"
    using r by (auto simp: wake_lock_waiter_def split: option.splits)
  then show ?thesis
    using inv by (auto intro!: sched_ready_owned[of d "TLockQueued p name w"] simp: spawn_set_locks)
qed

lemma sched_lock_wait:
  assumes inv: "sched_inv d (spawn (TLockWait p name w) k)"
  shows "sched_inv d (spawn (TLockQueued p name w) (enqueue_lock p name w k))"
  using sched_owner[OF inv, of "TLockQueued p name w"]
  by (simp add: enqueue_lock_def spawn_set_locks)

lemma sched_grade_wait:
  assumes inv: "sched_inv d (spawn TGradeWait k)" and r: "wait_grd_mlt k = Runs k'"
  shows "sched_inv d k'"
  by (rule sched_inv_step[OF inv])
    (use r in \<open>auto simp: wait_grd_mlt_def all_ms_spawn degree_spawn measure_defs
      spawn_def sleep_inv_def dispatch_inv_def split: if_splits\<close>)

lemma sched_finalizar_executing:
  assumes inv: "sched_inv d (spawn (TFinalize i) k)" and r: "finalizar_executing env k = Runs k'"
  shows "sched_inv d k'"
proof -
  let ?k = "\<lambda>e. k\<lparr>finish_interrupted_process := finish_interrupted_process k - 1, estado_EXEC := None\<rparr>"
  obtain e k1 where e: "estado_EXEC k = Some e" "finish_interrupted_process k \<noteq> 0"
    and k1: "eliminar_proceso (string_itoa env) e (?k e) = Some k1"
    and k': "k' = post_ready (k1\<lparr>grd_mult := grd_mult k1 + 1\<rparr>)"
    using r by (auto simp: finalizar_executing_def Let_def split: if_splits option.splits)
  have k: "sched_inv d k" using inv by simp
  have "thr dispatched (threads k) = {#}"
    using sched_invD(4)[OF k] e by (cases "thr dispatched (threads k)") (auto simp: dispatch_inv_def)
  then have "sched_inv d ((?k e)\<lparr>grd_mult := grd_mult k + 1\<rparr>)"
    by (rule_tac sched_inv_step[OF k])
      (use e in \<open>auto simp: measure_defs sleep_inv_def dispatch_inv_def split: if_splits\<close>)
  moreover obtain t s n cs where cs: "blocked_ms cs = blocked_ms (colas_BLOCKED k)"
    and k1': "k1 = (?k e)\<lparr>open_files_global_table := t, sent := s, colas_BLOCKED := cs, freed_resource := n\<rparr>"
    by (rule eliminar_frame[OF k1]) simp
  ultimately show ?thesis
    by (rule_tac k="(?k e)\<lparr>grd_mult := grd_mult k + 1\<rparr>" in sched_inv_step)
      (simp_all add: k' k1' cs post_ready_def measure_defs sleep_inv_def dispatch_inv_def)
qed

lemma sched_thread_step:
  assumes min: "minimum_law env" and inv: "sched_inv d (spawn t k)"
    and cpu: "\<And>p. t = TRunning p \<Longrightarrow> pid q = pid p" and r: "thread_step env q t k = Runs k'"
  shows "sched_inv d k'"
proof (cases t)
  case TUnblock
  with r inv show ?thesis by (auto simp: unblock_loop_def Let_def sched_unblock split: if_splits)
next
  case TPrioridades
  with sched_prioridades[OF min] inv r show ?thesis by simp
next
  case (TLockQueued p name w)
  with inv r show ?thesis by (auto intro: sched_lock_queued split: option.splits)
qed (use inv r cpu in \<open>auto intro: sched_long sched_admit sched_exit sched_fifo sched_rr sched_execute
    sched_reply sched_quantum sched_interrupted_enter sched_interrupted_leave sched_page_fault
    sched_page_reply sched_fs sched_lock_wait sched_grade_wait sched_finalizar_executing\<close>)

section \<open>Commands of the console\<close>

lemma word_lt_succ: "x \<noteq> - 1 \<Longrightarrow> x < x + (1 :: u32)"
proof -
  assume "x \<noteq> - 1"
  then have "x < - 1" by (metis word_order.not_eq_extremum)
  then show "x < x + 1" by uint_arith
qed

text \<open>A new process has the next number, which no process has yet.\<close>

lemma sched_iniciar:
  assumes inv: "sched_inv d k" and free: "sig_PID k \<noteq> - 1"
  shows "sched_inv d (iniciar_proceso src tam prio k)"
proof -
  let ?k = "iniciar_proceso src tam prio k"
  have lt: "sig_PID k < sig_PID k + 1"
    by (rule word_lt_succ[OF free])
  have all: "all_ms ?k = add_mset (sig_PID k) (all_ms k)" and s: "sig_PID ?k = sig_PID k + 1"
    by (simp_all add: iniciar_proceso_def Let_def crear_proceso_def crear_pcb_def measure_defs
        kernel_basic_defs obt_sig_PID_def)
  have old: "\<forall>p \<in># all_ms k. p < sig_PID k" "\<forall>p. count (all_ms k) p \<le> 1"
    using sched_invD(1)[OF inv] by (simp_all add: places_inv_def)
  then have "sig_PID k \<notin># all_ms k" by blast
  then have "\<forall>p. count (all_ms ?k) p \<le> 1"
    using old(2) by (simp add: all not_in_iff)
  moreover have "\<forall>p \<in># all_ms ?k. p < sig_PID ?k"
    using old(1) lt by (auto simp: all s intro: less_trans)
  moreover have "degree ?k = degree k" "sleep_inv ?k = sleep_inv k" "dispatch_inv ?k = dispatch_inv k"
    by (simp_all add: iniciar_proceso_def Let_def measure_defs kernel_basic_defs sleep_inv_def dispatch_inv_def)
  ultimately show ?thesis using inv by (simp add: sched_inv_def places_inv_def)
qed

lemma mark_manual_ms [simp]: "ms (mark_manual i ps) = ms ps"
  by (induction ps) simp_all

lemma mark_manual_length [simp]: "length (mark_manual i ps) = length ps"
  by (induction ps) simp_all

lemma sched_finalizar_blocked:
  "finalizar_blocked env i rs k = Some k' \<Longrightarrow> sched_inv d k \<Longrightarrow> sched_inv d k'"
proof (induction env i rs k rule: finalizar_blocked.induct)
  case (1 env i k)
  then show ?case by simp
next
  case (2 env i r rs k)
  show ?case
  proof (cases "map_of (colas_BLOCKED k) r")
    case None
    with 2 show ?thesis by simp
  next
    case (Some b)
    note b = Some
    show ?thesis
    proof (cases "list_remove_by_condition (\<lambda>p. pid p = i) (blocked_list b)")
      case (Pair x ps)
      show ?thesis
      proof (cases x)
        case None
        with 2 b Pair show ?thesis by simp
      next
        case (Some p)
        note rm = remove_ms[OF Pair[unfolded Some]]
        let ?k = "(set_block r (b\<lparr>blocked_list := ps\<rparr>) k)\<lparr>grd_mult := grd_mult k + 1\<rparr>"
        obtain k1 where k1: "eliminar_proceso (string_itoa env) p ?k = Some k1"
          "finalizar_blocked env i rs k1 = Some k'"
          using 2(4) b Pair Some by (auto split: option.splits)
        have eq: "blocked_ms (colas_BLOCKED k) = add_mset (pid p)
            (blocked_ms (put_block r (b\<lparr>blocked_list := ps\<rparr>) (colas_BLOCKED k)))"
          using blocked_pids_put[OF b, of "b\<lparr>blocked_list := ps\<rparr>"] rm by simp
        have "sched_inv d ?k"
          by (rule sched_inv_step[OF 2(5)])
            (simp_all add: set_block_def measure_defs sleep_inv_def dispatch_inv_def eq)
        then have "sched_inv d k1" using sched_eliminar[OF k1(1)] by simp
        then show ?thesis using 2(3)[OF b Pair[symmetric] Some k1(1)] k1(2) by simp
      qed
    qed
  qed
qed

lemma sched_finalizar_waiting:
  assumes inv: "sched_inv d k" and r: "finalizar_waiting env i k = Runs k'"
  shows "sched_inv d k'"
proof -
  have "sched_inv d (k\<lparr>lista_SLEEP := mark_manual i (lista_SLEEP k), cola_sleep_locked := b\<rparr>)"
    and "sched_inv d (k\<lparr>lista_INTERRUPT := mark_manual i (lista_INTERRUPT k), cola_interrupt_locked := b\<rparr>)"
    for b by (rule sched_inv_step[OF inv];
        simp add: measure_defs sleep_inv_def dispatch_inv_def)+
  then show ?thesis
    using inv r by (auto simp: finalizar_waiting_def sched_finalizar_blocked split: if_splits)
qed

lemma sched_finalizar:
  assumes inv: "sched_inv d k" and r: "finalizar_proceso env i k = Runs k'"
  shows "sched_inv d k'"
proof -
  have new: "sched_inv d (k\<lparr>lista_NEW := ps\<rparr>)"
    if "list_remove_by_condition (\<lambda>p. pid p = i) (lista_NEW k) = (Some p, ps)" for p ps
    by (rule sched_inv_step[OF inv])
      (use remove_ms[OF that] in \<open>simp_all add: measure_defs sleep_inv_def dispatch_inv_def\<close>)
  have ready: "sched_inv d (k\<lparr>lista_READY := ps, grd_mult := grd_mult k + 1\<rparr>)"
    if "list_remove_by_condition (\<lambda>p. pid p = i) (lista_READY k) = (Some p, ps)" for p ps
    by (rule sched_inv_step[OF inv])
      (use remove_ms[OF that] in \<open>simp_all add: measure_defs sleep_inv_def dispatch_inv_def\<close>)
  have exit: "sched_inv d (k\<lparr>lista_EXIT := ps\<rparr>)"
    if "list_remove_by_condition (\<lambda>p. pid p = i) (lista_EXIT k) = (Some p, ps)" for p ps
    by (rule sched_inv_step[OF inv])
      (use remove_ms[OF that] in \<open>simp_all add: measure_defs sleep_inv_def dispatch_inv_def\<close>)
  have exec: "sched_inv d k1" if "interrupt_finish_executing_process k = Some k1" for k1
    using that inv by (auto simp: interrupt_finish_executing_process_def split: option.splits)
  note parts = sched_finalizar_waiting[OF inv] exec sched_eliminar new ready[simplified] exit
  show ?thesis
    using r by (auto simp: finalizar_proceso_def parts split: if_splits prod.splits option.splits)
qed

text \<open>The command \<open>MULTIPROGRAMACION\<close> moves the degree by the difference it computes.\<close>

lemma sched_multiprogramacion:
  assumes inv: "sched_inv d k"
  shows "sched_inv (d + (atoi valor - actual_grd_mult k)) (cambiar_grado_multiprogramacion addr valor k)"
  using inv unfolding sched_inv_def
  by (auto simp: cambiar_grado_multiprogramacion_def Let_def places_inv_def measure_defs
      sleep_inv_def dispatch_inv_def)

end
