(* ===== verification/Scheduler_Live.thy ===== *)
theory Scheduler_Live
  imports Scheduler_Inv
begin

text \<open>
  No wake-up of the planners is lost: whenever a queue has work for a planner, its semaphore
  has a unit and the thread that waits on it exists. This is the invariant behind the progress
  theorems.
\<close>

text \<open>The five loops of the kernel, by number: NEW, EXIT, short term, dispatcher, unblocker.\<close>

fun loop_of :: "thread \<Rightarrow> nat list" where
  "loop_of TLong = [0]"
| "loop_of TAdmit = [0]"
| "loop_of TExit = [1]"
| "loop_of TFifo = [2]"
| "loop_of TRr = [2]"
| "loop_of TPrioridades = [2]"
| "loop_of TExecute = [3]"
| "loop_of (TRunning _) = [3]"
| "loop_of TUnblock = [4]"
| "loop_of _ = []"

fun admitting :: "thread \<Rightarrow> unit list" where
  "admitting TAdmit = [()]"
| "admitting _ = []"

definition ready_inv :: "kernel \<Rightarrow> bool" where
  "ready_inv k \<longleftrightarrow> (estado_EXEC k = None \<longrightarrow> lista_READY k \<noteq> [] \<longrightarrow> 0 < proceso_en_cola_ready k)"

definition wake_inv :: "kernel \<Rightarrow> bool" where
  "wake_inv k \<longleftrightarrow> working k \<and> ready_inv k
     \<and> length (lista_NEW k) \<le> process_in_new k + msize (thr admitting (threads k))
     \<and> length (lista_EXIT k) \<le> process_in_exit k
     \<and> thr loop_of (threads k) = mset [0, 1, 2, 3, 4]"

lemma wake_inv_perm: "mset ts = mset (threads k) \<Longrightarrow> wake_inv (k\<lparr>threads := ts\<rparr>) = wake_inv k"
  by (simp add: wake_inv_def ready_inv_def thr_sum)

lemma wake_inv_at:
  assumes i: "i < length (threads k)"
  shows "wake_inv (spawn (threads k ! i) (remove_thread i k)) = wake_inv k"
proof -
  have "mset (threads k) = mset (take i (threads k) @ threads k ! i # drop (Suc i) (threads k))"
    by (subst id_take_nth_drop[OF i, symmetric]) (rule refl)
  then show ?thesis
    using wake_inv_perm[of "take i (threads k) @ drop (Suc i) (threads k) @ [threads k ! i]" k]
    by (simp add: spawn_def remove_thread_def)
qed

lemma wake_detached [simp]:
  "loop_of t = [] \<Longrightarrow> admitting t = [] \<Longrightarrow> wake_inv (spawn t k) = wake_inv k"
  by (simp add: wake_inv_def ready_inv_def spawn_def)

lemmas wake_defs = wake_inv_def ready_inv_def kernel_basic_defs

lemma wake_other [simp]:
  "wake_inv (k\<lparr>freed_resource := n\<rparr>) = wake_inv k"
  "wake_inv (k\<lparr>finish_interrupted_process := n\<rparr>) = wake_inv k"
  "wake_inv (k\<lparr>executing_process := n\<rparr>) = wake_inv k"
  "wake_inv (k\<lparr>grd_mult := n\<rparr>) = wake_inv k"
  "wake_inv (k\<lparr>colas_BLOCKED := cs\<rparr>) = wake_inv k"
  "wake_inv (k\<lparr>lista_SLEEP := ps\<rparr>) = wake_inv k"
  "wake_inv (k\<lparr>lista_INTERRUPT := ps\<rparr>) = wake_inv k"
  "wake_inv (k\<lparr>cola_sleep_locked := b\<rparr>) = wake_inv k"
  "wake_inv (k\<lparr>cola_interrupt_locked := b\<rparr>) = wake_inv k"
  "wake_inv (k\<lparr>open_files_global_table := t\<rparr>) = wake_inv k"
  "wake_inv (k\<lparr>actual_grd_mult := d\<rparr>) = wake_inv k"
  "wake_inv (send m k) = wake_inv k"
  by (simp_all add: wake_defs)

lemma wake_spawn_other [simp]:
  "wake_inv (spawn t (k\<lparr>open_files_global_table := tab\<rparr>)) = wake_inv (spawn t k)"
  "wake_inv (spawn t (k\<lparr>sent := s\<rparr>)) = wake_inv (spawn t k)"
  "wake_inv (spawn t (k\<lparr>freed_resource := n\<rparr>)) = wake_inv (spawn t k)"
  "wake_inv (spawn t (k\<lparr>finish_interrupted_process := n\<rparr>)) = wake_inv (spawn t k)"
  "wake_inv (spawn t (k\<lparr>executing_process := n\<rparr>)) = wake_inv (spawn t k)"
  "wake_inv (spawn t (k\<lparr>colas_BLOCKED := cs\<rparr>)) = wake_inv (spawn t k)"
  by (simp_all add: wake_defs)

lemma wake_loop: "loop_of t = loop_of t' \<Longrightarrow> admitting t = admitting t' \<Longrightarrow>
    wake_inv (spawn t k) = wake_inv (spawn t' k)"
  by (simp add: wake_defs)

text \<open>The pieces of the steps.\<close>

lemma wake_ready [simp]: "wake_inv k \<Longrightarrow> wake_inv (agregar_pcb_a_cola_READY p k)"
  by (simp add: wake_defs)

lemma wake_spawn_ready: "wake_inv (spawn t k) \<Longrightarrow> wake_inv (spawn t (agregar_pcb_a_cola_READY p k))"
  by (simp add: wake_defs)

lemma wake_exec: "wake_inv (spawn t k) \<Longrightarrow> wake_inv (spawn t (modify_executing_process p k))"
  by (simp add: wake_defs)

lemma wake_leave: "wake_inv (spawn t k) \<Longrightarrow> wake_inv (spawn t (post_ready (destroy_executing_process k)))"
  by (simp add: wake_defs)

lemma wake_eliminar:
  assumes "eliminar_proceso itoa p k = Some k'"
  shows "wake_inv k' = wake_inv k" and "wake_inv (spawn t k') = wake_inv (spawn t k)"
  by (rule eliminar_frame[OF assms]; simp add: wake_defs)+

lemma wake_fold_ready: "wake_inv (spawn t k) \<Longrightarrow> wake_inv (spawn t (fold agregar_pcb_a_cola_READY ps k))"
  by (induction ps arbitrary: k) (simp_all add: wake_spawn_ready)

text \<open>
  A handler of the dispatcher leaves the queues of the planners served: the process goes on,
  or the short-term planner is posted; an exit is posted to its planner.
\<close>

definition served :: "kernel \<Rightarrow> kernel \<Rightarrow> bool" where
  "served k k' \<longleftrightarrow> working k' = working k \<and> lista_NEW k' = lista_NEW k \<and> process_in_new k' = process_in_new k
     \<and> (estado_EXEC k' = None \<longrightarrow> 0 < proceso_en_cola_ready k')
     \<and> length (lista_EXIT k') + process_in_exit k = length (lista_EXIT k) + process_in_exit k'
     \<and> thr loop_of (threads k') = thr loop_of (threads k)
     \<and> thr admitting (threads k') = thr admitting (threads k)"

lemma served_wake:
  "served k k' \<Longrightarrow> wake_inv (spawn (TRunning p) k) \<Longrightarrow> wake_inv (spawn TExecute k')"
  by (auto simp: served_def wake_inv_def ready_inv_def spawn_def)

lemmas served_defs = served_def kernel_basic_defs resume_executing_def

lemma served_locks [simp]: "served k (resume_executing p (set_locks name ls k))"
  using set_locks_frame[of name ls k] by (auto simp: served_defs)

lemma served_block:
  "loop_of (mk (p\<lparr>estado := BLOCKED\<rparr>)) = [] \<Longrightarrow> admitting (mk (p\<lparr>estado := BLOCKED\<rparr>)) = [] \<Longrightarrow>
     served k (block_executing p mk k)"
  by (simp add: served_defs)

lemma served_exit [simp]: "served k (send_to_exit p m (destroy_executing_process k))"
  by (simp add: served_defs)

lemma served_message: "served (k\<lparr>open_files_global_table := t, sent := s\<rparr>) k' = served k k'"
  by (simp add: served_def)

lemma served_open:
  assumes "estado_EXEC k \<noteq> None" and "f_open d p k = Some k'"
  shows "served k k'"
proof -
  let ?p = "p\<lparr>open_files := open_files p @ [\<lparr>openf_file = fo_file_name d, seek = 0\<rparr>]\<rparr>"
  obtain t s where o: "open_entry (fo_file_name d) ?p k = k\<lparr>open_files_global_table := t, sent := s\<rparr>"
    using open_entry_frame by blast
  have "served (k\<lparr>open_files_global_table := t, sent := s\<rparr>) k'"
    using assms by (auto simp: f_open_def o Let_def served_block split: if_splits)
  then show ?thesis by (simp only: served_message)
qed

lemma served_resource:
  assumes "resource_call op p k = Some k'" and "\<And>r k'. op r p k = Some k' \<Longrightarrow> served k k'"
  shows "served k k'"
  using assms by (auto simp: resource_call_def split: params.splits if_splits)

lemma served_wait: "wait_instance_of_resource itoa r p k = Some k' \<Longrightarrow> served k k'"
  by (auto simp: wait_instance_of_resource_def set_block_def served_defs split: option.splits if_splits)

lemma served_signal: "signal_instance_of_resource itoa r p k = Some k' \<Longrightarrow> served k k'"
  by (auto simp: signal_instance_of_resource_def set_block_def served_defs split: option.splits if_splits)

lemma execute_switch_served:
  assumes "estado_EXEC k \<noteq> None" and "execute_switch env p k = Some k'"
  shows "served k k'"
proof (cases "instruccion p")
  case WAIT
  with assms show ?thesis by (auto simp: execute_switch_def intro: served_resource served_wait split: if_splits)
next
  case SIGNAL
  with assms show ?thesis by (auto simp: execute_switch_def intro: served_resource served_signal split: if_splits)
next
  case FSEEK
  with assms show ?thesis
    by (auto simp: execute_switch_def f_seek_def served_defs split: params.splits option.splits)
next
  case FCLOSE
  with assms show ?thesis
    by (auto simp: execute_switch_def f_close_def bind_eq_Some_conv split: params.splits option.splits prod.splits)
next
  case FTRUNCATE
  with assms show ?thesis
    by (auto simp: execute_switch_def f_truncate_def bind_eq_Some_conv served_defs split: params.splits)
next
  case FWRITE
  with assms show ?thesis
    by (auto simp: execute_switch_def f_write_def bind_eq_Some_conv served_block split: params.splits if_splits)
qed (use assms in \<open>auto simp: execute_switch_def f_read_def interrupt_process_def manage_page_fault_def
    served_open split: params.splits\<close>, (auto simp: served_defs)?)

section \<open>Steps of the threads\<close>

lemma wake_long: "wake_inv (spawn TLong k) \<Longrightarrow> planificador_largo_plazo k = Runs k' \<Longrightarrow> wake_inv k'"
  by (auto simp: planificador_largo_plazo_def Let_def wake_defs split: if_splits)

lemma wake_admit: "wake_inv (spawn TAdmit k) \<Longrightarrow> admitir_proceso k = Runs k' \<Longrightarrow> wake_inv k'"
  by (cases "lista_NEW k")
    (auto simp: admitir_proceso_def list_remove_first_def Let_def wake_defs split: if_splits)

lemma wake_exit:
  assumes "wake_inv (spawn TExit k)" and "atender_procesos_en_EXIT env k = Runs k'"
  shows "wake_inv k'"
proof -
  have w: "working k" using assms(1) by (simp add: wake_inv_def spawn_def)
  have one: "wake_inv (spawn TExit (k\<lparr>process_in_exit := process_in_exit k - Suc 0, lista_EXIT := ps\<rparr>))"
    if "lista_EXIT k = p # ps" for p ps
    using assms(1) that by (auto simp: wake_defs)
  have none: "wake_inv (spawn TExit (k\<lparr>process_in_exit := process_in_exit k - Suc 0\<rparr>))"
    if "lista_EXIT k = []"
    using assms(1) that by (auto simp: wake_defs)
  show ?thesis
    using assms(2) w one none
    by (auto simp: atender_procesos_en_EXIT_def list_remove_first_def Let_def wake_eliminar
        split: if_splits list.splits)
qed

lemma wake_fifo: "wake_inv (spawn TFifo k) \<Longrightarrow> planificador_fifo k = Runs k' \<Longrightarrow> wake_inv k'"
  by (auto simp: planificador_fifo_def execute_first_ready_def Let_def wake_defs
      split: if_splits option.splits list.splits)

lemma wake_rr: "wake_inv (spawn TRr k) \<Longrightarrow> planificador_rr k = Runs k' \<Longrightarrow> wake_inv k'"
  by (auto simp: planificador_rr_def execute_first_ready_def Let_def wake_defs
      split: if_splits option.splits list.splits)

lemma wake_prioridades:
  "wake_inv (spawn TPrioridades k) \<Longrightarrow> planificador_prioridades env k = Runs k' \<Longrightarrow> wake_inv k'"
  by (auto simp: planificador_prioridades_def execute_first_ready_def interrupt_sends Let_def wake_defs
      split: if_splits option.splits list.splits)

lemma wake_quantum: "wake_inv (spawn (TQuantum i) k) \<Longrightarrow> quantum_checker i k = Runs k' \<Longrightarrow> wake_inv k'"
  by (auto simp: quantum_checker_def interrupt_sends split: if_splits option.splits)

lemma wake_execute: "wake_inv (spawn TExecute k) \<Longrightarrow> execute_process k = Runs k' \<Longrightarrow> wake_inv k'"
  by (auto simp: execute_process_def Let_def wake_defs split: if_splits option.splits)

lemma wake_interrupted_enter:
  "wake_inv (spawn (TInterrupted p) k) \<Longrightarrow> treat_interrupted_enter p k = Runs k' \<Longrightarrow> wake_inv k'"
  by (auto simp: treat_interrupted_enter_def set_list_def Let_def split: if_splits)

lemma wake_interrupted_leave:
  "wake_inv (spawn (TSleeping i s) k) \<Longrightarrow> treat_interrupted_leave env i s k = Runs k' \<Longrightarrow> wake_inv k'"
  by (auto simp: treat_interrupted_leave_def set_list_def Let_def wake_eliminar
      split: if_splits prod.splits option.splits)

lemma wake_page_fault:
  "wake_inv (spawn (TPageFault p) k) \<Longrightarrow> treat_page_fault p k = Runs k' \<Longrightarrow> wake_inv k'"
  by (auto simp: treat_page_fault_def split: if_splits params.splits)

lemma wake_page_reply:
  "wake_inv (spawn (TPageWait i) k) \<Longrightarrow> treat_page_fault_reply i k = Runs k' \<Longrightarrow> wake_inv k'"
  by (auto simp: treat_page_fault_reply_def split: if_splits prod.splits option.splits)

lemma wake_fs: "wake_inv (spawn (TFsCall p c) k) \<Longrightarrow> treat_fs_function p c k = Some k' \<Longrightarrow> wake_inv k'"
  by (auto simp: treat_fs_function_def Let_def split: if_splits params.splits)

lemma wake_set_locks [simp]: "wake_inv (set_locks name ls k) = wake_inv k"
  using set_locks_frame[of name ls k] by auto

lemma wake_lock_queued:
  "wake_inv (spawn (TLockQueued p name w) k) \<Longrightarrow> wake_lock_waiter p name w k = Some k' \<Longrightarrow> wake_inv k'"
  by (auto simp: wake_lock_waiter_def split: option.splits)

lemma wake_finalizar_executing:
  "wake_inv (spawn (TFinalize i) k) \<Longrightarrow> finalizar_executing env k = Runs k' \<Longrightarrow> wake_inv k'"
  by (auto simp: finalizar_executing_def Let_def wake_defs elim!: eliminar_frame
      split: if_splits option.splits)

lemma wake_unblock:
  assumes "wake_inv (spawn TUnblock k)"
  shows "wake_inv (spawn TUnblock (unblock_processes itoa k))"
  unfolding unblock_processes_def Let_def by (rule wake_fold_ready) (use assms in simp)

lemma wake_unblock_loop:
  "wake_inv (spawn TUnblock k) \<Longrightarrow> unblock_loop env k = Runs k' \<Longrightarrow> wake_inv k'"
  using wake_unblock[of "k\<lparr>freed_resource := freed_resource k - 1\<rparr>" "string_itoa env"]
  by (auto simp: unblock_loop_def Let_def wake_defs split: if_splits)

lemma wake_reply:
  assumes "wake_inv (spawn (TRunning p) k)" and "estado_EXEC k \<noteq> None"
    and "execute_reply env q k = Runs k'"
  shows "wake_inv k'"
proof -
  obtain k1 where "execute_switch env q k = Some k1" and k': "k' = spawn TExecute k1"
    using assms(3) by (auto simp: execute_reply_def)
  then have "served k k1" using execute_switch_served[OF assms(2)] by blast
  then show ?thesis unfolding k' using assms(1) by (rule served_wake)
qed

lemma dispatched_executes:
  "dispatch_inv (spawn (TRunning p) k) \<Longrightarrow> estado_EXEC k = Some p"
  by (simp add: dispatch_inv_def spawn_def)

lemma wake_thread_step:
  assumes inv: "wake_inv (spawn t k)" and d: "dispatch_inv (spawn t k)"
    and r: "thread_step env q t k = Runs k'"
  shows "wake_inv k'"
proof (cases t)
  case (TRunning p)
  then show ?thesis
    using wake_reply dispatched_executes assms by (metis option.distinct(1) thread_step.simps(8))
next
  case (TLockQueued p name w)
  with inv r show ?thesis by (auto intro: wake_lock_queued split: option.splits)
qed (use inv r in \<open>auto intro: wake_long wake_admit wake_exit wake_fifo wake_rr wake_prioridades
    wake_quantum wake_execute wake_interrupted_enter wake_interrupted_leave wake_page_fault
    wake_page_reply wake_fs wake_finalizar_executing wake_unblock_loop
    simp: wait_grd_mlt_def enqueue_lock_def split: if_splits\<close>)

section \<open>Commands of the console\<close>

lemma wake_iniciar: "wake_inv k \<Longrightarrow> wake_inv (iniciar_proceso src tam prio k)"
  by (simp add: iniciar_proceso_def Let_def wake_defs)

lemma wake_finalizar_blocked:
  "finalizar_blocked env i rs k = Some k' \<Longrightarrow> wake_inv k' = wake_inv k"
proof (induction env i rs k rule: finalizar_blocked.induct)
  case (2 env i r rs k)
  then show ?case
    by (auto simp: set_block_def wake_eliminar split: option.splits prod.splits)
qed simp

lemma wake_finalizar_waiting:
  "wake_inv k \<Longrightarrow> finalizar_waiting env i k = Runs k' \<Longrightarrow> wake_inv k'"
  by (auto simp: finalizar_waiting_def wake_finalizar_blocked split: if_splits)

lemma wake_finalizar:
  assumes inv: "wake_inv k" and r: "finalizar_proceso env i k = Runs k'"
  shows "wake_inv k'"
proof -
  have new: "wake_inv (k\<lparr>lista_NEW := ps\<rparr>)"
    if "list_remove_by_condition (\<lambda>p. pid p = i) (lista_NEW k) = (Some p, ps)" for p ps
    using inv remove_ms[OF that] by (simp add: wake_defs)
  have ready: "wake_inv (k\<lparr>lista_READY := ps\<rparr>)"
    if "list_remove_by_condition (\<lambda>p. pid p = i) (lista_READY k) = (Some p, ps)" for p ps
    using inv remove_ms[OF that] by (auto simp: wake_defs)
  have exit: "wake_inv (k\<lparr>lista_EXIT := ps\<rparr>)"
    if "list_remove_by_condition (\<lambda>p. pid p = i) (lista_EXIT k) = (Some p, ps)" for p ps
    using inv remove_ms[OF that] by (simp add: wake_defs)
  have exec: "wake_inv k1" if "interrupt_finish_executing_process k = Some k1" for k1
    using that inv by (auto simp: interrupt_finish_executing_process_def split: option.splits)
  note parts = wake_finalizar_waiting[OF inv] exec wake_eliminar new ready exit
  show ?thesis
    using r by (auto simp: finalizar_proceso_def parts split: if_splits prod.splits option.splits)
qed

lemma wake_multiprogramacion: "wake_inv k \<Longrightarrow> wake_inv (cambiar_grado_multiprogramacion addr valor k)"
  by (auto simp: cambiar_grado_multiprogramacion_def Let_def wake_defs)

end
