(* ===== verification/Scheduler_Props.thy ===== *)
theory Scheduler_Props
  imports Scheduler_Live
begin

text \<open>
  What holds in every state the kernel can reach, and what a step of the planners does. The
  runs considered are all interleavings of the threads and of the lines of the console; the
  theorems on the CPU and on wake-ups exclude \<open>DETENER_PLANIFICACION\<close>, and
  \<open>pause_resume_double_dispatch\<close> shows that they must.
\<close>

section \<open>Reachable states\<close>

definition command_word :: "label \<Rightarrow> string" where
  "command_word l = (case l of LConsole _ (c # _) \<Rightarrow> c | _ \<Rightarrow> [])"

text \<open>Runs without a pause and with fewer than 2^32 processes.\<close>

definition uninterrupted :: "label \<Rightarrow> kernel \<Rightarrow> bool" where
  "uninterrupted l k \<longleftrightarrow> command_word l \<noteq> ''DETENER_PLANIFICACION''
     \<and> (command_word l = ''INICIAR_PROCESO'' \<longrightarrow> sig_PID k \<noteq> - 1)"

definition fixed_grade :: "label \<Rightarrow> kernel \<Rightarrow> bool" where
  "fixed_grade l k \<longleftrightarrow> uninterrupted l k \<and> command_word l \<noteq> ''MULTIPROGRAMACION''"

definition any_run :: "label \<Rightarrow> kernel \<Rightarrow> bool" where
  "any_run l k \<longleftrightarrow> True"

definition kernel_inv :: "int \<Rightarrow> kernel \<Rightarrow> bool" where
  "kernel_inv d k \<longleftrightarrow> sched_inv d k \<and> wake_inv k"

lemma thread_step_inv:
  assumes min: "minimum_law env" and inv: "kernel_inv d k" and s: "kstep env k (LThread i q) k'"
  shows "kernel_inv d k'"
proof -
  from s have i: "i < length (threads k)"
    and r: "thread_step env q (threads k ! i) (remove_thread i k) = Runs k'"
    and cpu: "\<And>p. threads k ! i = TRunning p \<Longrightarrow> pid q = pid p"
    by (auto simp: kstep_iff cpu_answers_def split: if_splits)
  have at: "sched_inv d (spawn (threads k ! i) (remove_thread i k))"
    "wake_inv (spawn (threads k ! i) (remove_thread i k))"
    using inv sched_inv_at[OF i] wake_inv_at[OF i] by (simp_all add: kernel_inv_def)
  then show ?thesis
    using sched_thread_step[OF min at(1) cpu r] wake_thread_step[OF at(2) sched_invD(4)[OF at(1)] r]
    by (simp add: kernel_inv_def)
qed

lemma word_at_0 [simp]: "word_at (c # cs) 0 = Some c"
  by (simp add: word_at_def)

lemma console_inv:
  assumes inv: "kernel_inv d k" and l: "uninterrupted (LConsole addr ws) k"
    and r: "consola_interactiva env addr ws k = Runs k'"
  shows "(kernel_inv d k' \<or> (\<exists>s. k' = cambiar_grado_multiprogramacion addr s k
     \<and> command_word (LConsole addr ws) = ''MULTIPROGRAMACION''))"
proof -
  obtain c cs where ws: "ws = c # cs"
    using r by (cases ws) (auto simp: consola_interactiva_def word_at_def)
  have inv': "sched_inv d k" "wake_inv k" "working k"
    using inv by (simp_all add: kernel_inv_def wake_inv_def)
  have nodet: "c \<noteq> ''DETENER_PLANIFICACION''"
    using l by (simp add: uninterrupted_def command_word_def ws)
  consider "c = ''INICIAR_PROCESO''" | "c = ''FINALIZAR_PROCESO''" | "c = ''MULTIPROGRAMACION''"
    | "c \<notin> {''INICIAR_PROCESO'', ''FINALIZAR_PROCESO'', ''MULTIPROGRAMACION''}" by blast
  then show ?thesis
  proof cases
    case 1
    then have "sig_PID k \<noteq> - 1" using l by (simp add: uninterrupted_def command_word_def ws)
    then show ?thesis
      using r 1 inv' by (auto simp: consola_interactiva_def ws kernel_inv_def sched_iniciar wake_iniciar
          split: option.splits)
  next
    case 2
    then show ?thesis
      using r inv' sched_finalizar wake_finalizar
      by (auto simp: consola_interactiva_def ws kernel_inv_def split: option.splits)
  next
    case 3
    then show ?thesis
      using r by (auto simp: consola_interactiva_def ws command_word_def ws split: option.splits)
  next
    case 4
    then show ?thesis
      using r inv' nodet
      by (auto simp: consola_interactiva_def ws kernel_inv_def iniciar_planificacion_def lock_list_copies_def
          split: if_splits)
  qed
qed

lemma kernel_inv_step:
  assumes "minimum_law env" and inv: "kernel_inv d k" and l: "uninterrupted l k" and s: "kstep env k l k'"
  shows "\<exists>d'. kernel_inv d' k' \<and> (fixed_grade l k \<longrightarrow> d' = d)"
proof (cases l)
  case (LThread i q)
  then show ?thesis using thread_step_inv assms by blast
next
  case (LConsole addr ws)
  then have r: "consola_interactiva env addr ws k = Runs k'"
    using s by (simp add: kstep_iff split: if_splits)
  from console_inv[OF inv l[unfolded LConsole] r] show ?thesis
  proof
    assume "kernel_inv d k'"
    then show ?thesis by blast
  next
    assume m: "\<exists>v. k' = cambiar_grado_multiprogramacion addr v k
      \<and> command_word (LConsole addr ws) = ''MULTIPROGRAMACION''"
    then obtain v where "k' = cambiar_grado_multiprogramacion addr v k" by blast
    then have "\<exists>d'. kernel_inv d' k'"
      using inv sched_multiprogramacion wake_multiprogramacion unfolding kernel_inv_def by blast
    with m LConsole show ?thesis by (simp add: fixed_grade_def)
  qed
qed

section \<open>The initial state\<close>

lemma init_resources_blocked:
  "init_resources rs ns cs = Some cs' \<Longrightarrow> blocked_pids cs = [] \<Longrightarrow> blocked_pids cs' = []"
proof (induction rs ns cs rule: init_resources.induct)
  case (3 r rs n ns cs)
  have "blocked_pids (put_block r \<lparr>instances = atoi n, pids = Map.empty, blocked_list = []\<rparr> cs) = []"
    using 3(3) by (auto simp: blocked_pids_def dest!: set_put_block)
  with 3 show ?case by simp
qed simp_all

definition planner_thread :: "env \<Rightarrow> thread option" where
  "planner_thread env = (if algoritmo env = ''FIFO'' then Some TFifo
     else if algoritmo env = ''RR'' then Some TRr
     else if algoritmo env = ''PRIORIDADES'' then Some TPrioridades else None)"

lemma kernel_start_inv:
  assumes s: "kernel_start env rs ns g = Some k" and g: "0 \<le> g" and alg: "planner_thread env \<noteq> None"
  shows "kernel_inv g k"
proof -
  obtain cs where cs: "init_resources rs ns [] = Some cs"
    using s by (auto simp: kernel_start_def iniciar_estructuras_planificadores_def bind_eq_Some_conv)
  then have "blocked_pids cs = []" using init_resources_blocked by (force simp: blocked_pids_def)
  then show ?thesis
    using s cs g alg
    by (auto simp: kernel_start_def iniciar_estructuras_planificadores_def iniciar_planificador_corto_plazo_def
        iniciar_planificador_largo_plazo_def kernel_inv_def sched_inv_def places_inv_def sleep_inv_def
        dispatch_inv_def measure_defs blocked_ms_def wake_defs empty_kernel_def planner_thread_def Let_def
        split: if_splits)
qed

lemma reach_inv:
  assumes "kernel_start env rs ns g = Some k0" and "0 \<le> g" and "planner_thread env \<noteq> None"
    and min: "minimum_law env" and "kreach env uninterrupted k0 k"
  shows "\<exists>d. kernel_inv d k"
proof (rule kreach_invariant[OF assms(5), where I = "\<lambda>k. \<exists>d. kernel_inv d k"])
  show "\<exists>d. kernel_inv d k0" using kernel_start_inv[OF assms(1-3)] by blast
qed (use kernel_inv_step[OF min] in blast)

lemma reach_fixed_inv:
  assumes "kernel_start env rs ns g = Some k0" and "0 \<le> g" and "planner_thread env \<noteq> None"
    and min: "minimum_law env" and "kreach env fixed_grade k0 k"
  shows "kernel_inv g k"
proof (rule kreach_invariant[OF assms(5)])
  show "kernel_inv g k0" using kernel_start_inv[OF assms(1-3)] by blast
qed (use kernel_inv_step[OF min] in \<open>fastforce simp: fixed_grade_def\<close>)

section \<open>Properties of all reachable states\<close>

lemma running_is_only:
  assumes d: "dispatch_inv k" and run: "TRunning p \<in> set (threads k)"
  shows "estado_EXEC k = Some p \<and> executing_process k = 0
     \<and> length (filter (\<lambda>t. dispatched t \<noteq> []) (threads k)) = 1"
proof -
  have "p \<in># thr dispatched (threads k)" using run by (force simp: thr_def)
  moreover have "msize (thr dispatched ts) = length (filter (\<lambda>t. dispatched t \<noteq> []) ts)" for ts
  proof (induction ts)
    case (Cons t ts)
    then show ?case by (cases t) simp_all
  qed simp
  moreover have "0 < msize (thr dispatched (threads k))"
    using calculation(1) by (metis gr_zeroI size_eq_0_iff_empty empty_iff set_mset_empty)
  moreover have "estado_EXEC k = Some p"
    and "msize (thr dispatched (threads k)) + executing_process k + finish_interrupted_process k \<le> 1"
    using d calculation(1) by (auto simp: dispatch_inv_def split: if_splits)
  ultimately show ?thesis by (metis One_nat_def Suc_leI add_is_0 add_leE le_antisym le_add_diff_inverse nat_add_left_cancel_le le_zero_eq)
qed

text \<open>
  C14. The CPU runs one process. In every reachable state of a run without \<open>DETENER_PLANIFICACION\<close>
  and with fewer than 2^32 processes, at most one
  thread waits for the CPU, the process it sent is the executing one, and while it waits the
  dispatcher has no further order to send a process. (After a pause it does not hold:
  \<open>pause_resume_double_dispatch\<close>.)
\<close>

theorem cpu_runs_one_process:
  assumes "kernel_start env rs ns g = Some k0" and "0 \<le> g" and "planner_thread env \<noteq> None"
    and "minimum_law env" and "kreach env uninterrupted k0 k"
    and "TRunning p \<in> set (threads k)"
  shows "estado_EXEC k = Some p \<and> executing_process k = 0
     \<and> length (filter (\<lambda>t. dispatched t \<noteq> []) (threads k)) = 1"
proof -
  obtain d where "kernel_inv d k" using reach_inv[OF assms(1-5)] by blast
  then show ?thesis using running_is_only[OF _ assms(6)] by (simp add: kernel_inv_def sched_inv_def)
qed

text \<open>
  C15. The scheduler does not stall. In every reachable state of a run without \<open>DETENER_PLANIFICACION\<close>
  and with fewer than 2^32 processes in which
  the CPU is free and a process is ready, the thread of the short-term planner can take a step
  and with it some ready process becomes the executing one.
\<close>

theorem ready_process_is_dispatched:
  assumes "kernel_start env rs ns g = Some k0" and "0 \<le> g" and "planner_thread env \<noteq> None"
    and "minimum_law env" and "kreach env uninterrupted k0 k"
    and free: "estado_EXEC k = None" and ready: "lista_READY k \<noteq> []"
  shows "\<exists>i k' e. kstep env k (LThread i q) k' \<and> estado_EXEC k' = Some e \<and> estado e = EXEC
     \<and> pid e \<in> pid ` set (lista_READY k)"
proof -
  obtain d where "kernel_inv d k" using reach_inv[OF assms(1-5)] by blast
  then have w: "wake_inv k" by (simp add: kernel_inv_def)
  then have sem: "0 < proceso_en_cola_ready k" "working k"
    using free ready by (simp_all add: wake_inv_def ready_inv_def)
  have "2 \<in># thr loop_of (threads k)" using w by (simp add: wake_inv_def)
  then obtain t where "t \<in> set (threads k)" "2 \<in> set (loop_of t)" by (auto simp: thr_def)
  then obtain i where i: "i < length (threads k)" and t: "2 \<in> set (loop_of (threads k ! i))"
    by (metis in_set_conv_nth)
  obtain p ps where ps: "lista_READY k = p # ps" using ready by (cases "lista_READY k") auto
  let ?m = "list_get_minimum env min_priority (lista_READY k)"
  have m: "?m \<in> set (lista_READY k)" using assms(4) ready by (simp add: minimum_law_def)
  have "\<exists>k'. thread_step env q (threads k ! i) (remove_thread i k) = Runs k'
      \<and> (estado_EXEC k' = Some (p\<lparr>estado := EXEC\<rparr>) \<or> estado_EXEC k' = Some (?m\<lparr>estado := EXEC\<rparr>))"
    using t free sem ps
    by (cases "threads k ! i")
      (auto simp: planificador_fifo_def planificador_rr_def planificador_prioridades_def Let_def
        remove_thread_def spawn_def execute_first_ready_def execute_ready_process_def post_executing_def)
  then obtain k' where r: "thread_step env q (threads k ! i) (remove_thread i k) = Runs k'"
    and e: "estado_EXEC k' = Some (p\<lparr>estado := EXEC\<rparr>) \<or> estado_EXEC k' = Some (?m\<lparr>estado := EXEC\<rparr>)"
    by blast
  have "kstep env k (LThread i q) k'"
    using r i t by (cases "threads k ! i") (auto simp: kstep_iff cpu_answers_def)
  moreover have "p \<in> set (lista_READY k)" by (simp add: ps)
  ultimately show ?thesis using e m
    by (auto intro!: exI[of _ i] exI[of _ k'])
qed

end
