(* ===== verification/Scheduler_Res.thy ===== *)
theory Scheduler_Res
  imports Scheduler_Props
begin

text \<open>
  The accounts of the resources and the lock queues of the files over whole runs, pauses of
  the scheduler included: the per-operation theorems of \<open>Resources\<close> and \<open>Locks\<close> lifted to
  every interleaving of the kernel.
\<close>

section \<open>What every run keeps of a lock queue\<close>

text \<open>
  The invariant of the queue, and where the posts are: none on a lock that is not in force, at most one
  on a write lock.
\<close>

definition lock_waits :: "t_lock \<Rightarrow> bool" where
  "lock_waits l \<longleftrightarrow> is_blocked l \<and> write_locked l = 0"

definition lock_kept :: "t_lock \<Rightarrow> bool" where
  "lock_kept l \<longleftrightarrow> participants l \<noteq> [] \<and> (is_write_lock l \<longrightarrow> length (participants l) = 1 \<and> write_locked l \<le> 1)"

definition locks_safe :: "t_lock list \<Rightarrow> bool" where
  "locks_safe ls \<longleftrightarrow> list_all lock_kept ls \<and> length (read_locks ls) \<le> 1 \<and> list_all lock_waits (tl ls)"

lemma safe_Nil [simp]: "locks_safe []"
  by (simp add: locks_safe_def read_locks_def)

lemma safe_Cons:
  "locks_safe (l # ls) \<longleftrightarrow> lock_kept l \<and> list_all (\<lambda>l. lock_kept l \<and> lock_waits l) ls
     \<and> length (read_locks (l # ls)) \<le> 1"
  by (auto simp: locks_safe_def list_all_iff)

lemma safe_wake_next: "locks_safe ls \<Longrightarrow> locks_safe (wake_next (tl ls))"
  by (cases ls; cases "tl ls")
    (auto simp: safe_Cons lock_kept_def lock_waits_def read_locks_def split: if_splits)

lemma add_read_lock_all:
  "(\<And>l. P l \<Longrightarrow> \<not> is_write_lock l \<Longrightarrow> P (l\<lparr>participants := participants l @ [p], is_blocked := b\<rparr>)) \<Longrightarrow>
     P (create_lock p False b) \<Longrightarrow> list_all P ls \<Longrightarrow> list_all P (add_read_lock p b ls)"
  by (induction ls) auto

lemma safe_add_read:
  assumes s: "locks_safe ls" and b: "b \<or> \<not> read_must_wait ls"
  shows "locks_safe (add_read_lock p b ls)"
proof -
  have w: "list_all lock_kept (add_read_lock p b ls)"
    using s by (intro add_read_lock_all) (auto simp: locks_safe_def lock_kept_def create_lock_def)
  have r: "length (read_locks (add_read_lock p b ls)) \<le> 1"
    using s add_read_lock_reads[of ls p b] by (simp add: locks_safe_def)
  have t: "list_all lock_waits (tl (add_read_lock p b ls))"
  proof (cases "ls = [] \<or> \<not> is_write_lock (hd ls)")
    case True
    then show ?thesis using s by (cases ls) (auto simp: locks_safe_def)
  next
    case False
    then obtain l ls' where ls: "ls = l # ls'" "is_write_lock l" by (cases ls) auto
    then have "b" using b by (simp add: read_must_wait_def)
    then have "list_all lock_waits (add_read_lock p b ls')"
      using s ls by (intro add_read_lock_all) (auto simp: locks_safe_def lock_waits_def create_lock_def)
    then show ?thesis using ls by simp
  qed
  show ?thesis using w r t by (simp add: locks_safe_def)
qed

lemma safe_add_write:
  assumes "locks_safe ls" and "b \<or> \<not> write_must_wait ls"
  shows "locks_safe (add_write_lock p b ls)"
  using assms by (cases ls) (auto simp: locks_safe_def lock_defs lock_kept_def lock_waits_def)

lemma safe_update:
  assumes "locks_safe ls" and i: "i < length ls" and "\<not> is_write_lock (ls ! i)" and "ps \<noteq> []"
  shows "locks_safe (ls[i := (ls ! i)\<lparr>participants := ps\<rparr>])"
proof -
  let ?l = "(ls ! i)\<lparr>participants := ps\<rparr>"
  have "length (read_locks xs) = length (filter (\<lambda>b. \<not> b) (map is_write_lock xs))" for xs
    by (simp add: read_locks_def filter_map comp_def)
  moreover have "map is_write_lock (ls[i := ?l]) = map is_write_lock ls"
    by (simp add: map_update list_update_same_conv i)
  moreover have "map lock_waits (tl (ls[i := ?l])) = map lock_waits (tl ls)"
    using i by (cases i; cases ls) (auto simp: map_update list_update_same_conv lock_waits_def)
  moreover have "list_all P (tl xs) = list_all id (map P (tl xs))" for P :: "t_lock \<Rightarrow> bool" and xs
    by (simp add: list.pred_map)
  moreover have "list_all lock_kept (ls[i := ?l])"
    using assms by (auto simp: locks_safe_def list_all_iff lock_kept_def dest!: set_update_subset_insert[THEN subsetD])
  ultimately show ?thesis using assms(1) unfolding locks_safe_def by metis
qed

lemma safe_release: "release_lock i ls = Some ls' \<Longrightarrow> locks_safe ls \<Longrightarrow> locks_safe ls'"
  by (auto simp: release_lock_def safe_wake_next split: if_splits)

lemma release_update: "release_lock i (ls[i := l]) = release_lock i ls"
  by (cases ls) (simp_all add: release_lock_def)

lemma safe_close:
  assumes "locks_safe ls" and "i < length ls" and "close_lock p i ls = Some ls'"
  shows "locks_safe ls'"
  using assms(3) safe_release[OF _ assms(1)] safe_update[OF assms(1,2), of "remove_pid p (participants (ls ! i))"]
  by (auto simp: close_lock_def Let_def release_update split: if_splits)

text \<open>A semaphore of the queue can only be taken from the lock in force, by one of its participants.\<close>

lemma sem_wait_unposted: "list_all lock_waits ls \<Longrightarrow> sem_wait_lock p w ls = None"
  by (induction ls) (auto simp: lock_waits_def)

lemma sem_wait_head:
  assumes "locks_safe ls" and "sem_wait_lock p w ls = Some ls'"
  shows "write_held ls = w \<and> p \<in> set (holders ls) \<and> 0 < write_locked (hd ls)
     \<and> ls' = (hd ls)\<lparr>write_locked := write_locked (hd ls) - 1\<rparr> # tl ls"
  using assms by (cases ls) (auto simp: locks_safe_def sem_wait_unposted lock_defs split: if_splits)

lemma sem_wait_safe: "sem_wait_lock p w ls = Some ls' \<Longrightarrow> locks_safe ls \<Longrightarrow> locks_safe ls'"
  using sem_wait_head[of ls p w ls']
  by (cases ls) (auto simp: safe_Cons lock_kept_def read_locks_def)


definition open_table_safe :: "(string \<rightharpoonup> t_open_file) \<Rightarrow> bool" where
  "open_table_safe t \<longleftrightarrow> (\<forall>name f. t name = Some f \<longrightarrow> locks_safe (locks f))"

section \<open>The invariant\<close>

definition res_inv :: "(string \<times> int) list \<Rightarrow> kernel \<Rightarrow> bool" where
  "res_inv T k \<longleftrightarrow> unit_table (colas_BLOCKED k) = T \<and> blocks_ok (colas_BLOCKED k) \<and> open_table_safe (open_files_global_table k)"

lemma res_inv_cong:
  "colas_BLOCKED k' = colas_BLOCKED k \<Longrightarrow> open_files_global_table k' = open_files_global_table k \<Longrightarrow>
     res_inv T k' = res_inv T k"
  by (simp add: res_inv_def)

lemma res_ready [simp]: "res_inv T (agregar_pcb_a_cola_READY p k) = res_inv T k"
  and res_spawn [simp]: "res_inv T (spawn t k) = res_inv T k"
  and res_send [simp]: "res_inv T (send m k) = res_inv T k"
  and res_exec [simp]: "res_inv T (execute_first_ready p ps k) = res_inv T k"
  and res_resume [simp]: "res_inv T (resume_executing p k) = res_inv T k"
  and res_block [simp]: "res_inv T (block_executing p mk k) = res_inv T k"
  and res_exit [simp]: "res_inv T (send_to_exit p e (destroy_executing_process k)) = res_inv T k"
  and res_list [simp]: "res_inv T (set_list s ps k) = res_inv T k"
  and res_post [simp]: "res_inv T (post_ready k) = res_inv T k"
  by (auto intro!: res_inv_cong simp: kernel_basic_defs execute_first_ready_def resume_executing_def set_list_def)

lemma res_fields [simp]:
  "res_inv T (k\<lparr>process_in_new := n\<rparr>) = res_inv T k"
  "res_inv T (k\<lparr>process_in_exit := n\<rparr>) = res_inv T k"
  "res_inv T (k\<lparr>proceso_en_cola_ready := n\<rparr>) = res_inv T k"
  "res_inv T (k\<lparr>executing_process := n\<rparr>) = res_inv T k"
  "res_inv T (k\<lparr>finish_interrupted_process := n\<rparr>) = res_inv T k"
  "res_inv T (k\<lparr>freed_resource := n\<rparr>) = res_inv T k"
  "res_inv T (k\<lparr>grd_mult := n\<rparr>) = res_inv T k"
  "res_inv T (k\<lparr>lista_NEW := ps\<rparr>) = res_inv T k"
  "res_inv T (k\<lparr>lista_READY := ps\<rparr>) = res_inv T k"
  "res_inv T (k\<lparr>lista_EXIT := ps\<rparr>) = res_inv T k"
  "res_inv T (k\<lparr>lista_SLEEP := ps\<rparr>) = res_inv T k"
  "res_inv T (k\<lparr>lista_INTERRUPT := ps\<rparr>) = res_inv T k"
  "res_inv T (k\<lparr>estado_EXEC := e\<rparr>) = res_inv T k"
  "res_inv T (k\<lparr>threads := ts\<rparr>) = res_inv T k"
  "res_inv T (k\<lparr>working := b\<rparr>) = res_inv T k"
  "res_inv T (k\<lparr>actual_grd_mult := g\<rparr>) = res_inv T k"
  "res_inv T (k\<lparr>cola_sleep_locked := b\<rparr>) = res_inv T k"
  "res_inv T (k\<lparr>cola_interrupt_locked := b\<rparr>) = res_inv T k"
  by (simp_all add: res_inv_def)


lemma res_locks: "res_inv T k \<Longrightarrow> locks_safe ls \<Longrightarrow> res_inv T (set_locks name ls k)"
  by (auto simp: res_inv_def set_locks_def open_table_safe_def split: option.splits)

lemma res_locks_of: "res_inv T k \<Longrightarrow> locks_safe (locks_of k name)"
  by (auto simp: res_inv_def locks_of_def open_table_safe_def split: option.splits)

lemma find_lock_index_bound: "find_lock_index p ls = Some i \<Longrightarrow> i < length ls"
  by (induction ls arbitrary: i) (auto split: if_splits)

lemma res_lookup: "res_inv T k \<Longrightarrow> open_files_global_table k name = Some f \<Longrightarrow> locks_safe (locks f)"
  by (simp add: res_inv_def open_table_safe_def)

lemma res_close_file: "close_file_of p name k = Some k' \<Longrightarrow> res_inv T k \<Longrightarrow> res_inv T k'"
  by (auto simp: close_file_of_def bind_eq_Some_conv
      intro!: res_locks dest: safe_close[OF res_lookup find_lock_index_bound])

lemma res_close_files: "close_files_of p fs k = Some k' \<Longrightarrow> res_inv T k \<Longrightarrow> res_inv T k'"
  by (induction p fs k rule: close_files_of.induct) (auto simp: res_close_file split: option.splits)

lemma res_accounts:
  "accounts_kept k k' \<Longrightarrow> open_files_global_table k' = open_files_global_table k \<Longrightarrow>
     res_inv T k \<Longrightarrow> res_inv T k'"
  by (simp add: res_inv_def accounts_kept_def)

lemma res_eliminar: "eliminar_proceso itoa p k = Some k' \<Longrightarrow> res_inv T k \<Longrightarrow> res_inv T k'"
proof -
  assume e: "eliminar_proceso itoa p k = Some k'" and inv: "res_inv T k"
  then obtain k1 where k1: "close_files_of (pid p) (open_files p) k = Some k1"
    "k' = free_all_instances itoa p (send (ToMemory FINISH_PROCESS p) k1)"
    by (auto simp: eliminar_proceso_def bind_eq_Some_conv)
  then have r: "res_inv T (send (ToMemory FINISH_PROCESS p) k1)" using res_close_files inv by simp
  then show ?thesis unfolding k1(2)
    by (intro res_accounts[OF free_accounts _ r]) (auto simp: res_inv_def free_all_instances_def)
qed

lemma fold_ready_table [simp]:
  "open_files_global_table (fold agregar_pcb_a_cola_READY ps k) = open_files_global_table k"
  by (simp add: fold_ready)

lemma res_unblock: "res_inv T k \<Longrightarrow> res_inv T (unblock_processes itoa k)"
  by (rule res_accounts[OF unblock_accounts]) (auto simp: res_inv_def unblock_processes_def Let_def)

section \<open>Steps\<close>

lemma res_wait: "wait_instance_of_resource itoa r p k = Some k' \<Longrightarrow> res_inv T k \<Longrightarrow> res_inv T k'"
  by (rule res_accounts[OF wait_accounts])
    (auto simp: res_inv_def wait_instance_of_resource_def kernel_basic_defs set_block_def
      split: option.splits if_splits)

lemma res_signal: "signal_instance_of_resource itoa r p k = Some k' \<Longrightarrow> res_inv T k \<Longrightarrow> res_inv T k'"
  by (rule res_accounts[OF signal_accounts])
    (auto simp: res_inv_def signal_instance_of_resource_def kernel_basic_defs set_block_def
      split: option.splits if_splits)

lemma res_open_entry: "res_inv T k \<Longrightarrow> res_inv T (open_entry name p k)"
  by (auto simp: res_inv_def open_entry_def send_def open_table_safe_def split: option.splits)

lemma res_open: "f_open d p k = Some k' \<Longrightarrow> res_inv T k \<Longrightarrow> res_inv T k'"
  using res_open_entry[of T k "fo_file_name d" "p\<lparr>open_files := open_files p @
      [\<lparr>openf_file = fo_file_name d, seek = 0\<rparr>]\<rparr>"]
  by (auto simp: f_open_def Let_def intro!: res_locks safe_add_read safe_add_write res_locks_of split: if_splits)

lemma safe_close_head: "close_head p ls = Some ls' \<Longrightarrow> locks_safe ls \<Longrightarrow> locks_safe ls'"
  by (auto simp: close_head_def intro: safe_close[of ls 0] split: if_splits)

lemma res_close: "f_close name p k = Some k' \<Longrightarrow> res_inv T k \<Longrightarrow> res_inv T k'"
  by (auto simp: f_close_def bind_eq_Some_conv intro!: res_locks dest: safe_close_head[OF _ res_lookup]
      split: option.splits prod.splits if_splits)

lemma res_truncate: "f_truncate c p k = Some k' \<Longrightarrow> res_inv T k \<Longrightarrow> res_inv T k'"
  by (auto simp: f_truncate_def bind_eq_Some_conv) (auto simp: res_inv_def open_table_safe_def)

lemma res_interrupt [simp]:
  "res_inv T (interrupt_process p (destroy_executing_process k)) = res_inv T k"
  "res_inv T (manage_page_fault p (destroy_executing_process k)) = res_inv T k"
  by (simp_all add: interrupt_process_def manage_page_fault_def destroy_executing_process_def)

lemma res_write: "f_write m p k = Some k' \<Longrightarrow> res_inv T k \<Longrightarrow> res_inv T k'"
  by (auto simp: f_write_def bind_eq_Some_conv split: if_splits)

lemma res_switch:
  assumes "execute_switch env p k = Some k'" and "res_inv T k"
  shows "res_inv T k'"
proof (cases "instruccion p")
  case FSEEK
  with assms show ?thesis by (auto simp: execute_switch_def f_seek_def split: params.splits option.splits if_splits)
qed (use assms in \<open>auto simp: execute_switch_def f_read_def resource_call_def
    split: params.splits if_splits intro: res_open res_close res_truncate res_write res_wait res_signal\<close>)

lemmas step_parts = planificador_largo_plazo_def admitir_proceso_def atender_procesos_en_EXIT_def
  planificador_fifo_def planificador_rr_def planificador_prioridades_def execute_process_def
  quantum_checker_def treat_interrupted_enter_def treat_interrupted_leave_def treat_page_fault_def
  treat_page_fault_reply_def wait_grd_mlt_def list_remove_first_def interrupt_sends

lemma res_thread_step:
  assumes r: "thread_step env q t k = Runs k'" and inv: "res_inv T k"
  shows "res_inv T k'"
proof (cases t)
  case (TRunning p)
  with r inv show ?thesis by (auto simp: execute_reply_def intro: res_switch)
next
  case TUnblock
  with r inv show ?thesis by (auto simp: unblock_loop_def Let_def res_unblock split: if_splits)
next
  case (TLockWait p name w)
  with r inv show ?thesis
    by (auto simp: enqueue_lock_def intro!: res_locks safe_add_read safe_add_write res_locks_of)
next
  case (TFsCall p c)
  with r inv show ?thesis by (auto simp: treat_fs_function_def Let_def split: if_splits params.splits)
next
  case (TFinalize i)
  with r inv show ?thesis
    by (auto simp: finalizar_executing_def Let_def dest!: res_eliminar split: if_splits option.splits)
next
  case (TLockQueued p name w)
  then obtain ls where "sem_wait_lock (pid p) w (locks_of k name) = Some ls"
    and k': "k' = agregar_pcb_a_cola_READY p (set_locks name ls k)"
    using r by (auto simp: wake_lock_waiter_def split: option.splits)
  then have "locks_safe ls" using inv res_locks_of sem_wait_safe by blast
  then show ?thesis using inv by (simp add: k' res_locks)
qed (use r inv in \<open>auto simp: step_parts Let_def res_eliminar split: if_splits option.splits list.splits
    prod.splits params.splits\<close>)

section \<open>Commands and runs\<close>

lemma blocks_ok_queue: "blocks_ok cs \<Longrightarrow> map_of cs r = Some b \<Longrightarrow> blocks_ok (put_block r (b\<lparr>blocked_list := ps\<rparr>) cs)"
  by (rule blocks_ok_put) (auto dest: blocks_ok_lookup)

lemma res_queue:
  "res_inv T k \<Longrightarrow> map_of (colas_BLOCKED k) r = Some b \<Longrightarrow> res_inv T (set_block r (b\<lparr>blocked_list := ps\<rparr>) k)"
  by (simp add: res_inv_def set_block_def blocks_ok_queue put_block_units)

lemma res_finalizar_blocked: "finalizar_blocked env i rs k = Some k' \<Longrightarrow> res_inv T k \<Longrightarrow> res_inv T k'"
proof (induction env i rs k rule: finalizar_blocked.induct)
  case (2 env i r rs k)
  show ?case
    using 2 by (auto simp: res_queue res_eliminar split: option.splits prod.splits)
qed simp

lemma res_finalizar: "finalizar_proceso env i k = Runs k' \<Longrightarrow> res_inv T k \<Longrightarrow> res_inv T k'"
  by (auto simp: finalizar_proceso_def finalizar_waiting_def interrupt_finish_executing_process_def
      res_eliminar res_finalizar_blocked split: if_splits prod.splits option.splits)

lemma res_iniciar [simp]: "res_inv T (iniciar_proceso src tam prio k) = res_inv T k"
  by (rule res_inv_cong) (simp_all add: iniciar_proceso_def Let_def kernel_basic_defs)

lemma res_planificacion [simp]:
  "res_inv T (iniciar_planificacion env k) = res_inv T k"
  "res_inv T (detener_planificacion k) = res_inv T k"
  "res_inv T (cambiar_grado_multiprogramacion addr s k) = res_inv T k"
  by (auto intro!: res_inv_cong simp: iniciar_planificacion_def iniciar_planificador_corto_plazo_def
      iniciar_planificador_largo_plazo_def spawn_def detener_planificacion_def post_all_def
      cambiar_grado_multiprogramacion_def Let_def)

lemma res_console: "consola_interactiva env addr ws k = Runs k' \<Longrightarrow> res_inv T k \<Longrightarrow> res_inv T k'"
  by (auto simp: consola_interactiva_def lock_list_copies_def res_finalizar split: option.splits if_splits)

lemma res_step:
  assumes "kstep env k l k'" and "res_inv T k"
  shows "res_inv T k'"
proof (cases l)
  case (LConsole addr ws)
  with assms show ?thesis by (auto simp: kstep_iff res_console split: if_splits)
next
  case (LThread i q)
  with assms have "thread_step env q (threads k ! i) (remove_thread i k) = Runs k'"
    by (auto simp: kstep_iff split: if_splits)
  moreover have "res_inv T (remove_thread i k)" using assms(2) by (simp add: remove_thread_def)
  ultimately show ?thesis by (rule res_thread_step)
qed

lemma res_reach: "kreach env P k0 k \<Longrightarrow> res_inv T k0 \<Longrightarrow> res_inv T k"
  by (induction rule: kreach.induct) (auto intro: res_step)

lemma put_block_keys:
  "map fst (put_block r b cs) = (if r \<in> set (map fst cs) then map fst cs else map fst cs @ [r])"
  by (induction r b cs rule: put_block.induct) auto

lemma put_block_distinct: "distinct (map fst cs) \<Longrightarrow> distinct (map fst (put_block r b cs))"
  by (simp add: put_block_keys)

lemma blocks_ok_new:
  "blocks_ok cs \<Longrightarrow> 0 \<le> n \<Longrightarrow> blocks_ok (put_block r \<lparr>instances = n, pids = Map.empty, blocked_list = []\<rparr> cs)"
  by (auto simp: blocks_ok_def block_ok_def put_block_distinct dest!: set_put_block)

lemma init_resources_ok:
  "init_resources rs ns cs = Some cs' \<Longrightarrow> blocks_ok cs \<Longrightarrow> list_all (\<lambda>n. 0 \<le> atoi n) ns \<Longrightarrow> blocks_ok cs'"
  by (induction rs ns cs rule: init_resources.induct) (auto simp: blocks_ok_new)

lemma kernel_start_res:
  assumes "kernel_start env rs ns g = Some k" and "list_all (\<lambda>n. 0 \<le> atoi n) ns"
  shows "res_inv (unit_table (colas_BLOCKED k)) k"
proof -
  obtain cs where "init_resources rs ns [] = Some cs" "colas_BLOCKED k = cs"
    "open_files_global_table k = Map.empty"
    using assms(1) by (auto simp: kernel_start_def iniciar_estructuras_planificadores_def bind_eq_Some_conv
        iniciar_planificador_corto_plazo_def iniciar_planificador_largo_plazo_def spawn_def empty_kernel_def Let_def)
  moreover have "blocks_ok []" by (simp add: blocks_ok_def)
  ultimately show ?thesis
    using init_resources_ok assms(2) by (simp add: res_inv_def open_table_safe_def)
qed

text \<open>
  C25. Instances are conserved by the whole kernel. Whatever the console and the threads do and
  in whatever order, pauses included, every resource keeps the total it was configured with:
  its free instances plus those its holders have; free counts are never negative and every
  recorded holder has at least one.
\<close>

theorem resources_conserved_in_runs:
  assumes "kernel_start env rs ns g = Some k0" and "list_all (\<lambda>n. 0 \<le> atoi n) ns"
    and "kreach env any_run k0 k"
  shows "unit_table (colas_BLOCKED k) = unit_table (colas_BLOCKED k0) \<and> blocks_ok (colas_BLOCKED k)"
proof -
  have "res_inv (unit_table (colas_BLOCKED k0)) k"
    using assms(3) kernel_start_res[OF assms(1,2)] by (rule res_reach)
  then show ?thesis by (simp add: res_inv_def)
qed


end
