(* ===== verification/Scheduler_Runs.thy ===== *)
theory Scheduler_Runs
  imports Scheduler_Res
begin

text \<open>
  Behaviour of single steps of the planners, concrete runs of the kernel, the witnesses of the
  theorems on reachable states, and the runs in which the kernel does not do what it means to.
\<close>

section \<open>Concrete runs\<close>

fun run :: "env \<Rightarrow> (label \<Rightarrow> kernel \<Rightarrow> bool) \<Rightarrow> label list \<Rightarrow> kernel \<Rightarrow> kernel option" where
  "run env P [] k = Some k"
| "run env P (l # ls) k = (if P l k \<and> cpu_answers l k
     then (case kernel_step env l k of Runs k' \<Rightarrow> run env P ls k' | _ \<Rightarrow> None) else None)"

lemma run_kreach_from: "run env P ls k = Some k' \<Longrightarrow> kreach env P k0 k \<Longrightarrow> kreach env P k0 k'"
proof (induction ls arbitrary: k)
  case (Cons l ls)
  then obtain k1 where "P l k" "cpu_answers l k" "kernel_step env l k = Runs k1" "run env P ls k1 = Some k'"
    by (auto split: if_splits outcome.splits)
  with Cons show ?case by (meson kr_step kstep)
qed simp

lemma run_kreach: "run env P ls k = Some k' \<Longrightarrow> kreach env P k k'"
  using run_kreach_from kr_refl by blast

definition demo_env :: env where
  "demo_env = \<lparr>string_itoa = (\<lambda>w. replicate (unat w) CHR ''1''),
     list_get_minimum = (\<lambda>f ps. fold (\<lambda>p m. f m p) (tl ps) (hd ps)), algoritmo = ''FIFO''\<rparr>"

lemma demo_minimum: "minimum_law demo_env"
proof -
  have "fold (\<lambda>p m. min_priority m p) ps q \<in> insert q (set ps) \<and>
      (\<forall>p \<in> insert q (set ps). prioridad (fold (\<lambda>p m. min_priority m p) ps q) \<le> prioridad p)" for ps q
  proof (induction ps arbitrary: q)
    case (Cons p ps)
    have m: "min_priority q p \<in> {q, p}" "prioridad (min_priority q p) \<le> prioridad q"
      "prioridad (min_priority q p) \<le> prioridad p"
      by (auto simp: min_priority_def)
    show ?case using Cons.IH[of "min_priority q p"] m by (auto intro: order_trans)
  qed simp
  then show ?thesis
    unfolding minimum_law_def demo_env_def by (auto simp: neq_Nil_conv)
qed

definition demo_start :: kernel where
  "demo_start = the (kernel_start demo_env [''R''] [''1''] 2)"

lemma demo_started: "kernel_start demo_env [''R''] [''1''] 2 = Some demo_start"
  by (simp add: demo_start_def kernel_start_def iniciar_estructuras_planificadores_def)

lemma demo_planner: "planner_thread demo_env \<noteq> None"
  by (simp add: planner_thread_def demo_env_def)

lemma demo_instances: "list_all (\<lambda>n. 0 \<le> atoi n) [''1'']"
  by code_simp

abbreviation new_process :: label where
  "new_process \<equiv> LConsole 0 [''INICIAR_PROCESO'', ''p'', ''64'', ''1'']"

abbreviation at :: "nat \<Rightarrow> label" where
  "at i \<equiv> LThread i (crear_pcb 1 ''p'' 64 1)"

text \<open>
  The threads start in the order NEW, EXIT, FIFO, dispatcher, unblocker; a thread that takes a
  step moves to the end. \<open>demo_ready\<close> has a process ready and the CPU free, \<open>demo_running\<close>
  has it in the CPU.
\<close>

definition demo_ready :: kernel where
  "demo_ready = the (run demo_env fixed_grade [new_process, at 0, at 4] demo_start)"

definition demo_running :: kernel where
  "demo_running = the (run demo_env fixed_grade [at 1, at 1] demo_ready)"

lemma some_the: "\<not> Option.is_none x \<Longrightarrow> x = Some (the x)"
  by (cases x) simp_all

lemma demo_ready_run: "run demo_env fixed_grade [new_process, at 0, at 4] demo_start = Some demo_ready"
  unfolding demo_ready_def by (rule some_the) code_simp

lemma demo_running_run: "run demo_env fixed_grade [at 1, at 1] demo_ready = Some demo_running"
  unfolding demo_running_def by (rule some_the) code_simp

lemma kreach_trans: "kreach env P k0 k1 \<Longrightarrow> kreach env P k1 k2 \<Longrightarrow> kreach env P k0 k2"
  by (rotate_tac 1, induction rule: kreach.induct) (auto intro: kr_step)

lemma kreach_mono: "kreach env P k0 k \<Longrightarrow> (\<And>l k. P l k \<Longrightarrow> Q l k) \<Longrightarrow> kreach env Q k0 k"
  by (induction rule: kreach.induct) (auto intro: kreach.intros)

lemma demo_ready_reached: "kreach demo_env fixed_grade demo_start demo_ready"
  using demo_ready_run by (rule run_kreach)

lemma demo_running_reached: "kreach demo_env fixed_grade demo_start demo_running"
  using demo_ready_reached run_kreach[OF demo_running_run] by (rule kreach_trans)

lemma fixed_uninterrupted: "kreach env fixed_grade k0 k \<Longrightarrow> kreach env uninterrupted k0 k"
  by (erule kreach_mono) (simp add: fixed_grade_def)

lemma fixed_any: "kreach env fixed_grade k0 k \<Longrightarrow> kreach env any_run k0 k"
  by (erule kreach_mono) (simp add: any_run_def)

lemmas demo_facts = demo_started demo_planner demo_minimum

section \<open>Witnesses of the theorems on reachable states\<close>

lemma dispatched_running: "dispatched t \<noteq> [] \<Longrightarrow> \<exists>p. t = TRunning p"
  by (cases t) simp_all

theorem cpu_runs_one_process_witness:
  "\<exists>p. TRunning p \<in> set (threads demo_running) \<and> estado_EXEC demo_running = Some p
     \<and> executing_process demo_running = 0"
proof -
  have "list_ex (\<lambda>t. dispatched t \<noteq> []) (threads demo_running)" by code_simp
  then obtain t where "t \<in> set (threads demo_running)" "dispatched t \<noteq> []" by (auto simp: list_ex_iff)
  then obtain p where "TRunning p \<in> set (threads demo_running)" using dispatched_running by blast
  with cpu_runs_one_process[OF demo_started _ demo_planner demo_minimum
      fixed_uninterrupted[OF demo_running_reached] this] show ?thesis by auto
qed

theorem ready_process_is_dispatched_witness:
  "\<exists>i k' e. kstep demo_env demo_ready (LThread i (crear_pcb 1 ''p'' 64 1)) k' \<and> estado_EXEC k' = Some e
     \<and> estado e = EXEC \<and> pid e \<in> pid ` set (lista_READY demo_ready)"
proof -
  have "Option.is_none (estado_EXEC demo_ready)" by code_simp
  then have free: "estado_EXEC demo_ready = None" by (simp add: Option.is_none_def)
  have "\<not> List.null (lista_READY demo_ready)" by code_simp
  then have ready: "lista_READY demo_ready \<noteq> []" by simp
  show ?thesis
    by (rule ready_process_is_dispatched[OF demo_started _ demo_planner demo_minimum
          fixed_uninterrupted[OF demo_ready_reached] free ready]) simp
qed

theorem resources_conserved_in_runs_witness:
  "unit_table (colas_BLOCKED demo_running) = unit_table (colas_BLOCKED demo_start)
     \<and> blocks_ok (colas_BLOCKED demo_running)"
  by (rule resources_conserved_in_runs[OF demo_started demo_instances fixed_any[OF demo_running_reached]])


section \<open>Decisions of the planners\<close>

text \<open>
  C27. Scheduling by priority. With the CPU free, the planner executes a ready process with the
  lowest priority number and leaves the other ready processes as they were. With the CPU
  busy nobody is moved: the CPU is asked to interrupt exactly when the process that became
  ready last has a lower number than the executing one.
\<close>

theorem prioridades_decision:
  assumes min: "minimum_law env" and "working k" and "0 < proceso_en_cola_ready k"
    and ready: "lista_READY k \<noteq> []"
  shows "\<exists>k'. planificador_prioridades env k = Runs k' \<and> (case estado_EXEC k of
      None \<Rightarrow> \<exists>e. estado_EXEC k' = Some (e\<lparr>estado := EXEC\<rparr>)
        \<and> list_all (\<lambda>p. prioridad e \<le> prioridad p) (lista_READY k)
        \<and> mset (lista_READY k) = add_mset e (mset (lista_READY k')) \<and> sent k' = sent k
    | Some e \<Rightarrow> estado_EXEC k' = Some e \<and> lista_READY k' = lista_READY k
        \<and> sent k' = sent k @ (if prioridad (last (lista_READY k)) < prioridad e
            then [ToInterrupt INTERRUPT_INSTRUCTION e] else []))"
proof (cases "estado_EXEC k")
  case None
  let ?m = "list_get_minimum env min_priority (lista_READY k)"
  have m: "?m \<in> set (lista_READY k)" "\<forall>p \<in> set (lista_READY k). prioridad ?m \<le> prioridad p"
    using min ready by (auto simp: minimum_law_def)
  show ?thesis
  proof (cases "1 < length (lista_READY k)")
    case True
    then show ?thesis using assms None m
      by (auto simp: planificador_prioridades_def Let_def execute_first_ready_def execute_ready_process_def
          post_executing_def spawn_def list_all_iff intro!: exI[of _ ?m])
  next
    case False
    then obtain p where p: "lista_READY k = [p]" using ready by (cases "lista_READY k") auto
    then show ?thesis using assms None
      by (auto simp: planificador_prioridades_def Let_def execute_first_ready_def execute_ready_process_def
          post_executing_def spawn_def intro!: exI[of _ p])
  qed
next
  case (Some e)
  then show ?thesis using assms
    by (auto simp: planificador_prioridades_def Let_def interrupt_executing_process_def send_def spawn_def
        or_crash_def)
qed

definition two_ready :: kernel where
  "two_ready = empty_kernel\<lparr>proceso_en_cola_ready := 2,
     lista_READY := [crear_pcb 1 ''p'' 64 5, crear_pcb 2 ''q'' 64 3]\<rparr>"

theorem prioridades_decision_witness:
  "\<exists>k' e. planificador_prioridades demo_env two_ready = Runs k' \<and> estado_EXEC k' = Some (e\<lparr>estado := EXEC\<rparr>)
     \<and> prioridad e \<le> 3"
proof -
  have h: "working two_ready" "0 < proceso_en_cola_ready two_ready" "lista_READY two_ready \<noteq> []"
    "estado_EXEC two_ready = None"
    by (simp_all add: two_ready_def empty_kernel_def)
  have l: "lista_READY two_ready = [crear_pcb 1 ''p'' 64 5, crear_pcb 2 ''q'' 64 3]"
    by (simp add: two_ready_def)
  show ?thesis
    using prioridades_decision[OF demo_minimum h(1-3)] unfolding h(4)
    by (auto simp: l crear_pcb_def)
qed

text \<open>
  Round robin. A process the CPU gives back as interrupted, while nobody finalizes it,
  becomes ready again at the end of the queue after the two steps of its thread, and every
  other queue is as before.
\<close>

theorem interrupted_goes_to_the_end:
  assumes "\<not> cola_interrupt_locked k" and i: "instruccion p = INTERRUPTED" and "end_state p \<noteq> MANUAL"
    and "pid p \<notin> pid ` set (lista_INTERRUPT k)"
  shows "\<exists>k1 k2. treat_interrupted_enter p k = Runs k1
     \<and> treat_interrupted_leave env (pid p) False k1 = Runs k2
     \<and> lista_READY k2 = lista_READY k @ [p\<lparr>estado := READY\<rparr>]
     \<and> lista_INTERRUPT k2 = lista_INTERRUPT k \<and> lista_SLEEP k2 = lista_SLEEP k
     \<and> grd_mult k2 = grd_mult k \<and> proceso_en_cola_ready k2 = proceso_en_cola_ready k + 1"
proof -
  have r: "list_remove_by_condition (\<lambda>q. pid q = pid p) (qs @ [p]) = (Some p, qs)"
    if "pid p \<notin> pid ` set qs" for qs
    using that by (induction qs) auto
  show ?thesis
    using assms by (auto simp: treat_interrupted_enter_def treat_interrupted_leave_def mutex_of_def list_of_def
        set_list_def Let_def spawn_def r kernel_basic_defs)
qed

theorem interrupted_goes_to_the_end_witness:
  "\<exists>k1 k2. treat_interrupted_enter ((crear_pcb 3 ''r'' 64 1)\<lparr>instruccion := INTERRUPTED\<rparr>) two_ready = Runs k1
     \<and> treat_interrupted_leave demo_env 3 False k1 = Runs k2 \<and> length (lista_READY k2) = 3"
  using interrupted_goes_to_the_end[of two_ready "(crear_pcb 3 ''r'' 64 1)\<lparr>instruccion := INTERRUPTED\<rparr>" demo_env]
  by (auto simp: two_ready_def empty_kernel_def crear_pcb_def)

text \<open>
  Finalizing a process from the console. A process in NEW, READY or EXIT disappears from
  the kernel, its place in the degree of multiprogramming is free again if it had one, and
  every other process stays where it is.
\<close>

theorem finalizar_removes_process:
  assumes inv: "sched_inv d k" and notexec: "i \<notin># exec_ms k"
    and q: "i \<in> pid ` set (lista_NEW k @ lista_READY k @ lista_EXIT k)"
    and r: "finalizar_proceso env i k = Runs k'"
  shows "i \<notin> set (all_pids k') \<and> all_ms k' = all_ms k - {#i#} \<and> degree k' = d"
proof -
  have deg: "degree k' = d" using sched_finalizar[OF inv r] by (simp add: sched_inv_def)
  have count: "count (all_ms k) i \<le> 1" using inv by (simp add: sched_inv_def places_inv_def)
  have nx: "\<not> (case estado_EXEC k of Some e \<Rightarrow> pid e = i | None \<Rightarrow> False)"
    using notexec by (auto simp: exec_ms_def split: option.splits)
  have elim: "all_ms k2 = all_ms k1" if "eliminar_proceso (string_itoa env) p k1 = Some k2" for p k1 k2
    by (rule eliminar_frame[OF that]) (simp add: measure_defs)
  have present: "\<exists>p ps. list_remove_by_condition (\<lambda>p. pid p = i) qs = (Some p, ps)
      \<and> ms qs = add_mset i (ms ps)" if "i \<in> pid ` set qs" for qs
    using that by (induction qs) (auto split: prod.splits)
  have absent: "fst (list_remove_by_condition (\<lambda>p. pid p = i) qs) = None" if "i \<notin> pid ` set qs" for qs
    unfolding list_remove_by_condition_find using that by (auto simp: find_None_iff)
  have "all_ms k = add_mset i (all_ms k')"
  proof (cases "i \<in> pid ` set (lista_NEW k)")
    case True
    then obtain p ps where "list_remove_by_condition (\<lambda>p. pid p = i) (lista_NEW k) = (Some p, ps)"
      "ms (lista_NEW k) = add_mset i (ms ps)" using present by blast
    then show ?thesis using r nx
      by (auto simp: finalizar_proceso_def measure_defs[of "k\<lparr>lista_NEW := ps\<rparr>"] dest!: elim)
        (simp add: measure_defs)
  next
    case new: False
    then obtain ns where ns: "list_remove_by_condition (\<lambda>p. pid p = i) (lista_NEW k) = (None, ns)"
      using absent by (metis prod.collapse)
    show ?thesis
    proof (cases "i \<in> pid ` set (lista_READY k)")
      case True
      then obtain p ps where "list_remove_by_condition (\<lambda>p. pid p = i) (lista_READY k) = (Some p, ps)"
        "ms (lista_READY k) = add_mset i (ms ps)" using present by blast
      then show ?thesis using r nx ns
        by (auto simp: finalizar_proceso_def dest!: elim) (simp add: measure_defs)
    next
      case False
      then obtain rs where rs: "list_remove_by_condition (\<lambda>p. pid p = i) (lista_READY k) = (None, rs)"
        using absent by (metis prod.collapse)
      have "i \<in> pid ` set (lista_EXIT k)" using q new False by auto
      then obtain p ps where "list_remove_by_condition (\<lambda>p. pid p = i) (lista_EXIT k) = (Some p, ps)"
        "ms (lista_EXIT k) = add_mset i (ms ps)" using present by blast
      then show ?thesis using r nx ns rs
        by (auto simp: finalizar_proceso_def dest!: elim) (simp add: measure_defs)
    qed
  qed
  then have "i \<notin># all_ms k'" and "all_ms k' = all_ms k - {#i#}"
    using count by (simp_all add: not_in_iff)
  then show ?thesis using deg by (simp flip: all_ms_pids)
qed

theorem finalizar_removes_process_witness:
  "\<exists>k'. finalizar_proceso demo_env 1 demo_ready = Runs k' \<and> 1 \<notin> set (all_pids k')"
proof -
  have inv: "sched_inv 2 demo_ready"
    using reach_fixed_inv[OF demo_started _ demo_planner demo_minimum demo_ready_reached]
    by (simp add: kernel_inv_def)
  have "case finalizar_proceso demo_env 1 demo_ready of Runs _ \<Rightarrow> True | _ \<Rightarrow> False" by code_simp
  then obtain k' where r: "finalizar_proceso demo_env 1 demo_ready = Runs k'" by (auto split: outcome.splits)
  have "Option.is_none (estado_EXEC demo_ready)" by code_simp
  then have x: "1 \<notin># exec_ms demo_ready" by (simp add: exec_ms_def Option.is_none_def)
  have "map pid (lista_READY demo_ready) = [1]" by code_simp
  then have "1 \<in> pid ` set (lista_NEW demo_ready @ lista_READY demo_ready @ lista_EXIT demo_ready)"
    by (metis image_Un insert_iff list.set(2) list.set_map set_append Un_iff)
  from finalizar_removes_process[OF inv x this r] r show ?thesis by blast
qed

end
