(* ===== verification/Scheduler_Faults.thy ===== *)
theory Scheduler_Faults
  imports Scheduler_Runs
begin

text \<open>
  Runs in which the kernel does not do what it means to. Each theorem states what the code
  does, over the definitions of the other theories.
\<close>

section \<open>Pausing while a process executes\<close>

lemma filter_one:
  assumes "length (filter P xs) = 1" and "x \<in> set xs" and "P x"
  shows "filter P xs = [x]"
proof -
  obtain y where y: "filter P xs = [y]" using assms(1) by (auto simp: length_Suc_conv)
  moreover have "x \<in> set (filter P xs)" using assms(2,3) by simp
  ultimately show ?thesis by (simp only: y) simp
qed

definition short_threads :: "env \<Rightarrow> thread list" where
  "short_threads env = (if algoritmo env = ''FIFO'' then [TFifo] else [])
     @ (if algoritmo env = ''RR'' then [TRr] else [])
     @ (if algoritmo env = ''PRIORIDADES'' then [TPrioridades] else [])"

lemma resume_threads:
  "iniciar_planificacion env (detener_planificacion k) = (post_all k)\<lparr>working := True,
     threads := (threads k @ TLong # TExit # short_threads env) @ [TExecute, TUnblock]\<rparr>"
  by (simp add: iniciar_planificacion_def detener_planificacion_def post_all_def short_threads_def
      iniciar_planificador_corto_plazo_def iniciar_planificador_largo_plazo_def spawn_def Let_def)

text \<open>
  C29. A pause and a resume of the planning while the CPU has a process send it a second time:
  the pause posts \<open>executing_process\<close>, the dispatcher is waiting for the CPU and does not see
  the pause, and the second dispatcher that the resume starts finds both the post and an
  executing process.
\<close>

theorem pause_resume_double_dispatch:
  assumes "estado_EXEC k = Some e" and "TRunning e \<in> set (threads k)" and "working k"
    and console: "\<not> list_ex blocks_console (threads k)"
  shows "\<exists>k'. kreach env any_run k k'
     \<and> filter (\<lambda>t. dispatched t \<noteq> []) (threads k') = filter (\<lambda>t. dispatched t \<noteq> []) (threads k) @ [TRunning e]
     \<and> sent k' = sent k @ [ToDispatch INSTRUCTION_CMD e]"
proof -
  let ?k1 = "detener_planificacion k"
  let ?k2 = "iniciar_planificacion env ?k1"
  have "kreach env any_run k ?k1"
    by (rule kr_step[OF kr_refl, of _ "LConsole 0 [''DETENER_PLANIFICACION'']"])
      (use console in \<open>simp_all add: any_run_def kstep_iff cpu_answers_def consola_interactiva_def word_at_def\<close>)
  moreover have c1: "\<not> list_ex blocks_console (threads ?k1)"
    using console by (simp add: detener_planificacion_def post_all_def)
  ultimately have reach2: "kreach env any_run k ?k2"
    by (rule_tac kr_step[of _ _ _ ?k1 "LConsole 0 [''INICIAR_PLANIFICACION'']"])
      (simp_all add: any_run_def kstep_iff cpu_answers_def consola_interactiva_def word_at_def)
  let ?ts = "threads k @ TLong # TExit # short_threads env"
  let ?k3 = "spawn (TRunning e) (send (ToDispatch INSTRUCTION_CMD e)
      ((post_all k)\<lparr>working := True, threads := ?ts @ [TUnblock], executing_process := executing_process k\<rparr>))"
  have "kstep env ?k2 (LThread (length ?ts) e) ?k3"
    using assms(1)
    by (simp add: kstep_iff cpu_answers_def resume_threads nth_append remove_thread_def execute_process_def
        post_all_def spawn_def send_def eval_nat_numeral)
  with reach2 have "kreach env any_run k ?k3"
    by (rule_tac kr_step) (simp_all add: any_run_def)
  moreover have "filter (\<lambda>t. dispatched t \<noteq> []) (short_threads env) = []"
    by (simp add: short_threads_def)
  ultimately show ?thesis
    by (intro exI[of _ ?k3]) (simp add: spawn_def send_def post_all_def)
qed

theorem pause_resume_double_dispatch_witness:
  "\<exists>k' p. kreach demo_env any_run demo_start k' \<and> filter (\<lambda>t. dispatched t \<noteq> []) (threads k') = [TRunning p, TRunning p]"
proof -
  have "list_ex (\<lambda>t. dispatched t \<noteq> []) (threads demo_running)" by code_simp
  then obtain p where p: "TRunning p \<in> set (threads demo_running)"
    using dispatched_running by (auto simp: list_ex_iff)
  have "kernel_inv 2 demo_running"
    using reach_fixed_inv[OF demo_started _ demo_planner demo_minimum demo_running_reached] by simp
  then have c: "estado_EXEC demo_running = Some p \<and> executing_process demo_running = 0
      \<and> length (filter (\<lambda>t. dispatched t \<noteq> []) (threads demo_running)) = 1"
    using running_is_only[OF _ p] by (simp add: kernel_inv_def sched_inv_def)
  then have e: "estado_EXEC demo_running = Some p" by simp
  have one: "filter (\<lambda>t. dispatched t \<noteq> []) (threads demo_running) = [TRunning p]"
    using c p by (intro filter_one) simp_all
  have w: "working demo_running" "\<not> list_ex blocks_console (threads demo_running)" by code_simp+
  from pause_resume_double_dispatch[OF e p w, of demo_env] one
    kreach_trans[OF fixed_any[OF demo_running_reached]] show ?thesis by fastforce
qed

section \<open>Finalizing a process that is being admitted\<close>

text \<open>
  C30. The long-term planner checks that NEW is not empty before it waits for the degree of
  multiprogramming, and not after. When the console finalizes the only new process in between, the
  memory is told and NEW is empty, and the planner dereferences the NULL that it takes from it as
  soon as the degree lets it go on.
\<close>

theorem admission_of_finalized_process_crashes:
  assumes "i < length (threads k)" and "threads k ! i = TAdmit" and "lista_NEW k = [p]"
    and "open_files p = []" and "pid p \<notin> set (exec_pids k)" and "0 < grd_mult k"
    and "\<not> list_ex blocks_console (threads k)" and "word_of_int (atoi s) = pid p"
  shows "\<exists>k1. kernel_step env (LConsole addr [''FINALIZAR_PROCESO'', s]) k = Runs k1
     \<and> lista_NEW k1 = [] \<and> sent k1 = sent k @ [ToMemory FINISH_PROCESS p]
     \<and> kernel_step env (LThread i q) k1 = Crashes"
proof -
  let ?k = "k\<lparr>lista_NEW := []\<rparr>"
  obtain k1 where k1: "eliminar_proceso (string_itoa env) p ?k = Some k1"
    using assms(4) by (simp add: eliminar_proceso_def)
  have s: "sent k1 = sent k @ [ToMemory FINISH_PROCESS p]"
    using k1 assms(4) by (auto simp: eliminar_proceso_def free_all_instances_def send_def)
  obtain t l n cs where k1': "k1 = ?k\<lparr>open_files_global_table := t, sent := l, colas_BLOCKED := cs, freed_resource := n\<rparr>"
    by (rule eliminar_frame[OF k1])
  have "kernel_step env (LConsole addr [''FINALIZAR_PROCESO'', s]) k = Runs k1"
    using k1 assms(3,5,7,8)
    by (auto simp: consola_interactiva_def word_at_def finalizar_proceso_def exec_pids_def split: option.splits)
  moreover have "kernel_step env (LThread i q) k1 = Crashes"
    using assms(1,2,6) by (simp add: k1' admitir_proceso_def remove_thread_def list_remove_first_def)
  moreover have "lista_NEW k1 = []" by (simp add: k1')
  ultimately show ?thesis using s by blast
qed

definition demo_admitting :: kernel where
  "demo_admitting = the (run demo_env fixed_grade [new_process, at 0] demo_start)"

lemma demo_admitting_run: "run demo_env fixed_grade [new_process, at 0] demo_start = Some demo_admitting"
  unfolding demo_admitting_def by (rule some_the) code_simp

theorem admission_of_finalized_process_crashes_witness:
  "\<exists>k k1. kreach demo_env fixed_grade demo_start k
     \<and> kernel_step demo_env (LConsole 0 [''FINALIZAR_PROCESO'', ''1'']) k = Runs k1
     \<and> kernel_step demo_env (at 4) k1 = Crashes"
proof -
  have "case threads demo_admitting ! 4 of TAdmit \<Rightarrow> True | _ \<Rightarrow> False" by code_simp
  then have t: "threads demo_admitting ! 4 = TAdmit" by (simp split: thread.splits)
  have n: "4 < length (threads demo_admitting)" "0 < grd_mult demo_admitting"
    "\<not> list_ex blocks_console (threads demo_admitting)" "exec_pids demo_admitting = []" by code_simp+
  have p: "lista_NEW demo_admitting = [crear_pcb 1 ''p'' 64 1]" by code_simp
  have "word_of_int (atoi ''1'') = pid (crear_pcb 1 ''p'' 64 1)" by code_simp
  moreover have "open_files (crear_pcb 1 ''p'' 64 1) = []" "pid (crear_pcb 1 ''p'' 64 1) \<notin> set (exec_pids demo_admitting)"
    using n(4) by (simp_all add: crear_pcb_def)
  ultimately show ?thesis
    using admission_of_finalized_process_crashes[OF n(1) t p _ _ n(2,3), of "''1''" demo_env 0 "crear_pcb 1 ''p'' 64 1"]
      run_kreach[OF demo_admitting_run] by blast
qed

section \<open>Finalizing a process that sleeps\<close>

definition sleep_stuck :: "t_pcb list \<Rightarrow> kernel \<Rightarrow> bool" where
  "sleep_stuck ps k \<longleftrightarrow> cola_sleep_locked k \<and> lista_SLEEP k = ps"

lemma stuck_cong:
  "cola_sleep_locked k' = cola_sleep_locked k \<Longrightarrow> lista_SLEEP k' = lista_SLEEP k \<Longrightarrow>
     sleep_stuck ps k' = sleep_stuck ps k"
  by (simp add: sleep_stuck_def)

lemma stuck_locks [simp]: "sleep_stuck ps (set_locks name ls k) = sleep_stuck ps k"
  using set_locks_frame[of name ls k] by (auto simp: sleep_stuck_def)

lemma stuck_open_entry [simp]: "sleep_stuck ps (open_entry name p k) = sleep_stuck ps k"
  using open_entry_frame[of name p k] by (auto simp: sleep_stuck_def)

lemma stuck_ops [simp]:
  "sleep_stuck ps (agregar_pcb_a_cola_READY p k) = sleep_stuck ps k"
  "sleep_stuck ps (spawn t k) = sleep_stuck ps k"
  "sleep_stuck ps (send m k) = sleep_stuck ps k"
  "sleep_stuck ps (execute_first_ready p qs k) = sleep_stuck ps k"
  "sleep_stuck ps (resume_executing p k) = sleep_stuck ps k"
  "sleep_stuck ps (block_executing p mk k) = sleep_stuck ps k"
  "sleep_stuck ps (send_to_exit p e k) = sleep_stuck ps k"
  "sleep_stuck ps (set_list False qs k) = sleep_stuck ps k"
  "sleep_stuck ps (post_ready k) = sleep_stuck ps k"
  "sleep_stuck ps (post_executing k) = sleep_stuck ps k"
  "sleep_stuck ps (modify_executing_process p k) = sleep_stuck ps k"
  "sleep_stuck ps (destroy_executing_process k) = sleep_stuck ps k"
  "sleep_stuck ps (set_block r b k) = sleep_stuck ps k"
  "sleep_stuck ps (interrupt_process p k) = sleep_stuck ps k"
  "sleep_stuck ps (manage_page_fault p k) = sleep_stuck ps k"
  "sleep_stuck ps (remove_thread i k) = sleep_stuck ps k"
  "sleep_stuck ps (fold agregar_pcb_a_cola_READY qs k) = sleep_stuck ps k"
  by (auto intro!: stuck_cong simp: kernel_basic_defs execute_first_ready_def resume_executing_def set_list_def
      set_block_def interrupt_process_def manage_page_fault_def remove_thread_def fold_ready)

lemma stuck_fields [simp]:
  "sleep_stuck ps (k\<lparr>process_in_new := n\<rparr>) = sleep_stuck ps k"
  "sleep_stuck ps (k\<lparr>process_in_exit := n\<rparr>) = sleep_stuck ps k"
  "sleep_stuck ps (k\<lparr>proceso_en_cola_ready := n\<rparr>) = sleep_stuck ps k"
  "sleep_stuck ps (k\<lparr>executing_process := n\<rparr>) = sleep_stuck ps k"
  "sleep_stuck ps (k\<lparr>finish_interrupted_process := n\<rparr>) = sleep_stuck ps k"
  "sleep_stuck ps (k\<lparr>freed_resource := n\<rparr>) = sleep_stuck ps k"
  "sleep_stuck ps (k\<lparr>grd_mult := n\<rparr>) = sleep_stuck ps k"
  "sleep_stuck ps (k\<lparr>lista_NEW := qs\<rparr>) = sleep_stuck ps k"
  "sleep_stuck ps (k\<lparr>lista_READY := qs\<rparr>) = sleep_stuck ps k"
  "sleep_stuck ps (k\<lparr>lista_EXIT := qs\<rparr>) = sleep_stuck ps k"
  "sleep_stuck ps (k\<lparr>lista_INTERRUPT := qs\<rparr>) = sleep_stuck ps k"
  "sleep_stuck ps (k\<lparr>estado_EXEC := e\<rparr>) = sleep_stuck ps k"
  "sleep_stuck ps (k\<lparr>colas_BLOCKED := cs\<rparr>) = sleep_stuck ps k"
  "sleep_stuck ps (k\<lparr>open_files_global_table := tab\<rparr>) = sleep_stuck ps k"
  by (simp_all add: sleep_stuck_def)

lemma stuck_eliminar: "eliminar_proceso itoa p k = Some k' \<Longrightarrow> sleep_stuck ps k' = sleep_stuck ps k"
  by (erule eliminar_frame) (simp add: sleep_stuck_def)

lemma stuck_switch: "execute_switch env p k = Some k' \<Longrightarrow> sleep_stuck ps k \<Longrightarrow> sleep_stuck ps k'"
  by (cases "instruccion p")
    (auto simp: execute_switch_def resource_call_def wait_instance_of_resource_def Let_def
      signal_instance_of_resource_def f_seek_def f_close_def f_truncate_def f_read_def f_write_def f_open_def
      bind_eq_Some_conv split: params.splits option.splits prod.splits if_splits)

lemma stuck_flag: "sleep_stuck ps k \<Longrightarrow> cola_sleep_locked k"
  by (simp add: sleep_stuck_def)

lemma stuck_locked: "sleep_stuck ps k \<Longrightarrow> mutex_of True k"
  by (simp add: sleep_stuck_def mutex_of_def)

lemma stuck_thread_step:
  assumes r: "thread_step env q t k = Runs k'" and s: "sleep_stuck ps k"
  shows "sleep_stuck ps k'"
proof (cases t)
  case (TRunning p)
  with r s show ?thesis by (auto simp: execute_reply_def stuck_switch)
next
  case (TInterrupted p)
  with r s stuck_locked[OF s] show ?thesis
    by (cases "instruccion p = SLEEP") (auto simp: treat_interrupted_enter_def Let_def split: if_splits)
next
  case (TSleeping i b)
  with r s stuck_locked[OF s] show ?thesis
    by (cases b) (auto simp: treat_interrupted_leave_def Let_def stuck_eliminar
        split: if_splits prod.splits option.splits)
qed (use r s in \<open>auto simp: step_parts unblock_loop_def unblock_processes_def enqueue_lock_def
    wake_lock_waiter_def treat_fs_function_def finalizar_executing_def Let_def stuck_eliminar
    split: if_splits option.splits list.splits prod.splits params.splits\<close>)

lemma stuck_finalizar_blocked:
  "finalizar_blocked env i rs k = Some k' \<Longrightarrow> sleep_stuck ps k' = sleep_stuck ps k"
proof (induction env i rs k rule: finalizar_blocked.induct)
  case (2 env i r rs k)
  then show ?case by (auto simp: stuck_eliminar split: option.splits prod.splits)
qed simp

lemma stuck_finalizar: "finalizar_proceso env i k = Runs k' \<Longrightarrow> sleep_stuck ps k \<Longrightarrow> sleep_stuck ps k'"
  by (auto simp: finalizar_proceso_def finalizar_waiting_def interrupt_finish_executing_process_def
      stuck_eliminar stuck_finalizar_blocked split: if_splits prod.splits option.splits
      dest: stuck_flag)

lemma stuck_other [simp]:
  "sleep_stuck ps (iniciar_proceso src tam prio k) = sleep_stuck ps k"
  "sleep_stuck ps (iniciar_planificacion env k) = sleep_stuck ps k"
  "sleep_stuck ps (detener_planificacion k) = sleep_stuck ps k"
  "sleep_stuck ps (cambiar_grado_multiprogramacion addr s k) = sleep_stuck ps k"
  by (auto intro!: stuck_cong simp: iniciar_proceso_def kernel_basic_defs iniciar_planificacion_def
      iniciar_planificador_corto_plazo_def iniciar_planificador_largo_plazo_def detener_planificacion_def
      post_all_def cambiar_grado_multiprogramacion_def Let_def)

lemma stuck_step:
  assumes "kstep env k l k'" and s: "sleep_stuck ps k"
  shows "sleep_stuck ps k'"
proof (cases l)
  case (LConsole addr ws)
  with assms show ?thesis
    by (auto simp: kstep_iff consola_interactiva_def lock_list_copies_def stuck_finalizar split: if_splits option.splits)
next
  case (LThread i q)
  with assms have "thread_step env q (threads k ! i) (remove_thread i k) = Runs k'"
    by (auto simp: kstep_iff split: if_splits)
  then show ?thesis by (rule stuck_thread_step) (use s in simp)
qed

lemma stuck_reach: "kreach env P k0 k \<Longrightarrow> sleep_stuck ps k0 \<Longrightarrow> sleep_stuck ps k"
  by (induction rule: kreach.induct) (auto intro: stuck_step)

text \<open>
  C31. Finalizing a sleeping process never finishes. The command marks the process and returns
  with the mutex of the list held; from then on, whatever happens, the process stays in the
  list of sleeping processes, its unit of the degree of multiprogramming is never returned and
  no other process can start or end its sleep.
\<close>

theorem finalizar_sleeping_never_ends:
  assumes "find (\<lambda>p. pid p = i) (lista_SLEEP k) = Some p" and "\<not> cola_sleep_locked k"
    and "finalizar_waiting env i k = Runs k1" and "kreach env any_run k1 k2"
  shows "lista_SLEEP k2 = mark_manual i (lista_SLEEP k)
     \<and> treat_interrupted_leave env j True k2 = Waits
     \<and> (instruccion q = SLEEP \<longrightarrow> treat_interrupted_enter q k2 = Waits)"
proof -
  have "sleep_stuck (mark_manual i (lista_SLEEP k)) k1"
    using assms(1-3) by (auto simp: finalizar_waiting_def sleep_stuck_def)
  then have "sleep_stuck (mark_manual i (lista_SLEEP k)) k2" by (rule stuck_reach[OF assms(4)])
  then show ?thesis
    by (simp add: sleep_stuck_def treat_interrupted_leave_def treat_interrupted_enter_def mutex_of_def)
qed

theorem finalizar_sleeping_never_ends_witness:
  "\<exists>k1. finalizar_waiting demo_env 1 (empty_kernel\<lparr>lista_SLEEP := [crear_pcb 1 ''p'' 64 1]\<rparr>) = Runs k1
     \<and> treat_interrupted_leave demo_env 1 True k1 = Waits"
proof -
  let ?k = "empty_kernel\<lparr>lista_SLEEP := [crear_pcb 1 ''p'' 64 1]\<rparr>"
  have f: "find (\<lambda>p. pid p = 1) (lista_SLEEP ?k) = Some (crear_pcb 1 ''p'' 64 1)"
    by (simp add: crear_pcb_def)
  have l: "\<not> cola_sleep_locked ?k" by (simp add: empty_kernel_def)
  obtain k1 where r: "finalizar_waiting demo_env 1 ?k = Runs k1"
    using f l by (simp add: finalizar_waiting_def)
  from finalizar_sleeping_never_ends[OF f l r kr_refl, of 1] r show ?thesis by blast
qed

section \<open>Lost wake-ups\<close>

text \<open>
  An elimination that frees several instances of a resource wakes one waiter. It posts
  \<open>freed_resource\<close> once per resource, and each post lets one blocked process of the resource
  go: the second waiter stays blocked although an instance is free and no post is left.
\<close>

theorem eliminar_wakes_one_waiter:
  assumes "colas_BLOCKED k = [(r, b)]" and "instances b = 0" and "blocked_list b = p # q # ps"
    and "pids b (itoa (pid e)) = Some n" and "2 \<le> n" and "freed_resource k = 0" and "open_files e = []"
  shows "\<exists>k1 b'. eliminar_proceso itoa e k = Some k1 \<and> freed_resource k1 = 1
     \<and> colas_BLOCKED (unblock_processes itoa k1) = [(r, b')]
     \<and> blocked_list b' = q # ps \<and> instances b' = n - 1"
  using assms
  by (auto simp: eliminar_proceso_def free_all_instances_def free_instances_def send_def unblock_colas
      unblock_block_def use_instance_of_resource_def Let_def)

theorem eliminar_wakes_one_waiter_witness:
  "\<exists>k1 b'. eliminar_proceso (string_itoa demo_env) (crear_pcb 1 ''p'' 64 1)
      (empty_kernel\<lparr>colas_BLOCKED := [(''R'', \<lparr>instances = 0, pids = [''1'' \<mapsto> 2],
        blocked_list = [crear_pcb 2 ''q'' 64 1, crear_pcb 3 ''s'' 64 1]\<rparr>)]\<rparr>) = Some k1
     \<and> colas_BLOCKED (unblock_processes (string_itoa demo_env) k1) = [(''R'', b')]
     \<and> length (blocked_list b') = 1 \<and> instances b' = 1"
  using eliminar_wakes_one_waiter[of "empty_kernel\<lparr>colas_BLOCKED := [(''R'', \<lparr>instances = 0,
      pids = [''1'' \<mapsto> 2], blocked_list = [crear_pcb 2 ''q'' 64 1, crear_pcb 3 ''s'' 64 1]\<rparr>)]\<rparr>" "''R''" _
      "crear_pcb 2 ''q'' 64 1" "crear_pcb 3 ''s'' 64 1" "[]" "string_itoa demo_env" "crear_pcb 1 ''p'' 64 1" 2]
  by (auto simp: empty_kernel_def crear_pcb_def demo_env_def)

text \<open>
  A process that decides to wait for a file just before the holder closes it waits for
  ever. Its thread joins the queue after the decision, so it becomes the holder of the file with
  a lock nobody will post.
\<close>

theorem late_waiter_holds_and_waits:
  assumes "open_files_global_table k name = Some f" and "locks f = []"
  shows "\<exists>k'. thread_step env q (TLockWait p name w) k = Runs k'
     \<and> TLockQueued p name w \<in> set (threads k') \<and> holders (locks_of k' name) = [pid p]
     \<and> thread_step env q (TLockQueued p name w) k' = Waits"
  using assms
  by (auto simp: enqueue_lock_def locks_of_def set_locks_def spawn_def add_write_lock_def create_lock_def
      holders_def wake_lock_waiter_def)

theorem late_waiter_holds_and_waits_witness:
  "\<exists>k'. thread_step demo_env (crear_pcb 1 ''p'' 64 1) (TLockWait (crear_pcb 1 ''p'' 64 1) ''f'' True)
      (empty_kernel\<lparr>open_files_global_table := [''f'' \<mapsto> \<lparr>locks = [], file_size = 0\<rparr>]\<rparr>) = Runs k'
     \<and> holders (locks_of k' ''f'') = [1]"
  using late_waiter_holds_and_waits[of "empty_kernel\<lparr>open_files_global_table := [''f'' \<mapsto> \<lparr>locks = [], file_size = 0\<rparr>]\<rparr>"
      "''f''" "\<lparr>locks = [], file_size = 0\<rparr>" demo_env "crear_pcb 1 ''p'' 64 1" "crear_pcb 1 ''p'' 64 1" True]
  by (auto simp: crear_pcb_def)

section \<open>Changing the degree twice\<close>

text \<open>
  A change of the degree of multiprogramming starts from the recorded degree. While the
  record is right the first change sets exactly the degree asked for; but it then records the
  address of the text instead of the number, so a second change is off by the difference.
\<close>

theorem second_grade_change_is_off:
  assumes "actual_grd_mult k = degree k"
  shows "degree (cambiar_grado_multiprogramacion a v k) = atoi v
     \<and> degree (cambiar_grado_multiprogramacion b w (cambiar_grado_multiprogramacion a v k))
       = atoi w + (atoi v - a)"
proof -
  have d: "degree (cambiar_grado_multiprogramacion a v k) = degree k + (atoi v - actual_grd_mult k)" for a v k
    by (auto simp: cambiar_grado_multiprogramacion_def Let_def measure_defs)
  have "actual_grd_mult (cambiar_grado_multiprogramacion a v k) = a"
    by (simp add: cambiar_grado_multiprogramacion_def Let_def)
  then show ?thesis using assms by (simp add: d)
qed

theorem second_grade_change_is_off_witness:
  "degree (cambiar_grado_multiprogramacion 94000000 ''5'' demo_start) = atoi ''5''"
proof -
  have "actual_grd_mult demo_start = 2" by code_simp
  moreover have "degree demo_start = 2"
    using kernel_start_inv[OF demo_started _ demo_planner] by (simp add: kernel_inv_def sched_inv_def)
  ultimately show ?thesis using second_grade_change_is_off[of demo_start] by simp
qed

end
