(* ===== verification/Paging.thy ===== *)
theory Paging
  imports Pcb "HOL-Library.Signed_Division"
begin

text \<open>
  The user memory of the memory module (\<^verbatim>\<open>memory/src/user_memory\<close>): page tables,
  the frame table, reads and writes on frames, demand loading with replacement, and the
  threads that keep the replacement order. Page entries are shared by their pointers (the
  tables, \<open>pages_to_replace\<close> and \<open>last_page_referenced\<close> point to the same entry), so they
  live in a store indexed by address. \<open>None\<close> is a NULL or freed pointer that is
  dereferenced, or an access outside the user space.
\<close>

section \<open>State\<close>

record t_page_entry =
  pe_pid :: u32
  pe_page_number :: int
  frame_number :: int
  bit_precense :: bool
  bit_modified :: bool
  swap_position :: c_int

record t_process =
  pr_pid :: u32
  pr_file_name :: string
  pr_bytes :: u32
  instructions_set :: "string list"

datatype port = PFilesystem | PKernel | PCpu

text \<open>What is sent: a package, a list, or a page for the swap.\<close>

datatype mem_msg = MPackage t_package | MList c_int "c_int list" | MSwapPage c_int t_pag_swap

text \<open>
  The bit array of the so-commons library, with its operations and what they promise:
  reading a bit after a write, and the bits of a freshly created array in LSB_FIRST mode.
\<close>

record 'b bitarray_ops =
  bitarray_create :: "u8 list \<Rightarrow> 'b"
  bitarray_test_bit :: "'b \<Rightarrow> nat \<Rightarrow> bool"
  bitarray_set_bit :: "'b \<Rightarrow> nat \<Rightarrow> 'b"
  bitarray_clean_bit :: "'b \<Rightarrow> nat \<Rightarrow> 'b"

definition bitarray_laws :: "'b bitarray_ops \<Rightarrow> bool" where
  "bitarray_laws ba \<longleftrightarrow>
     (\<forall>b i j. bitarray_test_bit ba (bitarray_set_bit ba b i) j = (i = j \<or> bitarray_test_bit ba b j)) \<and>
     (\<forall>b i j. bitarray_test_bit ba (bitarray_clean_bit ba b i) j = (i \<noteq> j \<and> bitarray_test_bit ba b j)) \<and>
     (\<forall>bs i. i < 8 * length bs \<longrightarrow>
        bitarray_test_bit ba (bitarray_create ba bs) i = bit (bs ! (i div 8)) (i mod 8))"

record 'b memory =
  memory_size :: int
  page_size :: int
  frames :: "u8 list"
  frame_table :: 'b
  store :: "nat \<rightharpoonup> t_page_entry"
  next_entry :: nat
  page_tables :: "(u32 \<times> nat list) list"
  pages_to_replace :: "nat list"
  last_page_referenced :: "nat option"
  sort_pages :: nat
  active_processes :: "t_process list"
  list_page :: "t_pag list"
  mem_pcb_create :: "t_pcb option"
  mem_sent :: "(port \<times> mem_msg) list"

definition mem_send :: "port \<Rightarrow> mem_msg \<Rightarrow> 'b memory \<Rightarrow> 'b memory" where
  "mem_send p msg m = m\<lparr>mem_sent := mem_sent m @ [(p, msg)]\<rparr>"

definition total_frames :: "'b memory \<Rightarrow> nat" where
  "total_frames m = nat (memory_size m div page_size m)"

text \<open>
  \<open>init_real_memory\<close> and \<open>init_frame_table\<close>: the bits of the table are the bytes of a string
  of zero characters. The user space is not initialised; \<open>space\<close> is what it holds.
\<close>

definition init_real_memory :: "'b bitarray_ops \<Rightarrow> int \<Rightarrow> int \<Rightarrow> u8 list \<Rightarrow> 'b memory" where
  "init_real_memory ba size_m size_p space =
     \<lparr>memory_size = size_m, page_size = size_p, frames = space,
      frame_table = bitarray_create ba (map byte_of_char (replicate (nat (size_m div size_p)) CHR ''0'')),
      store = Map.empty, next_entry = 0, page_tables = [], pages_to_replace = [],
      last_page_referenced = None, sort_pages = 0, active_processes = [], list_page = [],
      mem_pcb_create = None, mem_sent = []\<rparr>"

section \<open>Frames\<close>

definition read_frame :: "'b memory \<Rightarrow> int \<Rightarrow> int \<Rightarrow> u8 list option" where
  "read_frame m addr n = (if addr < 0 \<or> n < 0 then None else mem_read (frames m) (nat addr) (nat n))"

definition write_on_frame :: "int \<Rightarrow> u8 list \<Rightarrow> 'b memory \<Rightarrow> 'b memory option" where
  "write_on_frame addr d m = (if addr < 0 then None
     else map_option (\<lambda>fs. m\<lparr>frames := fs\<rparr>) (mem_write (frames m) (nat addr) d))"

text \<open>
  The search loop, with the number of frames still to look at. The bit is tested before the
  bound, so the bit at the bound is looked at too, and a clear one is taken.
\<close>

fun search_frame :: "'b bitarray_ops \<Rightarrow> 'b \<Rightarrow> nat \<Rightarrow> nat \<Rightarrow> nat option" where
  "search_frame ba b i 0 = (if bitarray_test_bit ba b i then None else Some i)"
| "search_frame ba b i (Suc n) = (if bitarray_test_bit ba b i then search_frame ba b (Suc i) n else Some i)"

definition check_available_frames :: "'b bitarray_ops \<Rightarrow> 'b memory \<Rightarrow> nat option \<times> 'b memory" where
  "check_available_frames ba m = (case search_frame ba (frame_table m) 0 (total_frames m) of
      None \<Rightarrow> (None, m)
    | Some i \<Rightarrow> (Some i, m\<lparr>frame_table := bitarray_set_bit ba (frame_table m) i\<rparr>))"

definition free_frame :: "'b bitarray_ops \<Rightarrow> int \<Rightarrow> 'b memory \<Rightarrow> 'b memory" where
  "free_frame ba f m = m\<lparr>frame_table := bitarray_clean_bit ba (frame_table m) (nat f)\<rparr>"

section \<open>Page tables\<close>

definition page_create :: "u32 \<Rightarrow> bool \<Rightarrow> bool \<Rightarrow> int \<Rightarrow> int \<Rightarrow> c_int \<Rightarrow> t_page_entry" where
  "page_create p modified precense frame n swap =
     \<lparr>pe_pid = p, pe_page_number = n, frame_number = frame, bit_precense = precense,
      bit_modified = modified, swap_position = swap\<rparr>"

text \<open>The entries of a new table: one allocation per page, the first \<open>n\<close> swap blocks in order.\<close>

fun create_entries :: "u32 \<Rightarrow> nat \<Rightarrow> nat \<Rightarrow> c_int list \<Rightarrow> 'b memory \<Rightarrow> (nat list \<times> 'b memory) option" where
  "create_entries p i 0 blocks m = Some ([], m)"
| "create_entries p i (Suc n) [] m = None"
| "create_entries p i (Suc n) (b # blocks) m =
     (let a = next_entry m;
          m = m\<lparr>store := (store m)(a \<mapsto> page_create p False False 0 (int i) b), next_entry := a + 1\<rparr>
      in case create_entries p (Suc i) n blocks m of
           None \<Rightarrow> None
         | Some (as, m) \<Rightarrow> Some (a # as, m))"

definition page_table_create :: "t_pcb \<Rightarrow> c_int list \<Rightarrow> 'b memory \<Rightarrow> 'b memory option" where
  "page_table_create p swap_blocks m =
     (case create_entries (pid p) 0 (nat (uint (tamanio p) div page_size m)) swap_blocks m of
        None \<Rightarrow> None
      | Some (as, m) \<Rightarrow> Some (m\<lparr>page_tables := page_tables m @ [(pid p, as)]\<rparr>))"

definition search_page_table :: "u32 \<Rightarrow> 'b memory \<Rightarrow> (u32 \<times> nat list) option" where
  "search_page_table p m = find (\<lambda>(q, _). q = p) (page_tables m)"

text \<open>The outer \<open>None\<close> is the missing table that is dereferenced, the inner one a NULL result.\<close>

definition get_page :: "u32 \<Rightarrow> int \<Rightarrow> 'b memory \<Rightarrow> nat option option" where
  "get_page p n m = (case search_page_table p m of None \<Rightarrow> None | Some (_, as) \<Rightarrow> Some (list_get as n))"

definition reference_page :: "u32 \<Rightarrow> int \<Rightarrow> 'b memory \<Rightarrow> (nat option \<times> 'b memory) option" where
  "reference_page p n m = (case get_page p n m of
      None \<Rightarrow> None
    | Some None \<Rightarrow> Some (None, m)
    | Some (Some a) \<Rightarrow> (case store m a of
        None \<Rightarrow> None
      | Some _ \<Rightarrow> Some (Some a, m\<lparr>last_page_referenced := Some a, sort_pages := sort_pages m + 1\<rparr>)))"

definition set_entry :: "nat \<Rightarrow> t_page_entry \<Rightarrow> 'b memory \<Rightarrow> 'b memory" where
  "set_entry a e m = m\<lparr>store := (store m)(a \<mapsto> e)\<rparr>"

section \<open>Swapping\<close>

definition get_page_info :: "c_int \<Rightarrow> 'b memory \<Rightarrow> 'b memory" where
  "get_page_info b = mem_send PFilesystem (MPackage (create_integer_package 12 b))"

text \<open>The reply of the file system is read and logged.\<close>

definition update_page :: "nat \<Rightarrow> 'b memory \<Rightarrow> 'b memory option" where
  "update_page a m = do {
     e \<leftarrow> store m a;
     content \<leftarrow> read_frame m (frame_number e * page_size m) (page_size m);
     Some (mem_send PFilesystem
       (MSwapPage 13 (page_for_swap (swap_position e) (word_of_int (page_size m)) content)) m) }"

definition free_swap_blocks :: "nat list \<Rightarrow> 'b memory \<Rightarrow> 'b memory option" where
  "free_swap_blocks as m = (if list_all (\<lambda>a. store m a \<noteq> None) as
     then Some (mem_send PFilesystem (MList 14 (map (\<lambda>a. swap_position (the (store m a))) as)) m)
     else None)"

definition get_swap_blocks :: "int \<Rightarrow> 'b memory \<Rightarrow> 'b memory" where
  "get_swap_blocks bytes m =
     mem_send PFilesystem (MPackage (create_integer_package 7 (word_of_int (bytes sdiv page_size m)))) m"

definition swap_in :: "nat \<Rightarrow> int \<Rightarrow> u8 list \<Rightarrow> 'b memory \<Rightarrow> 'b memory option" where
  "swap_in a f data m = do {
     e \<leftarrow> store m a;
     d \<leftarrow> mem_read data 0 (nat (page_size m));
     write_on_frame (f * page_size m) d (set_entry a (e\<lparr>frame_number := f, bit_precense := True\<rparr>) m) }"

definition swap_out :: "nat \<Rightarrow> 'b memory \<Rightarrow> 'b memory option" where
  "swap_out a m = do {
     e \<leftarrow> store m a;
     m \<leftarrow> (if bit_modified e then update_page a m else Some m);
     Some (set_entry a (e\<lparr>bit_precense := False, bit_modified := False\<rparr>) m) }"

section \<open>Loading a page\<close>

definition load_page_in_free_space :: "'b bitarray_ops \<Rightarrow> nat \<Rightarrow> nat \<Rightarrow> u8 list \<Rightarrow> 'b memory \<Rightarrow> 'b memory option" where
  "load_page_in_free_space ba a f data m =
     map_option (\<lambda>m. m\<lparr>frame_table := bitarray_set_bit ba (frame_table m) f\<rparr>) (swap_in a (int f) data m)"

definition page_replace :: "nat \<Rightarrow> u8 list \<Rightarrow> 'b memory \<Rightarrow> 'b memory option" where
  "page_replace a data m = (case list_remove_first (pages_to_replace m) of
      (None, _) \<Rightarrow> None
    | (Some v, rest) \<Rightarrow> do {
        m \<leftarrow> swap_out v (m\<lparr>pages_to_replace := rest\<rparr>);
        e \<leftarrow> store m v;
        swap_in a (frame_number e) data m })"

definition load_page :: "'b bitarray_ops \<Rightarrow> u32 \<Rightarrow> int \<Rightarrow> u8 list \<Rightarrow> 'b memory \<Rightarrow> 'b memory option" where
  "load_page ba p n data m = (case check_available_frames ba m of (result, m) \<Rightarrow>
     (case get_page p n m of
        None \<Rightarrow> None
      | Some None \<Rightarrow> None
      | Some (Some a) \<Rightarrow> (case result of
          Some f \<Rightarrow> load_page_in_free_space ba a f data m
        | None \<Rightarrow> page_replace a data m)))"

section \<open>Replacement order (algorithms.c)\<close>

text \<open>The body of each sorter thread after its \<open>sem_wait\<close>.\<close>

definition sort_pages_by_fifo :: "'b memory \<Rightarrow> 'b memory option" where
  "sort_pages_by_fifo m = do {
     a \<leftarrow> last_page_referenced m;
     e \<leftarrow> store m a;
     Some (if \<not> bit_precense e then m\<lparr>pages_to_replace := pages_to_replace m @ [a]\<rparr> else m) }"

definition sort_pages_by_lru :: "'b memory \<Rightarrow> 'b memory option" where
  "sort_pages_by_lru m = do {
     a \<leftarrow> last_page_referenced m;
     Some (m\<lparr>pages_to_replace := remove1 a (pages_to_replace m) @ [a]\<rparr>) }"

text \<open>
  One turn of the sorter thread that \<open>init_sorter_thread\<close> starts; \<open>eq\<close> is
  \<open>string_equals_ignore_case\<close> of so-commons. The outer \<open>None\<close> is waiting.
\<close>

definition sorter_step :: "(string \<Rightarrow> string \<Rightarrow> bool) \<Rightarrow> string \<Rightarrow> 'b memory \<Rightarrow> 'b memory option option" where
  "sorter_step eq alg m =
     (if sort_pages m = 0 then None
      else let m = m\<lparr>sort_pages := sort_pages m - 1\<rparr>
           in Some (if eq alg ''FIFO'' then sort_pages_by_fifo m else sort_pages_by_lru m))"

section \<open>End of a process\<close>

definition destroy_page_entry :: "'b bitarray_ops \<Rightarrow> nat \<Rightarrow> 'b memory \<Rightarrow> 'b memory option" where
  "destroy_page_entry ba a m = (case store m a of
      None \<Rightarrow> None
    | Some e \<Rightarrow> (let m = (if bit_precense e then free_frame ba (frame_number e) m else m)
        in Some (m\<lparr>pages_to_replace := remove1 a (pages_to_replace m), store := (store m)(a := None)\<rparr>)))"

fun destroy_entries :: "'b bitarray_ops \<Rightarrow> nat list \<Rightarrow> 'b memory \<Rightarrow> 'b memory option" where
  "destroy_entries ba [] m = Some m"
| "destroy_entries ba (a # as) m = (case destroy_page_entry ba a m of
      None \<Rightarrow> None | Some m' \<Rightarrow> destroy_entries ba as m')"

definition destroy_page_table :: "'b bitarray_ops \<Rightarrow> u32 \<times> nat list \<Rightarrow> 'b memory \<Rightarrow> 'b memory option" where
  "destroy_page_table ba t m = destroy_entries ba (snd t) m"

definition search_process :: "u32 \<Rightarrow> 'b memory \<Rightarrow> t_process option" where
  "search_process p m = find (\<lambda>q. pr_pid q = p) (active_processes m)"

definition deallocate_process :: "'b bitarray_ops \<Rightarrow> u32 \<Rightarrow> 'b memory \<Rightarrow> 'b memory option" where
  "deallocate_process ba p m = (case search_page_table p m of
      None \<Rightarrow> None
    | Some t \<Rightarrow> do {
        m \<leftarrow> free_swap_blocks (snd t) m;
        m \<leftarrow> destroy_page_table ba t (m\<lparr>page_tables := remove1 t (page_tables m)\<rparr>);
        Some (m\<lparr>active_processes := snd (list_remove_by_condition (\<lambda>q. pr_pid q = p) (active_processes m))\<rparr>) })"

end
