(* ===== verification/Memory.thy ===== *)
theory Memory
  imports Paging
begin

text \<open>
  The instruction memory and the command loop of the memory module
  (\<^verbatim>\<open>memory/src/instruction_memory\<close>, \<^verbatim>\<open>memory/src/command/command.c\<close>). A
  command is what \<open>wait_for_command\<close> has received; its handler is one atomic step. The
  delays of the configuration are not modelled.
\<close>

text \<open>
  What the module takes from outside its sources: the bit array, the lines of a file of
  pseudo-code as \<open>getline\<close> returns them (\<open>None\<close> when \<open>fopen\<close> fails), \<open>string_trim\<close> and
  the path of the configuration.
\<close>

record 'b mem_env =
  bits :: "'b bitarray_ops"
  file_lines :: "string \<Rightarrow> string list option"
  string_trim :: "string \<Rightarrow> string"
  instructions_path :: string

definition get_instructions_from_file :: "'b mem_env \<Rightarrow> string \<Rightarrow> string list option" where
  "get_instructions_from_file env path =
     map_option (map (string_trim env)) (file_lines env (string_trim env path))"

definition create_process :: "'b mem_env \<Rightarrow> t_pcb \<Rightarrow> c_int list \<Rightarrow> 'b memory \<Rightarrow> (c_int \<times> 'b memory) option" where
  "create_process env p swap_blocks m =
     (case get_instructions_from_file env (instructions_path env @ ''/'' @ nom_arch_inst p @ ''.txt'') of
        None \<Rightarrow> Some (- 1, m)
      | Some is \<Rightarrow> (case page_table_create p swap_blocks m of
          None \<Rightarrow> None
        | Some m \<Rightarrow> Some (1, m\<lparr>active_processes := active_processes m @
            [\<lparr>pr_pid = pid p, pr_file_name = nom_arch_inst p, pr_bytes = tamanio p, instructions_set = is\<rparr>]\<rparr>)))"

text \<open>
  What \<open>fetch_next_instruction\<close> returns: the empty literal, or a copy of an instruction. \<open>None\<close> is
  \<open>string_duplicate\<close> of the NULL that \<open>list_get\<close> returns past the end.
\<close>

datatype fetched = Empty_Literal | Duplicate string

definition fetch_next_instruction :: "u32 \<Rightarrow> u32 \<Rightarrow> 'b memory \<Rightarrow> fetched option" where
  "fetch_next_instruction p pc m = (case search_process p m of
      None \<Rightarrow> Some Empty_Literal
    | Some q \<Rightarrow> if int (length (instructions_set q)) = sint pc then Some Empty_Literal
               else map_option Duplicate (list_get (instructions_set q) (sint pc)))"

datatype mem_command = ECHO_MEMORY string | CREATE_PROCESS_CMD t_pcb | GET_SWAP_BLOCKS "c_int list"
  | LOAD_PAGE t_pag | GET_FROM_SWAP "u8 list" | FREE_PAGES c_int | PAGE_NUMBER t_pag
  | FETCH_INSTRUCTION t_pcb | MOV_OUT t_mov_out | MOV_IN t_pag | MOV_OUT_FS t_mov_out_fs
  | MOV_IN_FS t_pag | END_PROCESS t_pcb

definition reply :: "port \<Rightarrow> t_package \<Rightarrow> 'b memory \<Rightarrow> 'b memory" where
  "reply p pkg = mem_send p (MPackage pkg)"

definition referenced :: "u32 \<Rightarrow> c_int \<Rightarrow> 'b memory \<Rightarrow> (nat \<times> t_page_entry \<times> 'b memory) option" where
  "referenced p n m = (case reference_page p (sint n) m of
      Some (Some a, m) \<Rightarrow> map_option (\<lambda>e. (a, e, m)) (store m a)
    | _ \<Rightarrow> None)"

definition load_page_request :: "t_pag \<Rightarrow> 'b memory \<Rightarrow> 'b memory option" where
  "load_page_request pg m = do {
     (a, e, m) \<leftarrow> referenced (pag_pid pg) (page_number pg) (m\<lparr>list_page := list_page m @ [pg]\<rparr>);
     Some (get_page_info (swap_position e) m) }"

definition load_page_reply :: "'b mem_env \<Rightarrow> u8 list \<Rightarrow> 'b memory \<Rightarrow> 'b memory option" where
  "load_page_reply env data m = (case list_remove_first (list_page m) of
      (Some pg, ps) \<Rightarrow> map_option (reply PKernel (create_integer_package 11 0))
        (load_page (bits env) (pag_pid pg) (sint (page_number pg)) data (m\<lparr>list_page := ps\<rparr>))
    | (None, _) \<Rightarrow> Some (reply PKernel (create_integer_package 11 0) m))"

definition page_number_request :: "port \<Rightarrow> t_pag \<Rightarrow> 'b memory \<Rightarrow> 'b memory option" where
  "page_number_request pt pg m = (case get_page (pag_pid pg) (sint (page_number pg)) m of
      None \<Rightarrow> None
    | Some None \<Rightarrow> Some (reply pt (create_integer_package 10 0) m)
    | Some (Some a) \<Rightarrow> (case store m a of
        None \<Rightarrow> None
      | Some e \<Rightarrow> Some (reply pt (if \<not> bit_precense e then create_integer_package 10 0
            else create_integer_package 9 (word_of_int (frame_number e))) m)))"

definition mov_out :: "port \<Rightarrow> t_mov_out \<Rightarrow> 'b memory \<Rightarrow> 'b memory option" where
  "mov_out pt d m = do {
     (a, e, m) \<leftarrow> referenced (mo_pid d) (mo_page_number d) m;
     m \<leftarrow> write_on_frame (frame_number e * page_size m + sint (mo_displacement d))
           (bytes_of_u32 (mo_register_value d)) (set_entry a (e\<lparr>bit_modified := True\<rparr>) m);
     Some (reply pt (create_integer_package 16 0) m) }"

definition mov_in :: "port \<Rightarrow> t_pag \<Rightarrow> 'b memory \<Rightarrow> 'b memory option" where
  "mov_in pt pg m = do {
     (a, e, m) \<leftarrow> referenced (pag_pid pg) (page_number pg) m;
     bs \<leftarrow> read_frame m (frame_number e * page_size m + sint (displacement pg)) 4;
     (v, _) \<leftarrow> rd_u32 bs;
     Some (reply pt (create_uint32_package 15 v) m) }"

text \<open>The number of bytes written is the one the message announces.\<close>

definition mov_out_fs :: "port \<Rightarrow> t_mov_out_fs \<Rightarrow> 'b memory \<Rightarrow> 'b memory option" where
  "mov_out_fs pt d m = do {
     (a, e, m) \<leftarrow> referenced (mf_pid d) (mf_page_number d) m;
     data \<leftarrow> mem_read (mf_register_value d) 0 (unat (mf_size d));
     m \<leftarrow> write_on_frame (frame_number e * page_size m) data (set_entry a (e\<lparr>bit_modified := True\<rparr>) m);
     Some (reply pt (create_integer_package 18 0) m) }"

definition mov_in_fs :: "port \<Rightarrow> t_pag \<Rightarrow> 'b memory \<Rightarrow> 'b memory option" where
  "mov_in_fs pt pg m = do {
     (a, e, m) \<leftarrow> referenced (pag_pid pg) (page_number pg) m;
     bs \<leftarrow> read_frame m (frame_number e * page_size m) (page_size m);
     Some (reply pt (create_void_package 17 (word_of_int (page_size m)) bs) m) }"

text \<open>
  One turn of \<open>wait_for_command\<close> on a port. The list of swap blocks answers the creation that
  is pending in the global \<open>pcb_create\<close>. \<open>send_package\<close> frees the text of a string package once it is
  sent: an instruction that was duplicated, but not a literal (\<open>None\<close>).
\<close>

fun wait_for_command :: "'b mem_env \<Rightarrow> port \<Rightarrow> mem_command \<Rightarrow> 'b memory \<Rightarrow> 'b memory option" where
  "wait_for_command env pt (ECHO_MEMORY s) m = Some m"
| "wait_for_command env pt (CREATE_PROCESS_CMD p) m =
     Some (get_swap_blocks (sint (tamanio p)) (m\<lparr>mem_pcb_create := Some p\<rparr>))"
| "wait_for_command env pt (GET_SWAP_BLOCKS blocks) m = (case mem_pcb_create m of
      None \<Rightarrow> None
    | Some p \<Rightarrow> (case create_process env p blocks m of
        None \<Rightarrow> None
      | Some (is_ok, m) \<Rightarrow> Some (reply PKernel (create_integer_package 5 is_ok) (m\<lparr>mem_pcb_create := None\<rparr>))))"
| "wait_for_command env pt (LOAD_PAGE pg) m = load_page_request pg m"
| "wait_for_command env pt (GET_FROM_SWAP data) m = load_page_reply env data m"
| "wait_for_command env pt (FREE_PAGES ok) m = Some m"
| "wait_for_command env pt (PAGE_NUMBER pg) m = page_number_request pt pg m"
| "wait_for_command env pt (FETCH_INSTRUCTION p) m =
     (case fetch_next_instruction (pid p) (programCounter p) m of
        Some (Duplicate i) \<Rightarrow> Some (reply pt (create_string_package 3 i) m)
      | _ \<Rightarrow> None)"
| "wait_for_command env pt (MOV_OUT d) m = mov_out pt d m"
| "wait_for_command env pt (MOV_IN pg) m = mov_in pt pg m"
| "wait_for_command env pt (MOV_OUT_FS d) m = mov_out_fs pt d m"
| "wait_for_command env pt (MOV_IN_FS pg) m = mov_in_fs pt pg m"
| "wait_for_command env pt (END_PROCESS p) m = deallocate_process (bits env) (pid p) m"

definition send_page_size_to_cpu :: "'b memory \<Rightarrow> 'b memory" where
  "send_page_size_to_cpu m = reply PCpu (create_integer_package 4 (word_of_int (page_size m))) m"

end
