(* ===== verification/Memory_Props.thy ===== *)
theory Memory_Props
  imports Memory
begin

text \<open>
  Correctness of the user memory: resident pages never share a frame, a load brings in the
  page asked for and disturbs no other resident page, reads return what was written, and the
  replacement lists are in the order their algorithms promise.
\<close>

section \<open>Frames are a store of blocks\<close>

interpretation frame_store: block_store
  "\<lambda>fs i. mem_read fs (i * ps) ps" "\<lambda>fs i b. mem_write fs (i * ps) b" "\<lambda>b. length b = ps" for ps :: nat
proof unfold_locales
  show "mem_write s (i * ps) b = Some s' \<Longrightarrow> length b = ps \<Longrightarrow> mem_read s' (i * ps) ps = Some b" for s i b s'
    using mem_read_write_same by blast
  show "mem_write s (i * ps) b = Some s' \<Longrightarrow> length b = ps \<Longrightarrow> i \<noteq> j \<Longrightarrow>
      mem_read s' (j * ps) ps = mem_read s (j * ps) ps" for s i b s' j
    using block_disjoint[of i j ps] by (intro mem_read_write_disjoint) auto
qed

definition frame_content :: "'b memory \<Rightarrow> int \<Rightarrow> u8 list option" where
  "frame_content m f = read_frame m (f * page_size m) (page_size m)"

lemma frame_content_block:
  assumes "0 < page_size m" and "0 \<le> f"
  shows "frame_content m f = mem_read (frames m) (nat f * nat (page_size m)) (nat (page_size m))"
proof -
  have "\<not> f * page_size m < 0"
    using assms mult_nonneg_nonneg[of f "page_size m"] by linarith
  then show ?thesis using assms by (simp add: frame_content_def read_frame_def nat_mult_distrib)
qed

section \<open>The invariant of the frames\<close>

definition resident :: "'b memory \<Rightarrow> nat \<Rightarrow> int \<Rightarrow> bool" where
  "resident m a f \<longleftrightarrow> (\<exists>e. store m a = Some e \<and> bit_precense e \<and> frame_number e = f)"

definition frames_ok :: "'b bitarray_ops \<Rightarrow> 'b memory \<Rightarrow> bool" where
  "frames_ok ba m \<longleftrightarrow> 0 < page_size m \<and> int (length (frames m)) = memory_size m
     \<and> (\<forall>a f. resident m a f \<longrightarrow> 0 \<le> f \<and> f < int (total_frames m) \<and> bitarray_test_bit ba (frame_table m) (nat f))
     \<and> (\<forall>a b f. resident m a f \<longrightarrow> resident m b f \<longrightarrow> a = b)"

lemma frame_bound:
  assumes "0 < ps" and "0 \<le> f" and "f * ps + ps \<le> n"
  shows "f < n div (ps :: int)"
proof -
  have "(f + 1) * ps \<le> n" using assms(3) by (simp add: distrib_right)
  then have "(f + 1) * ps div ps \<le> n div ps" using assms(1) by (rule zdiv_mono1)
  then have "f + 1 \<le> n div ps" using assms(1) by simp
  then show ?thesis by simp
qed

text \<open>\<open>swap_in\<close> into a frame nobody else uses.\<close>

lemma swap_in_stored:
  assumes ok: "frames_ok ba m" and f: "0 \<le> f" and s: "swap_in a f data m = Some m'"
  obtains e d fs where "store m a = Some e" and "d = take (nat (page_size m)) data" and "length d = nat (page_size m)"
    and "mem_write (frames m) (nat f * nat (page_size m)) d = Some fs"
    and "m' = (set_entry a (e\<lparr>frame_number := f, bit_precense := True\<rparr>) m)\<lparr>frames := fs\<rparr>"
    and "f < int (total_frames m)"
proof -
  let ?ps = "nat (page_size m)"
  have ps: "0 < page_size m" and len: "int (length (frames m)) = memory_size m"
    using ok by (simp_all add: frames_ok_def)
  obtain e d fs where e: "store m a = Some e" and d: "mem_read data 0 ?ps = Some d"
    and w: "mem_write (frames m) (nat (f * page_size m)) d = Some fs"
    and m': "m' = (set_entry a (e\<lparr>frame_number := f, bit_precense := True\<rparr>) m)\<lparr>frames := fs\<rparr>"
    using s f ps by (auto simp: swap_in_def bind_eq_Some_conv write_on_frame_def set_entry_def split: if_splits)
  have dl: "length d = ?ps" and dt: "d = take ?ps data"
    using mem_read_length[OF d] d by (auto simp: mem_read_def split: if_splits)
  have off: "nat (f * page_size m) = nat f * ?ps" using f ps by (simp add: nat_mult_distrib)
  note w' = w[unfolded off]
  have "nat f * ?ps + ?ps \<le> length (frames m)" using w' dl by (auto simp: mem_write_def split: if_splits)
  then have "int (nat f * ?ps + ?ps) \<le> memory_size m" using len by linarith
  then have "f * page_size m + page_size m \<le> memory_size m" using f ps by simp
  then have "f < memory_size m div page_size m" by (rule frame_bound[OF ps f])
  then have "f < int (total_frames m)" using f by (simp add: total_frames_def)
  then show ?thesis using that[OF e dt dl w' m'] by blast
qed

lemma swap_in_spec:
  assumes ok: "frames_ok ba m" and f: "0 \<le> f" and bit: "bitarray_test_bit ba (frame_table m) (nat f)"
    and free: "\<And>b. b \<noteq> a \<Longrightarrow> \<not> resident m b f" and s: "swap_in a f data m = Some m'"
  shows "frames_ok ba m'" and "resident m' a f"
    and "frame_content m' f = Some (take (nat (page_size m)) data)"
    and "\<And>b g. b \<noteq> a \<Longrightarrow> resident m' b g \<longleftrightarrow> resident m b g"
    and "\<And>b g. b \<noteq> a \<Longrightarrow> resident m b g \<Longrightarrow> frame_content m' g = frame_content m g"
    and "frame_table m' = frame_table m" and "page_size m' = page_size m"
proof -
  let ?ps = "nat (page_size m)"
  have ps: "0 < page_size m" and len: "int (length (frames m)) = memory_size m"
    using ok by (simp_all add: frames_ok_def)
  obtain e d fs where dt: "d = take ?ps data" and dl: "length d = ?ps"
    and w': "mem_write (frames m) (nat f * ?ps) d = Some fs"
    and m': "m' = (set_entry a (e\<lparr>frame_number := f, bit_precense := True\<rparr>) m)\<lparr>frames := fs\<rparr>"
    and bound: "f < int (total_frames m)"
    using swap_in_stored[OF ok f s] by metis
  show same: "\<And>b g. b \<noteq> a \<Longrightarrow> resident m' b g \<longleftrightarrow> resident m b g"
    by (simp add: m' resident_def set_entry_def)
  show res: "resident m' a f" by (simp add: m' resident_def set_entry_def)
  have only: "resident m' a g \<Longrightarrow> g = f" for g by (simp add: m' resident_def set_entry_def)
  show ft: "frame_table m' = frame_table m" and pp: "page_size m' = page_size m"
    by (simp_all add: m' set_entry_def)
  have tf: "total_frames m' = total_frames m" by (simp add: m' set_entry_def total_frames_def)
  have old: "0 \<le> g \<and> g < int (total_frames m) \<and> bitarray_test_bit ba (frame_table m) (nat g)"
    if "resident m b g" for b g using ok that by (simp add: frames_ok_def)
  show "frames_ok ba m'"
    unfolding frames_ok_def
  proof (intro conjI allI impI)
    show "int (length (frames m')) = memory_size m'"
      using mem_write_length[OF w'] len by (simp add: m' set_entry_def)
    fix b g assume r: "resident m' b g"
    have "0 \<le> g \<and> g < int (total_frames m) \<and> bitarray_test_bit ba (frame_table m) (nat g)"
    proof (cases "b = a")
      case True
      then have "g = f" using r only by blast
      then show ?thesis using f bit bound by simp
    next
      case False
      then show ?thesis using r same old by blast
    qed
    then show "0 \<le> g" "g < int (total_frames m')" "bitarray_test_bit ba (frame_table m') (nat g)"
      by (simp_all add: tf ft)
    fix c assume "resident m' c g"
    then show "b = c"
      using r only same free ok unfolding frames_ok_def by metis
  qed (simp add: pp ps)
  show "frame_content m' f = Some (take ?ps data)"
    using frame_store.get_put_same[OF w' dl] f ps by (simp add: frame_content_block pp m' set_entry_def dt)
  show "frame_content m' g = frame_content m g" if "b \<noteq> a" "resident m b g" for b g
  proof -
    have "g \<noteq> f" using free[OF that(1)] that(2) by blast
    then have "nat f \<noteq> nat g" using old[OF that(2)] f by linarith
    from frame_store.get_put_other[OF w' dl this] show ?thesis
      using old[OF that(2)] ps by (simp add: frame_content_block pp m' set_entry_def)
  qed
qed

lemma frame_room:
  assumes ok: "frames_ok ba m" and r: "0 \<le> f" "f < int (total_frames m)"
  shows "nat f * nat (page_size m) + nat (page_size m) \<le> length (frames m)"
proof -
  have ps: "0 < page_size m" "int (length (frames m)) = memory_size m" using ok by (auto simp: frames_ok_def)
  have f: "0 \<le> f" "f < memory_size m div page_size m" using r by (auto simp: total_frames_def split: if_splits)
  then have "(f + 1) * page_size m \<le> (memory_size m div page_size m) * page_size m"
    using ps by (intro mult_right_mono) auto
  also have "\<dots> \<le> memory_size m"
    using ps by (metis mult.commute minus_mod_eq_mult_div pos_mod_sign diff_le_eq le_add_same_cancel1)
  finally have "f * page_size m + page_size m \<le> int (length (frames m))" using ps by (simp add: distrib_right)
  then have "nat (f * page_size m + page_size m) \<le> length (frames m)" by linarith
  then show ?thesis using f ps by (simp add: nat_add_distrib nat_mult_distrib)
qed

lemma frame_inside:
  assumes "frames_ok ba m" and "resident m a f"
  shows "nat f * nat (page_size m) + nat (page_size m) \<le> length (frames m)"
  using assms(2) assms(1) by (intro frame_room) (auto simp: frames_ok_def)

section \<open>Searching a free frame\<close>

lemma search_frame_Some:
  "search_frame ba b i n = Some f \<Longrightarrow> i \<le> f \<and> f \<le> i + n \<and> \<not> bitarray_test_bit ba b f
     \<and> (\<forall>j. i \<le> j \<longrightarrow> j < f \<longrightarrow> bitarray_test_bit ba b j)"
proof (induction ba b i n rule: search_frame.induct)
  case (2 ba b i n)
  then show ?case by (auto split: if_splits simp: le_less_Suc_eq) (metis Suc_leI le_neq_implies_less)
qed (auto split: if_splits)

lemma search_frame_None:
  "search_frame ba b i n = None \<Longrightarrow> i \<le> j \<Longrightarrow> j \<le> i + n \<Longrightarrow> bitarray_test_bit ba b j"
proof (induction ba b i n rule: search_frame.induct)
  case (2 ba b i n)
  then show ?case by (cases "j = i") (auto split: if_splits)
qed (auto split: if_splits)

section \<open>Loading\<close>

text \<open>The replacement takes its victim from the pages that are in a frame.\<close>

definition victim_resident :: "'b memory \<Rightarrow> bool" where
  "victim_resident m \<longleftrightarrow> (\<forall>v vs. pages_to_replace m = v # vs \<longrightarrow> (\<exists>f. resident m v f))"

text \<open>What a correct load of the page at \<open>a\<close> does.\<close>

definition loaded :: "'b bitarray_ops \<Rightarrow> 'b memory \<Rightarrow> nat \<Rightarrow> u8 list \<Rightarrow> 'b memory \<Rightarrow> bool" where
  "loaded ba m a data m' \<longleftrightarrow> frames_ok ba m'
     \<and> (\<exists>f. resident m' a f \<and> frame_content m' f = Some (take (nat (page_size m)) data))
     \<and> (\<forall>b g. b \<noteq> a \<longrightarrow> resident m' b g \<longrightarrow> resident m b g \<and> frame_content m' g = frame_content m g)"

lemma resident_bits [simp]:
  "resident (m\<lparr>frame_table := t\<rparr>) a f = resident m a f"
  "resident (m\<lparr>pages_to_replace := ps\<rparr>) a f = resident m a f"
  "resident (mem_send p msg m) a f = resident m a f"
  by (simp_all add: resident_def mem_send_def)

lemma content_bits [simp]:
  "frame_content (m\<lparr>frame_table := t\<rparr>) f = frame_content m f"
  "frame_content (m\<lparr>pages_to_replace := ps\<rparr>) f = frame_content m f"
  "frame_content (mem_send p msg m) f = frame_content m f"
  by (simp_all add: frame_content_def read_frame_def mem_send_def)

lemma frames_ok_more_bits:
  "frames_ok ba m \<Longrightarrow> (\<And>i. bitarray_test_bit ba (frame_table m) i \<Longrightarrow> bitarray_test_bit ba t i) \<Longrightarrow>
     frames_ok ba (m\<lparr>frame_table := t\<rparr>)"
  by (simp add: frames_ok_def total_frames_def)

lemma load_free_space:
  assumes laws: "bitarray_laws ba" and ok: "frames_ok ba m"
    and s: "search_frame ba (frame_table m) 0 (total_frames m) = Some f"
    and l: "load_page_in_free_space ba a f data (m\<lparr>frame_table := bitarray_set_bit ba (frame_table m) f\<rparr>) = Some m'"
  shows "loaded ba m a data m'"
proof -
  let ?m = "m\<lparr>frame_table := bitarray_set_bit ba (frame_table m) f\<rparr>"
  have set: "\<And>b i j. bitarray_test_bit ba (bitarray_set_bit ba b i) j = (i = j \<or> bitarray_test_bit ba b j)"
    using laws by (simp add: bitarray_laws_def)
  obtain m1 where m1: "swap_in a (int f) data ?m = Some m1"
    and m': "m' = m1\<lparr>frame_table := bitarray_set_bit ba (frame_table m1) f\<rparr>"
    using l by (auto simp: load_page_in_free_space_def)
  have ok1: "frames_ok ba ?m" by (rule frames_ok_more_bits[OF ok]) (simp add: set)
  have "\<not> bitarray_test_bit ba (frame_table m) f" using search_frame_Some[OF s] by blast
  then have free: "\<not> resident m b (int f)" for b
    using ok unfolding frames_ok_def by (metis nat_int)
  note spec = swap_in_spec[OF ok1 _ _ _ m1, simplified, OF _ free, unfolded set, simplified]
  have "frames_ok ba m'" unfolding m' by (rule frames_ok_more_bits) (use spec in \<open>auto simp: set\<close>)
  then show ?thesis using spec unfolding loaded_def m' by auto
qed

lemma swap_out_spec:
  assumes ok: "frames_ok ba m" and s: "swap_out v m = Some m'"
  shows "frames_ok ba m'" and "\<And>b g. resident m' b g \<longleftrightarrow> b \<noteq> v \<and> resident m b g"
    and "\<And>g. frame_content m' g = frame_content m g" and "frame_table m' = frame_table m"
    and "page_size m' = page_size m"
    and "\<And>e. store m v = Some e \<Longrightarrow> \<exists>e'. store m' v = Some e' \<and> frame_number e' = frame_number e"
proof -
  obtain e m1 where e: "store m v = Some e" and m1: "m1 = m \<or> (\<exists>p msg. m1 = mem_send p msg m)"
    and m': "m' = set_entry v (e\<lparr>bit_precense := False, bit_modified := False\<rparr>) m1"
    using s by (auto simp: swap_out_def update_page_def bind_eq_Some_conv split: if_splits)
  show r: "\<And>b g. resident m' b g \<longleftrightarrow> b \<noteq> v \<and> resident m b g"
    and c: "\<And>g. frame_content m' g = frame_content m g"
    and t: "frame_table m' = frame_table m" and p: "page_size m' = page_size m"
    and "\<And>e. store m v = Some e \<Longrightarrow> \<exists>e'. store m' v = Some e' \<and> frame_number e' = frame_number e"
    using m1 by (auto simp: e m' resident_def set_entry_def mem_send_def frame_content_def read_frame_def)
  have "frames m' = frames m" "memory_size m' = memory_size m"
    using m1 by (auto simp: m' set_entry_def mem_send_def)
  then show "frames_ok ba m'" using ok r t p unfolding frames_ok_def total_frames_def by metis
qed

lemma load_replacing:
  assumes ok: "frames_ok ba m" and v: "victim_resident m" and l: "page_replace a data m = Some m'"
  shows "loaded ba m a data m'"
proof -
  obtain w ws where w: "pages_to_replace m = w # ws"
    using l by (cases "pages_to_replace m") (auto simp: page_replace_def list_remove_first_def)
  let ?m = "m\<lparr>pages_to_replace := ws\<rparr>"
  obtain m1 e1 where m1: "swap_out w ?m = Some m1" and e1: "store m1 w = Some e1"
    and m2: "swap_in a (frame_number e1) data m1 = Some m'"
    using l w by (auto simp: page_replace_def list_remove_first_def bind_eq_Some_conv)
  obtain f where f: "resident m w f" using v w by (auto simp: victim_resident_def)
  have ok1: "frames_ok ba ?m" using ok by (simp add: frames_ok_def total_frames_def)
  note out = swap_out_spec[OF ok1 m1, simplified]
  obtain e where e: "store m w = Some e" "frame_number e = f" using f by (auto simp: resident_def)
  then have fe: "frame_number e1 = f" using out(6)[of e] e1 by simp
  have fb: "0 \<le> f" "bitarray_test_bit ba (frame_table m1) (nat f)"
    using ok f out(4) by (auto simp: frames_ok_def)
  have "\<not> resident m1 b f" for b using out(2) ok f unfolding frames_ok_def by blast
  note spec = swap_in_spec[OF out(1) fb this m2[unfolded fe]]
  show ?thesis
    using spec out unfolding loaded_def by (metis (no_types, lifting))
qed

text \<open>
  Loading a page. A load ends with the page in a frame that no other resident page has,
  holding the data that came from the swap; every other page that is in memory afterwards was
  there before, in the same frame and with the same content. This holds for free frames and
  for replacement, provided the page chosen for replacement is in memory.
\<close>

theorem load_page_isolates:
  assumes "bitarray_laws ba" and "frames_ok ba m" and "victim_resident m"
    and "get_page p n m = Some (Some a)" and "load_page ba p n data m = Some m'"
  shows "loaded ba m a data m'"
proof (cases "search_frame ba (frame_table m) 0 (total_frames m)")
  case None
  then have "page_replace a data m = Some m'"
    using assms(4,5) by (simp add: load_page_def check_available_frames_def)
  then show ?thesis by (rule load_replacing[OF assms(2,3)])
next
  case (Some f)
  have "get_page p n (m\<lparr>frame_table := t\<rparr>) = get_page p n m" for t
    by (simp add: get_page_def search_page_table_def)
  then have "load_page_in_free_space ba a f data (m\<lparr>frame_table := bitarray_set_bit ba (frame_table m) f\<rparr>) = Some m'"
    using assms(4,5) Some by (simp add: load_page_def check_available_frames_def)
  then show ?thesis by (rule load_free_space[OF assms(1,2) Some])
qed

section \<open>A concrete memory\<close>

definition demo_bits :: "(nat \<Rightarrow> bool) bitarray_ops" where
  "demo_bits = \<lparr>bitarray_create = (\<lambda>bs i. i < 8 * length bs \<and> bit (bs ! (i div 8)) (i mod 8)),
     bitarray_test_bit = (\<lambda>b i. b i), bitarray_set_bit = (\<lambda>b i. b(i := True)),
     bitarray_clean_bit = (\<lambda>b i. b(i := False))\<rparr>"

lemma demo_bits_laws: "bitarray_laws demo_bits"
  by (simp add: bitarray_laws_def demo_bits_def)

text \<open>Four frames of 16 bytes and a process with two pages, none of them in memory.\<close>

definition demo_memory :: "(nat \<Rightarrow> bool) memory" where
  "demo_memory = (init_real_memory demo_bits 64 16 (replicate 64 0))\<lparr>
     store := [0 \<mapsto> page_create 1 False False 0 0 7, 1 \<mapsto> page_create 1 False False 0 1 8],
     next_entry := 2, page_tables := [(1, [0, 1])]\<rparr>"

lemma demo_memory_ok: "frames_ok demo_bits demo_memory" "victim_resident demo_memory"
  "get_page 1 0 demo_memory = Some (Some 0)"
  by (auto simp: frames_ok_def victim_resident_def demo_memory_def init_real_memory_def resident_def
      page_create_def get_page_def search_page_table_def list_get_def split: if_splits)

theorem load_page_isolates_witness:
  "\<exists>m'. load_page demo_bits 1 0 (replicate 16 9) demo_memory = Some m' \<and> loaded demo_bits demo_memory 0 (replicate 16 9) m'"
proof -
  have "\<not> Option.is_none (load_page demo_bits 1 0 (replicate 16 9) demo_memory)" by code_simp
  then obtain m' where "load_page demo_bits 1 0 (replicate 16 9) demo_memory = Some m'"
    by (cases "load_page demo_bits 1 0 (replicate 16 9) demo_memory") simp_all
  then show ?thesis
    using load_page_isolates[OF demo_bits_laws demo_memory_ok] by blast
qed

section \<open>Replacement\<close>

text \<open>
  Nothing is lost by a replacement. When the oldest page of the list has been modified,
  its whole content is sent to its block of the swap before its frame is reused; when it has
  not, nothing is sent. Either way it leaves the memory and the list.
\<close>

theorem replacement_saves_victim:
  assumes ok: "frames_ok ba m" and w: "pages_to_replace m = w # ws" "w \<noteq> a"
    and e: "store m w = Some e" "bit_precense e" and l: "page_replace a data m = Some m'"
  shows "(\<exists>content. frame_content m (frame_number e) = Some content
       \<and> mem_sent m' = mem_sent m @ (if bit_modified e
          then [(PFilesystem, MSwapPage 13 (page_for_swap (swap_position e) (word_of_int (page_size m)) content))]
          else []))
     \<and> \<not> resident m' w f \<and> pages_to_replace m' = ws"
proof -
  let ?m = "m\<lparr>pages_to_replace := ws\<rparr>"
  obtain m1 e1 where m1: "swap_out w ?m = Some m1" and "store m1 w = Some e1"
    and m2: "swap_in a (frame_number e1) data m1 = Some m'"
    using l w by (auto simp: page_replace_def list_remove_first_def bind_eq_Some_conv)
  have r: "resident m w (frame_number e)" using e by (simp add: resident_def)
  then have f: "0 \<le> frame_number e" "0 < page_size m" using ok by (auto simp: frames_ok_def)
  obtain content where c: "frame_content m (frame_number e) = Some content"
    using mem_read_defined[OF frame_inside[OF ok r]] unfolding frame_content_block[OF f(2,1)] by blast
  have "pages_to_replace m' = pages_to_replace m1" "mem_sent m' = mem_sent m1" "\<And>g. resident m' w g = resident m1 w g"
    using m2 w(2) by (auto simp: swap_in_def write_on_frame_def set_entry_def bind_eq_Some_conv resident_def split: if_splits)
  moreover have "read_frame ?m (frame_number e * page_size m) (page_size m) = Some content"
    using c by (auto simp: frame_content_def read_frame_def split: if_splits)
  then have "pages_to_replace m1 = ws" "\<not> resident m1 w g"
    "mem_sent m1 = mem_sent m @ (if bit_modified e
          then [(PFilesystem, MSwapPage 13 (page_for_swap (swap_position e) (word_of_int (page_size m)) content))] else [])" for g
    using m1 e by (auto simp: swap_out_def update_page_def mem_send_def set_entry_def resident_def bind_eq_Some_conv split: if_splits)
  ultimately show ?thesis using c by simp
qed

theorem replacement_saves_victim_witness:
  "\<exists>m' content. page_replace 1 (replicate 16 5) (demo_memory\<lparr>store := [0 \<mapsto> page_create 1 True True 0 0 7,
        1 \<mapsto> page_create 1 False False 0 1 8], frame_table := (\<lambda>i. i = 0), pages_to_replace := [0]\<rparr>) = Some m'
     \<and> mem_sent m' = [(PFilesystem, MSwapPage 13 (page_for_swap 7 16 content))] \<and> pages_to_replace m' = []"
proof -
  let ?m = "demo_memory\<lparr>store := [0 \<mapsto> page_create 1 True True 0 0 7,
        1 \<mapsto> page_create 1 False False 0 1 8], frame_table := (\<lambda>i. i = 0), pages_to_replace := [0]\<rparr>"
  have ok: "frames_ok demo_bits ?m"
    by (auto simp: frames_ok_def demo_memory_def init_real_memory_def resident_def page_create_def
        total_frames_def demo_bits_def split: if_splits)
  have "\<not> Option.is_none (page_replace 1 (replicate 16 5) ?m)" by code_simp
  then obtain m' where m': "page_replace 1 (replicate 16 5) ?m = Some m'"
    by (cases "page_replace 1 (replicate 16 5) ?m") simp_all
  from replacement_saves_victim[OF ok _ _ _ _ m', of 0 "[]" "page_create 1 True True 0 0 7" 0] m'
  show ?thesis by (auto simp: page_create_def demo_memory_def init_real_memory_def)
qed

section \<open>Replacement order\<close>

fun lru_after :: "nat list \<Rightarrow> 'b memory \<Rightarrow> 'b memory option" where
  "lru_after [] m = Some m"
| "lru_after (a # as) m = (case sort_pages_by_lru (m\<lparr>last_page_referenced := Some a\<rparr>) of
      None \<Rightarrow> None | Some m \<Rightarrow> lru_after as m)"

lemma fold_lru: "fold (\<lambda>a l. remove1 a l @ [a]) as [] = remdups as"
proof (induction as rule: rev_induct)
  case (snoc a as)
  have "remdups (as @ [a]) = filter (\<lambda>x. x \<noteq> a) (remdups as) @ [a]"
    by (induction as) auto
  then show ?case using snoc by (simp add: distinct_remove1_removeAll removeAll_filter_not_eq neq_commute)
qed simp

lemma lru_after_fold:
  "\<exists>m'. lru_after as m = Some m' \<and> pages_to_replace m' = fold (\<lambda>a l. remove1 a l @ [a]) as (pages_to_replace m)"
proof (induction as arbitrary: m)
  case (Cons a as)
  then show ?case
    using Cons[of "m\<lparr>last_page_referenced := Some a, pages_to_replace := remove1 a (pages_to_replace m) @ [a]\<rparr>"]
    by (simp add: sort_pages_by_lru_def)
qed simp

text \<open>
  The replacement list of LRU. When every reference is followed by its turn of the sorter,
  the list holds each referenced page once, in the order of its last reference: its head is
  the page unused for longest.
\<close>

theorem lru_order:
  assumes "pages_to_replace m = []"
  shows "\<exists>m'. lru_after refs m = Some m' \<and> pages_to_replace m' = remdups refs"
  using lru_after_fold[of refs m] assms by (simp add: fold_lru)

theorem lru_order_witness:
  "\<exists>m'. lru_after [0, 1, 0] demo_memory = Some m' \<and> pages_to_replace m' = [1, 0]"
  using lru_order[of demo_memory "[0, 1, 0]"] by (simp add: demo_memory_def init_real_memory_def)

section \<open>Reading back what was written\<close>

lemma frame_content_defined:
  assumes "frames_ok ba m" and "resident m a f"
  shows "\<exists>c. frame_content m f = Some c \<and> length c = nat (page_size m)"
proof -
  have f: "0 \<le> f" "0 < page_size m" using assms by (auto simp: frames_ok_def)
  show ?thesis using mem_read_defined[OF frame_inside[OF assms]] mem_read_length
    unfolding frame_content_block[OF f(2,1)] by blast
qed

lemma referenced_spec:
  assumes "get_page p (sint n) m = Some (Some a)" and "store m a = Some e"
  shows "referenced p n m = Some (a, e, m\<lparr>last_page_referenced := Some a, sort_pages := sort_pages m + 1\<rparr>)"
  using assms by (simp add: referenced_def reference_page_def)

text \<open>The bytes of a page that is in a frame, and the two accesses to them.\<close>

lemma frame_access:
  assumes ok: "frames_ok ba m" and r: "resident m a f" and d: "0 \<le> d" "d + 4 \<le> page_size m"
  shows "0 \<le> f" "0 \<le> f * page_size m + d"
    "nat (f * page_size m + d) = nat f * nat (page_size m) + nat d"
    "nat f * nat (page_size m) + nat d + 4 \<le> length (frames m)" "nat d + 4 \<le> nat (page_size m)"
proof -
  show f: "0 \<le> f" using ok r by (auto simp: frames_ok_def)
  have ps: "0 < page_size m" using ok by (simp add: frames_ok_def)
  have nn: "0 \<le> f * page_size m" using f ps by simp
  show "0 \<le> f * page_size m + d" using nn d by linarith
  show "nat (f * page_size m + d) = nat f * nat (page_size m) + nat d"
    using f ps d nn by (simp add: nat_add_distrib nat_mult_distrib)
  show "nat f * nat (page_size m) + nat d + 4 \<le> length (frames m)"
    using frame_inside[OF ok r] d by linarith
  show "nat d + 4 \<le> nat (page_size m)" using d by linarith
qed

text \<open>The memory after \<open>MOV_OUT\<close> on the entry \<open>a\<close>.\<close>

definition stored :: "port \<Rightarrow> nat \<Rightarrow> t_page_entry \<Rightarrow> u8 list \<Rightarrow> 'b memory \<Rightarrow> 'b memory" where
  "stored pt a e fs m = m\<lparr>frames := fs, last_page_referenced := Some a, sort_pages := sort_pages m + 1,
     store := (store m)(a \<mapsto> e\<lparr>bit_modified := True\<rparr>),
     mem_sent := mem_sent m @ [(pt, MPackage (create_integer_package 16 0))]\<rparr>"

lemma stored_simps [simp]:
  "page_size (stored pt a e fs m) = page_size m" "frames (stored pt a e fs m) = fs"
  "store (stored pt a e fs m) = (store m)(a \<mapsto> e\<lparr>bit_modified := True\<rparr>)"
  "get_page p n (stored pt a e fs m) = get_page p n m" "sort_pages (stored pt a e fs m) = sort_pages m + 1"
  "frame_table (stored pt a e fs m) = frame_table m" "memory_size (stored pt a e fs m) = memory_size m"
  "mem_sent (stored pt a e fs m) = mem_sent m @ [(pt, MPackage (create_integer_package 16 0))]"
  by (simp_all add: stored_def get_page_def search_page_table_def)

lemma stored_resident [simp]:
  "store m a = Some e \<Longrightarrow> resident (stored pt a e fs m) b g = resident m b g"
  by (auto simp: resident_def)

lemma mov_out_effect:
  assumes ok: "frames_ok ba m" and p: "get_page p (sint n) m = Some (Some a)"
    and e: "store m a = Some e" "bit_precense e"
    and d: "0 \<le> sint d" "sint d + 4 \<le> page_size m"
  shows "\<exists>fs. mem_write (frames m) (nat (frame_number e) * nat (page_size m) + nat (sint d)) (bytes_of_u32 v) = Some fs
     \<and> mov_out pt \<lparr>mo_page_number = n, mo_displacement = d, mo_pid = p, mo_register_value = v\<rparr> m
         = Some (stored pt a e fs m)"
proof -
  have r: "resident m a (frame_number e)" using e by (simp add: resident_def)
  note acc = frame_access[OF ok r d]
  obtain fs where w: "mem_write (frames m) (nat (frame_number e) * nat (page_size m) + nat (sint d)) (bytes_of_u32 v) = Some fs"
    using mem_write_defined[of "nat (frame_number e) * nat (page_size m) + nat (sint d)" "bytes_of_u32 v" "frames m"] acc(4)
    by auto
  then show ?thesis
    using referenced_spec[OF p e(1)] acc
    by (simp add: mov_out_def write_on_frame_def set_entry_def reply_def mem_send_def stored_def)
qed

lemma mov_in_effect:
  assumes p: "get_page p (sint n) m = Some (Some a)" and e: "store m a = Some e"
    and pos: "0 \<le> frame_number e * page_size m + sint d"
    and rd: "mem_read (frames m) (nat (frame_number e * page_size m + sint d)) 4 = Some bs" "rd_u32 bs = Some (v, rest)"
  shows "mov_in pt \<lparr>page_number = n, displacement = d, pag_pid = p\<rparr> m = Some (reply pt (create_uint32_package 15 v)
     (m\<lparr>last_page_referenced := Some a, sort_pages := sort_pages m + 1\<rparr>))"
  using referenced_spec[OF p e] pos rd by (simp add: mov_in_def read_frame_def)

lemma stored_content:
  assumes ok: "frames_ok ba m" and e: "store m a = Some e" "bit_precense e"
    and d: "0 \<le> d" "d + 4 \<le> page_size m" and lb: "length bs = 4"
    and w: "mem_write (frames m) (nat (frame_number e) * nat (page_size m) + nat d) bs = Some fs"
  shows "\<exists>c c'. frame_content m (frame_number e) = Some c \<and> mem_write c (nat d) bs = Some c'
     \<and> frame_content (stored pt a e fs m) (frame_number e) = Some c'"
    and "\<And>b g. b \<noteq> a \<Longrightarrow> resident m b g \<Longrightarrow> frame_content (stored pt a e fs m) g = frame_content m g"
proof -
  let ?f = "frame_number e"
  have r: "resident m a ?f" using e by (simp add: resident_def)
  note acc = frame_access[OF ok r d]
  have ps: "0 < page_size m" using ok by (simp add: frames_ok_def)
  obtain c where c: "frame_content m ?f = Some c" using frame_content_defined[OF ok r] by blast
  then have "mem_read (frames m) (nat ?f * nat (page_size m)) (nat (page_size m)) = Some c"
    using frame_content_block[OF ps acc(1)] by simp
  from mem_write_inside[OF this w] acc(5) lb c show
    "\<exists>c c'. frame_content m ?f = Some c \<and> mem_write c (nat d) bs = Some c'
     \<and> frame_content (stored pt a e fs m) ?f = Some c'"
    using frame_content_block[of "stored pt a e fs m" ?f] ps acc(1) by auto
  fix b g assume "b \<noteq> a" "resident m b g"
  then have g: "0 \<le> g" "g \<noteq> ?f" using ok r unfolding frames_ok_def by metis+
  then have "nat g \<noteq> nat ?f" using acc(1) by linarith
  note dj = block_disjoint[OF this, of "nat (page_size m)"]
  have "mem_read fs (nat g * nat (page_size m)) (nat (page_size m)) = mem_read (frames m) (nat g * nat (page_size m)) (nat (page_size m))"
    by (rule mem_read_write_disjoint[OF w]) (use dj acc(5) lb in auto)
  then show "frame_content (stored pt a e fs m) g = frame_content m g"
    using g ps by (simp add: frame_content_block)
qed

text \<open>
  Memory is memory. On a page that is in a frame, at a displacement where a register
  fits, \<open>MOV_OUT\<close> succeeds and answers 0, and a \<open>MOV_IN\<close> of the same address answers with
  the value written. The page is marked as modified and no other resident page changes.
\<close>

theorem mov_out_then_mov_in:
  assumes ok: "frames_ok ba m" and p: "get_page p (sint n) m = Some (Some a)"
    and e: "store m a = Some e" "bit_precense e"
    and d: "0 \<le> sint d" "sint d + 4 \<le> page_size m"
  shows "\<exists>m1 m2. mov_out pt \<lparr>mo_page_number = n, mo_displacement = d, mo_pid = p, mo_register_value = v\<rparr> m = Some m1
     \<and> mov_in pt \<lparr>page_number = n, displacement = d, pag_pid = p\<rparr> m1 = Some m2
     \<and> mem_sent m2 = mem_sent m @ [(pt, MPackage (create_integer_package 16 0)), (pt, MPackage (create_uint32_package 15 v))]
     \<and> (\<exists>e'. store m2 a = Some e' \<and> bit_modified e')
     \<and> (\<forall>b g. b \<noteq> a \<longrightarrow> resident m b g \<longrightarrow> resident m2 b g \<and> frame_content m2 g = frame_content m g)"
proof -
  let ?f = "frame_number e"
  have r: "resident m a ?f" using e by (simp add: resident_def)
  note acc = frame_access[OF ok r d]
  obtain fs where w: "mem_write (frames m) (nat ?f * nat (page_size m) + nat (sint d)) (bytes_of_u32 v) = Some fs"
    and m1: "mov_out pt \<lparr>mo_page_number = n, mo_displacement = d, mo_pid = p, mo_register_value = v\<rparr> m
         = Some (stored pt a e fs m)" using mov_out_effect[OF ok p e d] by blast
  let ?m1 = "stored pt a e fs m"
  have p1: "get_page p (sint n) ?m1 = Some (Some a)" and e1: "store ?m1 a = Some (e\<lparr>bit_modified := True\<rparr>)"
    using p by simp_all
  have rd: "mem_read (frames ?m1) (nat (?f * page_size ?m1 + sint d)) 4 = Some (bytes_of_u32 v)"
    using mem_read_write_same[OF w] acc(3) by simp
  let ?m2 = "reply pt (create_uint32_package 15 v) (?m1\<lparr>last_page_referenced := Some a, sort_pages := sort_pages ?m1 + 1\<rparr>)"
  have m2: "mov_in pt \<lparr>page_number = n, displacement = d, pag_pid = p\<rparr> ?m1 = Some ?m2"
    using mov_in_effect[OF p1 e1, of d "bytes_of_u32 v" v "[]"] acc(2) rd by (simp add: u32_codec.dec_enc_nil)
  have "resident ?m2 b g \<and> frame_content ?m2 g = frame_content m g" if "b \<noteq> a" "resident m b g" for b g
  proof -
    have "frame_content ?m1 g = frame_content m g" by (rule stored_content(2)[OF ok e d _ w that]) simp
    moreover have "frame_content ?m2 g = frame_content ?m1 g" "resident ?m2 b g = resident ?m1 b g"
      by (simp_all add: frame_content_def read_frame_def resident_def reply_def mem_send_def)
    ultimately show ?thesis using that e(1) by simp
  qed
  then show ?thesis using m1 m2 by (intro exI[of _ ?m1] exI[of _ ?m2]) (simp add: reply_def mem_send_def)
qed

definition demo_resident :: "(nat \<Rightarrow> bool) memory" where
  "demo_resident = demo_memory\<lparr>store := [0 \<mapsto> page_create 1 False True 2 0 7], frame_table := (\<lambda>i. i = 2)\<rparr>"

theorem mov_out_then_mov_in_witness:
  "\<exists>m1 m2. mov_out PCpu \<lparr>mo_page_number = 0, mo_displacement = 4, mo_pid = 1, mo_register_value = 77\<rparr> demo_resident = Some m1
     \<and> mov_in PCpu \<lparr>page_number = 0, displacement = 4, pag_pid = 1\<rparr> m1 = Some m2
     \<and> snd (last (mem_sent m2)) = MPackage (create_uint32_package 15 77)"
proof -
  have ok: "frames_ok demo_bits demo_resident"
    by (auto simp: frames_ok_def demo_resident_def demo_memory_def init_real_memory_def resident_def
        page_create_def total_frames_def demo_bits_def split: if_splits)
  have p: "get_page 1 (sint (0 :: c_int)) demo_resident = Some (Some 0)"
    by (simp add: demo_resident_def demo_memory_def get_page_def search_page_table_def list_get_def init_real_memory_def)
  have e: "store demo_resident 0 = Some (page_create 1 False True 2 0 7)" "bit_precense (page_create 1 False True 2 0 7)"
    by (simp_all add: demo_resident_def page_create_def)
  have "page_size demo_resident = 16" by (simp add: demo_resident_def demo_memory_def init_real_memory_def)
  then have d: "0 \<le> sint (4 :: c_int)" "sint (4 :: c_int) + 4 \<le> page_size demo_resident" by simp_all
  from mov_out_then_mov_in[OF ok p e d, of PCpu 77] show ?thesis by auto
qed

section \<open>The frame table\<close>

text \<open>
  The search takes the lowest frame whose bit is clear and marks it, and it reports that
  no frame is free only when the bits of all frames are set; it never gives a frame that is
  in use.
\<close>

theorem check_available_frames_spec:
  assumes laws: "bitarray_laws ba"
  shows "case check_available_frames ba m of
      (Some f, m') \<Rightarrow> \<not> bitarray_test_bit ba (frame_table m) f
        \<and> list_all (bitarray_test_bit ba (frame_table m)) [0 ..< f]
        \<and> bitarray_test_bit ba (frame_table m') f \<and> store m' = store m \<and> frames m' = frames m
    | (None, m') \<Rightarrow> m' = m \<and> list_all (bitarray_test_bit ba (frame_table m)) [0 ..< total_frames m]"
proof (cases "search_frame ba (frame_table m) 0 (total_frames m)")
  case None
  then show ?thesis using search_frame_None[OF None] by (simp add: check_available_frames_def list_all_iff)
next
  case (Some f)
  then show ?thesis using search_frame_Some[OF Some] laws
    by (auto simp: check_available_frames_def list_all_iff bitarray_laws_def)
qed

theorem check_available_frames_spec_witness:
  "\<exists>m'. check_available_frames demo_bits demo_memory = (Some 0, m') \<and> bitarray_test_bit demo_bits (frame_table m') 0"
proof -
  have "fst (check_available_frames demo_bits demo_memory) = Some 0" by code_simp
  then obtain m' where "check_available_frames demo_bits demo_memory = (Some 0, m')"
    by (metis prod.collapse)
  with check_available_frames_spec[OF demo_bits_laws, of demo_memory] show ?thesis by simp
qed

text \<open>
  The table of frames does not start empty. Its bits are those of a string of zero
  characters, so in every group of eight frames the numbers 4 and 5 count as taken from the
  start, and the bit one past the last frame counts as free unless the number of frames is 4
  or 5 modulo 8.
\<close>

theorem frame_table_starts_dirty:
  assumes laws: "bitarray_laws ba" and i: "i < 8 * nat (size_m div size_p)"
  shows "bitarray_test_bit ba (frame_table (init_real_memory ba size_m size_p space)) i
     \<longleftrightarrow> i mod 8 = 4 \<or> i mod 8 = 5"
proof -
  have "bit (48 :: u8) n \<longleftrightarrow> n = 4 \<or> n = 5" if "n < 8" for n
    using that by (auto simp: eval_nat_numeral less_Suc_eq bit_simps)
  moreover have "byte_of_char CHR ''0'' = 48" by (simp add: byte_of_char_def)
  ultimately show ?thesis
    using laws i by (simp add: init_real_memory_def bitarray_laws_def)
qed

theorem frame_table_starts_dirty_witness:
  "bitarray_test_bit demo_bits (frame_table (init_real_memory demo_bits 1024 32 [])) 4
     \<and> \<not> bitarray_test_bit demo_bits (frame_table (init_real_memory demo_bits 1024 32 [])) 32"
  using frame_table_starts_dirty[OF demo_bits_laws, of 4 1024 32 "[]"]
    frame_table_starts_dirty[OF demo_bits_laws, of 32 1024 32 "[]"] by simp

text \<open>
  C35. A full memory overflows. The search tests the bit one past the last frame before it
  compares with the number of frames: when all frames are taken and that bit is clear, the page
  is loaded into a frame that does not exist, which writes past the end of the user space,
  instead of replacing a page.
\<close>

theorem full_memory_overflows:
  assumes ps: "0 < page_size m" and len: "int (length (frames m)) = memory_size m"
    and full: "list_all (bitarray_test_bit ba (frame_table m)) [0 ..< total_frames m]"
    and past: "\<not> bitarray_test_bit ba (frame_table m) (total_frames m)"
  shows "fst (check_available_frames ba m) = Some (total_frames m) \<and> load_page ba p n data m = None"
proof -
  have "search_frame ba (frame_table m) i k = Some (total_frames m)" if "i + k = total_frames m" for i k
    using that
  proof (induction k arbitrary: i)
    case (Suc k)
    then show ?case using full by (simp add: list_all_iff)
  qed (use past in simp)
  then have s: "search_frame ba (frame_table m) 0 (total_frames m) = Some (total_frames m)" by simp
  let ?m = "m\<lparr>frame_table := bitarray_set_bit ba (frame_table m) (total_frames m)\<rparr>"
  have tf: "int (total_frames m) = memory_size m div page_size m"
    using ps len by (simp add: total_frames_def pos_imp_zdiv_nonneg_iff)
  have "int (total_frames m) * page_size m + page_size m > memory_size m"
    unfolding tf using ps
    by (metis add.commute add_less_cancel_left div_mult_mod_eq pos_mod_bound)
  then have out: "mem_write (frames m) (nat (int (total_frames m) * page_size m)) d = None"
    if "length d = nat (page_size m)" for d
    using that ps len by (auto simp: mem_write_def)
  have "swap_in a (int (total_frames m)) data ?m = None" for a
  proof (cases "mem_read data 0 (nat (page_size m))")
    case (Some d)
    then show ?thesis using out[OF mem_read_length[OF Some]]
      by (cases "store m a") (simp_all add: swap_in_def set_entry_def write_on_frame_def)
  qed (cases "store m a"; simp add: swap_in_def)
  then show ?thesis
    using s by (auto simp: load_page_def check_available_frames_def load_page_in_free_space_def split: option.splits)
qed

theorem full_memory_overflows_witness:
  "load_page demo_bits 1 0 (replicate 16 9) (demo_memory\<lparr>frame_table := (\<lambda>i. i < 4)\<rparr>) = None"
proof -
  let ?m = "demo_memory\<lparr>frame_table := (\<lambda>i. i < 4)\<rparr>"
  have "total_frames ?m = 4" by (simp add: total_frames_def demo_memory_def init_real_memory_def)
  then have "list_all (bitarray_test_bit demo_bits (frame_table ?m)) [0 ..< total_frames ?m]"
    "\<not> bitarray_test_bit demo_bits (frame_table ?m) (total_frames ?m)"
    by (simp_all add: demo_bits_def list_all_iff)
  moreover have "0 < page_size ?m" "int (length (frames ?m)) = memory_size ?m"
    by (simp_all add: demo_memory_def init_real_memory_def)
  ultimately show ?thesis using full_memory_overflows by blast
qed

section \<open>Processes\<close>

lemma find_snoc: "find P xs = None \<Longrightarrow> find P (xs @ [x]) = (if P x then Some x else None)"
  by (induction xs) (auto split: if_splits)

lemma create_entries_spec:
  assumes "n \<le> length blocks"
  shows "\<exists>m'. create_entries p i n blocks m = Some ([next_entry m ..< next_entry m + n], m')
     \<and> next_entry m' = next_entry m + n \<and> page_tables m' = page_tables m \<and> frames m' = frames m
     \<and> active_processes m' = active_processes m \<and> mem_sent m' = mem_sent m
     \<and> (\<forall>a. store m' a = (if next_entry m \<le> a \<and> a < next_entry m + n
          then Some (page_create p False False 0 (int (i + (a - next_entry m))) (blocks ! (a - next_entry m)))
          else store m a))"
  using assms
proof (induction n arbitrary: i blocks m)
  case (Suc n)
  then obtain b bs where bs: "blocks = b # bs" by (cases blocks) auto
  let ?m = "m\<lparr>store := (store m)(next_entry m \<mapsto> page_create p False False 0 (int i) b), next_entry := next_entry m + 1\<rparr>"
  obtain m' where m': "create_entries p (Suc i) n bs ?m = Some ([next_entry m + 1 ..< next_entry m + 1 + n], m')"
    "next_entry m' = next_entry m + 1 + n" "page_tables m' = page_tables m" "frames m' = frames m"
    "active_processes m' = active_processes m" "mem_sent m' = mem_sent m"
    "\<forall>a. store m' a = (if next_entry m + 1 \<le> a \<and> a < next_entry m + 1 + n
          then Some (page_create p False False 0 (int (Suc i + (a - (next_entry m + 1)))) (bs ! (a - (next_entry m + 1))))
          else store ?m a)"
    using Suc.IH[of bs "Suc i" ?m] Suc.prems bs by auto
  have st: "store m' a = (if next_entry m \<le> a \<and> a < next_entry m + Suc n
          then Some (page_create p False False 0 (int (i + (a - next_entry m))) (blocks ! (a - next_entry m)))
          else store m a)" for a
    using m'(7) bs by (cases "a = next_entry m") (auto simp: nth_Cons' Suc_diff_le algebra_simps)
  have up: "next_entry m # [next_entry m + 1 ..< next_entry m + 1 + n] = [next_entry m ..< next_entry m + Suc n]"
    by (simp add: upt_conv_Cons del: upt_Suc)
  have "create_entries p i (Suc n) blocks m = Some ([next_entry m ..< next_entry m + Suc n], m')"
    unfolding up[symmetric] using m'(1) bs by (simp add: Let_def del: upt_Suc)
  then show ?case using m'(2-6) st by (intro exI[of _ m']) (simp del: upt_Suc)
qed auto

text \<open>
  Creating a process. When its file exists and the file system gave enough blocks, the
  answer is 1 and the process has one page per page size of its memory: page number \<open>i\<close> is not
  in memory and its image is in the \<open>i\<close>-th block; there is no page beyond, and no page of
  another process changes.
\<close>

theorem create_process_maps_blocks:
  assumes f: "get_instructions_from_file env (instructions_path env @ ''/'' @ nom_arch_inst p @ ''.txt'') = Some is"
    and new: "search_page_table (pid p) m = None"
    and n: "nat (uint (tamanio p) div page_size m) = n" "n \<le> length blocks"
  shows "\<exists>m'. create_process env p blocks m = Some (1, m')
     \<and> (\<forall>i. if 0 \<le> i \<and> i < int n
           then \<exists>a. get_page (pid p) i m' = Some (Some a)
             \<and> store m' a = Some (page_create (pid p) False False 0 i (blocks ! nat i))
           else get_page (pid p) i m' = Some None)
     \<and> (\<forall>a. a < next_entry m \<longrightarrow> store m' a = store m a)"
proof -
  obtain m1 where m1: "create_entries (pid p) 0 n blocks m = Some ([next_entry m ..< next_entry m + n], m1)"
    "page_tables m1 = page_tables m"
    and st: "\<forall>a. store m1 a = (if next_entry m \<le> a \<and> a < next_entry m + n
          then Some (page_create (pid p) False False 0 (int (a - next_entry m)) (blocks ! (a - next_entry m)))
          else store m a)"
    using create_entries_spec[OF n(2), of "pid p" 0 m] by auto
  let ?as = "[next_entry m ..< next_entry m + n]"
  let ?m = "m1\<lparr>page_tables := page_tables m @ [(pid p, ?as)], active_processes := active_processes m1 @
      [\<lparr>pr_pid = pid p, pr_file_name = nom_arch_inst p, pr_bytes = tamanio p, instructions_set = is\<rparr>]\<rparr>"
  have c: "create_process env p blocks m = Some (1, ?m)"
    using f m1 n(1) by (simp add: create_process_def page_table_create_def)
  have t: "search_page_table (pid p) ?m = Some (pid p, ?as)"
    using new by (simp add: search_page_table_def find_snoc)
  have g: "get_page (pid p) i ?m = Some (list_get ?as i)" for i using t by (simp add: get_page_def)
  have "if 0 \<le> i \<and> i < int n
      then \<exists>a. get_page (pid p) i ?m = Some (Some a)
        \<and> store ?m a = Some (page_create (pid p) False False 0 i (blocks ! nat i))
      else get_page (pid p) i ?m = Some None" for i
    using st by (auto simp: g list_get_def)
  moreover have "\<forall>a. a < next_entry m \<longrightarrow> store ?m a = store m a" using st by simp
  ultimately show ?thesis using c by blast
qed

definition demo_mem_env :: "(nat \<Rightarrow> bool) mem_env" where
  "demo_mem_env = \<lparr>bits = demo_bits, file_lines = (\<lambda>f. if f = ''d/p.txt'' then Some [''EXIT''] else None),
     string_trim = (\<lambda>s. s), instructions_path = ''d''\<rparr>"

theorem create_process_maps_blocks_witness:
  "\<exists>m' a. create_process demo_mem_env (crear_pcb 2 ''p'' 32 1) [5, 9] demo_memory = Some (1, m')
     \<and> get_page 2 1 m' = Some (Some a) \<and> store m' a = Some (page_create 2 False False 0 1 9)"
proof -
  have f: "get_instructions_from_file demo_mem_env (instructions_path demo_mem_env @ ''/'' @
      nom_arch_inst (crear_pcb 2 ''p'' 32 1) @ ''.txt'') = Some [''EXIT'']"
    by (simp add: get_instructions_from_file_def demo_mem_env_def crear_pcb_def)
  have new: "search_page_table (pid (crear_pcb 2 ''p'' 32 1)) demo_memory = None"
    by (simp add: search_page_table_def demo_memory_def crear_pcb_def)
  have n: "nat (uint (tamanio (crear_pcb 2 ''p'' 32 1)) div page_size demo_memory) = 2" "2 \<le> length [5, 9 :: c_int]"
    by (simp_all add: crear_pcb_def demo_memory_def init_real_memory_def)
  obtain m' where c: "create_process demo_mem_env (crear_pcb 2 ''p'' 32 1) [5, 9] demo_memory = Some (1, m')"
    and p: "\<forall>i. if 0 \<le> i \<and> i < int 2
           then \<exists>a. get_page (pid (crear_pcb 2 ''p'' 32 1)) i m' = Some (Some a)
             \<and> store m' a = Some (page_create (pid (crear_pcb 2 ''p'' 32 1)) False False 0 i ([5, 9] ! nat i))
           else get_page (pid (crear_pcb 2 ''p'' 32 1)) i m' = Some None"
    using create_process_maps_blocks[OF f new n] by blast
  from p[rule_format, of 1] c show ?thesis by (auto simp: crear_pcb_def)
qed

text \<open>
  Fetching goes through the program in order: inside the program the instruction at the
  program counter; at its end and for an unknown process the empty literal, which the thread frees
  after it has sent it; and past the end a NULL is duplicated.
\<close>

theorem fetch_in_order:
  assumes "0 \<le> sint pc"
  shows "fetch_next_instruction p pc m = (case search_process p m of
      None \<Rightarrow> Some Empty_Literal
    | Some q \<Rightarrow> (if nat (sint pc) < length (instructions_set q) then Some (Duplicate (instructions_set q ! nat (sint pc)))
        else if nat (sint pc) = length (instructions_set q) then Some Empty_Literal else None))"
  using assms by (auto simp: fetch_next_instruction_def list_get_def split: option.splits)

theorem fetch_in_order_witness:
  "fetch_next_instruction 1 0 (demo_memory\<lparr>active_processes := [\<lparr>pr_pid = 1, pr_file_name = ''p'', pr_bytes = 32,
     instructions_set = [''SET AX 1'', ''EXIT'']\<rparr>]\<rparr>) = Some (Duplicate ''SET AX 1'')"
  using fetch_in_order[of 0 1 "demo_memory\<lparr>active_processes := [\<lparr>pr_pid = 1, pr_file_name = ''p'', pr_bytes = 32,
     instructions_set = [''SET AX 1'', ''EXIT'']\<rparr>]\<rparr>"]
  by (simp add: search_process_def)

text \<open>
  A process without a program file ends the module. The creation answers -1 and leaves no
  page table; the kernel queues the process all the same, and when it is finished the missing
  table is dereferenced.
\<close>

theorem missing_program_then_end_crashes:
  assumes "get_instructions_from_file env (instructions_path env @ ''/'' @ nom_arch_inst p @ ''.txt'') = None"
    and "search_page_table (pid p) m = None"
  shows "\<exists>m'. create_process env p blocks m = Some (- 1, m')
     \<and> wait_for_command env PKernel (END_PROCESS p) m' = None"
  using assms by (simp add: create_process_def deallocate_process_def)

theorem missing_program_then_end_crashes_witness:
  "\<exists>m'. create_process demo_mem_env (crear_pcb 2 ''x'' 32 1) [5, 9] demo_memory = Some (- 1, m')
     \<and> wait_for_command demo_mem_env PKernel (END_PROCESS (crear_pcb 2 ''x'' 32 1)) m' = None"
  by (rule missing_program_then_end_crashes)
    (simp_all add: get_instructions_from_file_def demo_mem_env_def crear_pcb_def search_page_table_def demo_memory_def)

text \<open>
  A replacement can give two pages one frame. FIFO puts a page on the list when it is
  referenced, before it is loaded; if it reaches the head of the list while its frame number is
  still the initial 0, the page loaded in its place shares frame 0 with whoever has it.
\<close>

theorem replacement_of_absent_page_aliases:
  "let m = demo_memory\<lparr>frame_table := (\<lambda>i. True), pages_to_replace := [1],
        store := [0 \<mapsto> page_create 2 False True 0 0 9, 1 \<mapsto> page_create 1 False False 0 1 8,
          2 \<mapsto> page_create 3 False False 0 0 5]\<rparr>
   in frames_ok demo_bits m \<and> (\<exists>m'. page_replace 2 (replicate 16 7) m = Some m'
      \<and> resident m' 0 0 \<and> resident m' 2 0)"
proof -
  let ?m = "demo_memory\<lparr>frame_table := (\<lambda>i. True), pages_to_replace := [1],
        store := [0 \<mapsto> page_create 2 False True 0 0 9, 1 \<mapsto> page_create 1 False False 0 1 8,
          2 \<mapsto> page_create 3 False False 0 0 5]\<rparr>"
  have ok: "frames_ok demo_bits ?m"
    by (auto simp: frames_ok_def demo_memory_def init_real_memory_def resident_def page_create_def
        total_frames_def demo_bits_def split: if_splits)
  have "case page_replace 2 (replicate 16 7) ?m of None \<Rightarrow> False | Some m' \<Rightarrow>
      map_option (\<lambda>e. (bit_precense e, frame_number e)) (store m' 0) = Some (True, 0) \<and>
      map_option (\<lambda>e. (bit_precense e, frame_number e)) (store m' 2) = Some (True, 0)"
    by code_simp
  with ok show ?thesis by (auto simp: Let_def resident_def split: option.splits)
qed

section \<open>The end of a process\<close>

lemma destroy_page_entry_spec:
  assumes laws: "bitarray_laws ba" and ok: "frames_ok ba m" and e: "store m a = Some e"
  shows "\<exists>m'. destroy_page_entry ba a m = Some m' \<and> frames_ok ba m' \<and> store m' = (store m)(a := None)
     \<and> frames m' = frames m \<and> page_size m' = page_size m \<and> mem_sent m' = mem_sent m
     \<and> (\<forall>i. bitarray_test_bit ba (frame_table m') i \<longleftrightarrow>
          bitarray_test_bit ba (frame_table m) i \<and> \<not> resident m a (int i))"
proof -
  have clean: "\<And>b i j. bitarray_test_bit ba (bitarray_clean_bit ba b i) j = (i \<noteq> j \<and> bitarray_test_bit ba b j)"
    using laws by (simp add: bitarray_laws_def)
  let ?m1 = "if bit_precense e then free_frame ba (frame_number e) m else m"
  let ?m = "?m1\<lparr>pages_to_replace := remove1 a (pages_to_replace ?m1), store := (store ?m1)(a := None)\<rparr>"
  have d: "destroy_page_entry ba a m = Some ?m" using e by (simp add: destroy_page_entry_def Let_def)
  have nn: "0 \<le> f" if "resident m b f" for b f using ok that by (simp add: frames_ok_def)
  have bits: "bitarray_test_bit ba (frame_table ?m) i \<longleftrightarrow>
      bitarray_test_bit ba (frame_table m) i \<and> \<not> resident m a (int i)" for i
    using e nn[of a "frame_number e"] by (auto simp: free_frame_def clean resident_def)
  have r: "resident ?m b f \<longleftrightarrow> b \<noteq> a \<and> resident m b f" for b f
    by (simp add: resident_def free_frame_def)
  have "frames_ok ba ?m"
    unfolding frames_ok_def r bits
  proof (intro conjI allI impI)
    fix b f assume b: "b \<noteq> a \<and> resident m b f"
    then show "0 \<le> f" "f < int (total_frames ?m)" "bitarray_test_bit ba (frame_table m) (nat f)"
      using ok by (auto simp: frames_ok_def total_frames_def free_frame_def)
    show "\<not> resident m a (int (nat f))" using b nn ok unfolding frames_ok_def by (metis nat_0_le)
  next
    fix b c f assume "b \<noteq> a \<and> resident m b f" "c \<noteq> a \<and> resident m c f"
    then show "b = c" using ok unfolding frames_ok_def by blast
  qed (use ok in \<open>simp_all add: frames_ok_def free_frame_def\<close>)
  then show ?thesis using d bits by (intro exI[of _ ?m]) (simp add: free_frame_def)
qed

lemma destroy_entries_spec:
  assumes laws: "bitarray_laws ba"
  shows "frames_ok ba m \<Longrightarrow> distinct as \<Longrightarrow> list_all (\<lambda>a. store m a \<noteq> None) as \<Longrightarrow>
    \<exists>m'. destroy_entries ba as m = Some m' \<and> frames_ok ba m'
     \<and> (\<forall>b. store m' b = (if b \<in> set as then None else store m b))
     \<and> frames m' = frames m \<and> page_size m' = page_size m \<and> mem_sent m' = mem_sent m
     \<and> (\<forall>i. bitarray_test_bit ba (frame_table m') i \<longleftrightarrow>
          bitarray_test_bit ba (frame_table m) i \<and> list_all (\<lambda>a. \<not> resident m a (int i)) as)"
proof (induction as arbitrary: m)
  case (Cons a as)
  then obtain e where "store m a = Some e" by auto
  then obtain m1 where m1: "destroy_page_entry ba a m = Some m1" "frames_ok ba m1" "store m1 = (store m)(a := None)"
    "frames m1 = frames m" "page_size m1 = page_size m" "mem_sent m1 = mem_sent m"
    "\<forall>i. bitarray_test_bit ba (frame_table m1) i \<longleftrightarrow>
          bitarray_test_bit ba (frame_table m) i \<and> \<not> resident m a (int i)"
    using destroy_page_entry_spec[OF laws Cons.prems(1)] by blast
  have na: "a \<notin> set as" using Cons.prems(2) by simp
  then have live: "list_all (\<lambda>a. store m1 a \<noteq> None) as"
    using Cons.prems(3) m1(3) by (auto simp: list_all_iff)
  have res: "resident m1 b f \<longleftrightarrow> resident m b f" if "b \<in> set as" for b f
    using that na m1(3) by (auto simp: resident_def)
  have "list_all (\<lambda>a. \<not> resident m1 a f) as = list_all (\<lambda>a. \<not> resident m a f) as" for f
    using res by (auto simp: list_all_iff)
  moreover obtain m' where "destroy_entries ba as m1 = Some m'" "frames_ok ba m'"
     "\<forall>b. store m' b = (if b \<in> set as then None else store m1 b)"
     "frames m' = frames m1" "page_size m' = page_size m1" "mem_sent m' = mem_sent m1"
     "\<forall>i. bitarray_test_bit ba (frame_table m') i \<longleftrightarrow>
          bitarray_test_bit ba (frame_table m1) i \<and> list_all (\<lambda>a. \<not> resident m1 a (int i)) as"
    using Cons.IH[OF m1(2) _ live] Cons.prems(2) by auto
  ultimately show ?case using m1 by auto
qed simp

text \<open>
  C18. The end of a process. Its pages are destroyed, the frames they had are free again, the
  file system is told to free exactly their blocks of the swap, and every page of another
  process keeps its frame and its content.
\<close>

theorem end_process_releases:
  assumes laws: "bitarray_laws ba" and ok: "frames_ok ba m"
    and t: "search_page_table p m = Some (p, as)" "distinct as" "list_all (\<lambda>a. store m a \<noteq> None) as"
  shows "\<exists>m'. deallocate_process ba p m = Some m' \<and> frames_ok ba m'
     \<and> mem_sent m' = mem_sent m @ [(PFilesystem, MList 14 (map (\<lambda>a. swap_position (the (store m a))) as))]
     \<and> list_all (\<lambda>a. store m' a = None \<and> (\<forall>f. resident m a f \<longrightarrow> \<not> bitarray_test_bit ba (frame_table m') (nat f))) as
     \<and> (\<forall>b f. b \<notin> set as \<longrightarrow> resident m b f \<longrightarrow> resident m' b f \<and> frame_content m' f = frame_content m f)"
proof -
  let ?m1 = "(mem_send PFilesystem (MList 14 (map (\<lambda>a. swap_position (the (store m a))) as)) m)
      \<lparr>page_tables := remove1 (p, as) (page_tables m)\<rparr>"
  have r1: "resident ?m1 = resident m" by (intro ext) (simp add: resident_def mem_send_def)
  have ok1: "frames_ok ba ?m1" using ok unfolding frames_ok_def r1 by (simp add: mem_send_def total_frames_def)
  have live: "list_all (\<lambda>a. store ?m1 a \<noteq> None) as" using t(3) by (simp add: mem_send_def)
  from destroy_entries_spec[OF laws ok1 t(2) live] obtain m2 where m2: "destroy_entries ba as ?m1 = Some m2"
    "frames_ok ba m2" "\<forall>b. store m2 b = (if b \<in> set as then None else store m b)" "frames m2 = frames m"
    "page_size m2 = page_size m"
    "mem_sent m2 = mem_sent m @ [(PFilesystem, MList 14 (map (\<lambda>a. swap_position (the (store m a))) as))]"
    "\<forall>i. bitarray_test_bit ba (frame_table m2) i \<longleftrightarrow>
          bitarray_test_bit ba (frame_table m) i \<and> list_all (\<lambda>a. \<not> resident m a (int i)) as"
    unfolding r1 by (auto simp: mem_send_def)
  let ?m' = "m2\<lparr>active_processes := snd (list_remove_by_condition (\<lambda>q. pr_pid q = p) (active_processes m2))\<rparr>"
  have "deallocate_process ba p m = Some ?m'"
    using t m2(1) by (simp add: deallocate_process_def free_swap_blocks_def destroy_page_table_def)
      (simp add: mem_send_def)
  moreover have "frames_ok ba ?m'" using m2(2) by (simp add: frames_ok_def resident_def total_frames_def)
  moreover have "list_all (\<lambda>a. store ?m' a = None \<and> (\<forall>f. resident m a f \<longrightarrow> \<not> bitarray_test_bit ba (frame_table ?m') (nat f))) as"
    using m2(3,7) ok by (force simp: list_all_iff frames_ok_def)
  moreover have "resident ?m' b f \<and> frame_content ?m' f = frame_content m f" if "b \<notin> set as" "resident m b f" for b f
    using that m2(3-5) by (simp add: resident_def frame_content_def read_frame_def)
  ultimately show ?thesis using m2(6) by (intro exI[of _ ?m']) auto
qed

theorem end_process_releases_witness:
  "\<exists>m'. deallocate_process demo_bits 1 (demo_resident\<lparr>page_tables := [(1, [0])]\<rparr>) = Some m'
     \<and> \<not> bitarray_test_bit demo_bits (frame_table m') 2 \<and> mem_sent m' = [(PFilesystem, MList 14 [7])]"
proof -
  let ?m = "demo_resident\<lparr>page_tables := [(1, [0])]\<rparr>"
  have ok: "frames_ok demo_bits ?m"
    by (auto simp: frames_ok_def demo_resident_def demo_memory_def init_real_memory_def resident_def
        page_create_def total_frames_def demo_bits_def split: if_splits)
  have t: "search_page_table 1 ?m = Some (1, [0])" by (simp add: search_page_table_def)
  have live: "list_all (\<lambda>a. store ?m a \<noteq> None) [0]" by (simp add: demo_resident_def)
  have r: "resident ?m 0 2" by (simp add: resident_def demo_resident_def page_create_def)
  have s: "swap_position (the (store ?m 0)) = 7" "mem_sent ?m = []"
    by (simp_all add: demo_resident_def demo_memory_def init_real_memory_def page_create_def)
  have dist: "distinct [0 :: nat]" by simp
  from end_process_releases[OF demo_bits_laws ok t dist live] r s show ?thesis by fastforce
qed

end
