(* ===== verification/Fat.thy ===== *)
theory Fat
  imports Pcb "HOL-Library.Signed_Division"
begin

text \<open>
  The allocation table of the file system (\<^verbatim>\<open>file-system/src/fs-struct/fat-bloque.c\<close>,
  lines 13 to 213). The list \<open>fat_list\<close> holds one \<^verbatim>\<open>uint32_t\<close> per block of the files: 0
  for a free block, \<open>UINT32_MAX\<close> for the last block of a chain, otherwise the next block. A
  read outside the list is the NULL of \<open>list_get\<close>, which the code reads as 0. The two loops
  that follow a chain may not end; they are partial functions, and \<open>None\<close> is not returning.
\<close>

section \<open>State\<close>

record t_fs_config =
  path_fcb :: string
  block_total_count :: int
  block_swap_count :: int
  block_size :: int

record t_fcb =
  fcb_file_name :: string
  file_size :: int
  initial_block :: int

abbreviation UINT32_MAX :: u32 where "UINT32_MAX \<equiv> - 1"

text \<open>The blocks of the files; \<open>fat_count\<close> is the length of the table.\<close>

definition fat_count :: "t_fs_config \<Rightarrow> int" where
  "fat_count cfg = block_total_count cfg - block_swap_count cfg"

definition fat_get :: "u32 list \<Rightarrow> int \<Rightarrow> u32" where
  "fat_get fat i = (case list_get fat i of None \<Rightarrow> 0 | Some w \<Rightarrow> w)"

definition initialize_fat_list :: "t_fs_config \<Rightarrow> u32 list" where
  "initialize_fat_list cfg = replicate (nat (fat_count cfg)) 0"

section \<open>Searching and assigning\<close>

definition find_free_current_block :: "t_fs_config \<Rightarrow> u32 list \<Rightarrow> int" where
  "find_free_current_block cfg fat =
     (case find (\<lambda>i. fat_get fat i = 0 \<and> i \<noteq> 0) [1 .. fat_count cfg - 1] of
        None \<Rightarrow> - 1 | Some i \<Rightarrow> i)"

definition find_free_block :: "t_fs_config \<Rightarrow> u32 list \<Rightarrow> int \<Rightarrow> int" where
  "find_free_block cfg fat current_block =
     (case find (\<lambda>i. fat_get fat i = 0 \<and> current_block \<noteq> i \<and> i \<noteq> 0) [1 .. fat_count cfg - 1] of
        None \<Rightarrow> - 1 | Some i \<Rightarrow> i)"

definition assign_block :: "u32 list \<Rightarrow> int \<Rightarrow> u32 \<Rightarrow> u32 list" where
  "assign_block fat file_block free_block = list_replace fat file_block free_block"

definition set_end_of_file :: "u32 list \<Rightarrow> int \<Rightarrow> u32 list" where
  "set_end_of_file fat file_block = list_replace fat file_block UINT32_MAX"

text \<open>
  The loop of \<open>assign_block_size\<close> with the number of blocks still to assign; it returns the
  table and the last block reached.
\<close>

fun assign_loop :: "t_fs_config \<Rightarrow> nat \<Rightarrow> u32 list \<Rightarrow> int \<Rightarrow> u32 list \<times> int" where
  "assign_loop cfg 0 fat current_block = (fat, current_block)"
| "assign_loop cfg (Suc n) fat current_block =
     (let free_block = find_free_block cfg fat current_block in
      if free_block = - 1 then (fat, current_block)
      else let fat = (if fat_get fat current_block = 0
                      then assign_block fat current_block (word_of_int free_block) else fat)
           in assign_loop cfg n fat free_block)"

definition fits_int :: "int \<Rightarrow> bool" where
  "fits_int x \<longleftrightarrow> - (2 ^ 31) \<le> x \<and> x < 2 ^ 31"

text \<open>
  \<open>assign_block_size\<close> over the table and the words of the FAT file: the first block, the table
  and the file with the table written at its start. \<open>None\<close> is the overflow of the \<^verbatim>\<open>int\<close>
  that rounds up, or the undefined result when the file does not open.
\<close>

definition assign_block_size :: "t_fs_config \<Rightarrow> int \<Rightarrow> u32 list option \<Rightarrow> u32 list \<Rightarrow> (int \<times> u32 list \<times> u32 list) option" where
  "assign_block_size cfg n file fat = (case file of
      None \<Rightarrow> None
    | Some ws \<Rightarrow>
        if \<not> fits_int (n + block_size cfg - 1) then None
        else let fst_block = find_free_current_block cfg fat;
                 blocks_needed = (n + block_size cfg - 1) sdiv block_size cfg
             in case assign_loop cfg (nat blocks_needed) fat fst_block of
                  (fat, lst) \<Rightarrow> let fat = set_end_of_file fat lst
                    in Some (fst_block, fat, fat @ drop (length fat) ws))"

section \<open>Following a chain\<close>

partial_function (option) find_last_loop :: "u32 list \<Rightarrow> int \<Rightarrow> int \<Rightarrow> int option" where
  "find_last_loop fat current_block last_block =
     (if current_block = - 1 then Some last_block
      else find_last_loop fat (sint (fat_get fat current_block)) current_block)"

definition find_last_block :: "u32 list \<Rightarrow> int \<Rightarrow> int option" where
  "find_last_block fat b = find_last_loop fat b b"

fun add_loop :: "t_fs_config \<Rightarrow> nat \<Rightarrow> u32 list \<Rightarrow> int \<Rightarrow> u32 list \<times> int" where
  "add_loop cfg 0 fat last_block = (fat, last_block)"
| "add_loop cfg (Suc n) fat last_block =
     (let new_block = find_free_block cfg fat last_block in
      if new_block = - 1 then (fat, last_block)
      else add_loop cfg n (assign_block fat last_block (word_of_int new_block)) new_block)"

definition add_blocks :: "t_fs_config \<Rightarrow> int \<Rightarrow> int \<Rightarrow> u32 list \<Rightarrow> u32 list option" where
  "add_blocks cfg b additional_blocks fat = do {
     last_block \<leftarrow> find_last_block fat b;
     (case add_loop cfg (nat additional_blocks) fat last_block of
        (fat, last_block) \<Rightarrow> Some (set_end_of_file fat last_block)) }"

partial_function (option) recorrer_loop :: "u32 list \<Rightarrow> int \<Rightarrow> int list option" where
  "recorrer_loop fat next_block =
     (if next_block = - 1 then Some []
      else do { bs \<leftarrow> recorrer_loop fat (sint (fat_get fat next_block)); Some (next_block # bs) })"

definition recorrer_blocks :: "u32 list \<Rightarrow> int \<Rightarrow> int list option" where
  "recorrer_blocks fat b = do { bs \<leftarrow> recorrer_loop fat (sint (fat_get fat b)); Some (b # bs) }"

text \<open>The entry marked as the end is \<open>blocks_needed + 1\<close>, a position of the table.\<close>

definition free_blocks :: "int \<Rightarrow> int \<Rightarrow> u32 list \<Rightarrow> u32 list option" where
  "free_blocks b blocks_needed fat = do {
     blocks \<leftarrow> recorrer_blocks fat b;
     let fat = fold (\<lambda>i fat. list_replace fat (case list_get blocks i of None \<Rightarrow> 0 | Some c \<Rightarrow> c) 0)
                 (rev [blocks_needed + 1 .. int (length blocks) - 1]) fat
     in Some (list_replace fat (blocks_needed + 1) UINT32_MAX) }"

section \<open>Chains\<close>

text \<open>
  A chain of blocks from \<open>b\<close>: distinct positions of the table, each holding the next and
  the last one \<open>UINT32_MAX\<close>.
\<close>

fun chain :: "u32 list \<Rightarrow> int \<Rightarrow> int list \<Rightarrow> bool" where
  "chain fat b [] \<longleftrightarrow> False"
| "chain fat b [c] \<longleftrightarrow> b = c \<and> 1 \<le> b \<and> b < int (length fat) \<and> fat_get fat b = UINT32_MAX"
| "chain fat b (c # d # bs) \<longleftrightarrow> b = c \<and> 1 \<le> b \<and> b < int (length fat)
     \<and> fat_get fat b = word_of_int d \<and> chain fat d (d # bs)"

text \<open>The table of a configuration: positions are \<^verbatim>\<open>int\<close>s, and block 0 is never used.\<close>

definition fat_ok :: "t_fs_config \<Rightarrow> u32 list \<Rightarrow> bool" where
  "fat_ok cfg fat \<longleftrightarrow> int (length fat) = fat_count cfg \<and> fat_count cfg < 2 ^ 31"

lemma fat_get_replace [simp]:
  "fat_get (list_replace fat i v) j = (if i = j \<and> 0 \<le> j \<and> j < int (length fat) then v else fat_get fat j)"
  by (auto simp: fat_get_def list_get_def list_replace_def nth_list_update)

lemma sint_of_block: "0 \<le> d \<Longrightarrow> d < 2 ^ 31 \<Longrightarrow> sint (word_of_int d :: u32) = d"
  by (simp add: sint_uint uint_word_of_int signed_take_bit_int_eq_self)

lemma sint_UINT32_MAX [simp]: "sint UINT32_MAX = - 1"
  by simp

lemma chain_mem:
  "chain fat b bs \<Longrightarrow> c \<in> set bs \<Longrightarrow> 1 \<le> c \<and> c < int (length fat)"
  by (induction fat b bs rule: chain.induct) auto

lemma chain_hd: "chain fat b bs \<Longrightarrow> \<exists>cs. bs = b # cs"
  by (cases "(fat, b, bs)" rule: chain.cases) auto

lemma chain_recorrer:
  "chain fat b bs \<Longrightarrow> int (length fat) < 2 ^ 31 \<Longrightarrow> recorrer_blocks fat b = Some bs"
proof (induction fat b bs rule: chain.induct)
  case (2 fat b c)
  then have "fat_get fat b = UINT32_MAX" "c = b" by auto
  then show ?case by (simp add: recorrer_blocks_def recorrer_loop.simps[of fat "- 1"])
next
  case (3 fat b c d bs)
  then have d: "1 \<le> d" "d < int (length fat)" using chain_mem[of fat d "d # bs" d] by auto
  from 3(2) have e: "c = b" "fat_get fat b = word_of_int d" "chain fat d (d # bs)" by auto
  from 3(1)[OF e(3) 3(3)] have "recorrer_loop fat d = Some (d # bs)"
    using d by (simp add: recorrer_blocks_def recorrer_loop.simps[of fat d])
  moreover have "sint (word_of_int d :: u32) = d" using d 3(3) by (intro sint_of_block) linarith+
  ultimately show ?case using e by (simp add: recorrer_blocks_def)
qed simp

lemma chain_frame:
  "chain fat b bs \<Longrightarrow> length fat' = length fat \<Longrightarrow> (\<And>c. c \<in> set bs \<Longrightarrow> fat_get fat' c = fat_get fat c)
     \<Longrightarrow> chain fat' b bs"
proof (induction fat b bs rule: chain.induct)
  case (3 fat b c d bs)
  from 3(2) have e: "b = c" "1 \<le> b" "b < int (length fat)" "fat_get fat b = word_of_int d" "chain fat d (d # bs)"
    by auto
  have "chain fat' d (d # bs)" by (rule 3(1)[OF e(5) 3(3)], rule 3(4)) simp
  with e 3(3) 3(4)[of b] show ?case by simp
qed simp_all

lemma chain_append:
  "chain fat b (xs @ [l]) \<Longrightarrow> chain fat' l (l # ys) \<Longrightarrow> length fat' = length fat
     \<Longrightarrow> (\<forall>c \<in> set xs. fat_get fat' c = fat_get fat c) \<Longrightarrow> chain fat' b (xs @ l # ys)"
proof (induction xs arbitrary: b)
  case Nil
  then show ?case by simp
next
  case (Cons x xs)
  have x: "fat_get fat' x = fat_get fat x" using Cons.prems(4) by simp
  show ?case
  proof (cases xs)
    case Nil
    with Cons.prems x show ?thesis by auto
  next
    case (Cons d ds)
    from Cons.prems(1) Cons have e: "b = x" "1 \<le> b" "b < int (length fat)" "fat_get fat b = word_of_int d"
      "chain fat d (xs @ [l])" by auto
    with Cons.IH[of d] Cons.prems x Cons show ?thesis by simp
  qed
qed

lemma chain_entry:
  "chain fat b bs \<Longrightarrow> int (length fat) < 2 ^ 31 \<Longrightarrow> c \<in> set bs \<Longrightarrow> fat_get fat c \<noteq> 0"
proof (induction fat b bs rule: chain.induct)
  case (3 fat b c' d bs)
  from 3(2) have "1 \<le> d" "d < int (length fat)" using chain_mem[of fat d "d # bs" d] by auto
  with 3 have "(word_of_int d :: u32) \<noteq> 0" using sint_of_block[of d] by auto
  with 3 show ?case by auto
qed auto

lemma chain_unique: "chain fat b bs \<Longrightarrow> chain fat b cs \<Longrightarrow> int (length fat) < 2 ^ 31 \<Longrightarrow> bs = cs"
  using chain_recorrer[of fat b bs] chain_recorrer[of fat b cs] by simp

lemma chain_suffix: "chain fat b (xs @ c # ys) \<Longrightarrow> chain fat c (c # ys)"
proof (induction xs arbitrary: b)
  case Nil
  then show ?case using chain_hd by fastforce
next
  case (Cons x xs)
  then show ?case by (cases xs) auto
qed

lemma chain_distinct: "chain fat b bs \<Longrightarrow> int (length fat) < 2 ^ 31 \<Longrightarrow> distinct bs"
proof (induction bs arbitrary: b)
  case (Cons c cs)
  have "c \<notin> set cs"
  proof
    assume "c \<in> set cs"
    then obtain xs ys where cs: "cs = xs @ c # ys" by (auto simp: in_set_conv_decomp)
    have "chain fat c (c # ys)" using Cons.prems(1) chain_suffix[of fat b "c # xs" c ys] cs by simp
    moreover have "chain fat c (c # cs)" using Cons.prems(1) chain_hd by fastforce
    ultimately show False using chain_unique[of fat c "c # ys" "c # cs"] Cons.prems(2) cs by simp
  qed
  moreover have "distinct cs" using Cons by (cases cs) auto
  ultimately show ?case by simp
qed simp

lemma find_last_loop_chain:
  "chain fat b bs \<Longrightarrow> int (length fat) < 2 ^ 31 \<Longrightarrow> find_last_loop fat b l = Some (last bs)"
proof (induction fat b bs arbitrary: l rule: chain.induct)
  case (2 fat b c)
  then have b: "b \<noteq> - 1" "c = b" "fat_get fat b = UINT32_MAX" by auto
  then show ?case by (simp add: find_last_loop.simps[of fat b] find_last_loop.simps[of fat "- 1"])
next
  case (3 fat b c d bs)
  from 3(2) have d: "1 \<le> d" "d < int (length fat)" using chain_mem[of fat d "d # bs" d] by auto
  from 3(2) have e: "b \<noteq> - 1" "fat_get fat b = word_of_int d" "chain fat d (d # bs)" by auto
  with 3(1)[OF e(3) 3(3)] d 3(3) show ?case by (simp add: find_last_loop.simps[of fat b] sint_of_block)
qed simp

lemma find_last_block_chain:
  "chain fat b bs \<Longrightarrow> int (length fat) < 2 ^ 31 \<Longrightarrow> find_last_block fat b = Some (last bs)"
  by (simp add: find_last_block_def find_last_loop_chain)

section \<open>Allocation\<close>

text \<open>The free blocks other than the current one, in the order the searches find them.\<close>

definition free_others :: "t_fs_config \<Rightarrow> u32 list \<Rightarrow> int \<Rightarrow> int list" where
  "free_others cfg fat b = filter (\<lambda>i. fat_get fat i = 0 \<and> b \<noteq> i) [1 .. fat_count cfg - 1]"

abbreviation free_list :: "t_fs_config \<Rightarrow> u32 list \<Rightarrow> int list" where
  "free_list cfg fat \<equiv> free_others cfg fat (- 1)"

lemma find_filter: "find P xs = (case filter P xs of [] \<Rightarrow> None | x # _ \<Rightarrow> Some x)"
  by (induction xs) auto

lemma find_free_block_others:
  "find_free_block cfg fat b = (case free_others cfg fat b of [] \<Rightarrow> - 1 | x # _ \<Rightarrow> x)"
proof -
  have "filter (\<lambda>i. fat_get fat i = 0 \<and> b \<noteq> i \<and> i \<noteq> 0) [1 .. fat_count cfg - 1] = free_others cfg fat b"
    unfolding free_others_def by (rule filter_cong) auto
  then show ?thesis by (simp add: find_free_block_def find_filter split: list.splits)
qed

lemma find_free_current_block_list:
  "find_free_current_block cfg fat = (case free_list cfg fat of [] \<Rightarrow> - 1 | x # _ \<Rightarrow> x)"
proof -
  have "filter (\<lambda>i. fat_get fat i = 0 \<and> i \<noteq> 0) [1 .. fat_count cfg - 1] = free_list cfg fat"
    unfolding free_others_def by (rule filter_cong) auto
  then show ?thesis by (simp add: find_free_current_block_def find_filter split: list.splits)
qed

lemma free_others_mem: "c \<in> set (free_others cfg fat b) \<longleftrightarrow> 1 \<le> c \<and> c < fat_count cfg \<and> fat_get fat c = 0 \<and> b \<noteq> c"
  by (auto simp: free_others_def)

lemma free_others_distinct: "distinct (free_others cfg fat b)"
  by (simp add: free_others_def)

lemma free_list_Cons: "free_list cfg fat = x # xs \<Longrightarrow> free_others cfg fat x = xs"
proof -
  assume a: "free_list cfg fat = x # xs"
  have "free_others cfg fat x = filter (\<lambda>i. x \<noteq> i) (free_list cfg fat)"
    unfolding free_others_def filter_filter by (rule filter_cong) auto
  also have "\<dots> = xs"
    using a free_others_distinct[of cfg fat "- 1"] by (auto simp: filter_id_conv)
  finally show ?thesis .
qed

lemma free_others_assign:
  assumes ok: "fat_ok cfg fat" and o: "free_others cfg fat b = r # rs" and b: "0 \<le> b" "b < int (length fat)"
  shows "free_others cfg (assign_block fat b (word_of_int r)) r = rs"
proof -
  have r: "1 \<le> r" "r < fat_count cfg" using o free_others_mem[of r cfg fat b] by auto
  then have nz: "(word_of_int r :: u32) \<noteq> 0" using sint_of_block[of r] ok by (auto simp: fat_ok_def)
  have "free_others cfg (assign_block fat b (word_of_int r)) r = filter (\<lambda>i. r \<noteq> i) (free_others cfg fat b)"
    unfolding free_others_def filter_filter
    by (rule filter_cong) (use nz b in \<open>auto simp: assign_block_def\<close>)
  also have "\<dots> = rs"
    using o free_others_distinct[of cfg fat b] by (auto simp: filter_id_conv)
  finally show ?thesis .
qed

lemma fat_ok_assign [simp]: "fat_ok cfg (assign_block fat b w) = fat_ok cfg fat"
  and length_assign [simp]: "length (assign_block fat b w) = length fat"
  and length_set_eof [simp]: "length (set_end_of_file fat b) = length fat"
  by (simp_all add: fat_ok_def assign_block_def set_end_of_file_def)

text \<open>The table at the end of a loop, with its last block marked.\<close>

definition closed_loop :: "t_fs_config \<Rightarrow> nat \<Rightarrow> u32 list \<Rightarrow> int \<Rightarrow> u32 list" where
  "closed_loop cfg n fat b = (case add_loop cfg n fat b of (fat, lst) \<Rightarrow> set_end_of_file fat lst)"

lemma closed_loop_spec:
  assumes "fat_ok cfg fat" and "1 \<le> b" and "b < int (length fat)"
  shows "chain (closed_loop cfg n fat b) b (b # take n (free_others cfg fat b))
     \<and> length (closed_loop cfg n fat b) = length fat
     \<and> (\<forall>j. j \<notin> set (b # take n (free_others cfg fat b)) \<longrightarrow> fat_get (closed_loop cfg n fat b) j = fat_get fat j)"
  using assms
proof (induction n arbitrary: fat b)
  case 0
  then show ?case by (simp add: closed_loop_def set_end_of_file_def)
next
  case (Suc n)
  show ?case
  proof (cases "free_others cfg fat b")
    case Nil
    with Suc.prems show ?thesis by (simp add: closed_loop_def find_free_block_others set_end_of_file_def)
  next
    case (Cons r rs)
    let ?f = "assign_block fat b (word_of_int r)"
    have r: "1 \<le> r" "r < fat_count cfg" "b \<noteq> r" using Cons free_others_mem[of r cfg fat b] by auto
    have step: "closed_loop cfg (Suc n) fat b = closed_loop cfg n ?f r"
      using Cons r by (simp add: closed_loop_def find_free_block_others)
    have rs: "free_others cfg ?f r = rs" by (rule free_others_assign) (use Suc.prems Cons in auto)
    have b: "b \<notin> set (r # take n rs)"
      using r(3) Cons free_others_mem[of b cfg fat b] by (auto dest: in_set_takeD)
    have "fat_ok cfg ?f" "1 \<le> r" "r < int (length ?f)" using Suc.prems r by (auto simp: fat_ok_def)
    from Suc.IH[OF this] have
      ih: "chain (closed_loop cfg n ?f r) r (r # take n rs)" "length (closed_loop cfg n ?f r) = length fat"
      "\<And>j. j \<notin> set (r # take n rs) \<Longrightarrow> fat_get (closed_loop cfg n ?f r) j = fat_get ?f j"
      unfolding rs by auto
    have "fat_get (closed_loop cfg n ?f r) b = word_of_int r"
      using ih(3)[OF b] Suc.prems by (simp add: assign_block_def)
    with ih Suc.prems Cons show ?thesis unfolding step by (auto simp: assign_block_def)
  qed
qed

lemma assign_loop_add_loop:
  assumes "fat_get fat b = 0"
  shows "assign_loop cfg n fat b = add_loop cfg n fat b"
  using assms
proof (induction n arbitrary: fat b)
  case (Suc n)
  show ?case
  proof (cases "free_others cfg fat b")
    case (Cons r rs)
    then have "fat_get fat r = 0" "b \<noteq> r" using free_others_mem[of r cfg fat b] by auto
    with Suc Cons show ?thesis by (simp add: find_free_block_others assign_block_def)
  qed (simp add: find_free_block_others)
qed simp

text \<open>Other files: a chain none of whose blocks is written stays as it was.\<close>

definition keeps_chains :: "u32 list \<Rightarrow> u32 list \<Rightarrow> int set \<Rightarrow> bool" where
  "keeps_chains fat fat' ex \<longleftrightarrow> (\<forall>c cs. chain fat c cs \<longrightarrow> set cs \<inter> ex = {} \<longrightarrow> chain fat' c cs)"

lemma keeps_chainsI:
  assumes "length fat' = length fat" and "\<And>j. j \<notin> ex \<Longrightarrow> fat_get fat' j = fat_get fat j"
  shows "keeps_chains fat fat' ex"
  unfolding keeps_chains_def using assms by (blast intro: chain_frame)

lemma assign_block_size_spec:
  assumes ok: "fat_ok cfg fat" and fr: "free_list cfg fat \<noteq> []"
    and n: "fits_int (n + block_size cfg - 1)" and k: "nat ((n + block_size cfg - 1) sdiv block_size cfg) = k"
  shows "\<exists>fat' bs. assign_block_size cfg n (Some ws) fat = Some (hd bs, fat', fat' @ drop (length fat) ws)
     \<and> bs = take (Suc k) (free_list cfg fat) \<and> fat_ok cfg fat' \<and> chain fat' (hd bs) bs
     \<and> keeps_chains fat fat' (set bs)"
proof -
  obtain r rs where r: "free_list cfg fat = r # rs" using fr by (cases "free_list cfg fat") auto
  have rm: "1 \<le> r" "r < fat_count cfg" "fat_get fat r = 0" using r free_others_mem[of r cfg fat "- 1"] by auto
  have rb: "1 \<le> r" "r < int (length fat)" using rm ok by (auto simp: fat_ok_def)
  note sp = closed_loop_spec[OF ok rb, of k, unfolded free_list_Cons[OF r]]
  have cur: "find_free_current_block cfg fat = r" by (simp add: find_free_current_block_list r)
  have eq: "assign_block_size cfg n (Some ws) fat
      = Some (r, closed_loop cfg k fat r, closed_loop cfg k fat r @ drop (length fat) ws)"
    using n k sp cur assign_loop_add_loop[OF rm(3)]
    by (auto simp: assign_block_size_def Let_def closed_loop_def split: prod.splits)
  have tk: "take (Suc k) (free_list cfg fat) = r # take k rs" by (simp add: r)
  have kc: "keeps_chains fat (closed_loop cfg k fat r) (set (r # take k rs))"
    by (rule keeps_chainsI) (use sp in blast)+
  show ?thesis unfolding tk using eq sp kc ok by (fastforce simp: fat_ok_def)
qed

lemma add_blocks_spec:
  assumes ok: "fat_ok cfg fat" and c: "chain fat b bs"
    and new: "take (nat k) (free_others cfg fat (last bs)) = new"
  shows "\<exists>fat'. add_blocks cfg b k fat = Some fat' \<and> fat_ok cfg fat' \<and> chain fat' b (bs @ new)
     \<and> keeps_chains fat fat' (set (last bs # new))"
proof -
  let ?l = "last bs" and ?f = "closed_loop cfg (nat k) fat (last bs)"
  have bs: "bs = butlast bs @ [?l]" using c by (cases bs) auto
  then have l: "1 \<le> ?l" "?l < int (length fat)" using chain_mem[OF c, of ?l] by (metis in_set_conv_decomp)+
  note sp = closed_loop_spec[OF ok l, of "nat k", unfolded new]
  have eq: "add_blocks cfg b k fat = Some ?f"
    using find_last_block_chain[OF c] ok
    by (auto simp: add_blocks_def closed_loop_def fat_ok_def split: prod.splits)
  have fr: "set new \<inter> set bs = {}"
    using chain_entry[OF c] ok new by (auto dest!: in_set_takeD simp: free_others_mem fat_ok_def)
  have lb: "?l \<notin> set (butlast bs)"
    using chain_distinct[OF c] ok bs by (metis distinct_append disjoint_iff list.set_intros(1) fat_ok_def)
  have "chain ?f b (butlast bs @ ?l # new)"
  proof (rule chain_append[where fat = fat])
    show "\<forall>c \<in> set (butlast bs). fat_get ?f c = fat_get fat c"
      using sp fr lb by (metis disjoint_iff in_set_butlastD set_ConsD)
  qed (use sp c bs in auto)
  moreover have "butlast bs @ ?l # new = bs @ new" by (subst (3) bs) simp
  moreover have "keeps_chains fat ?f (set (?l # new))" by (rule keeps_chainsI) (use sp in blast)+
  ultimately show ?thesis using eq sp ok by (auto simp: fat_ok_def)
qed

section \<open>Shrinking\<close>

lemma zero_list_get: "0 \<le> i \<Longrightarrow> i < int (length xs) \<Longrightarrow> list_get xs i = Some (xs ! nat i)"
  by (simp add: list_get_def)

lemma fold_clear:
  assumes "list_all (\<lambda>i. 0 \<le> i \<and> i < int (length bs)) is" and "list_all (\<lambda>c. 0 \<le> c \<and> c < int (length fat)) bs"
  shows "fat_get (fold (\<lambda>i fat. list_replace fat (case list_get bs i of None \<Rightarrow> 0 | Some c \<Rightarrow> c) 0) is fat) j
      = (if j \<in> (\<lambda>i. bs ! nat i) ` set is then 0 else fat_get fat j)"
    and "length (fold (\<lambda>i fat. list_replace fat (case list_get bs i of None \<Rightarrow> 0 | Some c \<Rightarrow> c) 0) is fat) = length fat"
  using assms
proof (induction "is" arbitrary: fat)
  case (Cons i "is")
  {
    case 1
    have "0 \<le> bs ! nat i \<and> bs ! nat i < int (length fat)" using 1 by (auto simp: list_all_length nat_less_iff)
    with 1 Cons(1)[of "list_replace fat (bs ! nat i) 0"] show ?case by (auto simp: zero_list_get)
  next
    case 2
    with Cons(2)[of "list_replace fat (bs ! nat i) 0"] show ?case by (auto simp: zero_list_get)
  }
qed auto

lemma nth_range_drop: "0 \<le> k \<Longrightarrow> (\<lambda>i. bs ! nat i) ` set (rev [k .. int (length bs) - 1]) = set (drop (nat k) bs)"
proof
  assume k: "0 \<le> k"
  show "(\<lambda>i. bs ! nat i) ` set (rev [k .. int (length bs) - 1]) \<subseteq> set (drop (nat k) bs)"
  proof
    fix x assume "x \<in> (\<lambda>i. bs ! nat i) ` set (rev [k .. int (length bs) - 1])"
    then obtain i where i: "k \<le> i" "i \<le> int (length bs) - 1" "x = bs ! nat i" by auto
    then have "x = drop (nat k) bs ! (nat i - nat k)" "nat i - nat k < length (drop (nat k) bs)"
      using k by auto
    then show "x \<in> set (drop (nat k) bs)" by (simp only: nth_mem)
  qed
  show "set (drop (nat k) bs) \<subseteq> (\<lambda>i. bs ! nat i) ` set (rev [k .. int (length bs) - 1])"
  proof
    fix x assume "x \<in> set (drop (nat k) bs)"
    then obtain n where n: "n < length (drop (nat k) bs)" "x = drop (nat k) bs ! n" by (auto simp: in_set_conv_nth)
    then have "x = bs ! nat (k + int n)" "k + int n \<in> set (rev [k .. int (length bs) - 1])"
      using k by (auto simp: nat_add_distrib)
    then show "x \<in> (\<lambda>i. bs ! nat i) ` set (rev [k .. int (length bs) - 1])" by blast
  qed
qed

text \<open>What \<open>free_blocks\<close> leaves in the table.\<close>

lemma free_blocks_spec:
  assumes ok: "fat_ok cfg fat" and c: "chain fat b bs" and k: "0 \<le> k"
  shows "\<exists>fat'. free_blocks b k fat = Some fat' \<and> length fat' = length fat
     \<and> (\<forall>j. fat_get fat' j = (if j = k + 1 \<and> j < int (length fat) then UINT32_MAX
           else if j \<in> set (drop (nat (k + 1)) bs) then 0 else fat_get fat j))"
proof -
  let ?g = "fold (\<lambda>i fat. list_replace fat (case list_get bs i of None \<Rightarrow> 0 | Some c \<Rightarrow> c) 0)
      (rev [k + 1 .. int (length bs) - 1]) fat"
  have rng: "list_all (\<lambda>i. 0 \<le> i \<and> i < int (length bs)) (rev [k + 1 .. int (length bs) - 1])"
    using k by (auto simp: list_all_iff)
  have inb: "list_all (\<lambda>c. 0 \<le> c \<and> c < int (length fat)) bs"
    using chain_mem[OF c] by (fastforce simp: list_all_iff)
  have "free_blocks b k fat = Some (list_replace ?g (k + 1) UINT32_MAX)"
    using chain_recorrer[OF c] ok by (simp add: free_blocks_def fat_ok_def)
  moreover have "(\<lambda>i. bs ! nat i) ` set (rev [k + 1 .. int (length bs) - 1]) = set (drop (nat (k + 1)) bs)"
    by (rule nth_range_drop) (use k in simp)
  ultimately show ?thesis using fold_clear[OF rng inb] k by auto
qed

lemma chain_cut:
  "chain fat b bs \<Longrightarrow> k < length bs \<Longrightarrow> length fat' = length fat
     \<Longrightarrow> (\<And>c. c \<in> set (take k bs) \<Longrightarrow> fat_get fat' c = fat_get fat c) \<Longrightarrow> fat_get fat' (bs ! k) = UINT32_MAX
     \<Longrightarrow> chain fat' b (take (Suc k) bs)"
proof (induction bs arbitrary: b k)
  case (Cons c cs)
  have b: "b = c" "1 \<le> b" "b < int (length fat)" using chain_hd[OF Cons.prems(1)] chain_mem[OF Cons.prems(1), of b] by auto
  show ?case
  proof (cases k)
    case 0
    with b Cons.prems show ?thesis by auto
  next
    case (Suc j)
    with Cons.prems obtain d ds where cs: "cs = d # ds" by (cases cs) auto
    have "fat_get fat' b = fat_get fat b" using Cons.prems(4)[of c] b Suc by simp
    moreover have "chain fat' d (take (Suc j) cs)"
      by (rule Cons.IH) (use Cons.prems cs Suc in auto)
    ultimately show ?thesis using b Cons.prems(1,3) cs Suc by auto
  qed
qed simp

text \<open>A walk through the table that has not met the end mark.\<close>

fun path :: "u32 list \<Rightarrow> int \<Rightarrow> int list \<Rightarrow> int \<Rightarrow> bool" where
  "path fat b [] z \<longleftrightarrow> b = z"
| "path fat b (c # cs) z \<longleftrightarrow> b = c \<and> b \<noteq> - 1 \<and> path fat (sint (fat_get fat b)) cs z"

lemma path_frame:
  "path fat b cs z \<Longrightarrow> (\<And>c. c \<in> set cs \<Longrightarrow> fat_get fat' c = fat_get fat c) \<Longrightarrow> path fat' b cs z"
  by (induction fat b cs z rule: path.induct) auto

lemma chain_path:
  "chain fat b (xs @ z # ys) \<Longrightarrow> int (length fat) < 2 ^ 31 \<Longrightarrow> path fat b xs z"
proof (induction xs arbitrary: b)
  case Nil
  then show ?case using chain_hd[of fat b "z # ys"] by auto
next
  case (Cons x xs)
  obtain d ds where d: "xs @ z # ys = d # ds" by (cases "xs @ z # ys") auto
  from Cons.prems d have e: "b = x" "1 \<le> b" "fat_get fat b = word_of_int d" "chain fat d (d # ds)" by auto
  have "sint (word_of_int d :: u32) = d" using chain_mem[OF e(4), of d] Cons.prems(2) by (intro sint_of_block) auto
  with e d Cons.IH[of d] Cons.prems(2) show ?case by auto
qed

lemma path_append: "path fat b (xs @ ys) z \<longleftrightarrow> (\<exists>y. path fat b xs y \<and> path fat y ys z)"
  by (induction fat b xs z rule: path.induct) auto

lemma find_last_zero: "fat_get fat 0 = 0 \<Longrightarrow> find_last_loop fat 0 l = None"
proof (rule ccontr)
  assume z: "fat_get fat 0 = 0" and "find_last_loop fat 0 l \<noteq> None"
  then obtain r where ret: "find_last_loop fat 0 l = Some r" by auto
  have "fat_get fat 0 = 0 \<longrightarrow> (0 :: int) \<noteq> 0"
  proof (rule find_last_loop.raw_induct[where P = "\<lambda>fat b l r. fat_get fat 0 = 0 \<longrightarrow> b \<noteq> 0", OF _ ret])
    fix f :: "u32 list \<Rightarrow> int \<Rightarrow> int \<Rightarrow> int option" and fat b l r
    assume ih: "\<And>fat b l r. f fat b l = Some r \<Longrightarrow> fat_get fat 0 = 0 \<longrightarrow> b \<noteq> 0"
      and "(if b = - 1 then Some l else f fat (sint (fat_get fat b)) b) = Some r"
    then show "fat_get fat 0 = 0 \<longrightarrow> b \<noteq> 0" using ih[of fat 0 0 r] by (auto split: if_splits)
  qed
  with z show False by simp
qed

lemma recorrer_zero: "fat_get fat 0 = 0 \<Longrightarrow> recorrer_loop fat 0 = None"
proof (rule ccontr)
  assume z: "fat_get fat 0 = 0" and "recorrer_loop fat 0 \<noteq> None"
  then obtain r where ret: "recorrer_loop fat 0 = Some r" by auto
  have "fat_get fat 0 = 0 \<longrightarrow> (0 :: int) \<noteq> 0"
  proof (rule recorrer_loop.raw_induct[where P = "\<lambda>fat b r. fat_get fat 0 = 0 \<longrightarrow> b \<noteq> 0", OF _ ret])
    fix f :: "u32 list \<Rightarrow> int \<Rightarrow> int list option" and fat b r
    assume ih: "\<And>fat b r. f fat b = Some r \<Longrightarrow> fat_get fat 0 = 0 \<longrightarrow> b \<noteq> 0"
      and "(if b = - 1 then Some [] else f fat (sint (fat_get fat b)) \<bind> (\<lambda>bs. Some (b # bs))) = Some r"
    then show "fat_get fat 0 = 0 \<longrightarrow> b \<noteq> 0" using ih[of fat 0] by (auto split: if_splits bind_splits)
  qed
  with z show False by simp
qed

lemma path_to_zero_hangs:
  "path fat b cs 0 \<Longrightarrow> fat_get fat 0 = 0 \<Longrightarrow> find_last_loop fat b l = None \<and> recorrer_loop fat b = None"
proof (induction cs arbitrary: b l)
  case Nil
  then show ?case by (auto simp: find_last_zero recorrer_zero)
next
  case (Cons c cs)
  then show ?case by (subst find_last_loop.simps, subst recorrer_loop.simps) auto
qed

lemma path_to_zero_no_return:
  assumes "path fat b cs 0" and "fat_get fat 0 = 0"
  shows "find_last_block fat b = None" and "recorrer_blocks fat b = None"
    and "add_blocks cfg b k fat = None" and "free_blocks b k fat = None"
proof -
  note h = path_to_zero_hangs[OF assms]
  show l: "find_last_block fat b = None" using h by (simp add: find_last_block_def)
  show r: "recorrer_blocks fat b = None"
  proof (cases cs)
    case Nil
    with assms h show ?thesis by (simp add: recorrer_blocks_def)
  next
    case (Cons c ds)
    with assms have "path fat (sint (fat_get fat b)) ds 0" by auto
    from path_to_zero_hangs[OF this assms(2)] show ?thesis by (simp add: recorrer_blocks_def)
  qed
  show "add_blocks cfg b k fat = None" by (simp add: add_blocks_def l)
  show "free_blocks b k fat = None" by (simp add: free_blocks_def r)
qed

end
