(* ===== verification/Block_File.thy ===== *)
theory Block_File
  imports Fat
begin

text \<open>
  The block file of the file system (\<^verbatim>\<open>fs-struct/fat-bloque.c\<close>, lines 215 to 568): the
  mapped bytes hold the blocks of the swap and then those of the files. \<open>None\<close> is an access
  outside the map, or a value that the C code leaves undefined.
\<close>

section \<open>The map\<close>

definition map_read :: "u8 list \<Rightarrow> int \<Rightarrow> int \<Rightarrow> u8 list option" where
  "map_read m off n = (if off < 0 \<or> n < 0 then None else mem_read m (nat off) (nat n))"

definition map_write :: "u8 list \<Rightarrow> int \<Rightarrow> u8 list \<Rightarrow> u8 list option" where
  "map_write m off d = (if off < 0 then None else mem_write m (nat off) d)"

text \<open>The byte of the character \<open>0\<close>, which marks free blocks.\<close>

definition zero_char :: u8 where
  "zero_char = 48"

definition memset_bytes :: "u8 \<Rightarrow> int \<Rightarrow> u8 list" where
  "memset_bytes c n = replicate (nat n) c"

text \<open>
  Opening the two files: \<open>ftruncate\<close> cuts the file or extends it with zeros; a new file is
  filled with zero characters, an old block file only in its first \<open>block_swap\<close> bytes.
\<close>

definition ftruncate :: "int \<Rightarrow> 'a::zero list \<Rightarrow> 'a list" where
  "ftruncate n xs = take (nat n) xs @ replicate (nat n - length xs) 0"

definition create_fat_file :: "t_fs_config \<Rightarrow> u32 list option \<Rightarrow> u32 list" where
  "create_fat_file cfg file = (case file of
      None \<Rightarrow> replicate (nat (fat_count cfg)) (word_of_int 0x30303030)
    | Some ws \<Rightarrow> ftruncate (fat_count cfg) ws)"

definition create_block_file :: "t_fs_config \<Rightarrow> u8 list option \<Rightarrow> u8 list option" where
  "create_block_file cfg file = (let n = block_total_count cfg * block_size cfg in case file of
      None \<Rightarrow> Some (memset_bytes zero_char n)
    | Some bs \<Rightarrow> map_write (ftruncate n bs) 0 (memset_bytes zero_char (block_swap_count cfg)))"

section \<open>Swap\<close>

fun find_free_swap_from :: "t_fs_config \<Rightarrow> u8 list \<Rightarrow> int list \<Rightarrow> int option" where
  "find_free_swap_from cfg m [] = Some (- 1)"
| "find_free_swap_from cfg m (i # is) = (case map_read m (i * block_size cfg) (block_size cfg) of
      None \<Rightarrow> None
    | Some block \<Rightarrow> if list_all (\<lambda>c. c = zero_char) block then Some i else find_free_swap_from cfg m is)"

definition find_free_swap_block :: "t_fs_config \<Rightarrow> u8 list \<Rightarrow> int option" where
  "find_free_swap_block cfg m = find_free_swap_from cfg m [0 .. block_swap_count cfg - 1]"

fun reserve_loop :: "t_fs_config \<Rightarrow> nat \<Rightarrow> u8 list \<Rightarrow> (int list \<times> u8 list) option" where
  "reserve_loop cfg 0 m = Some ([], m)"
| "reserve_loop cfg (Suc n) m = (case find_free_swap_block cfg m of
      None \<Rightarrow> None
    | Some block \<Rightarrow>
        if block = - 1 then Some ([], m)
        else (case map_write m (block * block_size cfg) (memset_bytes 0 (block_size cfg)) of
            None \<Rightarrow> None
          | Some m \<Rightarrow> map_option (\<lambda>(bs, m). (block # bs, m)) (reserve_loop cfg n m)))"

text \<open>The inner \<open>None\<close> is the NULL for more blocks than the swap has.\<close>

definition reserve_swap_blocks :: "t_fs_config \<Rightarrow> int \<Rightarrow> u8 list \<Rightarrow> (int list option \<times> u8 list) option" where
  "reserve_swap_blocks cfg blocks_count m =
     (if blocks_count > block_swap_count cfg then Some (None, m)
      else map_option (\<lambda>(bs, m). (Some bs, m)) (reserve_loop cfg (nat blocks_count) m))"

fun release_swap_blocks :: "t_fs_config \<Rightarrow> int list \<Rightarrow> u8 list \<Rightarrow> u8 list option" where
  "release_swap_blocks cfg [] m = Some m"
| "release_swap_blocks cfg (b # bs) m =
     (if b < 0 \<or> b \<ge> block_swap_count cfg then release_swap_blocks cfg bs m
      else (case map_write m (b * block_size cfg) (memset_bytes zero_char (block_size cfg)) of
          None \<Rightarrow> None
        | Some m \<Rightarrow> release_swap_blocks cfg bs m))"

definition write_to_swap_block :: "t_fs_config \<Rightarrow> int \<Rightarrow> u8 list \<Rightarrow> u8 list \<Rightarrow> u8 list option" where
  "write_to_swap_block cfg b data m =
     (if b < 0 \<or> b \<ge> block_swap_count cfg then Some m
      else do {
        d \<leftarrow> map_read data 0 (block_size cfg);
        map_write m (b * block_size cfg) d })"

definition read_from_swap_block :: "t_fs_config \<Rightarrow> int \<Rightarrow> u8 list \<Rightarrow> u8 list option" where
  "read_from_swap_block cfg b m =
     (if b < 0 \<or> b \<ge> block_swap_count cfg then None
      else map_read m (b * block_size cfg) (block_size cfg))"

section \<open>Blocks of the files\<close>

text \<open>The loop over the table: \<open>n\<close> steps, stopped by the end of the file.\<close>

fun follow_fat :: "u32 list \<Rightarrow> nat \<Rightarrow> u32 \<Rightarrow> u32 option" where
  "follow_fat fat 0 b = Some b"
| "follow_fat fat (Suc n) b = (if b = UINT32_MAX then None else follow_fat fat n (fat_get fat (sint b)))"

text \<open>
  \<open>read_file\<close> and \<open>write_file\<close> after the control block is found; the inner \<open>None\<close> of a read is
  its NULL at the end of the file. The block looked up in the table does not enter the address.
\<close>

definition read_file_block :: "t_fs_config \<Rightarrow> u32 list \<Rightarrow> int \<Rightarrow> int \<Rightarrow> u8 list \<Rightarrow> u8 list option option" where
  "read_file_block cfg fat b pos m =
     (let block_to_read = pos sdiv block_size cfg in
      if block_to_read \<noteq> 0 \<and> follow_fat fat (nat block_to_read) (word_of_int b) = None then Some None
      else map_option Some
        (map_read m (block_swap_count cfg + block_to_read * block_size cfg) (block_size cfg)))"

definition write_file_block :: "t_fs_config \<Rightarrow> u32 list \<Rightarrow> int \<Rightarrow> int \<Rightarrow> u8 list \<Rightarrow> u8 list \<Rightarrow> u8 list option" where
  "write_file_block cfg fat b pos data m =
     (let block_to_write = word_of_int (pos sdiv block_size cfg) :: u32 in
      if block_to_write \<noteq> 0 \<and> follow_fat fat (Suc (unat block_to_write)) (word_of_int b) = None then Some m
      else do {
        d \<leftarrow> map_read data 0 (block_size cfg);
        map_write m (block_swap_count cfg + uint (block_to_write * word_of_int (block_size cfg))) d })"

section \<open>Swap blocks as a store\<close>

text \<open>The map of a configuration, with the whole swap inside.\<close>

definition map_ok :: "t_fs_config \<Rightarrow> u8 list \<Rightarrow> bool" where
  "map_ok cfg m \<longleftrightarrow> 0 < block_size cfg \<and> 0 \<le> block_swap_count cfg
     \<and> block_swap_count cfg \<le> block_total_count cfg
     \<and> int (length m) = block_total_count cfg * block_size cfg"

text \<open>The \<open>i\<close>-th block of the swap.\<close>

definition swap_image :: "t_fs_config \<Rightarrow> u8 list \<Rightarrow> nat \<Rightarrow> u8 list option" where
  "swap_image cfg m i = mem_read m (i * nat (block_size cfg)) (nat (block_size cfg))"

interpretation swap_store: block_store
  "swap_image cfg" "\<lambda>m i d. mem_write m (i * nat (block_size cfg)) d"
  "\<lambda>d. length d = nat (block_size cfg)" for cfg :: t_fs_config
proof unfold_locales
  show "swap_image cfg m' i = Some d"
    if "mem_write m (i * nat (block_size cfg)) d = Some m'" "length d = nat (block_size cfg)" for m i d m'
    using mem_read_write_same[OF that(1)] that(2) by (simp add: swap_image_def)
  show "swap_image cfg m' j = swap_image cfg m j"
    if "mem_write m (i * nat (block_size cfg)) d = Some m'" "length d = nat (block_size cfg)" "i \<noteq> j" for m i d m' j
    using mem_read_write_disjoint[OF that(1), of "j * nat (block_size cfg)" "nat (block_size cfg)"]
      block_disjoint[OF that(3), of "nat (block_size cfg)"] that(2)
    by (simp add: swap_image_def disj_commute)
qed

lemma swap_offset:
  assumes "map_ok cfg m" and "0 \<le> b" and "b < block_swap_count cfg"
  shows "map_read m (b * block_size cfg) (block_size cfg) = swap_image cfg m (nat b)"
    and "map_write m (b * block_size cfg) d = mem_write m (nat b * nat (block_size cfg)) d"
    and "nat b * nat (block_size cfg) + nat (block_size cfg) \<le> length m"
proof -
  have bs: "0 < block_size cfg" using assms by (simp add: map_ok_def)
  have n: "nat (b * block_size cfg) = nat b * nat (block_size cfg)" and nn: "0 \<le> b * block_size cfg"
    using bs assms(2) by (simp_all add: nat_mult_distrib)
  show "map_read m (b * block_size cfg) (block_size cfg) = swap_image cfg m (nat b)"
    using bs nn n by (simp add: map_read_def swap_image_def)
  show "map_write m (b * block_size cfg) d = mem_write m (nat b * nat (block_size cfg)) d"
    using nn n by (simp add: map_write_def)
  have "(b + 1) * block_size cfg \<le> block_total_count cfg * block_size cfg"
    using assms bs by (intro mult_right_mono) (auto simp: map_ok_def)
  then have "int (nat b * nat (block_size cfg) + nat (block_size cfg)) \<le> int (length m)"
    using assms bs by (simp add: map_ok_def algebra_simps)
  then show "nat b * nat (block_size cfg) + nat (block_size cfg) \<le> length m" by linarith
qed

lemma swap_image_defined:
  assumes "map_ok cfg m" and "0 \<le> b" and "b < block_swap_count cfg"
  shows "\<exists>d. swap_image cfg m (nat b) = Some d \<and> length d = nat (block_size cfg)"
  using swap_offset(3)[OF assms] mem_read_defined mem_read_length unfolding swap_image_def by blast

lemma swap_write:
  assumes "map_ok cfg m" and "0 \<le> b" and "b < block_swap_count cfg" and "length d = nat (block_size cfg)"
  shows "\<exists>m'. map_write m (b * block_size cfg) d = Some m' \<and> map_ok cfg m' \<and> length m' = length m
     \<and> swap_image cfg m' (nat b) = Some d \<and> (\<forall>j. j \<noteq> nat b \<longrightarrow> swap_image cfg m' j = swap_image cfg m j)"
proof -
  obtain m' where w: "mem_write m (nat b * nat (block_size cfg)) d = Some m'"
    using swap_offset(3)[OF assms(1-3)] assms(4) mem_write_defined by metis
  have len: "length m' = length m" by (rule mem_write_length[OF w])
  have g: "swap_image cfg m' (nat b) = Some d"
    by (rule swap_store.get_put_same[OF w assms(4)])
  have o: "swap_image cfg m' j = swap_image cfg m j" if "j \<noteq> nat b" for j
    by (rule swap_store.get_put_other[OF w assms(4)]) (use that in simp)
  show ?thesis using w len g o assms swap_offset(2)[OF assms(1-3)] by (auto simp: map_ok_def)
qed

text \<open>A block is free when all its bytes are the zero character.\<close>

definition swap_free :: "t_fs_config \<Rightarrow> u8 list \<Rightarrow> int \<Rightarrow> bool" where
  "swap_free cfg m i \<longleftrightarrow> swap_image cfg m (nat i) = Some (memset_bytes zero_char (block_size cfg))"

definition free_swap_list :: "t_fs_config \<Rightarrow> u8 list \<Rightarrow> int list" where
  "free_swap_list cfg m = filter (swap_free cfg m) [0 .. block_swap_count cfg - 1]"

lemma find_free_swap_from_spec:
  assumes "map_ok cfg m" and "\<forall>i \<in> set is. 0 \<le> i \<and> i < block_swap_count cfg"
  shows "find_free_swap_from cfg m is = Some (case filter (swap_free cfg m) is of [] \<Rightarrow> - 1 | i # _ \<Rightarrow> i)"
  using assms(2)
proof (induction "is")
  case (Cons i "is")
  then have i: "0 \<le> i" "i < block_swap_count cfg" by auto
  obtain d where d: "swap_image cfg m (nat i) = Some d" "length d = nat (block_size cfg)"
    using swap_image_defined[OF assms(1) i] by auto
  have "list_all (\<lambda>c. c = zero_char) d \<longleftrightarrow> swap_free cfg m i"
    using d by (auto simp: swap_free_def memset_bytes_def list_all_iff intro: replicate_eqI)
  with Cons d swap_offset(1)[OF assms(1) i] show ?case by auto
qed simp

lemma reserve_one:
  assumes ok: "map_ok cfg m" and first: "free_swap_list cfg m = b # bs" and z: "z = memset_bytes 0 (block_size cfg)"
  shows "0 \<le> b" and "\<exists>m1. map_write m (b * block_size cfg) z = Some m1 \<and> map_ok cfg m1 \<and> swap_image cfg m1 (nat b) = Some z
     \<and> (\<forall>j. j \<noteq> nat b \<longrightarrow> swap_image cfg m1 j = swap_image cfg m j) \<and> free_swap_list cfg m1 = bs"
    and "nat b \<notin> nat ` set bs"
proof -
  have "b \<in> set (free_swap_list cfg m)" using first by simp
  then have b: "0 \<le> b" "b < block_swap_count cfg" by (auto simp: free_swap_list_def)
  then show "0 \<le> b" by simp
  have lz: "length z = nat (block_size cfg)" by (simp add: z memset_bytes_def)
  obtain m1 where m1: "map_write m (b * block_size cfg) z = Some m1" "map_ok cfg m1"
    "swap_image cfg m1 (nat b) = Some z" "\<And>j. j \<noteq> nat b \<Longrightarrow> swap_image cfg m1 j = swap_image cfg m j"
    using swap_write[OF ok b lz] by auto
  have nz: "z \<noteq> memset_bytes zero_char (block_size cfg)"
    using ok by (simp add: z map_ok_def memset_bytes_def zero_char_def)
  have sf: "swap_free cfg m1 x \<longleftrightarrow> swap_free cfg m x \<and> x \<noteq> b" if "0 \<le> x" for x
    using m1(3) m1(4)[of "nat x"] nz b that by (cases "x = b") (auto simp: swap_free_def eq_nat_nat_iff)
  have "free_swap_list cfg m1 = filter (\<lambda>i. i \<noteq> b) (free_swap_list cfg m)"
    unfolding free_swap_list_def filter_filter by (rule filter_cong) (simp_all add: sf)
  moreover have "distinct (free_swap_list cfg m)" by (simp add: free_swap_list_def)
  ultimately have l1: "free_swap_list cfg m1 = bs" and nb: "b \<notin> set bs" using first by (auto simp: filter_id_conv)
  then show "\<exists>m1. map_write m (b * block_size cfg) z = Some m1 \<and> map_ok cfg m1 \<and> swap_image cfg m1 (nat b) = Some z
     \<and> (\<forall>j. j \<noteq> nat b \<longrightarrow> swap_image cfg m1 j = swap_image cfg m j) \<and> free_swap_list cfg m1 = bs"
    using m1 by blast
  have "0 \<le> c" if "c \<in> set bs" for c using that l1 by (auto simp: free_swap_list_def)
  then show "nat b \<notin> nat ` set bs" using b nb by (auto simp: eq_nat_nat_iff)
qed

lemma reserve_loop_spec:
  assumes "map_ok cfg m"
  shows "\<exists>m'. reserve_loop cfg n m = Some (take n (free_swap_list cfg m), m') \<and> map_ok cfg m'
     \<and> (\<forall>b \<in> set (take n (free_swap_list cfg m)). swap_image cfg m' (nat b) = Some (memset_bytes 0 (block_size cfg)))
     \<and> (\<forall>j. j \<notin> nat ` set (take n (free_swap_list cfg m)) \<longrightarrow> swap_image cfg m' j = swap_image cfg m j)"
  using assms
proof (induction n arbitrary: m)
  case 0
  then show ?case by simp
next
  case (Suc n)
  have ff: "find_free_swap_block cfg m = Some (case free_swap_list cfg m of [] \<Rightarrow> - 1 | i # _ \<Rightarrow> i)"
    unfolding find_free_swap_block_def free_swap_list_def
    by (rule find_free_swap_from_spec) (use Suc.prems in auto)
  show ?case
  proof (cases "free_swap_list cfg m")
    case Nil
    with ff Suc.prems show ?thesis by simp
  next
    case (Cons b bs)
    let ?z = "memset_bytes 0 (block_size cfg)"
    note one = reserve_one[OF Suc.prems Cons refl]
    obtain m1 where m1: "map_write m (b * block_size cfg) ?z = Some m1" "map_ok cfg m1"
      "swap_image cfg m1 (nat b) = Some ?z" "\<And>j. j \<noteq> nat b \<Longrightarrow> swap_image cfg m1 j = swap_image cfg m j"
      and l1: "free_swap_list cfg m1 = bs"
      using one(2) by auto
    from Suc.IH[OF m1(2)] obtain m' where m':
      "reserve_loop cfg n m1 = Some (take n bs, m')" "map_ok cfg m'"
      "\<And>c. c \<in> set (take n bs) \<Longrightarrow> swap_image cfg m' (nat c) = Some ?z"
      "\<And>j. j \<notin> nat ` set (take n bs) \<Longrightarrow> swap_image cfg m' j = swap_image cfg m1 j"
      unfolding l1 by auto
    have "nat b \<notin> nat ` set (take n bs)" using one(3) by (auto dest: in_set_takeD)
    with m'(4) m1(3) have "swap_image cfg m' (nat b) = Some ?z" by simp
    moreover have "reserve_loop cfg (Suc n) m = Some (take (Suc n) (free_swap_list cfg m), m')"
      using ff Cons m1(1) m'(1) one(1) by simp
    ultimately show ?thesis using Cons m' m1(4) by auto
  qed
qed

end
