(* ===== verification/Filesystem.thy ===== *)
theory Filesystem
  imports Block_File
begin

text \<open>
  The file system module: the file control blocks (\<^verbatim>\<open>file-system/src/fcb/fcb.c\<close>), the
  operations on files and the command loop (\<^verbatim>\<open>file-system/src/command/command.c\<close>), over the
  table of theory Fat and the map of theory Block_File. A command is what \<open>wait_for_commands\<close>
  has received and its handler is one atomic step. The delays and the logging are not modelled.
\<close>

section \<open>State\<close>

text \<open>
  The two threads of \<open>wait_in_every_port\<close>, and the sockets. The fields \<open>socket\<close> and
  \<open>memory\<close> of \<open>t_thread\<close> are set for one of the threads only.
\<close>

datatype fs_thread = MRY | KRL

datatype fs_socket = MemorySocket | KernelSocket

fun thr_port :: "fs_thread \<Rightarrow> fs_socket" where
  "thr_port MRY = MemorySocket" | "thr_port KRL = KernelSocket"

fun thr_socket :: "fs_thread \<Rightarrow> fs_socket option" where
  "thr_socket MRY = Some KernelSocket" | "thr_socket KRL = None"

fun thr_memory :: "fs_thread \<Rightarrow> fs_socket option" where
  "thr_memory MRY = None" | "thr_memory KRL = Some MemorySocket"

datatype fs_msg = FsPackage t_package | FsList c_int "c_int list" | FsPage c_int t_pag
  | FsMovOut c_int t_mov_out_fs

text \<open>
  \<open>fcb_files\<close> are the files of the directory of control blocks, by path. The globals of
  \<open>command.c\<close> that outlive a command are \<open>modify_data\<close>, \<open>pcb_write\<close> and \<open>seek_data_write\<close>;
  they are \<open>None\<close> before the first use and once what they point to has been freed.
\<close>

record filesystem =
  fat_list :: "u32 list"
  fat_file :: "u32 list option"
  block_map :: "u8 list"
  fcbs :: "t_fcb list"
  fcb_files :: "string \<rightharpoonup> string"
  modify_data :: "t_fmodify option"
  pcb_write :: "t_pcb option"
  seek_data_write :: "t_openf option"
  fs_sent :: "(fs_socket \<times> fs_msg) list"

text \<open>
  What the module takes from outside: which paths \<open>open\<close> can create, \<open>string_contains\<close>, and
  the value of a key in the text of a configuration file as \<open>config_create\<close> reads it.
\<close>

record fs_env =
  can_create :: "string \<Rightarrow> bool"
  string_contains :: "string \<Rightarrow> string \<Rightarrow> bool"
  config_value :: "string \<Rightarrow> string \<Rightarrow> string option"

section \<open>Control blocks\<close>

text \<open>\<^verbatim>\<open>%d\<close>: the decimal digits of an \<^verbatim>\<open>int\<close>.\<close>

fun dec_nat :: "nat \<Rightarrow> string" where
  "dec_nat n = (if n < 10 then [char_of (48 + n)] else dec_nat (n div 10) @ [char_of (48 + n mod 10)])"

declare dec_nat.simps [simp del]

definition dec_int :: "int \<Rightarrow> string" where
  "dec_int i = (if i < 0 then CHR ''-'' # dec_nat (nat (- i)) else dec_nat (nat i))"

definition fcb_path :: "t_fs_config \<Rightarrow> string \<Rightarrow> string" where
  "fcb_path cfg name = path_fcb cfg @ ''/'' @ name @ ''.fcb''"

definition fcb_content :: "t_fcb \<Rightarrow> string" where
  "fcb_content f = ''NOMBRE_ARCHIVO='' @ fcb_file_name f @ [CHR 0x0A] @
     ''TAMANIO_ARCHIVO='' @ dec_int (file_size f) @ [CHR 0x0A] @
     ''BLOQUE_INICIAL='' @ dec_int (initial_block f)"

definition create_fcb_file :: "fs_env \<Rightarrow> t_fs_config \<Rightarrow> string \<Rightarrow> filesystem \<Rightarrow> filesystem" where
  "create_fcb_file env cfg name s =
     (let full_path = fcb_path cfg name;
          fcb_struct = \<lparr>fcb_file_name = name, file_size = 0, initial_block = 0\<rparr> in
      if fcb_files s full_path \<noteq> None \<or> can_create env full_path
      then s\<lparr>fcb_files := (fcb_files s)(full_path \<mapsto>
               ''NOMBRE_ARCHIVO='' @ name @ [CHR 0x0A] @ ''TAMANIO_ARCHIVO=0'' @ [CHR 0x0A] @ ''BLOQUE_INICIAL=0''),
             fcbs := fcbs s @ [fcb_struct]\<rparr>
      else s)"

definition find_fcb_file :: "string \<Rightarrow> filesystem \<Rightarrow> t_fcb option" where
  "find_fcb_file name s = find (\<lambda>f. fcb_file_name f = name) (fcbs s)"

text \<open>An assignment through the pointer that \<open>find_fcb_file\<close> returned.\<close>

fun set_fcb :: "string \<Rightarrow> t_fcb \<Rightarrow> t_fcb list \<Rightarrow> t_fcb list" where
  "set_fcb name f [] = []"
| "set_fcb name f (g # gs) = (if fcb_file_name g = name then f # gs else g # set_fcb name f gs)"

definition update_fcb :: "t_fs_config \<Rightarrow> t_fcb \<Rightarrow> filesystem \<Rightarrow> filesystem" where
  "update_fcb cfg f s = (let full_path = fcb_path cfg (fcb_file_name f) in
     if fcb_files s full_path \<noteq> None then s\<lparr>fcb_files := (fcb_files s)(full_path \<mapsto> fcb_content f)\<rparr> else s)"

text \<open>The loop over the names \<open>readdir\<close> returns; a missing file or key is dereferenced.\<close>

fun load_FCBs :: "fs_env \<Rightarrow> t_fs_config \<Rightarrow> (string \<rightharpoonup> string) \<Rightarrow> string list \<Rightarrow> t_fcb list option" where
  "load_FCBs env cfg files [] = Some []"
| "load_FCBs env cfg files (d # ds) =
     (if string_contains env d ''.fcb''
      then do {
        text \<leftarrow> files (path_fcb cfg @ ''/'' @ d);
        size_value \<leftarrow> config_value env text ''TAMANIO_ARCHIVO'';
        block_value \<leftarrow> config_value env text ''BLOQUE_INICIAL'';
        name \<leftarrow> config_value env text ''NOMBRE_ARCHIVO'';
        fs \<leftarrow> load_FCBs env cfg files ds;
        Some (\<lparr>fcb_file_name = name, file_size = atoi size_value, initial_block = atoi block_value\<rparr> # fs) }
      else load_FCBs env cfg files ds)"

text \<open>
  The start of the module (\<open>main\<close> and \<open>init_fs_struct\<close>): \<open>names\<close> are the entries of the
  directory, \<open>None\<close> when it does not open.
\<close>

definition fs_start :: "fs_env \<Rightarrow> t_fs_config \<Rightarrow> string list option \<Rightarrow> (string \<rightharpoonup> string)
    \<Rightarrow> u32 list option \<Rightarrow> u8 list option \<Rightarrow> filesystem option" where
  "fs_start env cfg names files fatf blocks = do {
     fs \<leftarrow> (case names of None \<Rightarrow> Some [] | Some ds \<Rightarrow> load_FCBs env cfg files ds);
     m \<leftarrow> create_block_file cfg blocks;
     Some \<lparr>fat_list = initialize_fat_list cfg, fat_file = Some (create_fat_file cfg fatf), block_map = m,
       fcbs = fs, fcb_files = files, modify_data = None, pcb_write = None, seek_data_write = None,
       fs_sent = []\<rparr> }"

section \<open>Operations on files\<close>

definition read_file :: "t_fs_config \<Rightarrow> string \<Rightarrow> int \<Rightarrow> filesystem \<Rightarrow> u8 list option option" where
  "read_file cfg name pos s = (case find_fcb_file name s of
      None \<Rightarrow> Some None
    | Some fcb \<Rightarrow> read_file_block cfg (fat_list s) (initial_block fcb) pos (block_map s))"

definition write_file :: "t_fs_config \<Rightarrow> string \<Rightarrow> int \<Rightarrow> u8 list \<Rightarrow> filesystem \<Rightarrow> filesystem option" where
  "write_file cfg name pos data s = (case find_fcb_file name s of
      None \<Rightarrow> Some s
    | Some fcb \<Rightarrow> map_option (\<lambda>m. s\<lparr>block_map := m\<rparr>)
        (write_file_block cfg (fat_list s) (initial_block fcb) pos data (block_map s)))"

definition open_file :: "string \<Rightarrow> filesystem \<Rightarrow> int" where
  "open_file name s = (case find_fcb_file name s of Some fcb \<Rightarrow> file_size fcb | None \<Rightarrow> - 1)"

definition create_file :: "fs_env \<Rightarrow> t_fs_config \<Rightarrow> string \<Rightarrow> filesystem \<Rightarrow> int \<times> filesystem" where
  "create_file env cfg name s = (case find_fcb_file name s of
      None \<Rightarrow> (1, create_fcb_file env cfg name s)
    | Some _ \<Rightarrow> (1, s))"

text \<open>
  The three cases of \<open>truncate_file\<close>: a first allocation, growth and shrinking. The new size
  and the new first block are stored in the control block.
\<close>

definition truncate_blocks :: "t_fs_config \<Rightarrow> t_fcb \<Rightarrow> int \<Rightarrow> filesystem \<Rightarrow> (t_fcb \<times> filesystem) option" where
  "truncate_blocks cfg fcb new_size s =
     (if file_size fcb = 0 then do {
        (first_block, fat, ws) \<leftarrow> assign_block_size cfg new_size (fat_file s) (fat_list s);
        Some (fcb\<lparr>initial_block := first_block\<rparr>, s\<lparr>fat_list := fat, fat_file := Some ws\<rparr>) }
      else if file_size fcb < new_size then
        let current_size = file_size fcb sdiv block_size cfg + 1;
            new_block_count = new_size sdiv block_size cfg + 1;
            blocks_to_add = new_block_count - current_size - 1
        in do {
          fat \<leftarrow> add_blocks cfg (initial_block fcb) blocks_to_add (fat_list s);
          Some (fcb, s\<lparr>fat_list := fat\<rparr>) }
      else
        let blocks_needed = new_size sdiv block_size cfg + 1
        in do {
          fat \<leftarrow> free_blocks (initial_block fcb) blocks_needed (fat_list s);
          Some (fcb, s\<lparr>fat_list := fat\<rparr>) })"

definition truncate_file :: "t_fs_config \<Rightarrow> string \<Rightarrow> int \<Rightarrow> filesystem \<Rightarrow> filesystem option" where
  "truncate_file cfg name new_size s = (case find_fcb_file name s of
      None \<Rightarrow> None
    | Some fcb \<Rightarrow>
        if file_size fcb = new_size then Some s
        else do {
          (fcb, s) \<leftarrow> truncate_blocks cfg fcb new_size s;
          let fcb = fcb\<lparr>file_size := new_size\<rparr>
          in Some (update_fcb cfg fcb (s\<lparr>fcbs := set_fcb name fcb (fcbs s)\<rparr>)) })"

section \<open>Commands\<close>

definition fs_send :: "fs_socket \<Rightarrow> fs_msg \<Rightarrow> filesystem \<Rightarrow> filesystem" where
  "fs_send p msg s = s\<lparr>fs_sent := fs_sent s @ [(p, msg)]\<rparr>"

definition fs_reply :: "fs_socket \<Rightarrow> c_int \<Rightarrow> int \<Rightarrow> filesystem \<Rightarrow> filesystem" where
  "fs_reply p code v = fs_send p (FsPackage (create_integer_package code (word_of_int v)))"

datatype fs_command = ECHO_FILESYSTEM string | F_OPEN t_pcb | F_CREATE t_pcb | F_TRUNCATE t_pcb
  | GET_SWAP_BLOCKS_FS c_int | GET_FROM_SWAP_FS c_int | UPDATE_SWAP t_pag_swap | FREE_PAGES_FS "c_int list"
  | F_READ t_pcb | MOV_OUT_DONE c_int | F_WRITE t_pcb | MOV_IN_DONE "u8 list"

definition open_entry_of :: "t_fmodify \<Rightarrow> t_pcb \<Rightarrow> t_openf option" where
  "open_entry_of d p = find (\<lambda>f. openf_file f = fm_file_name d) (open_files p)"

text \<open>
  \<open>F_READ\<close>: the block goes to the frames of the process; the data of a read at the end of the
  file is NULL and is copied into the message. \<open>destroy_pcb\<close> frees what \<open>modify_data\<close> points to.
\<close>

definition f_read_command :: "t_fs_config \<Rightarrow> fs_thread \<Rightarrow> t_pcb \<Rightarrow> filesystem \<Rightarrow> filesystem option" where
  "f_read_command cfg thr p s = (case params p of
      PModify d \<Rightarrow> do {
        seek_data \<leftarrow> open_entry_of d p;
        found \<leftarrow> read_file cfg (openf_file seek_data) (sint (seek seek_data)) s;
        data \<leftarrow> found;
        mem \<leftarrow> thr_memory thr;
        let mov_out = page_for_mov_out_fs (pid p) (page_number (fm_page d)) (displacement (fm_page d))
              data (word_of_int (block_size cfg))
        in Some (fs_send mem (FsMovOut 18 mov_out) (s\<lparr>modify_data := None\<rparr>)) }
    | _ \<Rightarrow> None)"

text \<open>\<open>F_WRITE\<close> asks the memory for the page; \<open>MOV_IN_FS\<close> is its answer.\<close>

definition f_write_command :: "fs_thread \<Rightarrow> t_pcb \<Rightarrow> filesystem \<Rightarrow> filesystem option" where
  "f_write_command thr p s = (case params p of
      PModify d \<Rightarrow> do {
        mem \<leftarrow> thr_memory thr;
        Some (fs_send mem (FsPage 17 (fm_page d))
          (s\<lparr>pcb_write := Some p, modify_data := Some d, seek_data_write := open_entry_of d p\<rparr>)) }
    | _ \<Rightarrow> None)"

definition mov_in_command :: "t_fs_config \<Rightarrow> fs_thread \<Rightarrow> u8 list \<Rightarrow> filesystem \<Rightarrow> filesystem option" where
  "mov_in_command cfg thr data s = do {
     d \<leftarrow> modify_data s;
     e \<leftarrow> seek_data_write s;
     s \<leftarrow> write_file cfg (openf_file e) (sint (seek e)) data s;
     sock \<leftarrow> thr_socket thr;
     Some (fs_reply sock 23 0 (s\<lparr>pcb_write := None, modify_data := None, seek_data_write := None\<rparr>)) }"

text \<open>
  One turn of the loop of \<open>wait_for_commands\<close> in a thread. The echo sends a string literal, which
  \<open>send_package\<close> frees.
\<close>

fun wait_for_commands :: "fs_env \<Rightarrow> t_fs_config \<Rightarrow> fs_thread \<Rightarrow> fs_command \<Rightarrow> filesystem \<Rightarrow> filesystem option" where
  "wait_for_commands env cfg thr (ECHO_FILESYSTEM msg) s = None"
| "wait_for_commands env cfg thr (F_OPEN p) s = (case params p of
      POpen d \<Rightarrow> Some (fs_reply (thr_port thr) 19 (open_file (fo_file_name d) s) s)
    | _ \<Rightarrow> None)"
| "wait_for_commands env cfg thr (F_CREATE p) s = (case params p of
      POpen d \<Rightarrow> Some (fs_reply (thr_port thr) 20 0 (snd (create_file env cfg (fo_file_name d) s)))
    | _ \<Rightarrow> None)"
| "wait_for_commands env cfg thr (F_TRUNCATE p) s = (case params p of
      PChange d \<Rightarrow> map_option (fs_reply (thr_port thr) 21 0)
        (truncate_file cfg (fc_file_name d) (sint (fc_value d)) s)
    | _ \<Rightarrow> None)"
| "wait_for_commands env cfg thr (GET_SWAP_BLOCKS_FS n) s =
     (case reserve_swap_blocks cfg (sint n) (block_map s) of
        Some (Some bs, m) \<Rightarrow> Some (fs_send (thr_port thr) (FsList 7 (map word_of_int bs)) (s\<lparr>block_map := m\<rparr>))
      | _ \<Rightarrow> None)"
| "wait_for_commands env cfg thr (GET_FROM_SWAP_FS b) s =
     map_option (\<lambda>data. fs_send (thr_port thr)
         (FsPackage (create_void_package 12 (word_of_int (block_size cfg)) data)) s)
       (read_from_swap_block cfg (sint b) (block_map s))"
| "wait_for_commands env cfg thr (UPDATE_SWAP p) s =
     map_option (\<lambda>m. fs_reply (thr_port thr) 13 0 (s\<lparr>block_map := m\<rparr>))
       (write_to_swap_block cfg (sint (swap_block p)) (page_content p) (block_map s))"
| "wait_for_commands env cfg thr (FREE_PAGES_FS bs) s =
     map_option (\<lambda>m. fs_reply (thr_port thr) 14 0 (s\<lparr>block_map := m\<rparr>))
       (release_swap_blocks cfg (map sint bs) (block_map s))"
| "wait_for_commands env cfg thr (F_READ p) s = f_read_command cfg thr p s"
| "wait_for_commands env cfg thr (MOV_OUT_DONE ok) s =
     (case thr_socket thr of Some sock \<Rightarrow> Some (fs_reply sock 22 0 s) | None \<Rightarrow> None)"
| "wait_for_commands env cfg thr (F_WRITE p) s = f_write_command thr p s"
| "wait_for_commands env cfg thr (MOV_IN_DONE data) s = mov_in_command cfg thr data s"

end
