(* ===== verification/Fs_Props.thy ===== *)
theory Fs_Props
  imports Filesystem
begin

text \<open>
  Correctness of the file system: what a truncation does to the chains of all files, the swap
  as a store of pages, reservation of swap blocks, reads after writes, and the defects of the
  table after a shrink and after a restart.
\<close>

section \<open>Files and their chains\<close>

definition file_chain :: "filesystem \<Rightarrow> string \<Rightarrow> int list \<Rightarrow> bool" where
  "file_chain s name bs \<longleftrightarrow> (case find_fcb_file name s of
      None \<Rightarrow> False | Some fcb \<Rightarrow> chain (fat_list s) (initial_block fcb) bs)"

lemma file_chain_cong:
  "fat_list s' = fat_list s \<Longrightarrow> fcbs s' = fcbs s \<Longrightarrow> file_chain s' name bs = file_chain s name bs"
  by (simp add: file_chain_def find_fcb_file_def split: option.split)

lemma find_set_fcb:
  "find (\<lambda>f. fcb_file_name f = name) fs = Some f \<Longrightarrow> fcb_file_name g = name \<Longrightarrow>
     find (\<lambda>f. fcb_file_name f = x) (set_fcb name g fs)
       = (if x = name then Some g else find (\<lambda>f. fcb_file_name f = x) fs)"
  by (induction name g fs rule: set_fcb.induct) auto

lemma find_fcb_name: "find_fcb_file name s = Some f \<Longrightarrow> fcb_file_name f = name"
  by (auto simp: find_fcb_file_def find_Some_iff)

lemma update_fcb_simps [simp]:
  "fcbs (update_fcb cfg f s) = fcbs s" "fat_list (update_fcb cfg f s) = fat_list s"
  "fat_file (update_fcb cfg f s) = fat_file s" "block_map (update_fcb cfg f s) = block_map s"
  by (simp_all add: update_fcb_def Let_def)

lemma truncate_fcbs:
  assumes "find_fcb_file name s = Some fcb" and "file_size fcb \<noteq> n"
    and "truncate_blocks cfg fcb n s = Some (f1, s1)" and "fcb_file_name f1 = name" and "fcbs s1 = fcbs s"
  shows "\<exists>s'. truncate_file cfg name n s = Some s' \<and> fat_list s' = fat_list s1 \<and> fat_file s' = fat_file s1
     \<and> block_map s' = block_map s1
     \<and> (\<forall>x. find_fcb_file x s' = (if x = name then Some (f1\<lparr>file_size := n\<rparr>) else find_fcb_file x s))"
proof -
  have "find_fcb_file x (update_fcb cfg g (s1\<lparr>fcbs := set_fcb name g (fcbs s1)\<rparr>))
      = (if x = name then Some g else find_fcb_file x s)" if "g = f1\<lparr>file_size := n\<rparr>" for x g
    unfolding find_fcb_file_def using find_set_fcb[of name "fcbs s" fcb g x] that assms
    by (simp add: find_fcb_file_def)
  then show ?thesis using assms(1-3) by (simp add: truncate_file_def Let_def)
qed

lemma file_chain_frame:
  assumes "find_fcb_file g s' = find_fcb_file g s" and "keeps_chains (fat_list s) (fat_list s') ex"
    and "set cs \<inter> ex = {}" and "file_chain s g cs"
  shows "file_chain s' g cs"
  using assms by (auto simp: file_chain_def keeps_chains_def split: option.splits)

lemma file_chain_not_free:
  assumes "fat_ok cfg (fat_list s)" and "file_chain s g cs"
  shows "set cs \<inter> set (free_others cfg (fat_list s) b) = {}"
  using assms chain_entry[of "fat_list s"]
  by (fastforce simp: file_chain_def free_others_mem fat_ok_def split: option.splits)

section \<open>Truncation\<close>

text \<open>
  C19. The first size of a file. A file of size 0 that is truncated to \<open>n\<close> bytes gets a chain of
  one block more than \<open>n\<close> bytes fill, or of all free blocks when there are fewer. The chain is
  what the walk through the table returns, its blocks were free, it is written to the FAT file,
  and every other file keeps its chain.
\<close>

theorem truncate_new_file:
  assumes ok: "fat_ok cfg (fat_list s)" and f: "find_fcb_file name s = Some fcb" "file_size fcb = 0"
    and n: "n \<noteq> 0" "fits_int (n + block_size cfg - 1)" and ws: "fat_file s = Some ws"
    and fr: "free_list cfg (fat_list s) \<noteq> []"
  shows "\<exists>s' bs fcb'. truncate_file cfg name n s = Some s'
     \<and> find_fcb_file name s' = Some fcb' \<and> file_size fcb' = n
     \<and> recorrer_blocks (fat_list s') (initial_block fcb') = Some bs \<and> distinct bs
     \<and> length bs = min (Suc (nat ((n + block_size cfg - 1) sdiv block_size cfg))) (length (free_list cfg (fat_list s)))
     \<and> set bs \<subseteq> set (free_list cfg (fat_list s))
     \<and> fat_file s' = Some (fat_list s' @ drop (length (fat_list s)) ws)
     \<and> (\<forall>g cs. g \<noteq> name \<longrightarrow> file_chain s g cs \<longrightarrow> file_chain s' g cs)"
proof -
  obtain fat' bs where a: "assign_block_size cfg n (Some ws) (fat_list s)
        = Some (hd bs, fat', fat' @ drop (length (fat_list s)) ws)"
    "bs = take (Suc (nat ((n + block_size cfg - 1) sdiv block_size cfg))) (free_list cfg (fat_list s))"
    "fat_ok cfg fat'" "chain fat' (hd bs) bs" "keeps_chains (fat_list s) fat' (set bs)"
    using assign_block_size_spec[OF ok fr n(2) refl, of ws] by auto
  have t: "truncate_blocks cfg fcb n s
      = Some (fcb\<lparr>initial_block := hd bs\<rparr>, s\<lparr>fat_list := fat', fat_file := Some (fat' @ drop (length (fat_list s)) ws)\<rparr>)"
    using f ws a(1) by (simp add: truncate_blocks_def)
  have "file_size fcb \<noteq> n" using f n by simp
  from truncate_fcbs[OF f(1) this t] find_fcb_name[OF f(1)] obtain s' where s':
    "truncate_file cfg name n s = Some s'" "fat_list s' = fat'"
    "fat_file s' = Some (fat' @ drop (length (fat_list s)) ws)"
    "\<And>x. find_fcb_file x s' = (if x = name then Some (fcb\<lparr>initial_block := hd bs, file_size := n\<rparr>) else find_fcb_file x s)"
    by auto
  have sub: "set bs \<subseteq> set (free_list cfg (fat_list s))" using a(2) by (auto dest: in_set_takeD)
  have oth: "file_chain s' g cs" if "g \<noteq> name" "file_chain s g cs" for g cs
    by (rule file_chain_frame[where ex = "set bs" and s = s])
      (use that s' a(5) file_chain_not_free[OF ok that(2), of "- 1"] sub in auto)
  have "recorrer_blocks fat' (hd bs) = Some bs" "distinct bs"
    using chain_recorrer[OF a(4)] chain_distinct[OF a(4)] a(3) by (auto simp: fat_ok_def)
  then show ?thesis using s' sub oth a(2) by (auto intro!: exI[of _ bs] simp: min_def)
qed

text \<open>
  Growth. When a file grows its chain is kept and new blocks are added at its end: one less
  than the difference of the two sizes in blocks (so none when it grows by one block), or all
  free blocks when there are fewer. Files that share no block with it keep their chains. The
  FAT file is not written.
\<close>

theorem truncate_grow:
  assumes ok: "fat_ok cfg (fat_list s)" and f: "find_fcb_file name s = Some fcb" "file_size fcb \<noteq> 0"
    and n: "file_size fcb < n" and c: "file_chain s name bs"
  shows "\<exists>s' new. truncate_file cfg name n s = Some s' \<and> file_chain s' name (bs @ new)
     \<and> length new = min (nat (n sdiv block_size cfg - file_size fcb sdiv block_size cfg - 1))
         (length (free_list cfg (fat_list s)))
     \<and> set new \<subseteq> set (free_list cfg (fat_list s)) \<and> fat_file s' = fat_file s
     \<and> (\<forall>g cs. g \<noteq> name \<longrightarrow> file_chain s g cs \<longrightarrow> set cs \<inter> set bs = {} \<longrightarrow> file_chain s' g cs)"
proof -
  let ?k = "n sdiv block_size cfg - file_size fcb sdiv block_size cfg - 1"
  have ch: "chain (fat_list s) (initial_block fcb) bs" using c f by (simp add: file_chain_def)
  have "free_others cfg (fat_list s) (last bs) = free_list cfg (fat_list s)"
    unfolding free_others_def
    by (rule filter_cong) (use chain_entry[OF ch, of "last bs"] chain_hd[OF ch] ok in \<open>auto simp: fat_ok_def\<close>)
  then obtain fat' where a: "add_blocks cfg (initial_block fcb) ?k (fat_list s) = Some fat'" "fat_ok cfg fat'"
    "chain fat' (initial_block fcb) (bs @ take (nat ?k) (free_list cfg (fat_list s)))"
    "keeps_chains (fat_list s) fat' (set (last bs # take (nat ?k) (free_list cfg (fat_list s))))"
    using add_blocks_spec[OF ok ch refl, of ?k] by auto
  have "add_blocks cfg (initial_block fcb) (n sdiv block_size cfg - (file_size fcb sdiv block_size cfg + 1))
      (fat_list s) = Some fat'" using a(1) by (simp only: diff_diff_eq)
  then have t: "truncate_blocks cfg fcb n s = Some (fcb, s\<lparr>fat_list := fat'\<rparr>)"
    using f n by (simp add: truncate_blocks_def Let_def)
  have "file_size fcb \<noteq> n" using n by simp
  from truncate_fcbs[OF f(1) this t] find_fcb_name[OF f(1)] obtain s' where s':
    "truncate_file cfg name n s = Some s'" "fat_list s' = fat'" "fat_file s' = fat_file s"
    "\<And>x. find_fcb_file x s' = (if x = name then Some (fcb\<lparr>file_size := n\<rparr>) else find_fcb_file x s)"
    by auto
  have lb: "last bs \<in> set bs" using chain_hd[OF ch] by auto
  have oth: "file_chain s' g cs" if "g \<noteq> name" "file_chain s g cs" "set cs \<inter> set bs = {}" for g cs
    by (rule file_chain_frame[where ex = "set (last bs # take (nat ?k) (free_list cfg (fat_list s)))" and s = s])
      (use that s' a(4) file_chain_not_free[OF ok that(2), of "- 1"] lb in \<open>auto dest: in_set_takeD\<close>)
  have "file_chain s' name (bs @ take (nat ?k) (free_list cfg (fat_list s)))"
    using s' a(3) by (simp add: file_chain_def)
  then show ?thesis using s' oth
    by (intro exI[of _ s'] exI[of _ "take (nat ?k) (free_list cfg (fat_list s))"])
      (auto dest: in_set_takeD simp: min_def)
qed

lemma truncate_shrink_blocks:
  assumes ok: "fat_ok cfg (fat_list s)" and f: "find_fcb_file name s = Some fcb"
    and n: "0 \<le> n" "n < file_size fcb" "0 < block_size cfg" and c: "file_chain s name bs"
    and k: "k = n div block_size cfg + 1"
  shows "\<exists>s'. truncate_file cfg name n s = Some s' \<and> length (fat_list s') = length (fat_list s)
     \<and> (\<forall>j. fat_get (fat_list s') j = (if j = k + 1 \<and> j < int (length (fat_list s)) then UINT32_MAX
           else if j \<in> set (drop (nat (k + 1)) bs) then 0 else fat_get (fat_list s) j))
     \<and> (\<forall>x. find_fcb_file x s' = (if x = name then Some (fcb\<lparr>file_size := n\<rparr>) else find_fcb_file x s))"
proof -
  have ch: "chain (fat_list s) (initial_block fcb) bs" using c f by (simp add: file_chain_def)
  have d: "n sdiv block_size cfg = n div block_size cfg"
    using n by (cases "n = 0") (auto simp: signed_divide_int_def)
  have k0: "0 \<le> k" using n k pos_imp_zdiv_nonneg_iff[of "block_size cfg" n] by simp
  from free_blocks_spec[OF ok ch k0] obtain fat' where a:
    "free_blocks (initial_block fcb) k (fat_list s) = Some fat'" "length fat' = length (fat_list s)"
    "\<And>j. fat_get fat' j = (if j = k + 1 \<and> j < int (length (fat_list s)) then UINT32_MAX
        else if j \<in> set (drop (nat (k + 1)) bs) then 0 else fat_get (fat_list s) j)" by auto
  have t: "truncate_blocks cfg fcb n s = Some (fcb, s\<lparr>fat_list := fat'\<rparr>)"
    using n a(1) k d by (simp add: truncate_blocks_def Let_def)
  have "file_size fcb \<noteq> n" using n by simp
  from truncate_fcbs[OF f this t] find_fcb_name[OF f] a show ?thesis by auto
qed

text \<open>
  Shrinking works for the file whose blocks are 1, 2, 3, \<dots> (the first one of a fresh
  table): it keeps the blocks of its new size and two more, and the rest are free again.
\<close>

theorem truncate_shrink_first_file:
  assumes ok: "fat_ok cfg (fat_list s)" and f: "find_fcb_file name s = Some fcb"
    and n: "0 \<le> n" "n < file_size fcb" "0 < block_size cfg"
    and c: "file_chain s name [1 .. len]" and k: "n div block_size cfg + 2 \<le> len - 1"
  shows "\<exists>s'. truncate_file cfg name n s = Some s' \<and> file_chain s' name [1 .. n div block_size cfg + 2]
     \<and> list_all (\<lambda>b. fat_get (fat_list s') b = 0) [n div block_size cfg + 3 .. len]"
proof -
  let ?q = "n div block_size cfg"
  have q0: "0 \<le> ?q" using n pos_imp_zdiv_nonneg_iff[of "block_size cfg" n] by simp
  from truncate_shrink_blocks[OF ok f n c refl] obtain s' where s': "truncate_file cfg name n s = Some s'"
    "length (fat_list s') = length (fat_list s)"
    "\<And>j. fat_get (fat_list s') j = (if j = ?q + 2 \<and> j < int (length (fat_list s)) then UINT32_MAX
        else if j \<in> set (drop (nat (?q + 2)) [1 .. len]) then 0 else fat_get (fat_list s) j)"
    "\<And>x. find_fcb_file x s' = (if x = name then Some (fcb\<lparr>file_size := n\<rparr>) else find_fcb_file x s)"
    by (auto simp: add.assoc)
  have sp: "[1 .. len] = [1 .. ?q + 2] @ [?q + 3 .. len]"
    using q0 k upto_split1[of 1 "?q + 3" len] by (simp add: add.commute)
  then have dr: "set (drop (nat (?q + 2)) [1 .. len]) = {?q + 3 .. len}" using q0 by simp
  have ch: "chain (fat_list s) (initial_block fcb) [1 .. len]" using c f by (simp add: file_chain_def)
  have nth: "[1 .. len] ! nat (?q + 1) = ?q + 2" using q0 k by (simp add: add.commute)
  have inr: "?q + 2 < int (length (fat_list s))" using chain_mem[OF ch, of "?q + 2"] q0 k by simp
  have tk: "take (Suc (nat (?q + 1))) [1 .. len] = [1 .. ?q + 2]" using sp q0 by (simp add: nat_add_distrib)
  have "chain (fat_list s') (initial_block fcb) (take (Suc (nat (?q + 1))) [1 .. len])"
  proof (rule chain_cut[OF ch _ s'(2)])
    fix b assume "b \<in> set (take (nat (?q + 1)) [1 .. len])"
    then have "1 \<le> b \<and> b < ?q + 2"
      using q0 by (auto simp: in_set_conv_nth)
    then show "fat_get (fat_list s') b = fat_get (fat_list s) b" using s'(3)[of b] dr by simp
  next
    show "fat_get (fat_list s') ([1 .. len] ! nat (?q + 1)) = UINT32_MAX"
      unfolding nth using s'(3)[of "?q + 2"] inr by simp
  qed (use q0 k in auto)
  then have "file_chain s' name [1 .. ?q + 2]" using tk s'(4) by (simp add: file_chain_def)
  moreover have "list_all (\<lambda>b. fat_get (fat_list s') b = 0) [?q + 3 .. len]"
    using s'(3) dr by (auto simp: list_all_iff)
  ultimately show ?thesis using s'(1) by blast
qed


section \<open>Swap\<close>

text \<open>A sequence of commands of one thread.\<close>

fun fs_run :: "fs_env \<Rightarrow> t_fs_config \<Rightarrow> fs_thread \<Rightarrow> fs_command list \<Rightarrow> filesystem \<Rightarrow> filesystem option" where
  "fs_run env cfg thr [] s = Some s"
| "fs_run env cfg thr (c # cs) s = (case wait_for_commands env cfg thr c s of
      None \<Rightarrow> None | Some s \<Rightarrow> fs_run env cfg thr cs s)"

definition page_update :: "t_fs_config \<Rightarrow> int \<times> u8 list \<Rightarrow> fs_command" where
  "page_update cfg bd = UPDATE_SWAP (page_for_swap (word_of_int (fst bd)) (word_of_int (block_size cfg)) (snd bd))"

text \<open>Pages that fit the blocks of the swap.\<close>

definition pages_ok :: "t_fs_config \<Rightarrow> (int \<times> u8 list) list \<Rightarrow> bool" where
  "pages_ok cfg ps \<longleftrightarrow> block_swap_count cfg < 2 ^ 31 \<and> list_all (\<lambda>(b, d). 0 \<le> b \<and> b < block_swap_count cfg
     \<and> length d = nat (block_size cfg)) ps"

lemma write_to_swap_block_ok:
  assumes "map_ok cfg m" and "0 \<le> b" and "b < block_swap_count cfg" and "length d = nat (block_size cfg)"
  shows "\<exists>m'. write_to_swap_block cfg b d m = Some m' \<and> map_ok cfg m'
     \<and> mem_write m (nat b * nat (block_size cfg)) d = Some m'"
proof -
  obtain m' where w: "map_write m (b * block_size cfg) d = Some m'" "map_ok cfg m'"
    using swap_write[OF assms] by auto
  moreover have "map_read d 0 (block_size cfg) = Some d"
    using assms(1,4) by (simp add: map_read_def mem_read_def map_ok_def)
  moreover have "mem_write m (nat b * nat (block_size cfg)) d = Some m'"
    using w(1) swap_offset(2)[OF assms(1-3)] by simp
  ultimately show ?thesis using assms by (auto simp: write_to_swap_block_def)
qed

lemma read_from_swap_block_ok:
  "map_ok cfg m \<Longrightarrow> 0 \<le> b \<Longrightarrow> b < block_swap_count cfg \<Longrightarrow>
     read_from_swap_block cfg b m = swap_image cfg m (nat b)"
  by (simp add: read_from_swap_block_def swap_offset(1))

lemma fs_run_updates:
  assumes "map_ok cfg (block_map s)" and "pages_ok cfg ps"
  shows "\<exists>s'. fs_run env cfg MRY (map (page_update cfg) ps) s = Some s' \<and> map_ok cfg (block_map s')
     \<and> swap_store.put_all cfg (block_map s) (map (\<lambda>(b, d). (nat b, d)) ps) = Some (block_map s')"
  using assms
proof (induction ps arbitrary: s)
  case Nil
  then show ?case by simp
next
  case (Cons p ps)
  obtain b d where p: "p = (b, d)" by (cases p)
  have b: "0 \<le> b" "b < block_swap_count cfg" "length d = nat (block_size cfg)" "b < 2 ^ 31"
    using Cons.prems p by (auto simp: pages_ok_def)
  from write_to_swap_block_ok[OF Cons.prems(1) b(1-3)] obtain m' where m':
    "write_to_swap_block cfg b d (block_map s) = Some m'" "map_ok cfg m'"
    "mem_write (block_map s) (nat b * nat (block_size cfg)) d = Some m'" by auto
  have st: "wait_for_commands env cfg MRY (page_update cfg p) s = Some (fs_reply MemorySocket 13 0 (s\<lparr>block_map := m'\<rparr>))"
    using m'(1) sint_of_block[OF b(1,4)] by (simp add: page_update_def page_for_swap_def p)
  have "map_ok cfg (block_map (fs_reply MemorySocket 13 0 (s\<lparr>block_map := m'\<rparr>)))"
    "pages_ok cfg ps" using m'(2) Cons.prems(2) p by (auto simp: fs_reply_def fs_send_def pages_ok_def)
  from Cons.IH[OF this] m'(3) st show ?case by (auto simp: p fs_reply_def fs_send_def)
qed

text \<open>
  C20. The swap keeps the pages. After any sequence of updates of different blocks of the swap,
  the answer to a request of any of these blocks is the content that was last sent for it.
\<close>

theorem swap_returns_pages:
  assumes m: "map_ok cfg (block_map s)" and ps: "pages_ok cfg ps" "distinct (map fst ps)" and p: "(b, d) \<in> set ps"
  shows "\<exists>s' s''. fs_run env cfg MRY (map (page_update cfg) ps) s = Some s'
     \<and> wait_for_commands env cfg MRY (GET_FROM_SWAP_FS (word_of_int b)) s' = Some s''
     \<and> last (fs_sent s'') = (MemorySocket, FsPackage (create_void_package 12 (word_of_int (block_size cfg)) d))"
proof -
  obtain s' where s': "fs_run env cfg MRY (map (page_update cfg) ps) s = Some s'" "map_ok cfg (block_map s')"
    "swap_store.put_all cfg (block_map s) (map (\<lambda>(b, d). (nat b, d)) ps) = Some (block_map s')"
    using fs_run_updates[OF m ps(1)] by blast
  have b: "0 \<le> b" "b < block_swap_count cfg" "b < 2 ^ 31" using ps(1) p by (auto simp: pages_ok_def list_all_iff)
  have "\<forall>x \<in> set (map fst ps). 0 \<le> x" using ps(1) by (auto simp: pages_ok_def list_all_iff)
  then have "inj_on nat (set (map fst ps))" by (auto simp: inj_on_def eq_nat_nat_iff)
  then have "distinct (map nat (map fst ps))" using ps(2) by (simp only: distinct_map)
  moreover have "map nat (map fst ps) = map fst (map (\<lambda>(b, d). (nat b, d)) ps)" by auto
  ultimately have dist: "distinct (map fst (map (\<lambda>(b, d). (nat b, d)) ps))" by metis
  have "swap_image cfg (block_map s') (nat b) = Some d"
    by (rule swap_store.put_all_get[OF s'(3) _ dist]) (use ps(1) p in \<open>force simp: pages_ok_def list_all_iff\<close>)+
  then have "wait_for_commands env cfg MRY (GET_FROM_SWAP_FS (word_of_int b)) s'
      = Some (fs_send MemorySocket (FsPackage (create_void_package 12 (word_of_int (block_size cfg)) d)) s')"
    using read_from_swap_block_ok[OF s'(2) b(1,2)] sint_of_block[OF b(1,3)] by simp
  with s'(1) show ?thesis by (auto simp: fs_send_def)
qed

lemma filter_notin_take: "distinct xs \<Longrightarrow> filter (\<lambda>x. x \<notin> set (take n xs)) xs = drop n xs"
proof -
  assume d: "distinct xs"
  have "set (take n xs) \<inter> set (drop n xs) = {}" using d by (metis append_take_drop_id distinct_append)
  then have "filter (\<lambda>x. x \<notin> set (take n xs)) (take n xs @ drop n xs) = drop n xs"
    by (auto simp: filter_id_conv filter_empty_conv simp del: append_take_drop_id)
  then show ?thesis by simp
qed

text \<open>A reservation takes the first free blocks, fills them with zero bytes and changes nothing else.\<close>

lemma reserve_effect:
  assumes m: "map_ok cfg (block_map s)" and n: "sint n \<le> block_swap_count cfg"
    and bs: "bs = take (nat (sint n)) (free_swap_list cfg (block_map s))"
  shows "\<exists>m'. wait_for_commands env cfg MRY (GET_SWAP_BLOCKS_FS n) s
        = Some (fs_send MemorySocket (FsList 7 (map word_of_int bs)) (s\<lparr>block_map := m'\<rparr>)) \<and> map_ok cfg m'
     \<and> (\<forall>b \<in> set bs. swap_image cfg m' (nat b) = Some (memset_bytes 0 (block_size cfg)))
     \<and> (\<forall>j. j \<notin> nat ` set bs \<longrightarrow> swap_image cfg m' j = swap_image cfg (block_map s) j)
     \<and> free_swap_list cfg m' = drop (nat (sint n)) (free_swap_list cfg (block_map s))"
proof -
  let ?F = "free_swap_list cfg (block_map s)" and ?n = "nat (sint n)"
  from reserve_loop_spec[OF m, of ?n] obtain m' where m': "reserve_loop cfg ?n (block_map s) = Some (bs, m')"
    "map_ok cfg m'" "\<And>b. b \<in> set bs \<Longrightarrow> swap_image cfg m' (nat b) = Some (memset_bytes 0 (block_size cfg))"
    "\<And>j. j \<notin> nat ` set bs \<Longrightarrow> swap_image cfg m' j = swap_image cfg (block_map s) j" unfolding bs by auto
  have dF: "distinct ?F" by (simp add: free_swap_list_def)
  have nn: "0 \<le> b" if "b \<in> set bs" for b using that bs by (auto dest: in_set_takeD simp: free_swap_list_def)
  have nz: "memset_bytes 0 (block_size cfg) \<noteq> memset_bytes zero_char (block_size cfg)"
    using m by (simp add: memset_bytes_def zero_char_def map_ok_def)
  have fr: "swap_free cfg m' b \<longleftrightarrow> swap_free cfg (block_map s) b \<and> b \<notin> set bs" if "0 \<le> b" for b
  proof (cases "b \<in> set bs")
    case True
    then show ?thesis using m'(3) nz by (simp add: swap_free_def)
  next
    case False
    then have "nat b \<notin> nat ` set bs" using nn that by (auto simp: eq_nat_nat_iff)
    then show ?thesis using m'(4) False by (simp add: swap_free_def)
  qed
  have "free_swap_list cfg m' = filter (\<lambda>b. b \<notin> set bs) ?F"
    unfolding free_swap_list_def filter_filter by (rule filter_cong) (auto simp: fr)
  then have "free_swap_list cfg m' = drop ?n ?F" by (simp add: bs filter_notin_take[OF dF])
  moreover have "wait_for_commands env cfg MRY (GET_SWAP_BLOCKS_FS n) s
      = Some (fs_send MemorySocket (FsList 7 (map word_of_int bs)) (s\<lparr>block_map := m'\<rparr>))"
    using n m'(1) by (simp add: reserve_swap_blocks_def)
  ultimately show ?thesis using m' by blast
qed

text \<open>
  C24. Reserving swap. A request for at most the number of swap blocks is answered with that many
  free blocks, or all free ones when there are fewer; the blocks are different, they stop being
  free, and nothing changes in the others. A request for more dereferences the NULL list.
\<close>

theorem reserve_gives_free_blocks:
  assumes m: "map_ok cfg (block_map s)"
  shows "if sint n > block_swap_count cfg then wait_for_commands env cfg MRY (GET_SWAP_BLOCKS_FS n) s = None
     else \<exists>s' bs. wait_for_commands env cfg MRY (GET_SWAP_BLOCKS_FS n) s = Some s'
       \<and> last (fs_sent s') = (MemorySocket, FsList 7 (map word_of_int bs)) \<and> distinct bs
       \<and> length bs = min (nat (sint n)) (length (free_swap_list cfg (block_map s)))
       \<and> set bs \<subseteq> set (free_swap_list cfg (block_map s)) \<and> map_ok cfg (block_map s')
       \<and> free_swap_list cfg (block_map s') = drop (nat (sint n)) (free_swap_list cfg (block_map s))
       \<and> (\<forall>j. j \<notin> nat ` set bs \<longrightarrow> swap_image cfg (block_map s') j = swap_image cfg (block_map s) j)"
proof (cases "sint n > block_swap_count cfg")
  case True
  then show ?thesis by (simp add: reserve_swap_blocks_def)
next
  case False
  let ?F = "free_swap_list cfg (block_map s)"
  have d: "distinct ?F" by (simp add: free_swap_list_def)
  have n: "sint n \<le> block_swap_count cfg" using False by simp
  let ?bs = "take (nat (sint n)) ?F"
  from reserve_effect[OF m n refl, of env] obtain m' where
    "wait_for_commands env cfg MRY (GET_SWAP_BLOCKS_FS n) s
        = Some (fs_send MemorySocket (FsList 7 (map word_of_int ?bs)) (s\<lparr>block_map := m'\<rparr>))" "map_ok cfg m'"
    "\<forall>j. j \<notin> nat ` set ?bs \<longrightarrow> swap_image cfg m' j = swap_image cfg (block_map s) j"
    "free_swap_list cfg m' = drop (nat (sint n)) ?F" by blast
  then show ?thesis using False d
    by (intro if_not_P[THEN iffD2] exI[of _ ?bs] exI) (auto simp: fs_send_def min_def dest: in_set_takeD)
qed

section \<open>Contents of files\<close>

lemma block_word: "1 \<le> b \<Longrightarrow> b < 2 ^ 31 \<Longrightarrow> (word_of_int b :: u32) \<noteq> UINT32_MAX \<and> sint (word_of_int b :: u32) = b"
  using sint_of_block[of b] sint_UINT32_MAX by (metis neg_0_le_iff_le not_one_le_zero order_trans zero_le_one)

lemma follow_fat_chain:
  "chain fat b bs \<Longrightarrow> int (length fat) < 2 ^ 31 \<Longrightarrow> n \<le> length bs \<Longrightarrow> follow_fat fat n (word_of_int b) \<noteq> None"
proof (induction fat b bs arbitrary: n rule: chain.induct)
  case (2 fat b c)
  then have "1 \<le> b" "b < 2 ^ 31" by auto
  then show ?case using 2 block_word[of b] by (cases n) auto
next
  case (3 fat b c d bs)
  from 3(2) have e: "fat_get fat b = word_of_int d" "chain fat d (d # bs)" by auto
  have "1 \<le> b" "b < 2 ^ 31" using 3(2,3) by auto
  then show ?case using 3(1)[OF e(2) 3(3)] 3(4) e(1) block_word[of b] by (cases n) auto
qed simp

text \<open>The place of a block of a file: it depends on the number of the block within the file only.\<close>

definition file_offset :: "t_fs_config \<Rightarrow> int \<Rightarrow> int" where
  "file_offset cfg pos = block_swap_count cfg + pos div block_size cfg * block_size cfg"

lemma file_block:
  assumes bs: "0 < block_size cfg" and sw: "0 \<le> block_swap_count cfg" and p: "0 \<le> pos" "pos < 2 ^ 31"
  defines "k \<equiv> pos div block_size cfg"
  shows "pos sdiv block_size cfg = k" "0 \<le> k" "unat (word_of_int k :: u32) = nat k"
    "uint (word_of_int k * word_of_int (block_size cfg) :: u32) = k * block_size cfg" "0 \<le> file_offset cfg pos"
proof -
  have "k * block_size cfg + pos mod block_size cfg = pos" unfolding k_def by (rule div_mult_mod_eq)
  moreover have "0 \<le> pos mod block_size cfg" using bs by simp
  ultimately have kb: "k * block_size cfg \<le> pos" by linarith
  show k: "0 \<le> k" using p(1) bs by (simp add: k_def pos_imp_zdiv_nonneg_iff)
  show "pos sdiv block_size cfg = k" unfolding k_def using p(1) bs by (cases "pos = 0") (auto simp: signed_divide_int_def)
  have "k \<le> k * block_size cfg" using k bs mult_left_mono[of 1 "block_size cfg" k] by simp
  then have kp: "k \<le> pos" using kb by linarith
  then show "unat (word_of_int k :: u32) = nat k"
    using k p(2) by (simp add: unat_eq_nat_uint uint_word_of_int take_bit_int_eq_self)
  have "(word_of_int k * word_of_int (block_size cfg) :: u32) = word_of_int (k * block_size cfg)" by simp
  moreover have "uint (word_of_int (k * block_size cfg) :: u32) = k * block_size cfg"
    unfolding uint_word_of_int by (rule mod_pos_pos_trivial) (use k bs p(2) kb in auto)
  ultimately show "uint (word_of_int k * word_of_int (block_size cfg) :: u32) = k * block_size cfg" by metis
  show "0 \<le> file_offset cfg pos" using k bs sw by (simp add: file_offset_def k_def)
qed

lemma write_file_effect:
  assumes ok: "fat_ok cfg (fat_list s)" "0 < block_size cfg" "0 \<le> block_swap_count cfg"
    and f: "file_chain s name bs" and p: "0 \<le> pos" "pos < 2 ^ 31" "nat (pos div block_size cfg) < length bs"
    and d: "length data = nat (block_size cfg)"
    and inside: "file_offset cfg pos + block_size cfg \<le> int (length (block_map s))"
  shows "\<exists>m'. mem_write (block_map s) (nat (file_offset cfg pos)) data = Some m'
     \<and> write_file cfg name pos data s = Some (s\<lparr>block_map := m'\<rparr>)"
proof -
  let ?k = "pos div block_size cfg"
  note k = file_block[OF ok(2,3) p(1,2)]
  have len31: "int (length (fat_list s)) < 2 ^ 31" using ok(1) by (simp add: fat_ok_def)
  obtain fcb where fc: "find_fcb_file name s = Some fcb" "chain (fat_list s) (initial_block fcb) bs"
    using f by (auto simp: file_chain_def split: option.splits)
  have "follow_fat (fat_list s) (Suc (nat ?k)) (word_of_int (initial_block fcb)) \<noteq> None"
    by (rule follow_fat_chain[OF fc(2) len31]) (use p(3) in simp)
  moreover have "int (nat (file_offset cfg pos) + length data) \<le> int (length (block_map s))" using inside d k(5) ok(2) by simp
  then obtain m' where w: "mem_write (block_map s) (nat (file_offset cfg pos)) data = Some m'"
    using mem_write_defined by (metis of_nat_le_iff)
  then have "map_write (block_map s) (block_swap_count cfg + ?k * block_size cfg) data = Some m'"
    using k(5) by (simp add: map_write_def file_offset_def)
  moreover have "map_read data 0 (block_size cfg) = Some data" using d ok(2) by (simp add: map_read_def mem_read_def)
  ultimately show ?thesis using fc(1) k w
    by (auto simp: write_file_def write_file_block_def Let_def)
qed

lemma read_file_effect:
  assumes ok: "fat_ok cfg (fat_list s)" "0 < block_size cfg" "0 \<le> block_swap_count cfg"
    and p: "0 \<le> pos" "pos < 2 ^ 31" and g: "file_chain s name cs" "nat (pos div block_size cfg) \<le> length cs"
  shows "read_file cfg name pos s = map_option Some (mem_read (block_map s) (nat (file_offset cfg pos)) (nat (block_size cfg)))"
proof -
  note k = file_block[OF ok(2,3) p]
  have len31: "int (length (fat_list s)) < 2 ^ 31" using ok(1) by (simp add: fat_ok_def)
  obtain gcb where gc: "find_fcb_file name s = Some gcb" "chain (fat_list s) (initial_block gcb) cs"
    using g(1) by (auto simp: file_chain_def split: option.splits)
  have "follow_fat (fat_list s) (nat (pos div block_size cfg)) (word_of_int (initial_block gcb)) \<noteq> None"
    by (rule follow_fat_chain[OF gc(2) len31 g(2)])
  then show ?thesis using gc(1) k ok(2)
    by (auto simp: read_file_def read_file_block_def Let_def map_read_def file_offset_def)
qed

text \<open>
  Reads and writes of files. A write inside a file succeeds, and a later read at the same
  block returns what was written. The place depends on the block number within the file only:
  the read may be of any file, so all files share one area, which starts inside the swap.
\<close>

theorem read_sees_last_write:
  assumes ok: "fat_ok cfg (fat_list s)" "0 < block_size cfg" "0 \<le> block_swap_count cfg"
    and f: "file_chain s name bs" and p: "0 \<le> pos" "pos < 2 ^ 31" "nat (pos div block_size cfg) < length bs"
    and d: "length data = nat (block_size cfg)"
    and inside: "file_offset cfg pos + block_size cfg \<le> int (length (block_map s))"
    and g: "file_chain s other cs" "nat (pos div block_size cfg) \<le> length cs"
  shows "\<exists>s'. write_file cfg name pos data s = Some s' \<and> read_file cfg other pos s' = Some (Some data)"
proof -
  obtain m' where m': "mem_write (block_map s) (nat (file_offset cfg pos)) data = Some m'"
    "write_file cfg name pos data s = Some (s\<lparr>block_map := m'\<rparr>)" using write_file_effect[OF ok f p d inside] by blast
  let ?s = "s\<lparr>block_map := m'\<rparr>"
  have "fat_ok cfg (fat_list ?s)" "file_chain ?s other cs"
    using ok(1) g(1) file_chain_cong[of ?s s] by simp_all
  from read_file_effect[OF this(1) ok(2,3) p(1,2) this(2) g(2)] show ?thesis
    using m'(2) mem_read_write_same[OF m'(1)] d by simp
qed

text \<open>
  A restart forgets the table. The module starts with an empty table and does not read the
  FAT file; a file that had a size keeps its control block, and the next truncation of it follows
  block 0 for ever.
\<close>

theorem restart_forgets_table:
  assumes st: "fs_start env cfg names files fatf blocks = Some s" and n: "0 < fat_count cfg"
    and f: "find_fcb_file name s = Some fcb" "file_size fcb \<noteq> 0" "initial_block fcb \<noteq> - 1" "file_size fcb \<noteq> m"
  shows "fat_list s = initialize_fat_list cfg \<and> truncate_file cfg name m s = None"
proof -
  have fl: "fat_list s = initialize_fat_list cfg" using st by (auto simp: fs_start_def bind_eq_Some_conv)
  have z: "fat_get (fat_list s) i = 0" for i
    by (auto simp: fl fat_get_def list_get_def initialize_fat_list_def)
  have "path (fat_list s) (initial_block fcb) [initial_block fcb] 0" using f(3) z by simp
  from path_to_zero_no_return(3,4)[OF this z] have "truncate_blocks cfg fcb m s = None"
    using f by (simp add: truncate_blocks_def Let_def)
  then show ?thesis using f fl by (simp add: truncate_file_def)
qed

section \<open>A small file system\<close>

text \<open>Two swap blocks, the files \<open>a\<close> and \<open>b\<close> of 32 bytes, an empty file \<open>c\<close> and three free blocks.\<close>

definition demo_cfg :: t_fs_config where
  "demo_cfg = \<lparr>path_fcb = ''fcbs'', block_total_count = 12, block_swap_count = 2, block_size = 16\<rparr>"

definition demo_fs :: filesystem where
  "demo_fs = \<lparr>fat_list = [0, 2, 3, UINT32_MAX, 5, 6, UINT32_MAX, 0, 0, 0], fat_file = Some (replicate 10 0),
     block_map = replicate 192 48,
     fcbs = [\<lparr>fcb_file_name = ''a'', file_size = 32, initial_block = 1\<rparr>,
             \<lparr>fcb_file_name = ''b'', file_size = 32, initial_block = 4\<rparr>,
             \<lparr>fcb_file_name = ''c'', file_size = 0, initial_block = 0\<rparr>],
     fcb_files = Map.empty, modify_data = None, pcb_write = None, seek_data_write = None, fs_sent = []\<rparr>"

definition demo_fs_env :: fs_env where
  "demo_fs_env = \<lparr>can_create = (\<lambda>p. True), string_contains = (\<lambda>s t. True),
     config_value = (\<lambda>t k. if k = ''NOMBRE_ARCHIVO'' then Some ''a'' else Some ''1'')\<rparr>"

lemma demo_fs_ok: "fat_ok demo_cfg (fat_list demo_fs)" "map_ok demo_cfg (block_map demo_fs)"
  "fat_get (fat_list demo_fs) 0 = 0" "free_list demo_cfg (fat_list demo_fs) = [7, 8, 9]"
  "find_fcb_file ''a'' demo_fs = Some \<lparr>fcb_file_name = ''a'', file_size = 32, initial_block = 1\<rparr>"
  "find_fcb_file ''b'' demo_fs = Some \<lparr>fcb_file_name = ''b'', file_size = 32, initial_block = 4\<rparr>"
  "find_fcb_file ''c'' demo_fs = Some \<lparr>fcb_file_name = ''c'', file_size = 0, initial_block = 0\<rparr>"
  "file_chain demo_fs ''a'' [1, 2, 3]" "file_chain demo_fs ''b'' [4, 5, 6]"
  subgoal by (simp add: demo_cfg_def demo_fs_def fat_ok_def fat_count_def)
  subgoal by (simp add: demo_cfg_def demo_fs_def map_ok_def)
  subgoal by code_simp
  subgoal by code_simp
  subgoal by (simp add: demo_fs_def find_fcb_file_def)
  subgoal by (simp add: demo_fs_def find_fcb_file_def)
  subgoal by (simp add: demo_fs_def find_fcb_file_def)
  subgoal by code_simp
  subgoal by code_simp
  done

theorem truncate_new_file_witness:
  "\<exists>s' bs fcb'. truncate_file demo_cfg ''c'' 20 demo_fs = Some s' \<and> find_fcb_file ''c'' s' = Some fcb'
     \<and> recorrer_blocks (fat_list s') (initial_block fcb') = Some bs \<and> length bs = 3 \<and> file_chain s' ''b'' [4, 5, 6]"
  using truncate_new_file[OF demo_fs_ok(1,7), of 20 "replicate 10 0"] demo_fs_ok(4,9)
  by (force simp: fits_int_def demo_cfg_def demo_fs_def)

theorem truncate_grow_witness:
  "\<exists>s' new. truncate_file demo_cfg ''a'' 64 demo_fs = Some s' \<and> file_chain s' ''a'' ([1, 2, 3] @ new) \<and> length new = 1"
  using truncate_grow[OF demo_fs_ok(1,5) _ _ demo_fs_ok(8), of 64] demo_fs_ok(4)
  by (force simp: demo_cfg_def)

theorem truncate_shrink_first_file_witness:
  "\<exists>s'. truncate_file demo_cfg ''a'' 5 demo_fs = Some s' \<and> file_chain s' ''a'' [1, 2] \<and> fat_get (fat_list s') 3 = 0"
  using truncate_shrink_first_file[OF demo_fs_ok(1,5), of 5 3] demo_fs_ok(8)
  by (auto simp: demo_cfg_def upto.simps)


theorem swap_returns_pages_witness:
  "\<exists>s' s''. fs_run demo_fs_env demo_cfg MRY (map (page_update demo_cfg) [(0, replicate 16 1), (1, replicate 16 2)]) demo_fs = Some s'
     \<and> wait_for_commands demo_fs_env demo_cfg MRY (GET_FROM_SWAP_FS (word_of_int 1)) s' = Some s''
     \<and> last (fs_sent s'') = (MemorySocket, FsPackage (create_void_package 12 (word_of_int 16) (replicate 16 2)))"
  using swap_returns_pages[OF demo_fs_ok(2), of "[(0, replicate 16 1), (1, replicate 16 2)]" 1 "replicate 16 2" demo_fs_env]
  by (simp add: pages_ok_def demo_cfg_def)

theorem reserve_gives_free_blocks_witness:
  "\<exists>s' bs. wait_for_commands demo_fs_env demo_cfg MRY (GET_SWAP_BLOCKS_FS 1) demo_fs = Some s'
       \<and> last (fs_sent s') = (MemorySocket, FsList 7 (map word_of_int bs)) \<and> length bs = 1"
proof -
  have "free_swap_list demo_cfg (block_map demo_fs) = [0, 1]" by code_simp
  then show ?thesis using reserve_gives_free_blocks[OF demo_fs_ok(2), of 1 demo_fs_env] by (force simp: demo_cfg_def)
qed

theorem read_sees_last_write_witness:
  "\<exists>s'. write_file demo_cfg ''a'' 17 (replicate 16 9) demo_fs = Some s' \<and> read_file demo_cfg ''b'' 17 s' = Some (Some (replicate 16 9))"
  by (rule read_sees_last_write[OF demo_fs_ok(1) _ _ demo_fs_ok(8) _ _ _ _ _ demo_fs_ok(9)])
    (simp_all add: demo_cfg_def demo_fs_def file_offset_def)

theorem restart_forgets_table_witness:
  "\<exists>s. fs_start demo_fs_env demo_cfg (Some [''a.fcb'']) [''fcbs/a.fcb'' \<mapsto> ''''] None None = Some s
     \<and> truncate_file demo_cfg ''a'' 30 s = None"
proof -
  obtain s where s: "fs_start demo_fs_env demo_cfg (Some [''a.fcb'']) [''fcbs/a.fcb'' \<mapsto> ''''] None None = Some s"
    "find_fcb_file ''a'' s = Some \<lparr>fcb_file_name = ''a'', file_size = 1, initial_block = 1\<rparr>"
  proof -
    have "atoi ''1'' = 1" by code_simp
    then show ?thesis using that
      by (simp add: fs_start_def demo_fs_env_def demo_cfg_def create_block_file_def Let_def find_fcb_file_def)
  qed
  show ?thesis using restart_forgets_table[OF s(1) _ s(2), of 30] s(1) by (auto simp: demo_cfg_def fat_count_def)
qed

end
