(* ===== verification/Cpu.thy ===== *)
theory Cpu
  imports Pcb "HOL-Library.Signed_Division"
begin

text \<open>
  The CPU module (\<^verbatim>\<open>cpu/src\<close>): fetch, decode with the translation of addresses, execute
  and the check of interrupts, in the loop that serves a dispatched process. The memory is the
  peer of a socket: \<open>ask\<close> answers a request with an operation code and a buffer and moves it
  to its next state. \<open>None\<close> is a NULL, freed or unset pointer that is used, or a lost memory.
\<close>

section \<open>Interface\<close>

datatype cpu_request = AskFetch t_pcb | AskPage t_pag | AskMovIn t_pag | AskMovOut t_mov_out

text \<open>
  What the module takes from outside: the memory, and \<open>string_split\<close> (by a space) and
  \<open>string_equals_ignore_case\<close> of so-commons.
\<close>

record 'm cpu_env =
  ask :: "'m \<Rightarrow> cpu_request \<Rightarrow> ((c_int \<times> u8 list) \<times> 'm) option"
  string_split :: "string \<Rightarrow> string list"
  string_equals_ignore_case :: "string \<Rightarrow> string \<Rightarrow> bool"

datatype ins_param = PText string | PPage t_pag

record t_ins =
  ins_name :: string
  ins_params :: "ins_param list"

definition text_param :: "t_ins \<Rightarrow> int \<Rightarrow> string option" where
  "text_param ins i = (case list_get (ins_params ins) i of Some (PText s) \<Rightarrow> Some s | _ \<Rightarrow> None)"

definition page_param :: "t_ins \<Rightarrow> int \<Rightarrow> t_pag option" where
  "page_param ins i = (case list_get (ins_params ins) i of Some (PPage p) \<Rightarrow> Some p | _ \<Rightarrow> None)"

text \<open>\<open>destroy_params\<close> of \<^verbatim>\<open>utils/src/pcb/pcb.c\<close>: what is freed is \<open>Unset\<close> afterwards.\<close>

definition destroy_params :: "t_pcb \<Rightarrow> t_pcb option" where
  "destroy_params p = (let freed = Some (p\<lparr>params := Unset\<rparr>) in case instruccion p of
      FOPEN \<Rightarrow> (case params p of POpen _ \<Rightarrow> freed | _ \<Rightarrow> None)
    | FSEEK \<Rightarrow> (case params p of PChange _ \<Rightarrow> freed | _ \<Rightarrow> None)
    | FTRUNCATE \<Rightarrow> (case params p of PChange _ \<Rightarrow> freed | _ \<Rightarrow> None)
    | FREAD \<Rightarrow> (case params p of PModify _ \<Rightarrow> freed | _ \<Rightarrow> None)
    | FWRITE \<Rightarrow> (case params p of PModify _ \<Rightarrow> freed | _ \<Rightarrow> None)
    | WAIT \<Rightarrow> (case params p of PStr _ \<Rightarrow> freed | _ \<Rightarrow> None)
    | SIGNAL \<Rightarrow> (case params p of PStr _ \<Rightarrow> freed | _ \<Rightarrow> None)
    | FCLOSE \<Rightarrow> (case params p of PStr _ \<Rightarrow> freed | _ \<Rightarrow> None)
    | _ \<Rightarrow> Some p)"

section \<open>Fetch and decode\<close>

text \<open>The inner \<open>None\<close> is the NULL for an empty instruction.\<close>

definition fetch :: "'m cpu_env \<Rightarrow> t_pcb \<Rightarrow> 'm \<Rightarrow> (string option \<times> 'm) option" where
  "fetch env p m = do {
     ((code, buf), m) \<leftarrow> ask env m (AskFetch p);
     let instruction = cstr_of_bytes buf in
     Some (if instruction = '''' then None else Some instruction, m) }"

definition mmu_translate :: "'m cpu_env \<Rightarrow> int \<Rightarrow> u32 \<Rightarrow> string \<Rightarrow> 'm \<Rightarrow> (t_pag \<times> 'm) option" where
  "mmu_translate env ps i logic_direction m =
     (if ps = 0 then None
      else let a = atoi logic_direction;
               n = a sdiv ps;
               physical = page_new i (word_of_int n) (word_of_int (a - n * ps))
           in do {
             ((code, frame), m) \<leftarrow> ask env m (AskPage physical);
             Some (if code = 10 then physical\<lparr>pag_pid := 0\<rparr> else physical, m) })"

definition translate_param :: "'m cpu_env \<Rightarrow> int \<Rightarrow> int \<Rightarrow> t_pcb \<Rightarrow> t_ins \<Rightarrow> 'm \<Rightarrow> (t_pcb \<times> t_ins \<times> 'm) option" where
  "translate_param env ps i p ins m = do {
     logic_direction \<leftarrow> text_param ins i;
     (physical, m) \<leftarrow> mmu_translate env ps (pid p) logic_direction m;
     p \<leftarrow> destroy_params p;
     Some (if pag_pid physical = 0
           then (p\<lparr>instruccion := PAGE_FAULT, params := PNum (page_number physical)\<rparr>, ins, m)
           else (p\<lparr>instruccion := NORMAL\<rparr>,
                 ins\<lparr>ins_params := list_replace (ins_params ins) i (PPage physical)\<rparr>, m)) }"

definition decode :: "'m cpu_env \<Rightarrow> int \<Rightarrow> t_pcb \<Rightarrow> string \<Rightarrow> 'm \<Rightarrow> (t_pcb \<times> t_ins \<times> 'm) option" where
  "decode env ps p instruction m = (case string_split env instruction of
      [] \<Rightarrow> None
    | w # ws \<Rightarrow> (let ins = \<lparr>ins_name = w, ins_params = map PText ws\<rparr> in
        if w \<in> {''MOV_IN'', ''F_READ'', ''F_WRITE''} then translate_param env ps 1 p ins m
        else if w = ''MOV_OUT'' then translate_param env ps 0 p ins m
        else Some (p, ins, m)))"

section \<open>Execute\<close>

datatype reg_name = RAX | RBX | RCX | RDX

text \<open>\<open>None\<close> is the pointer left unset for an unknown name.\<close>

definition select_register :: "'m cpu_env \<Rightarrow> string \<Rightarrow> reg_name option" where
  "select_register env s =
     (if string_equals_ignore_case env s ''AX'' then Some RAX
      else if string_equals_ignore_case env s ''BX'' then Some RBX
      else if string_equals_ignore_case env s ''CX'' then Some RCX
      else if string_equals_ignore_case env s ''DX'' then Some RDX
      else None)"

fun get_reg :: "reg_name \<Rightarrow> t_reg \<Rightarrow> u32" where
  "get_reg RAX r = AX r" | "get_reg RBX r = BX r" | "get_reg RCX r = CX r" | "get_reg RDX r = DX r"

fun put_reg :: "reg_name \<Rightarrow> u32 \<Rightarrow> t_reg \<Rightarrow> t_reg" where
  "put_reg RAX v r = r\<lparr>AX := v\<rparr>" | "put_reg RBX v r = r\<lparr>BX := v\<rparr>"
| "put_reg RCX v r = r\<lparr>CX := v\<rparr>" | "put_reg RDX v r = r\<lparr>DX := v\<rparr>"

definition set_reg :: "'m cpu_env \<Rightarrow> t_reg \<Rightarrow> string \<Rightarrow> string \<Rightarrow> t_reg option" where
  "set_reg env r reg value = map_option (\<lambda>d. put_reg d (word_of_int (atoi value)) r) (select_register env reg)"

definition sum_reg :: "'m cpu_env \<Rightarrow> t_reg \<Rightarrow> string \<Rightarrow> string \<Rightarrow> t_reg option" where
  "sum_reg env r destination origin = do {
     d \<leftarrow> select_register env destination;
     s \<leftarrow> select_register env origin;
     Some (put_reg d (get_reg d r + get_reg s r) r) }"

definition sub_reg :: "'m cpu_env \<Rightarrow> t_reg \<Rightarrow> string \<Rightarrow> string \<Rightarrow> t_reg option" where
  "sub_reg env r destination origin = do {
     d \<leftarrow> select_register env destination;
     s \<leftarrow> select_register env origin;
     Some (put_reg d (get_reg d r - get_reg s r) r) }"

definition jnz :: "'m cpu_env \<Rightarrow> t_pcb \<Rightarrow> t_reg \<Rightarrow> string \<Rightarrow> string \<Rightarrow> t_pcb option" where
  "jnz env p r reg new_program_counter = map_option (\<lambda>d.
     if get_reg d r \<noteq> 0 then p\<lparr>programCounter := word_of_int (atoi new_program_counter)\<rparr>
     else p\<lparr>programCounter := programCounter p + 1\<rparr>) (select_register env reg)"

datatype execute_result = RETURN_CONTEXT | CONTINUE | CONTINUE_NO_MODIFY_PROGRAM_COUNTER

text \<open>The instructions that hand the process back to the kernel.\<close>

definition return_context :: "t_pcb \<Rightarrow> INSTRUCCION \<Rightarrow> params \<Rightarrow> t_pcb" where
  "return_context p i ps = p\<lparr>instruccion := i, params := ps, programCounter := programCounter p + 1\<rparr>"

definition mov_in_reg :: "'m cpu_env \<Rightarrow> t_reg \<Rightarrow> t_ins \<Rightarrow> 'm \<Rightarrow> (t_reg \<times> 'm) option" where
  "mov_in_reg env r ins m = do {
     reg \<leftarrow> text_param ins 0;
     page \<leftarrow> page_param ins 1;
     ((code, buf), m) \<leftarrow> ask env m (AskMovIn page);
     (value_in_frame, _) \<leftarrow> rd_u32 buf;
     d \<leftarrow> select_register env reg;
     Some (put_reg d value_in_frame r, m) }"

definition mov_out_reg :: "'m cpu_env \<Rightarrow> t_reg \<Rightarrow> t_ins \<Rightarrow> 'm \<Rightarrow> 'm option" where
  "mov_out_reg env r ins m = do {
     page \<leftarrow> page_param ins 0;
     reg \<leftarrow> text_param ins 1;
     s \<leftarrow> select_register env reg;
     ((code, result), m) \<leftarrow> ask env m (AskMovOut
       (page_for_mov_out (pag_pid page) (page_number page) (displacement page) (get_reg s r)));
     Some m }"

text \<open>The last part of \<open>execute\<close>: the instructions on files, \<open>EXIT\<close>, and a name that is none of them.\<close>

definition execute_files :: "t_pcb \<Rightarrow> t_reg \<Rightarrow> t_ins \<Rightarrow> 'm \<Rightarrow> (execute_result \<times> t_pcb \<times> t_reg \<times> 'm) option" where
  "execute_files p r ins m = (
     let w = ins_name ins; text = text_param ins in
     if w = ''F_OPEN'' then do {
       f \<leftarrow> text 0; mode \<leftarrow> text 1;
       Some (RETURN_CONTEXT, return_context p FOPEN (POpen \<lparr>fo_file_name = f, open_mode = mode\<rparr>), r, m) }
     else if w = ''F_CLOSE'' then do {
       f \<leftarrow> text 0; Some (RETURN_CONTEXT, return_context p FCLOSE (PStr f), r, m) }
     else if w = ''F_SEEK'' then do {
       f \<leftarrow> text 0; pos \<leftarrow> text 1;
       Some (RETURN_CONTEXT, return_context p FSEEK
         (PChange \<lparr>fc_file_name = f, fc_value = word_of_int (atoi pos)\<rparr>), r, m) }
     else if w = ''F_READ'' then do {
       f \<leftarrow> text 0; page \<leftarrow> page_param ins 1;
       Some (RETURN_CONTEXT, return_context p FREAD (PModify \<lparr>fm_file_name = f,
         fm_page = page_new (pag_pid page) (page_number page) (displacement page)\<rparr>), r, m) }
     else if w = ''F_WRITE'' then do {
       f \<leftarrow> text 0; page \<leftarrow> page_param ins 1;
       Some (RETURN_CONTEXT, return_context p FWRITE (PModify \<lparr>fm_file_name = f,
         fm_page = page_new (pag_pid page) (page_number page) (displacement page)\<rparr>), r, m) }
     else if w = ''F_TRUNCATE'' then do {
       f \<leftarrow> text 0; n \<leftarrow> text 1;
       Some (RETURN_CONTEXT, return_context p FTRUNCATE
         (PChange \<lparr>fc_file_name = f, fc_value = word_of_int (atoi n)\<rparr>), r, m) }
     else if w = ''EXIT'' then Some (RETURN_CONTEXT, p\<lparr>instruccion := FINISH\<rparr>, r, m)
     else Some (CONTINUE, p, r, m))"

text \<open>
  \<open>execute\<close>: the result, the process, the registers and the memory. The parameters the
  process came back with are freed first.
\<close>

definition execute :: "'m cpu_env \<Rightarrow> t_pcb \<Rightarrow> t_reg \<Rightarrow> t_ins \<Rightarrow> 'm \<Rightarrow> (execute_result \<times> t_pcb \<times> t_reg \<times> 'm) option" where
  "execute env p r ins m = do {
     p \<leftarrow> destroy_params p;
     let w = ins_name ins; text = text_param ins; normal = p\<lparr>instruccion := NORMAL\<rparr> in
     if w = ''SET'' then do {
       reg \<leftarrow> text 0; value \<leftarrow> text 1; r \<leftarrow> set_reg env r reg value; Some (CONTINUE, normal, r, m) }
     else if w = ''SUM'' then do {
       d \<leftarrow> text 0; s \<leftarrow> text 1; r \<leftarrow> sum_reg env r d s; Some (CONTINUE, normal, r, m) }
     else if w = ''SUB'' then do {
       d \<leftarrow> text 0; s \<leftarrow> text 1; r \<leftarrow> sub_reg env r d s; Some (CONTINUE, normal, r, m) }
     else if w = ''JNZ'' then do {
       reg \<leftarrow> text 0; pc \<leftarrow> text 1; p \<leftarrow> jnz env normal r reg pc;
       Some (CONTINUE_NO_MODIFY_PROGRAM_COUNTER, p, r, m) }
     else if w = ''SLEEP'' then do {
       time \<leftarrow> text 0; Some (RETURN_CONTEXT, return_context p SLEEP (PNum (word_of_int (atoi time))), r, m) }
     else if w = ''WAIT'' then do {
       resource \<leftarrow> text 0; Some (RETURN_CONTEXT, return_context p WAIT (PStr resource), r, m) }
     else if w = ''SIGNAL'' then do {
       resource \<leftarrow> text 0; Some (RETURN_CONTEXT, return_context p SIGNAL (PStr resource), r, m) }
     else if w = ''MOV_IN'' then do {
       (r, m) \<leftarrow> mov_in_reg env r ins m; Some (CONTINUE, normal, r, m) }
     else if w = ''MOV_OUT'' then do {
       m \<leftarrow> mov_out_reg env r ins m; Some (CONTINUE, normal, r, m) }
     else execute_files p r ins m }"

section \<open>Interrupts and the dispatch loop\<close>

datatype checks = FAIL_CONNECTION | NO_INTERRUPTION | INTERRUPTION

text \<open>
  The messages waiting on the interrupt socket, with their code: 4 interrupts and 5 finishes.
  Those for another process are dropped.
\<close>

fun check_interrupt :: "t_pcb \<Rightarrow> (c_int \<times> t_pcb) list \<Rightarrow> checks \<times> t_pcb \<times> (c_int \<times> t_pcb) list" where
  "check_interrupt p [] = (NO_INTERRUPTION, p, [])"
| "check_interrupt p ((code, q) # rest) =
     (if code \<noteq> 4 \<and> code \<noteq> 5 then (FAIL_CONNECTION, p, rest)
      else if pid q \<noteq> pid p then check_interrupt p rest
      else (INTERRUPTION, p\<lparr>instruccion := if code = 4 then INTERRUPTED else INTERRUPT_FINISH\<rparr>, rest))"

text \<open>The state of the loop: the process, the registers, the memory and the interrupt socket.\<close>

record 'm cpu =
  running :: t_pcb
  regs :: t_reg
  mem :: 'm
  interrupts :: "(c_int \<times> t_pcb) list"

text \<open>After a turn the loop goes on, answers the kernel, or the module ends (\<open>return -1\<close>).\<close>

datatype 'm turn = Again "'m cpu" | Answer "'m cpu" | Down

text \<open>
  One turn of the loop of \<open>INSTRUCTION\<close>; \<open>arrived\<close> are the interrupt messages that have come in
  by the time of the check.
\<close>

definition instruction_cycle :: "'m cpu_env \<Rightarrow> int \<Rightarrow> (c_int \<times> t_pcb) list \<Rightarrow> 'm cpu \<Rightarrow> 'm turn option" where
  "instruction_cycle env ps arrived c = do {
     (found, m) \<leftarrow> fetch env (running c) (mem c);
     (case found of
        None \<Rightarrow> Some Down
      | Some instruction \<Rightarrow> do {
          (p, ins, m) \<leftarrow> decode env ps (running c) instruction m;
          if instruccion p = PAGE_FAULT
          then Some (Answer (c\<lparr>running := p, mem := m, interrupts := interrupts c @ arrived\<rparr>))
          else do {
            (result, p, r, m) \<leftarrow> execute env p (regs c) ins m;
            let queue = interrupts c @ arrived in
            if result = RETURN_CONTEXT
            then Some (Answer (c\<lparr>running := p, regs := r, mem := m, interrupts := queue\<rparr>))
            else let p = (if result = CONTINUE then p\<lparr>programCounter := programCounter p + 1\<rparr> else p)
                 in (case check_interrupt p queue of
                      (FAIL_CONNECTION, _) \<Rightarrow> Some Down
                    | (INTERRUPTION, p, queue) \<Rightarrow>
                        Some (Answer (c\<lparr>running := p, regs := r, mem := m, interrupts := queue\<rparr>))
                    | (NO_INTERRUPTION, p, queue) \<Rightarrow>
                        Some (Again (c\<lparr>running := p, regs := r, mem := m, interrupts := queue\<rparr>))) } }) }"

text \<open>Turns of the loop, one for each element of the list of arrivals.\<close>

fun execute_loop :: "'m cpu_env \<Rightarrow> int \<Rightarrow> (c_int \<times> t_pcb) list list \<Rightarrow> 'm cpu \<Rightarrow> 'm turn option" where
  "execute_loop env ps [] c = Some (Again c)"
| "execute_loop env ps (a # as) c = (case instruction_cycle env ps a c of
      Some (Again c) \<Rightarrow> execute_loop env ps as c
    | result \<Rightarrow> result)"

text \<open>
  The dispatch of a process: the registers are those the CPU has, and go into the block that
  is sent back.
\<close>

definition wait_for_dispatch_command :: "'m cpu_env \<Rightarrow> int \<Rightarrow> (c_int \<times> t_pcb) list list \<Rightarrow> t_pcb \<Rightarrow> 'm cpu \<Rightarrow> 'm turn option" where
  "wait_for_dispatch_command env ps as p c = (case execute_loop env ps as (c\<lparr>running := p\<rparr>) of
      Some (Answer c) \<Rightarrow> Some (Answer (c\<lparr>running := (running c)\<lparr>registers := regs c\<rparr>\<rparr>))
    | result \<Rightarrow> result)"

end
