(* ===== verification/Cpu_Props.thy ===== *)
theory Cpu_Props
  imports Cpu
begin

text \<open>
  Correctness of the CPU: a process comes back as itself and in a form that can be sent, the
  translation of addresses, the arithmetic of the registers, the restart of a faulting
  instruction; and what the loop does with the registers of a dispatched process.
\<close>

section \<open>What a turn keeps of the process\<close>

text \<open>The fields the CPU never changes.\<close>

definition same_process :: "t_pcb \<Rightarrow> t_pcb \<Rightarrow> bool" where
  "same_process p q \<longleftrightarrow> pid q = pid p \<and> tamanio q = tamanio p \<and> prioridad q = prioridad p
     \<and> nom_arch_inst q = nom_arch_inst p \<and> registers q = registers p \<and> estado q = estado p
     \<and> open_files q = open_files p \<and> end_state q = end_state p"

definition params_fit :: "t_pcb \<Rightarrow> bool" where
  "params_fit p \<longleftrightarrow> serialize_params (instruccion p) (params p) \<noteq> None"

lemma same_process_refl [simp]: "same_process p p"
  by (simp add: same_process_def)

lemma same_process_trans: "same_process p q \<Longrightarrow> same_process q r \<Longrightarrow> same_process p r"
  by (simp add: same_process_def)

lemma same_process_update [simp]:
  "same_process p (q\<lparr>instruccion := i\<rparr>) = same_process p q"
  "same_process p (q\<lparr>params := x\<rparr>) = same_process p q"
  "same_process p (q\<lparr>programCounter := n\<rparr>) = same_process p q"
  "same_process p (return_context q i x) = same_process p q"
  "same_process (p\<lparr>instruccion := i\<rparr>) q = same_process p q"
  "same_process (p\<lparr>params := x\<rparr>) q = same_process p q"
  "same_process (p\<lparr>programCounter := n\<rparr>) q = same_process p q"
  by (simp_all add: same_process_def return_context_def)

lemma destroy_params_cases: "destroy_params p = Some q \<Longrightarrow> q = p \<or> q = p\<lparr>params := Unset\<rparr>"
  unfolding destroy_params_def Let_def by (cases "params p"; cases "instruccion p"; simp)

lemma destroy_params_same:
  "destroy_params p = Some q \<Longrightarrow> same_process p q \<and> instruccion q = instruccion p \<and> programCounter q = programCounter p"
  by (drule destroy_params_cases) (auto simp: same_process_def)

lemma translate_param_same:
  assumes "translate_param env ps i p ins m = Some (q, ins', m')"
  shows "same_process p q \<and> ins_name ins' = ins_name ins \<and> programCounter q = programCounter p
     \<and> (instruccion q = PAGE_FAULT \<and> (\<exists>n. params q = PNum n) \<or> instruccion q = NORMAL)"
proof -
  from assms obtain dir pg m1 p1 where e: "destroy_params p = Some p1"
    "(if pag_pid pg = 0
        then (p1\<lparr>instruccion := PAGE_FAULT, params := PNum (page_number pg)\<rparr>, ins, m1)
        else (p1\<lparr>instruccion := NORMAL\<rparr>, ins\<lparr>ins_params := list_replace (ins_params ins) i (PPage pg)\<rparr>, m1))
     = (q, ins', m')"
    by (simp add: translate_param_def bind_eq_Some_conv) blast
  then show ?thesis using destroy_params_same[OF e(1)] by (cases "pag_pid pg = 0") auto
qed

lemma decode_same:
  assumes "decode env ps p instruction m = Some (q, ins, m')"
  shows "same_process p q \<and> programCounter q = programCounter p
     \<and> (q = p \<or> instruccion q = PAGE_FAULT \<and> (\<exists>n. params q = PNum n) \<or> instruccion q = NORMAL)"
  using assms
  by (auto simp: decode_def Let_def dest!: translate_param_same split: list.splits if_splits)

lemma jnz_same: "jnz env p r reg pc = Some q \<Longrightarrow> same_process p q \<and> instruccion q = instruccion p"
  by (auto simp: jnz_def split: if_splits)

text \<open>What \<open>execute\<close> gives back, by the kind of its result.\<close>

lemma execute_same:
  assumes "execute env p r ins m = Some (res, q, r', m')"
  shows "same_process p q \<and> (res = RETURN_CONTEXT \<longrightarrow> params_fit q)
     \<and> (res \<noteq> RETURN_CONTEXT \<longrightarrow> instruccion q = NORMAL \<or> instruccion q = instruccion p)"
proof -
  obtain p1 where p1: "destroy_params p = Some p1" using assms by (auto simp: execute_def execute_files_def bind_eq_Some_conv)
  note d = destroy_params_same[OF p1]
  show ?thesis using assms d unfolding execute_def execute_files_def p1 Let_def bind.bind_lunit
    by (auto simp: bind_eq_Some_conv return_context_def params_fit_def dest!: jnz_same
        intro: same_process_trans split: if_splits)
qed

lemma check_interrupt_same:
  "check_interrupt p as = (ch, q, rest) \<Longrightarrow> same_process p q \<and> programCounter q = programCounter p
     \<and> (ch = INTERRUPTION \<longrightarrow> params_fit q) \<and> (ch \<noteq> INTERRUPTION \<longrightarrow> q = p)"
  by (induction p as rule: check_interrupt.induct) (auto simp: params_fit_def split: if_splits)

text \<open>A process that enters a turn with a page fault has its page number.\<close>

definition fault_has_page :: "t_pcb \<Rightarrow> bool" where
  "fault_has_page p \<longleftrightarrow> (instruccion p = PAGE_FAULT \<longrightarrow> params_fit p)"

lemma instruction_cycle_same:
  assumes "instruction_cycle env ps a c = Some t" and "fault_has_page (running c)"
  shows "case t of Again c' \<Rightarrow> same_process (running c) (running c') \<and> fault_has_page (running c')
     | Answer c' \<Rightarrow> same_process (running c) (running c') \<and> params_fit (running c')
     | Down \<Rightarrow> True"
proof -
  obtain found m1 where f: "fetch env (running c) (mem c) = Some (found, m1)"
    using assms(1) by (auto simp: instruction_cycle_def bind_eq_Some_conv)
  show ?thesis
  proof (cases found)
    case None
    with f assms(1) show ?thesis by (auto simp: instruction_cycle_def)
  next
    case (Some ins)
    then obtain p i m2 where d: "decode env ps (running c) ins m1 = Some (p, i, m2)"
      using assms(1) f by (auto simp: instruction_cycle_def bind_eq_Some_conv)
    note ds = decode_same[OF d]
    show ?thesis
    proof (cases "instruccion p = PAGE_FAULT")
      case True
      then have "t = Answer (c\<lparr>running := p, mem := m2, interrupts := interrupts c @ a\<rparr>)"
        using assms(1) f Some d by (simp add: instruction_cycle_def)
      then show ?thesis using ds True assms(2) by (auto simp: fault_has_page_def params_fit_def)
    next
      case False
      then obtain res q r m3 where e: "execute env p (regs c) i m2 = Some (res, q, r, m3)"
        using assms(1) f Some d by (auto simp: instruction_cycle_def bind_eq_Some_conv)
      note es = execute_same[OF e]
      have pq: "same_process (running c) q" using ds es by (auto intro: same_process_trans)
      have nf: "res \<noteq> RETURN_CONTEXT \<Longrightarrow> instruccion q \<noteq> PAGE_FAULT" using es False by auto
      obtain ch q' rest where k: "check_interrupt (if res = CONTINUE then q\<lparr>programCounter := programCounter q + 1\<rparr> else q)
          (interrupts c @ a) = (ch, q', rest)" by (metis prod_cases3)
      note ks = check_interrupt_same[OF k]
      show ?thesis using assms(1) f Some d False e k ks es pq nf
        by (auto simp: instruction_cycle_def fault_has_page_def params_fit_def Let_def
            intro: same_process_trans split: if_splits checks.splits)
    qed
  qed
qed

lemma execute_loop_same:
  "execute_loop env ps as c = Some t \<Longrightarrow> fault_has_page (running c) \<Longrightarrow>
     (case t of Again c' \<Rightarrow> same_process (running c) (running c')
     | Answer c' \<Rightarrow> same_process (running c) (running c') \<and> params_fit (running c') | Down \<Rightarrow> True)"
proof (induction env ps as c rule: execute_loop.induct)
  case (2 env ps a as c)
  then obtain t1 where t1: "instruction_cycle env ps a c = Some t1" by (auto split: option.splits)
  note s = instruction_cycle_same[OF t1 2(3)]
  show ?case
  proof (cases t1)
    case (Again c1)
    with 2 t1 s show ?thesis by (auto intro: same_process_trans split: turn.splits)
  qed (use 2 t1 s in auto)
qed auto

text \<open>
  C22. A process comes back as itself. Whatever the memory answers and whenever interrupts
  arrive, the block the CPU sends back is the one it was given, with the registers of the CPU, a
  new program counter and the reason for returning; its parameters are those of the reason, so
  that it can be serialized.
\<close>

theorem cpu_answer_is_its_process:
  assumes "wait_for_dispatch_command env ps as p c = Some (Answer c')" and "fault_has_page p"
  shows "pid (running c') = pid p \<and> tamanio (running c') = tamanio p \<and> prioridad (running c') = prioridad p
     \<and> nom_arch_inst (running c') = nom_arch_inst p \<and> estado (running c') = estado p
     \<and> open_files (running c') = open_files p \<and> registers (running c') = regs c'
     \<and> serialize_pcb (running c') \<noteq> None"
proof -
  from assms(1) obtain c1 where c1: "execute_loop env ps as (c\<lparr>running := p\<rparr>) = Some (Answer c1)"
    "c' = c1\<lparr>running := (running c1)\<lparr>registers := regs c1\<rparr>\<rparr>"
    by (auto simp: wait_for_dispatch_command_def split: option.splits turn.splits)
  have "same_process p (running c1) \<and> params_fit (running c1)"
    using execute_loop_same[OF c1(1)] assms(2) by simp
  then show ?thesis using c1(2) by (auto simp: same_process_def params_fit_def serialize_pcb_def)
qed

definition with_regs :: "t_reg \<Rightarrow> t_pcb \<Rightarrow> t_pcb" where
  "with_regs r p = p\<lparr>registers := r\<rparr>"

lemma with_regs_simps [simp]:
  "pid (with_regs r p) = pid p" "instruccion (with_regs r p) = instruccion p" "params (with_regs r p) = params p"
  "programCounter (with_regs r p) = programCounter p"
  "(with_regs r p)\<lparr>params := x\<rparr> = with_regs r (p\<lparr>params := x\<rparr>)"
  "(with_regs r p)\<lparr>instruccion := i\<rparr> = with_regs r (p\<lparr>instruccion := i\<rparr>)"
  "(with_regs r p)\<lparr>programCounter := n\<rparr> = with_regs r (p\<lparr>programCounter := n\<rparr>)"
  "return_context (with_regs r p) i x = with_regs r (return_context p i x)"
  by (simp_all add: with_regs_def return_context_def)

lemma map_bind: "map_option f (Option.bind x g) = Option.bind x (\<lambda>y. map_option f (g y))"
  by (cases x) auto

lemma bind_map: "Option.bind (map_option f x) g = Option.bind x (\<lambda>y. g (f y))"
  by (cases x) auto

lemma destroy_params_regs: "destroy_params (with_regs r p) = map_option (with_regs r) (destroy_params p)"
  by (cases "params p"; cases "instruccion p"; simp add: destroy_params_def)

lemma jnz_regs: "jnz env (with_regs r p) rs reg pc = map_option (with_regs r) (jnz env p rs reg pc)"
  by (cases "select_register env reg") (simp_all add: jnz_def)

lemma translate_param_regs:
  "translate_param env ps i (with_regs r p) ins m
     = map_option (\<lambda>(p, ins, m). (with_regs r p, ins, m)) (translate_param env ps i p ins m)"
  by (auto simp: translate_param_def destroy_params_regs map_bind bind_map
      intro!: bind_option_cong)

lemma decode_regs:
  "decode env ps (with_regs r p) s m = map_option (\<lambda>(p, ins, m). (with_regs r p, ins, m)) (decode env ps p s m)"
  by (simp add: decode_def Let_def translate_param_regs split: list.split)

lemma execute_regs:
  "execute env (with_regs r p) rs ins m = map_option (\<lambda>(x, p, rs, m). (x, with_regs r p, rs, m)) (execute env p rs ins m)"
  by (simp add: execute_def execute_files_def destroy_params_regs map_bind bind_map jnz_regs Let_def case_prod_unfold if_distrib[of "map_option _"] cong: if_cong)

lemma check_interrupt_regs:
  "check_interrupt (with_regs r p) as = (case check_interrupt p as of (ch, q, rest) \<Rightarrow> (ch, with_regs r q, rest))"
  by (induction p as rule: check_interrupt.induct) auto

text \<open>A memory whose answer to a fetch does not depend on the registers in the block.\<close>

definition fetch_ignores_registers :: "'m cpu_env \<Rightarrow> bool" where
  "fetch_ignores_registers env \<longleftrightarrow> (\<forall>m p r. ask env m (AskFetch (p\<lparr>registers := r\<rparr>)) = ask env m (AskFetch p))"

definition with_cpu_regs :: "t_reg \<Rightarrow> 'm cpu \<Rightarrow> 'm cpu" where
  "with_cpu_regs r c = c\<lparr>running := with_regs r (running c)\<rparr>"

lemma with_cpu_regs_simps [simp]:
  "running (with_cpu_regs r c) = with_regs r (running c)" "regs (with_cpu_regs r c) = regs c"
  "mem (with_cpu_regs r c) = mem c" "interrupts (with_cpu_regs r c) = interrupts c"
  by (simp_all add: with_cpu_regs_def)

fun turn_map :: "('m cpu \<Rightarrow> 'm cpu) \<Rightarrow> 'm turn \<Rightarrow> 'm turn" where
  "turn_map f (Again c) = Again (f c)" | "turn_map f (Answer c) = Answer (f c)" | "turn_map f Down = Down"

lemma instruction_cycle_regs:
  assumes "fetch_ignores_registers env"
  shows "instruction_cycle env ps a (with_cpu_regs r c)
     = map_option (turn_map (with_cpu_regs r)) (instruction_cycle env ps a c)"
proof -
  have f: "fetch env (with_regs r p) m = fetch env p m" for p m
    using assms by (simp add: fetch_def fetch_ignores_registers_def with_regs_def)
  show ?thesis
    unfolding instruction_cycle_def
    by (auto simp: f map_bind bind_map decode_regs execute_regs check_interrupt_regs Let_def with_cpu_regs_def
        if_distrib[of "check_interrupt _"]
        intro!: bind_option_cong split: option.split prod.split checks.split)
qed

lemma execute_loop_regs:
  "fetch_ignores_registers env \<Longrightarrow> execute_loop env ps as (with_cpu_regs r c)
     = map_option (turn_map (with_cpu_regs r)) (execute_loop env ps as c)"
  by (induction env ps as c rule: execute_loop.induct)
    (auto simp: instruction_cycle_regs split: option.splits turn.splits)

text \<open>
  C23. The registers of a dispatched process are not loaded. Whatever registers a process had
  when it left the CPU, its answer is the same: it goes on with the registers the CPU was left
  with by the process before it.
\<close>

theorem dispatched_registers_ignored:
  assumes "fetch_ignores_registers env"
    and "wait_for_dispatch_command env ps as p c = Some (Answer c')"
  shows "wait_for_dispatch_command env ps as (p\<lparr>registers := r\<rparr>) c = Some (Answer c')"
proof -
  have "c\<lparr>running := p\<lparr>registers := r\<rparr>\<rparr> = with_cpu_regs r (c\<lparr>running := p\<rparr>)"
    by (simp add: with_cpu_regs_def with_regs_def)
  then have "execute_loop env ps as (c\<lparr>running := p\<lparr>registers := r\<rparr>\<rparr>)
      = map_option (turn_map (with_cpu_regs r)) (execute_loop env ps as (c\<lparr>running := p\<rparr>))"
    using execute_loop_regs[OF assms(1)] by metis
  then show ?thesis using assms(2)
    by (auto simp: wait_for_dispatch_command_def with_cpu_regs_def with_regs_def split: option.splits turn.splits)
qed

section \<open>Addresses and registers\<close>

text \<open>
  The translation of addresses. The page and the displacement asked for give the logical
  address back, and the displacement is inside a page.
\<close>

theorem mmu_translate_splits_address:
  assumes "0 < ps" and "ps < 2 ^ 31" and "0 \<le> atoi dir" and "atoi dir < 2 ^ 31"
    and "mmu_translate env ps i dir m = Some (pg, m')"
  shows "sint (page_number pg) * ps + sint (displacement pg) = atoi dir
     \<and> 0 \<le> sint (displacement pg) \<and> sint (displacement pg) < ps \<and> (pag_pid pg = i \<or> pag_pid pg = 0)"
proof -
  let ?a = "atoi dir"
  have d: "?a sdiv ps = ?a div ps"
    using assms(1,3) by (cases "?a = 0") (auto simp: signed_divide_int_def)
  have q: "?a div ps * ps + ?a mod ps = ?a" by (rule div_mult_mod_eq)
  have r: "0 \<le> ?a mod ps" "?a mod ps < ps" using assms(1) by simp_all
  have q0: "0 \<le> ?a div ps" using assms(1,3) by (simp add: pos_imp_zdiv_nonneg_iff)
  have "?a div ps \<le> ?a div ps * ps" using q0 assms(1) mult_left_mono[of 1 ps "?a div ps"] by simp
  then have q1: "?a div ps < 2 ^ 31" using q r assms(4) by linarith
  have s: "sint (word_of_int x :: u32) = x" if "0 \<le> x" "x < 2 ^ 31" for x
    using that by (simp add: sint_uint uint_word_of_int signed_take_bit_int_eq_self)
  have "(word_of_int (?a - ?a div ps * ps) :: u32) = word_of_int (?a mod ps)"
    by (simp only: minus_div_mult_eq_mod)
  then have w: "(word_of_int ?a - word_of_int (?a div ps) * word_of_int ps :: u32) = word_of_int (?a mod ps)" by simp
  have "page_number pg = word_of_int (?a div ps)" "displacement pg = word_of_int (?a mod ps)"
    "pag_pid pg = i \<or> pag_pid pg = 0"
    using assms(1,5) d w
    by (auto simp: mmu_translate_def Let_def page_new_def bind_eq_Some_conv split: if_splits)
  then show ?thesis using s[of "?a div ps"] s[of "?a mod ps"] q q0 q1 r assms(2) by simp
qed

lemma get_put_reg [simp]: "get_reg x (put_reg y v r) = (if x = y then v else get_reg x r)"
  by (cases x; cases y) auto

text \<open>
  The arithmetic of the registers is that of 32 bits without sign: \<open>SUM\<close> and \<open>SUB\<close> wrap
  around, write the first register and leave the others and the memory alone.
\<close>

theorem sum_sub_wrap_around:
  assumes "select_register env d = Some x" and "select_register env s = Some y" and "instruccion p = NORMAL"
    and "name = ''SUM'' \<and> v = uint (get_reg x r) + uint (get_reg y r)
       \<or> name = ''SUB'' \<and> v = uint (get_reg x r) - uint (get_reg y r)"
  shows "\<exists>r'. execute env p r \<lparr>ins_name = name, ins_params = [PText d, PText s]\<rparr> m = Some (CONTINUE, p, r', m)
     \<and> uint (get_reg x r') = v mod 2 ^ 32 \<and> (\<forall>z. z \<noteq> x \<longrightarrow> get_reg z r' = get_reg z r)"
proof -
  note e = execute_def execute_files_def destroy_params_def text_param_def list_get_def sum_reg_def sub_reg_def
  have "p\<lparr>instruccion := NORMAL\<rparr> = p" using assms(3) by simp
  with assms show ?thesis
    by (elim disjE conjE) (simp_all add: e uint_word_ariths(1) uint_word_ariths(2))
qed

section \<open>Faults\<close>

lemma execute_no_fault: "execute env p r ins m = Some (RETURN_CONTEXT, q, r', m') \<Longrightarrow> instruccion q \<noteq> PAGE_FAULT"
  by (cases "destroy_params p")
    (auto simp: execute_def execute_files_def Let_def bind_eq_Some_conv return_context_def split: if_splits)

lemma check_interrupt_not_fault: "check_interrupt p as = (INTERRUPTION, q, rest) \<Longrightarrow> instruccion q \<noteq> PAGE_FAULT"
  by (induction p as rule: check_interrupt.induct) (auto split: if_splits)

text \<open>
  A faulting instruction is restarted. When a turn answers with a page fault, the program
  counter and the registers are those before the turn, and the block carries the page.
\<close>

theorem page_fault_restarts:
  assumes t: "instruction_cycle env ps a c = Some (Answer c')" and f: "instruccion (running c') = PAGE_FAULT"
    and n: "instruccion (running c) \<noteq> PAGE_FAULT"
  shows "programCounter (running c') = programCounter (running c) \<and> regs c' = regs c
     \<and> (\<exists>n. params (running c') = PNum n)"
proof -
  obtain ins m1 where i: "fetch env (running c) (mem c) = Some (Some ins, m1)"
    using t by (auto simp: instruction_cycle_def bind_eq_Some_conv split: option.splits)
  obtain p di m2 where d: "decode env ps (running c) ins m1 = Some (p, di, m2)"
    using t i by (auto simp: instruction_cycle_def bind_eq_Some_conv)
  show ?thesis
  proof (cases "instruccion p = PAGE_FAULT")
    case True
    with t i d have "c' = c\<lparr>running := p, mem := m2, interrupts := interrupts c @ a\<rparr>"
      by (simp add: instruction_cycle_def)
    then show ?thesis using decode_same[OF d] True n by auto
  next
    case False
    with t i d obtain res q r m3 where e: "execute env p (regs c) di m2 = Some (res, q, r, m3)"
      by (auto simp: instruction_cycle_def bind_eq_Some_conv)
    obtain ch q' rest where k: "check_interrupt (if res = CONTINUE then q\<lparr>programCounter := programCounter q + 1\<rparr> else q)
        (interrupts c @ a) = (ch, q', rest)" by (metis prod_cases3)
    have "res = RETURN_CONTEXT"
      using t i d False e k f by (auto simp: instruction_cycle_def Let_def dest: check_interrupt_not_fault split: if_splits checks.splits)
    then show ?thesis using execute_no_fault[of env p "regs c" di m2 q r m3] e t i d False f
      by (auto simp: instruction_cycle_def Let_def)
  qed
qed

text \<open>
  C40. Two invalid instructions free the parameters twice. An instruction with an unknown name
  frees the parameters of the last system call and leaves its reason in the block; whatever comes
  next frees them again.
\<close>

theorem invalid_instruction_double_free:
  assumes "instruccion p = WAIT" and "ins_name ins = ''NOP''" and "execute env p r ins m = Some (res, q, r1, m1)"
  shows "res = CONTINUE \<and> execute env q r2 ins2 m2 = None"
proof -
  obtain p1 where p1: "destroy_params p = Some p1" using assms(3) by (auto simp: execute_def execute_files_def bind_eq_Some_conv)
  then have "params p1 = Unset" "instruccion p1 = WAIT"
    using assms(1) by (auto simp: destroy_params_def split: params.splits)
  moreover have "q = p1" "res = CONTINUE" using assms(2,3) p1 by (auto simp: execute_def execute_files_def)
  ultimately show ?thesis by (simp add: execute_def execute_files_def destroy_params_def)
qed

section \<open>A small machine\<close>

text \<open>
  A memory with one program and one word: the page 9 is absent. The splitter and the comparison
  are those of the library on lines without special cases.
\<close>

fun split_words :: "string \<Rightarrow> string \<Rightarrow> string list" where
  "split_words acc [] = [acc]"
| "split_words acc (c # cs) = (if c = CHR '' '' then acc # split_words [] cs else split_words (acc @ [c]) cs)"

fun demo_ask :: "string list \<times> u32 \<Rightarrow> cpu_request \<Rightarrow> ((c_int \<times> u8 list) \<times> string list \<times> u32) option" where
  "demo_ask (prog, v) (AskFetch p) = Some ((3, bytes_of_cstr
     (if unat (programCounter p) < length prog then prog ! unat (programCounter p) else '''')), prog, v)"
| "demo_ask (prog, v) (AskPage pg) = Some ((if page_number pg = 9 then 10 else 9, bytes_of_u32 0), prog, v)"
| "demo_ask (prog, v) (AskMovIn pg) = Some ((15, bytes_of_u32 v), prog, v)"
| "demo_ask (prog, v) (AskMovOut d) = Some ((16, bytes_of_u32 0), prog, mo_register_value d)"

definition demo_cpu :: "(string list \<times> u32) cpu_env" where
  "demo_cpu = \<lparr>ask = demo_ask, string_split = split_words [], string_equals_ignore_case = (\<lambda>a b. a = b)\<rparr>"

definition demo_process :: t_pcb where
  "demo_process = crear_pcb 1 ''p'' 64 7"

definition demo_state :: "string list \<Rightarrow> (string list \<times> u32) cpu" where
  "demo_state prog = \<lparr>running = demo_process, regs = \<lparr>AX = 3, BX = 0, CX = 0, DX = 0\<rparr>,
     mem = (prog, 0), interrupts = []\<rparr>"

definition demo_answer :: "string list \<Rightarrow> (string list \<times> u32) cpu" where
  "demo_answer prog = (case wait_for_dispatch_command demo_cpu 16 [[], []] demo_process (demo_state prog) of
     Some (Answer c) \<Rightarrow> c | _ \<Rightarrow> demo_state prog)"

lemma demo_run: "wait_for_dispatch_command demo_cpu 16 [[], []] demo_process (demo_state [''SUM BX AX'', ''EXIT''])
    = Some (Answer (demo_answer [''SUM BX AX'', ''EXIT'']))"
  by code_simp

theorem cpu_answer_is_its_process_witness:
  "pid (running (demo_answer [''SUM BX AX'', ''EXIT''])) = 1
     \<and> serialize_pcb (running (demo_answer [''SUM BX AX'', ''EXIT''])) \<noteq> None"
  using cpu_answer_is_its_process[OF demo_run]
  by (simp add: demo_process_def crear_pcb_def fault_has_page_def)

theorem dispatched_registers_ignored_witness:
  "wait_for_dispatch_command demo_cpu 16 [[], []] (demo_process\<lparr>registers := \<lparr>AX = 50, BX = 60, CX = 0, DX = 0\<rparr>\<rparr>)
       (demo_state [''SUM BX AX'', ''EXIT'']) = Some (Answer (demo_answer [''SUM BX AX'', ''EXIT'']))
     \<and> BX (registers (running (demo_answer [''SUM BX AX'', ''EXIT'']))) = 3"
proof -
  have "fetch_ignores_registers demo_cpu"
    by (auto simp: fetch_ignores_registers_def demo_cpu_def)
  moreover have "BX (registers (running (demo_answer [''SUM BX AX'', ''EXIT'']))) = 3" by code_simp
  ultimately show ?thesis using dispatched_registers_ignored[OF _ demo_run] by blast
qed

theorem mmu_translate_splits_address_witness:
  "\<exists>pg m'. mmu_translate demo_cpu 16 1 ''37'' ([], 0) = Some (pg, m')
     \<and> sint (page_number pg) * 16 + sint (displacement pg) = 37"
proof -
  have a: "atoi ''37'' = 37" by code_simp
  then obtain pg m' where m: "mmu_translate demo_cpu 16 1 ''37'' ([], 0) = Some (pg, m')"
    by (simp add: mmu_translate_def demo_cpu_def Let_def)
  from mmu_translate_splits_address[OF _ _ _ _ m] a have
    "sint (page_number pg) * 16 + sint (displacement pg) = 37" by simp
  with m show ?thesis by blast
qed

theorem sum_sub_wrap_around_witness:
  "\<exists>r'. execute demo_cpu demo_process \<lparr>AX = 0, BX = 1, CX = 5, DX = 6\<rparr>
       \<lparr>ins_name = ''SUB'', ins_params = [PText ''AX'', PText ''BX'']\<rparr> ([], 0) = Some (CONTINUE, demo_process, r', ([], 0))
     \<and> uint (get_reg RAX r') = 2 ^ 32 - 1"
proof -
  have a: "select_register demo_cpu ''AX'' = Some RAX" "select_register demo_cpu ''BX'' = Some RBX"
    by (simp_all add: select_register_def demo_cpu_def)
  have n: "instruccion demo_process = NORMAL" by (simp add: demo_process_def crear_pcb_def)
  have v: "''SUB'' = ''SUM'' \<and> (- 1 :: int) = uint (get_reg RAX \<lparr>AX = 0, BX = 1, CX = 5, DX = 6\<rparr>)
         + uint (get_reg RBX \<lparr>AX = 0, BX = 1, CX = 5, DX = 6\<rparr>)
      \<or> ''SUB'' = ''SUB'' \<and> (- 1 :: int) = uint (get_reg RAX \<lparr>AX = 0, BX = 1, CX = 5, DX = 6\<rparr>)
         - uint (get_reg RBX \<lparr>AX = 0, BX = 1, CX = 5, DX = 6\<rparr>)" by simp
  have m: "(- 1 :: int) mod 2 ^ 32 = 2 ^ 32 - 1" by simp
  note z = sum_sub_wrap_around[OF a n v]
  obtain r' where r: "execute demo_cpu demo_process \<lparr>AX = 0, BX = 1, CX = 5, DX = 6\<rparr>
       \<lparr>ins_name = ''SUB'', ins_params = [PText ''AX'', PText ''BX'']\<rparr> ([], 0) = Some (CONTINUE, demo_process, r', ([], 0))"
    "uint (get_reg RAX r') = - 1 mod 2 ^ 32" using z by metis
  show ?thesis
    by (rule exI[of _ r'], rule conjI, rule r(1), unfold r(2), rule m)
qed

theorem page_fault_restarts_witness:
  "\<exists>c'. instruction_cycle demo_cpu 16 [] (demo_state [''MOV_IN AX 150'']) = Some (Answer c')
     \<and> programCounter (running c') = 0 \<and> AX (regs c') = 3"
proof -
  have a: "atoi ''150'' = 150" by code_simp
  have f: "fetch demo_cpu demo_process ([''MOV_IN AX 150''], 0) = Some (Some ''MOV_IN AX 150'', [''MOV_IN AX 150''], 0)"
    by code_simp
  obtain c' where c: "instruction_cycle demo_cpu 16 [] (demo_state [''MOV_IN AX 150'']) = Some (Answer c')"
    "instruccion (running c') = PAGE_FAULT"
    using a f by (simp add: instruction_cycle_def demo_state_def decode_def demo_cpu_def translate_param_def
      text_param_def mmu_translate_def Let_def list_get_def page_new_def destroy_params_def demo_process_def crear_pcb_def)
  from page_fault_restarts[OF this] have "programCounter (running c') = 0" "AX (regs c') = 3"
    by (simp_all add: demo_state_def demo_process_def crear_pcb_def)
  with c(1) show ?thesis by blast
qed

theorem invalid_instruction_double_free_witness:
  "\<exists>q r1 m1. execute demo_cpu (demo_process\<lparr>instruccion := WAIT, params := PStr ''R''\<rparr>) create_empty_registers
       \<lparr>ins_name = ''NOP'', ins_params = []\<rparr> ([], 0) = Some (CONTINUE, q, r1, m1)
     \<and> execute demo_cpu q r1 \<lparr>ins_name = ''EXIT'', ins_params = []\<rparr> m1 = None"
proof -
  let ?p = "demo_process\<lparr>instruccion := WAIT, params := PStr ''R''\<rparr>"
  have "\<not> Option.is_none (execute demo_cpu ?p create_empty_registers \<lparr>ins_name = ''NOP'', ins_params = []\<rparr> ([], 0))"
    by code_simp
  then obtain res q r1 m1 where e0: "execute demo_cpu ?p create_empty_registers \<lparr>ins_name = ''NOP'', ins_params = []\<rparr> ([], 0)
      = Some (res, q, r1, m1)" by (cases "execute demo_cpu ?p create_empty_registers \<lparr>ins_name = ''NOP'', ins_params = []\<rparr> ([], 0)") auto
  have i: "instruccion ?p = WAIT" "ins_name \<lparr>ins_name = ''NOP'', ins_params = []\<rparr> = ''NOP''" by simp_all
  note z = invalid_instruction_double_free[OF i e0]
  then have e: "execute demo_cpu ?p create_empty_registers \<lparr>ins_name = ''NOP'', ins_params = []\<rparr> ([], 0)
      = Some (CONTINUE, q, r1, m1)" using e0 by blast
  from z have "execute demo_cpu q r1 \<lparr>ins_name = ''EXIT'', ins_params = []\<rparr> m1 = None" by blast
  with e show ?thesis by blast
qed

end
