(* ===== verification/Virtual_Memory.thy ===== *)
theory Virtual_Memory
  imports Memory_Props Fs_Props
begin

text \<open>
  The memory and the file system together: the messages the memory sends to its file-system
  socket are commands of the file system, and a page fault is served by a request of the page's
  swap block, the answer, and the copy of a modified victim. The abstract memory of a process
  is what its pages contain, wherever they are; paging does not change it.
\<close>

section \<open>The socket between the two modules\<close>

text \<open>The command that a message of the memory is for the file system.\<close>

fun swap_command :: "mem_msg \<Rightarrow> fs_command option" where
  "swap_command (MPackage pkg) = (case rd_u32 (buffer pkg) of
      None \<Rightarrow> None
    | Some (v, _) \<Rightarrow> if op_code pkg = 12 then Some (GET_FROM_SWAP_FS v)
        else if op_code pkg = 7 then Some (GET_SWAP_BLOCKS_FS v) else None)"
| "swap_command (MList code bs) = (if code = 14 then Some (FREE_PAGES_FS bs) else None)"
| "swap_command (MSwapPage code p) = (if code = 13 then Some (UPDATE_SWAP p) else None)"

fun deliver :: "fs_env \<Rightarrow> t_fs_config \<Rightarrow> (port \<times> mem_msg) list \<Rightarrow> filesystem \<Rightarrow> filesystem option" where
  "deliver fse cfg [] s = Some s"
| "deliver fse cfg ((p, msg) # msgs) s =
     (if p \<noteq> PFilesystem then deliver fse cfg msgs s
      else do {
        c \<leftarrow> swap_command msg;
        s \<leftarrow> wait_for_commands fse cfg MRY c s;
        deliver fse cfg msgs s })"

text \<open>The data of the last answer to the memory.\<close>

definition swap_data :: "filesystem \<Rightarrow> u8 list option" where
  "swap_data s = (case last (fs_sent s) of (MemorySocket, FsPackage pkg) \<Rightarrow> Some (buffer pkg) | _ \<Rightarrow> None)"

definition new_messages :: "'b memory \<Rightarrow> 'b memory \<Rightarrow> (port \<times> mem_msg) list" where
  "new_messages m m' = drop (length (mem_sent m)) (mem_sent m')"

text \<open>
  \<open>LOAD_PAGE\<close> from the kernel, its request to the file system, the answer \<open>GET_FROM_SWAP\<close>, and
  the messages of a replacement.
\<close>

definition fault_service :: "'b mem_env \<Rightarrow> fs_env \<Rightarrow> t_fs_config \<Rightarrow> t_pag \<Rightarrow> 'b memory \<Rightarrow> filesystem \<Rightarrow> ('b memory \<times> filesystem) option" where
  "fault_service env fse cfg pg m s = do {
     m1 \<leftarrow> wait_for_command env PKernel (LOAD_PAGE pg) m;
     s1 \<leftarrow> deliver fse cfg (new_messages m m1) s;
     data \<leftarrow> swap_data s1;
     m2 \<leftarrow> wait_for_command env PFilesystem (GET_FROM_SWAP data) m1;
     s2 \<leftarrow> deliver fse cfg (new_messages m1 m2) s1;
     Some (m2, s2) }"

section \<open>The abstract memory\<close>

text \<open>The content of the page of an entry: its frame when it is in memory, its swap block otherwise.\<close>

definition contents :: "t_fs_config \<Rightarrow> 'b memory \<Rightarrow> filesystem \<Rightarrow> nat \<Rightarrow> u8 list option" where
  "contents cfg m s a = (case store m a of
      None \<Rightarrow> None
    | Some e \<Rightarrow> if bit_precense e then frame_content m (frame_number e)
               else swap_image cfg (block_map s) (nat (sint (swap_position e))))"

text \<open>
  The two modules agree: pages and blocks have one size, each entry has its own swap block, and a
  page in memory that is not marked as modified equals its block.
\<close>

definition paging_ok :: "'b bitarray_ops \<Rightarrow> t_fs_config \<Rightarrow> 'b memory \<Rightarrow> filesystem \<Rightarrow> bool" where
  "paging_ok ba cfg m s \<longleftrightarrow> frames_ok ba m \<and> map_ok cfg (block_map s) \<and> page_size m = block_size cfg
     \<and> block_size cfg < 2 ^ 31
     \<and> (\<forall>b e. store m b = Some e \<longrightarrow> 0 \<le> sint (swap_position e) \<and> sint (swap_position e) < block_swap_count cfg)
     \<and> (\<forall>b c e e'. store m b = Some e \<longrightarrow> store m c = Some e' \<longrightarrow> swap_position e = swap_position e' \<longrightarrow> b = c)
     \<and> (\<forall>b e. store m b = Some e \<longrightarrow> bit_precense e \<longrightarrow> \<not> bit_modified e \<longrightarrow>
          frame_content m (frame_number e) = swap_image cfg (block_map s) (nat (sint (swap_position e))))"

text \<open>From \<open>s\<close> to \<open>s'\<close> a block of the swap changed only to the content that its page had in memory.\<close>

definition swap_follows :: "t_fs_config \<Rightarrow> 'b memory \<Rightarrow> filesystem \<Rightarrow> filesystem \<Rightarrow> bool" where
  "swap_follows cfg m s s' \<longleftrightarrow> (\<forall>j. swap_image cfg (block_map s') j \<noteq> swap_image cfg (block_map s) j \<longrightarrow>
     (\<exists>b e. store m b = Some e \<and> j = nat (sint (swap_position e)) \<and> swap_image cfg (block_map s') j = contents cfg m s b))"

lemma swap_follows_refl [simp]: "block_map s' = block_map s \<Longrightarrow> swap_follows cfg m s s'"
  by (simp add: swap_follows_def)

text \<open>A load finds a frame: a free one, or a victim to replace.\<close>

definition frame_available :: "'b bitarray_ops \<Rightarrow> 'b memory \<Rightarrow> bool" where
  "frame_available ba m \<longleftrightarrow> (case search_frame ba (frame_table m) 0 (total_frames m) of
      Some f \<Rightarrow> f < total_frames m | None \<Rightarrow> pages_to_replace m \<noteq> [])"

section \<open>Steps of the memory\<close>

lemma swap_in_effect:
  assumes "swap_in a f data m = Some m'" and "store m a = Some e"
  shows "store m' = (store m)(a \<mapsto> e\<lparr>frame_number := f, bit_precense := True\<rparr>) \<and> mem_sent m' = mem_sent m"
  using assms by (auto simp: swap_in_def write_on_frame_def set_entry_def bind_eq_Some_conv split: if_splits)

lemma swap_in_defined:
  assumes ok: "frames_ok ba m" and f: "0 \<le> f" "f < int (total_frames m)"
    and e: "store m a = Some e" and d: "length data = nat (page_size m)"
  shows "\<exists>m'. swap_in a f data m = Some m'"
proof -
  have ps: "0 < page_size m" using ok by (simp add: frames_ok_def)
  have "nat (f * page_size m) + length data \<le> length (frames m)"
    using frame_room[OF ok f] f ps d by (simp add: nat_mult_distrib)
  then obtain fs where "mem_write (frames m) (nat (f * page_size m)) data = Some fs" using mem_write_defined by blast
  moreover have "mem_read data 0 (nat (page_size m)) = Some data" using d by (simp add: mem_read_def)
  moreover have "\<not> f * page_size m < 0" using f ps by (simp add: not_less)
  ultimately show ?thesis using e by (simp add: swap_in_def write_on_frame_def set_entry_def)
qed

lemma swap_out_effect:
  assumes ok: "frames_ok ba m" and e: "store m w = Some e" "bit_precense e"
    and c: "frame_content m (frame_number e) = Some content"
  shows "swap_out w m = Some (set_entry w (e\<lparr>bit_precense := False, bit_modified := False\<rparr>)
     (if bit_modified e then mem_send PFilesystem
        (MSwapPage 13 (page_for_swap (swap_position e) (word_of_int (page_size m)) content)) m else m))"
  using e c by (simp add: swap_out_def update_page_def frame_content_def)

lemma wait_for_command_load:
  assumes p: "get_page (pag_pid pg) (sint (page_number pg)) m = Some (Some a)" and e: "store m a = Some e"
  shows "wait_for_command env PKernel (LOAD_PAGE pg) m = Some (mem_send PFilesystem
      (MPackage (create_integer_package 12 (swap_position e)))
      (m\<lparr>list_page := list_page m @ [pg], last_page_referenced := Some a, sort_pages := sort_pages m + 1\<rparr>))"
proof -
  have "get_page (pag_pid pg) (sint (page_number pg)) (m\<lparr>list_page := l\<rparr>) = Some (Some a)" for l
    using p by (simp add: get_page_def search_page_table_def)
  then have "referenced (pag_pid pg) (page_number pg) (m\<lparr>list_page := list_page m @ [pg]\<rparr>) = Some (a, e,
      m\<lparr>list_page := list_page m @ [pg], last_page_referenced := Some a, sort_pages := sort_pages m + 1\<rparr>)"
    using referenced_spec[of "pag_pid pg" "page_number pg" "m\<lparr>list_page := list_page m @ [pg]\<rparr>" a e] e by simp
  then show ?thesis by (simp add: load_page_request_def get_page_info_def)
qed

text \<open>The state in which the page arrives: only what the request noted down is different.\<close>

definition asked :: "'b memory \<Rightarrow> nat \<Rightarrow> c_int \<Rightarrow> 'b memory" where
  "asked m a pos = mem_send PFilesystem (MPackage (create_integer_package 12 pos))
     (m\<lparr>last_page_referenced := Some a, sort_pages := sort_pages m + 1\<rparr>)"

lemma asked_simps [simp]:
  "store (asked m a pos) = store m" "page_size (asked m a pos) = page_size m" "frame_table (asked m a pos) = frame_table m"
  "total_frames (asked m a pos) = total_frames m" "pages_to_replace (asked m a pos) = pages_to_replace m"
  "frame_content (asked m a pos) f = frame_content m f" "resident (asked m a pos) b f = resident m b f"
  "get_page p n (asked m a pos) = get_page p n m" "frames_ok ba (asked m a pos) = frames_ok ba m"
  "victim_resident (asked m a pos) = victim_resident m"
  by (simp_all add: asked_def mem_send_def total_frames_def frame_content_def read_frame_def resident_def
      get_page_def search_page_table_def frames_ok_def victim_resident_def)

section \<open>Paging keeps the contents\<close>

lemma contents_length:
  assumes "paging_ok ba cfg m s" and "store m a = Some e"
  shows "\<exists>d. swap_image cfg (block_map s) (nat (sint (swap_position e))) = Some d \<and> length d = nat (page_size m)"
  using swap_image_defined[of cfg "block_map s" "sint (swap_position e)"] assms
  by (auto simp: paging_ok_def)

lemma swap_in_keeps:
  assumes pk: "paging_ok ba cfg m s" and e: "store m a = Some e" "\<not> bit_precense e"
    and f: "0 \<le> f" "bitarray_test_bit ba (frame_table m) (nat f)" and fr: "\<And>b. \<not> resident m b f"
    and d: "swap_image cfg (block_map s) (nat (sint (swap_position e))) = Some data"
    and i: "swap_in a f data m = Some m'"
  shows "paging_ok ba cfg m' s \<and> resident m' a f \<and> contents cfg m' s b = contents cfg m s b"
proof -
  have ok: "frames_ok ba m" using pk by (simp add: paging_ok_def)
  note sp = swap_in_spec[OF ok f fr i]
  have st: "store m' = (store m)(a \<mapsto> e\<lparr>frame_number := f, bit_precense := True\<rparr>)"
    using swap_in_effect[OF i e(1)] by blast
  have "length data = nat (page_size m)" using contents_length[OF pk e(1)] d by auto
  then have fc: "frame_content m' f = Some data" using sp(3) by simp
  have oth: "frame_content m' (frame_number e') = frame_content m (frame_number e')"
    if "c \<noteq> a" "store m c = Some e'" "bit_precense e'" for c e'
    using sp(5)[OF that(1)] that by (auto simp: resident_def)
  have old: "\<exists>e0. store m c = Some e0 \<and> swap_position e1 = swap_position e0 \<and> (c \<noteq> a \<longrightarrow> e1 = e0)"
    if "store m' c = Some e1" for c e1
    using that st e by (cases "c = a") auto
  have "paging_ok ba cfg m' s"
    unfolding paging_ok_def
  proof (intro conjI allI impI)
    show "frames_ok ba m'" "map_ok cfg (block_map s)" "page_size m' = block_size cfg" "block_size cfg < 2 ^ 31"
      using sp pk by (auto simp: paging_ok_def)
    fix c e1 assume c: "store m' c = Some e1"
    obtain e0 where e0: "store m c = Some e0" "swap_position e1 = swap_position e0"
      "c \<noteq> a \<Longrightarrow> e1 = e0" using old[OF c] by blast
    show "0 \<le> sint (swap_position e1)" "sint (swap_position e1) < block_swap_count cfg"
      using e0 pk by (auto simp: paging_ok_def)
    show "c = c'" if "store m' c' = Some e2" "swap_position e1 = swap_position e2" for c' e2
      using old[OF that(1)] e0 that(2) pk unfolding paging_ok_def by metis
    show "frame_content m' (frame_number e1) = swap_image cfg (block_map s) (nat (sint (swap_position e1)))"
      if "bit_precense e1" "\<not> bit_modified e1"
    proof (cases "c = a")
      case True
      then show ?thesis using c st fc d by auto
    next
      case False
      then show ?thesis using e0 oth[OF False e0(1)] that pk by (auto simp: paging_ok_def)
    qed
  qed
  moreover have "contents cfg m' s b = contents cfg m s b"
  proof (cases "b = a")
    case True
    then show ?thesis using e st fc d by (simp add: contents_def)
  next
    case False
    then show ?thesis using st oth[OF False] by (auto simp: contents_def split: option.split)
  qed
  ultimately show ?thesis using sp(2) by blast
qed

lemma deliver_update:
  assumes m: "map_ok cfg (block_map s)" and b: "0 \<le> sint b" "sint b < block_swap_count cfg"
    and d: "length d = nat (block_size cfg)"
  shows "\<exists>s'. deliver fse cfg [(PFilesystem, MSwapPage 13 (page_for_swap b n d))] s = Some s'
     \<and> map_ok cfg (block_map s') \<and> swap_image cfg (block_map s') (nat (sint b)) = Some d
     \<and> (\<forall>j. j \<noteq> nat (sint b) \<longrightarrow> swap_image cfg (block_map s') j = swap_image cfg (block_map s) j)"
proof -
  obtain m' where m': "write_to_swap_block cfg (sint b) d (block_map s) = Some m'" "map_ok cfg m'"
    "mem_write (block_map s) (nat (sint b) * nat (block_size cfg)) d = Some m'"
    using write_to_swap_block_ok[OF m b d] by blast
  have "swap_image cfg m' (nat (sint b)) = Some d" by (rule swap_store.get_put_same[OF m'(3) d])
  moreover have "swap_image cfg m' j = swap_image cfg (block_map s) j" if "j \<noteq> nat (sint b)" for j
    by (rule swap_store.get_put_other[OF m'(3) d]) (use that in simp)
  moreover have "deliver fse cfg [(PFilesystem, MSwapPage 13 (page_for_swap b n d))] s
      = Some (fs_reply MemorySocket 13 0 (s\<lparr>block_map := m'\<rparr>))"
    using m'(1) by (simp add: page_for_swap_def)
  ultimately show ?thesis using m'(2) by (simp add: fs_reply_def fs_send_def)
qed

text \<open>Taking a page out of its frame, with its copy in the swap when it was modified.\<close>

text \<open>What a victim sends to the file system, and the swap after it.\<close>

lemma evict_sends:
  assumes pk: "paging_ok ba cfg m s" and e: "store m w = Some e" "bit_precense e"
  shows "\<exists>content msgs s'. frame_content m (frame_number e) = Some content \<and> length content = nat (block_size cfg)
     \<and> swap_out w m = Some (set_entry w (e\<lparr>bit_precense := False, bit_modified := False\<rparr>) (m\<lparr>mem_sent := mem_sent m @ msgs\<rparr>))
     \<and> deliver fse cfg msgs s = Some s' \<and> map_ok cfg (block_map s')
     \<and> swap_image cfg (block_map s') (nat (sint (swap_position e))) = Some content
     \<and> (\<forall>j. j \<noteq> nat (sint (swap_position e)) \<longrightarrow> swap_image cfg (block_map s') j = swap_image cfg (block_map s) j)"
proof -
  have ok: "frames_ok ba m" and mp: "map_ok cfg (block_map s)" and sz: "page_size m = block_size cfg"
    using pk by (auto simp: paging_ok_def)
  have r: "resident m w (frame_number e)" using e by (simp add: resident_def)
  obtain content where c: "frame_content m (frame_number e) = Some content" "length content = nat (block_size cfg)"
    using frame_content_defined[OF ok r] sz by auto
  have pos: "0 \<le> sint (swap_position e)" "sint (swap_position e) < block_swap_count cfg" using pk e by (auto simp: paging_ok_def)
  define msgs where "msgs = (if bit_modified e then [(PFilesystem, MSwapPage 13
      (page_for_swap (swap_position e) (word_of_int (page_size m)) content))] else [])"
  have so: "swap_out w m = Some (set_entry w (e\<lparr>bit_precense := False, bit_modified := False\<rparr>) (m\<lparr>mem_sent := mem_sent m @ msgs\<rparr>))"
    unfolding swap_out_effect[OF ok e c(1)] by (simp add: msgs_def mem_send_def)
  obtain s' where s': "deliver fse cfg msgs s = Some s'" "map_ok cfg (block_map s')"
    "swap_image cfg (block_map s') (nat (sint (swap_position e))) = Some content"
    "\<And>j. j \<noteq> nat (sint (swap_position e)) \<Longrightarrow> swap_image cfg (block_map s') j = swap_image cfg (block_map s) j"
  proof (cases "bit_modified e")
    case True
    with deliver_update[OF mp pos c(2)] that show ?thesis by (auto simp: msgs_def)
  next
    case False
    then have "swap_image cfg (block_map s) (nat (sint (swap_position e))) = Some content"
      using pk e c(1) by (auto simp: paging_ok_def)
    with that[of s] mp False show ?thesis by (simp add: msgs_def)
  qed
  then show ?thesis using c so by blast
qed

text \<open>Another page keeps its block.\<close>

lemma other_block:
  assumes pk: "paging_ok ba cfg m s" and e: "store m w = Some e" and x: "x \<noteq> w" "store m x = Some e'"
  shows "nat (sint (swap_position e')) \<noteq> nat (sint (swap_position e))"
proof -
  have "swap_position e' \<noteq> swap_position e" using x e pk unfolding paging_ok_def by metis
  then have "sint (swap_position e') \<noteq> sint (swap_position e)" using signed_word_eqI by blast
  moreover have "0 \<le> sint (swap_position e')" "0 \<le> sint (swap_position e)" using x e pk by (auto simp: paging_ok_def)
  ultimately show ?thesis by (simp add: eq_nat_nat_iff)
qed

lemma evict_keeps:
  assumes pk: "paging_ok ba cfg m s" and e: "store m w = Some e" "bit_precense e"
  shows "\<exists>m' s' msgs. swap_out w m = Some m' \<and> mem_sent m' = mem_sent m @ msgs \<and> deliver fse cfg msgs s = Some s'
     \<and> paging_ok ba cfg m' s' \<and> store m' = (store m)(w \<mapsto> e\<lparr>bit_precense := False, bit_modified := False\<rparr>)
     \<and> frame_table m' = frame_table m \<and> total_frames m' = total_frames m
     \<and> (\<forall>c e'. c \<noteq> w \<longrightarrow> store m c = Some e' \<longrightarrow>
          swap_image cfg (block_map s') (nat (sint (swap_position e'))) = swap_image cfg (block_map s) (nat (sint (swap_position e'))))
     \<and> swap_follows cfg m s s' \<and> (\<forall>b. contents cfg m' s' b = contents cfg m s b)"
proof -
  have ok: "frames_ok ba m" using pk by (auto simp: paging_ok_def)
  obtain content msgs s' where c: "frame_content m (frame_number e) = Some content" "length content = nat (block_size cfg)"
    and so': "swap_out w m = Some (set_entry w (e\<lparr>bit_precense := False, bit_modified := False\<rparr>) (m\<lparr>mem_sent := mem_sent m @ msgs\<rparr>))"
    and s': "deliver fse cfg msgs s = Some s'" "map_ok cfg (block_map s')"
      "swap_image cfg (block_map s') (nat (sint (swap_position e))) = Some content"
      "\<And>j. j \<noteq> nat (sint (swap_position e)) \<Longrightarrow> swap_image cfg (block_map s') j = swap_image cfg (block_map s) j"
    using evict_sends[OF pk e, of fse] by blast
  define m' where "m' = set_entry w (e\<lparr>bit_precense := False, bit_modified := False\<rparr>) (m\<lparr>mem_sent := mem_sent m @ msgs\<rparr>)"
  have so: "swap_out w m = Some m'" using so' by (simp add: m'_def)
  have keep: "swap_image cfg (block_map s') (nat (sint (swap_position e'))) = swap_image cfg (block_map s) (nat (sint (swap_position e')))"
    if "x \<noteq> w" "store m x = Some e'" for x e'
    using that by (intro s'(4) other_block[OF pk e(1)]) auto
  have st: "store m' = (store m)(w \<mapsto> e\<lparr>bit_precense := False, bit_modified := False\<rparr>)"
    and fc: "frame_content m' g = frame_content m g" and pz: "page_size m' = page_size m" for g
    by (simp_all add: m'_def set_entry_def frame_content_def read_frame_def)
  have old: "\<exists>e0. store m x = Some e0 \<and> swap_position e1 = swap_position e0 \<and> (x \<noteq> w \<longrightarrow> e1 = e0)"
    if "store m' x = Some e1" for x e1
    using that st e by (cases "x = w") auto
  have "paging_ok ba cfg m' s'"
    unfolding paging_ok_def
  proof (intro conjI allI impI)
    show "frames_ok ba m'" "map_ok cfg (block_map s')" "page_size m' = block_size cfg" "block_size cfg < 2 ^ 31"
      using swap_out_spec[OF ok so] s'(2) pk pz by (auto simp: paging_ok_def)
    fix x e1 assume x: "store m' x = Some e1"
    obtain e0 where e0: "store m x = Some e0" "swap_position e1 = swap_position e0"
      "x \<noteq> w \<Longrightarrow> e1 = e0" using old[OF x] by blast
    show "0 \<le> sint (swap_position e1)" "sint (swap_position e1) < block_swap_count cfg"
      using e0 pk by (auto simp: paging_ok_def)
    show "x = x'" if "store m' x' = Some e2" "swap_position e1 = swap_position e2" for x' e2
      using old[OF that(1)] e0 that(2) pk unfolding paging_ok_def by metis
    show "frame_content m' (frame_number e1) = swap_image cfg (block_map s') (nat (sint (swap_position e1)))"
      if "bit_precense e1" "\<not> bit_modified e1"
    proof -
      have "x \<noteq> w" using x st that(1) by auto
      then show ?thesis using e0 keep[of x e0] fc that pk by (auto simp: paging_ok_def)
    qed
  qed
  moreover have "contents cfg m' s' b = contents cfg m s b" for b
  proof (cases "b = w")
    case True
    then show ?thesis using e st s'(3) c by (simp add: contents_def)
  next
    case False
    then show ?thesis using st fc keep[OF False] by (auto simp: contents_def split: option.split)
  qed
  moreover have "mem_sent m' = mem_sent m @ msgs" "frame_table m' = frame_table m" "total_frames m' = total_frames m"
    by (simp_all add: m'_def set_entry_def total_frames_def)
  moreover have "contents cfg m s w = Some content" using e c(1) by (simp add: contents_def)
  then have "swap_follows cfg m s s'" using s'(3,4) e(1) unfolding swap_follows_def by metis
  ultimately show ?thesis using so s'(1) st keep by blast
qed

lemma paging_ok_bits:
  assumes "paging_ok ba cfg m s" and "\<And>i. bitarray_test_bit ba (frame_table m) i \<Longrightarrow> bitarray_test_bit ba t i"
  shows "paging_ok ba cfg (m\<lparr>frame_table := t\<rparr>) s"
  using assms frames_ok_more_bits[of ba m t] by (simp add: paging_ok_def)

lemma contents_bits [simp]: "contents cfg (m\<lparr>frame_table := t\<rparr>) s b = contents cfg m s b"
  by (simp add: contents_def split: option.split)

lemma load_free_keeps:
  assumes laws: "bitarray_laws ba" and pk: "paging_ok ba cfg m s" and av: "frame_available ba m"
    and Some: "search_frame ba (frame_table m) 0 (total_frames m) = Some f" and p: "get_page p n m = Some (Some a)"
    and e: "store m a = Some e" "\<not> bit_precense e"
    and d: "swap_image cfg (block_map s) (nat (sint (swap_position e))) = Some data"
  shows "\<exists>m' s' msgs f. load_page ba p n data m = Some m' \<and> mem_sent m' = mem_sent m @ msgs
     \<and> deliver fse cfg msgs s = Some s' \<and> paging_ok ba cfg m' s' \<and> resident m' a f
     \<and> (\<forall>b. contents cfg m' s' b = contents cfg m s b) \<and> swap_follows cfg m s s'"
proof -
  have ok: "frames_ok ba m" using pk by (simp add: paging_ok_def)
  have ld: "length data = nat (page_size m)" using contents_length[OF pk e(1)] d by auto
  have set: "\<And>b i j. bitarray_test_bit ba (bitarray_set_bit ba b i) j = (i = j \<or> bitarray_test_bit ba b j)"
    using laws by (simp add: bitarray_laws_def)
  have f: "f < total_frames m" "\<not> bitarray_test_bit ba (frame_table m) f"
    using av Some search_frame_Some[OF Some] by (auto simp: frame_available_def)
  let ?m = "m\<lparr>frame_table := bitarray_set_bit ba (frame_table m) f\<rparr>"
  have pk1: "paging_ok ba cfg ?m s" by (rule paging_ok_bits[OF pk]) (simp add: set)
  then have ok1: "frames_ok ba ?m" by (simp add: paging_ok_def)
  have fr: "\<not> resident ?m b (int f)" for b using ok f(2) unfolding frames_ok_def by (simp add: resident_def) (metis nat_int resident_def)
  have e1: "store ?m a = Some e" using e(1) by simp
  have "total_frames ?m = total_frames m" by (simp add: total_frames_def)
  then obtain m1 where m1: "swap_in a (int f) data ?m = Some m1"
    using swap_in_defined[OF ok1 _ _ e1, of "int f" data] f ld by auto
  have "bitarray_test_bit ba (frame_table ?m) (nat (int f))" by (simp add: set)
  note k = swap_in_keeps[OF pk1 e1 e(2) _ this fr d m1]
  let ?m2 = "m1\<lparr>frame_table := bitarray_set_bit ba (frame_table m1) f\<rparr>"
  have "get_page p n ?m = Some (Some a)" using p by (simp add: get_page_def search_page_table_def)
  then have "load_page ba p n data m = Some ?m2"
    using Some m1 by (simp add: load_page_def check_available_frames_def load_page_in_free_space_def)
  moreover have "paging_ok ba cfg ?m2 s" using k by (intro paging_ok_bits) (auto simp: set)
  moreover have "mem_sent ?m2 = mem_sent m @ []" using swap_in_effect[OF m1 e1] by simp
  ultimately show ?thesis using k by (intro exI[of _ ?m2] exI[of _ s] exI[of _ "[]"] exI[of _ "int f"]) simp
qed

lemma load_replacing_keeps:
  assumes pk: "paging_ok ba cfg m s" and av: "frame_available ba m"
    and None: "search_frame ba (frame_table m) 0 (total_frames m) = None" and v: "victim_resident m" and p: "get_page p n m = Some (Some a)"
    and e: "store m a = Some e" "\<not> bit_precense e"
    and d: "swap_image cfg (block_map s) (nat (sint (swap_position e))) = Some data"
  shows "\<exists>m' s' msgs f. load_page ba p n data m = Some m' \<and> mem_sent m' = mem_sent m @ msgs
     \<and> deliver fse cfg msgs s = Some s' \<and> paging_ok ba cfg m' s' \<and> resident m' a f
     \<and> (\<forall>b. contents cfg m' s' b = contents cfg m s b) \<and> swap_follows cfg m s s'"
proof -
  have ok: "frames_ok ba m" using pk by (simp add: paging_ok_def)
  have ld: "length data = nat (page_size m)" using contents_length[OF pk e(1)] d by auto
  obtain w ws where w: "pages_to_replace m = w # ws" using av None by (cases "pages_to_replace m") (auto simp: frame_available_def)
  obtain f ew where ew: "store m w = Some ew" "bit_precense ew" "frame_number ew = f"
    using v w by (auto simp: victim_resident_def resident_def)
  let ?m = "m\<lparr>pages_to_replace := ws\<rparr>"
  have "frames_ok ba ?m = frames_ok ba m" by (simp add: frames_ok_def total_frames_def)
  then have pk1: "paging_ok ba cfg ?m s" using pk by (simp add: paging_ok_def)
  have ew1: "store ?m w = Some ew" using ew by simp
  obtain m1 s1 msgs where m1: "swap_out w ?m = Some m1" "mem_sent m1 = mem_sent ?m @ msgs" "deliver fse cfg msgs s = Some s1"
    "paging_ok ba cfg m1 s1" "store m1 = (store ?m)(w \<mapsto> ew\<lparr>bit_precense := False, bit_modified := False\<rparr>)"
    "frame_table m1 = frame_table ?m" "total_frames m1 = total_frames ?m"
    "\<And>c e'. c \<noteq> w \<Longrightarrow> store ?m c = Some e' \<Longrightarrow>
        swap_image cfg (block_map s1) (nat (sint (swap_position e'))) = swap_image cfg (block_map s) (nat (sint (swap_position e')))"
    "\<And>b. contents cfg m1 s1 b = contents cfg ?m s b" and sf: "swap_follows cfg ?m s s1"
    using evict_keeps[OF pk1 ew1 ew(2)] by blast
  have aw: "a \<noteq> w" using e ew by auto
  have e1: "store m1 a = Some e" using m1(5) e(1) aw by simp
  have r: "resident m w f" using ew by (simp add: resident_def)
  then have fb: "0 \<le> f" "f < int (total_frames m1)" "bitarray_test_bit ba (frame_table m1) (nat f)"
    using ok m1(6,7) by (auto simp: frames_ok_def total_frames_def)
  have fr: "\<not> resident m1 b f" for b
  proof
    assume "resident m1 b f"
    then have "b \<noteq> w \<and> resident m b f" using m1(5) by (auto simp: resident_def split: if_splits)
    then show False using ok r unfolding frames_ok_def by blast
  qed
  have ok1: "frames_ok ba m1" and pz: "page_size m1 = page_size m" using m1(4) pk by (auto simp: paging_ok_def)
  obtain m2 where m2: "swap_in a f data m1 = Some m2"
    using swap_in_defined[OF ok1 fb(1,2) e1, of data] ld pz by auto
  have d1: "swap_image cfg (block_map s1) (nat (sint (swap_position e))) = Some data"
    using m1(8)[OF aw, of e] e(1) d by simp
  note k = swap_in_keeps[OF m1(4) e1 e(2) fb(1,3) fr d1 m2]
  have "load_page ba p n data m = Some m2"
    using None p w m1(1,5) m2 ew(3) by (simp add: load_page_def check_available_frames_def page_replace_def list_remove_first_def)
  moreover have cm: "contents cfg ?m s b = contents cfg m s b" for b by (simp add: contents_def split: option.split)
  moreover have "mem_sent m2 = mem_sent m @ msgs" using m1(2) swap_in_effect[OF m2 e1] by simp
  moreover have "swap_follows cfg m s s1" using sf by (simp add: swap_follows_def cm)
  ultimately show ?thesis using k m1(3,9) by (intro exI[of _ m2] exI[of _ s1] exI[of _ msgs] exI[of _ f]) simp
qed

lemma load_page_keeps:
  assumes laws: "bitarray_laws ba" and pk: "paging_ok ba cfg m s" and av: "frame_available ba m"
    and v: "search_frame ba (frame_table m) 0 (total_frames m) = None \<Longrightarrow> victim_resident m" and p: "get_page p n m = Some (Some a)"
    and e: "store m a = Some e" "\<not> bit_precense e"
    and d: "swap_image cfg (block_map s) (nat (sint (swap_position e))) = Some data"
  shows "\<exists>m' s' msgs f. load_page ba p n data m = Some m' \<and> mem_sent m' = mem_sent m @ msgs
     \<and> deliver fse cfg msgs s = Some s' \<and> paging_ok ba cfg m' s' \<and> resident m' a f
     \<and> (\<forall>b. contents cfg m' s' b = contents cfg m s b) \<and> swap_follows cfg m s s'"
  using load_free_keeps[OF laws pk av _ p e d] load_replacing_keeps[OF pk av _ v p e d]
  by (cases "search_frame ba (frame_table m) 0 (total_frames m)") blast+

lemma asked_keeps [simp]:
  "paging_ok ba cfg (asked m a pos) s = paging_ok ba cfg m s"
  "frame_available ba (asked m a pos) = frame_available ba m"
  "contents cfg (asked m a pos) s b = contents cfg m s b"
  by (simp_all add: paging_ok_def frame_available_def contents_def split: option.split)

lemma deliver_reply_kernel [simp]: "deliver fse cfg (msgs @ [(PKernel, x)]) s = deliver fse cfg msgs s"
proof (induction msgs arbitrary: s)
  case (Cons pm msgs)
  then show ?case by (cases pm) (auto intro!: bind_option_cong)
qed simp

lemma reply_keeps [simp]:
  "paging_ok ba cfg (reply p x m) s = paging_ok ba cfg m s" "contents cfg (reply p x m) s b = contents cfg m s b"
  "resident (reply p x m) b f = resident m b f"
proof -
  have f: "frames_ok ba (reply p x m) = frames_ok ba m" "frame_content (reply p x m) g = frame_content m g"
    "store (reply p x m) = store m" "page_size (reply p x m) = page_size m" for g
    by (simp_all add: reply_def mem_send_def frames_ok_def total_frames_def resident_def frame_content_def read_frame_def)
  show "paging_ok ba cfg (reply p x m) s = paging_ok ba cfg m s" "contents cfg (reply p x m) s b = contents cfg m s b"
    "resident (reply p x m) b f = resident m b f"
    by (simp_all add: paging_ok_def contents_def resident_def f split: option.split)
qed

lemma fault_is_served:
  assumes laws: "bitarray_laws (bits env)" and pk: "paging_ok (bits env) cfg m s"
    and av: "frame_available (bits env) m" and v: "victim_resident m" and l: "list_page m = []"
    and p: "get_page (pag_pid pg) (sint (page_number pg)) m = Some (Some a)"
    and e: "store m a = Some e" "\<not> bit_precense e"
  shows "\<exists>m' s' f. fault_service env fse cfg pg m s = Some (m', s') \<and> resident m' a f
     \<and> paging_ok (bits env) cfg m' s' \<and> (\<forall>b. contents cfg m' s' b = contents cfg m s b)"
proof -
  let ?pos = "swap_position e"
  let ?m1 = "(asked m a ?pos)\<lparr>list_page := [pg]\<rparr>"
  have m1: "wait_for_command env PKernel (LOAD_PAGE pg) m = Some ?m1"
    using wait_for_command_load[OF p e(1), of env] l by (simp add: asked_def mem_send_def)
  obtain data where d: "swap_image cfg (block_map s) (nat (sint ?pos)) = Some data" "length data = nat (page_size m)"
    using contents_length[OF pk e(1)] by blast
  have mp: "map_ok cfg (block_map s)" and pos: "0 \<le> sint ?pos" "sint ?pos < block_swap_count cfg"
    using pk e(1) by (auto simp: paging_ok_def)
  let ?s1 = "fs_send MemorySocket (FsPackage (create_void_package 12 (word_of_int (block_size cfg)) data)) s"
  have n1: "new_messages m ?m1 = [(PFilesystem, MPackage (create_integer_package 12 ?pos))]"
    by (simp add: new_messages_def asked_def mem_send_def)
  have s1: "deliver fse cfg (new_messages m ?m1) s = Some ?s1"
    using d read_from_swap_block_ok[OF mp pos] unfolding n1
    by (simp add: create_integer_package_def create_empty_package_def u32_codec.dec_enc_nil)
  have dat: "swap_data ?s1 = Some data"
    by (simp add: swap_data_def fs_send_def create_void_package_def create_empty_package_def)
  have bm: "block_map ?s1 = block_map s" by (simp add: fs_send_def)
  have pk1: "paging_ok (bits env) cfg (asked m a ?pos) ?s1" using pk bm by (simp add: paging_ok_def)
  obtain m' s' msgs f where m': "load_page (bits env) (pag_pid pg) (sint (page_number pg)) data (asked m a ?pos) = Some m'"
    "mem_sent m' = mem_sent (asked m a ?pos) @ msgs" "deliver fse cfg msgs ?s1 = Some s'"
    "paging_ok (bits env) cfg m' s'" "resident m' a f" "\<And>b. contents cfg m' s' b = contents cfg (asked m a ?pos) ?s1 b"
    using load_page_keeps[OF laws pk1, of "pag_pid pg" "sint (page_number pg)" a e data fse] av v p e d bm by auto
  have "?m1\<lparr>list_page := []\<rparr> = asked m a ?pos" using l by (simp add: asked_def mem_send_def)
  then have m2: "wait_for_command env PFilesystem (GET_FROM_SWAP data) ?m1 = Some (reply PKernel (create_integer_package 11 0) m')"
    using m'(1) by (simp add: load_page_reply_def list_remove_first_def)
  have "new_messages ?m1 (reply PKernel (create_integer_package 11 0) m')
      = msgs @ [(PKernel, MPackage (create_integer_package 11 0))]"
    using m'(2) by (simp add: new_messages_def reply_def mem_send_def)
  then have "fault_service env fse cfg pg m s = Some (reply PKernel (create_integer_package 11 0) m', s')"
    using m1 s1 dat m2 m'(3) by (simp add: fault_service_def)
  moreover have "contents cfg (asked m a ?pos) ?s1 b = contents cfg m s b" for b
    using bm by (simp add: contents_def split: option.split)
  ultimately show ?thesis using m'(4-6) by auto
qed

text \<open>
  C16. Virtual memory. A page fault on a page that is in its swap block is served: the messages
  between the memory and the file system end with the page in a frame, and no page of any process
  has changed its content, wherever it is now. This holds with a replacement too, also of a
  modified page, and the agreement of the two modules is kept.
\<close>

theorem paging_is_transparent:
  assumes laws: "bitarray_laws (bits env)" and pk: "paging_ok (bits env) cfg m s"
    and av: "frame_available (bits env) m" and v: "victim_resident m" and l: "list_page m = []"
    and p: "get_page (pag_pid pg) (sint (page_number pg)) m = Some (Some a)"
    and e: "store m a = Some e" "\<not> bit_precense e"
  shows "\<exists>m' s' f. fault_service env fse cfg pg m s = Some (m', s') \<and> resident m' a f
     \<and> paging_ok (bits env) cfg m' s' \<and> (\<forall>b. contents cfg m' s' b = contents cfg m s b)"
  by (rule fault_is_served[OF assms])

text \<open>One frame, taken by a modified page, and the other page of the process in block 1 of the swap.\<close>

definition demo_vm :: "(nat \<Rightarrow> bool) memory" where
  "demo_vm = (init_real_memory demo_bits 16 16 (replicate 16 1))\<lparr>frame_table := (\<lambda>i. i < 2),
     store := [0 \<mapsto> page_create 1 True True 0 0 0, 1 \<mapsto> page_create 1 False False 0 1 1],
     next_entry := 2, page_tables := [(1, [0, 1])], pages_to_replace := [0]\<rparr>"

definition demo_vm_env :: "(nat \<Rightarrow> bool) mem_env" where
  "demo_vm_env = \<lparr>bits = demo_bits, file_lines = (\<lambda>f. None), string_trim = (\<lambda>s. s), instructions_path = ''d''\<rparr>"

lemma demo_vm_ok: "paging_ok demo_bits demo_cfg demo_vm demo_fs" "frame_available demo_bits demo_vm"
  "victim_resident demo_vm" "list_page demo_vm = []" "get_page 1 1 demo_vm = Some (Some 1)"
  "get_page 1 0 demo_vm = Some (Some 0)"
proof -
  have "map_ok demo_cfg (block_map demo_fs)" by (rule demo_fs_ok(2))
  then show "paging_ok demo_bits demo_cfg demo_vm demo_fs"
    by (auto simp: paging_ok_def frames_ok_def resident_def demo_vm_def demo_cfg_def init_real_memory_def page_create_def
        total_frames_def demo_bits_def split: if_splits)
  show "frame_available demo_bits demo_vm"
    by (simp add: frame_available_def demo_vm_def init_real_memory_def total_frames_def demo_bits_def split: option.split)
  show "victim_resident demo_vm" by (simp add: victim_resident_def resident_def demo_vm_def page_create_def)
  show "list_page demo_vm = []" "get_page 1 1 demo_vm = Some (Some 1)" "get_page 1 0 demo_vm = Some (Some 0)"
    by (simp_all add: demo_vm_def init_real_memory_def get_page_def search_page_table_def list_get_def)
qed

theorem paging_is_transparent_witness:
  "\<exists>m' s'. fault_service demo_vm_env demo_fs_env demo_cfg (page_new 1 1 0) demo_vm demo_fs = Some (m', s')
     \<and> contents demo_cfg m' s' 0 = contents demo_cfg demo_vm demo_fs 0"
proof -
  have e: "store demo_vm 1 = Some (page_create 1 False False 0 1 1)" "\<not> bit_precense (page_create 1 False False 0 1 1)"
    by (simp_all add: demo_vm_def page_create_def)
  have b: "bits demo_vm_env = demo_bits" by (simp add: demo_vm_env_def)
  have p: "get_page (pag_pid (page_new 1 1 0)) (sint (page_number (page_new 1 1 0))) demo_vm = Some (Some 1)"
    using demo_vm_ok(5) by (simp add: page_new_def)
  from paging_is_transparent[of demo_vm_env demo_cfg demo_vm demo_fs "page_new 1 1 0" 1, unfolded b,
      OF demo_bits_laws demo_vm_ok(1-4) p e, of demo_fs_env]
  show ?thesis by blast
qed

end
