(* ===== verification/Virtual_Run.thy ===== *)
theory Virtual_Run
  imports Virtual_Memory
begin

text \<open>
  Sequences of accesses of the CPU to the memory, with their page faults, the replacement by
  LRU and the swap in the file system, against an abstract memory in which every page has
  its content and nothing is ever absent.
\<close>

section \<open>Accesses\<close>

datatype access = Store u32 c_int c_int u32 | Load u32 c_int c_int

fun access_pid :: "access \<Rightarrow> u32" where
  "access_pid (Store p n d v) = p" | "access_pid (Load p n d) = p"

fun access_page :: "access \<Rightarrow> c_int" where
  "access_page (Store p n d v) = n" | "access_page (Load p n d) = n"

fun access_displacement :: "access \<Rightarrow> c_int" where
  "access_displacement (Store p n d v) = d" | "access_displacement (Load p n d) = d"

fun access_command :: "access \<Rightarrow> mem_command" where
  "access_command (Store p n d v) = MOV_OUT \<lparr>mo_page_number = n, mo_displacement = d, mo_pid = p, mo_register_value = v\<rparr>"
| "access_command (Load p n d) = MOV_IN \<lparr>page_number = n, displacement = d, pag_pid = p\<rparr>"

text \<open>A command of the memory, followed by the turns of the sorter thread that it made due.\<close>

fun sorter_turns :: "(string \<Rightarrow> string \<Rightarrow> bool) \<Rightarrow> string \<Rightarrow> nat \<Rightarrow> 'b memory \<Rightarrow> 'b memory option" where
  "sorter_turns eq alg 0 m = Some m"
| "sorter_turns eq alg (Suc n) m = (case sorter_step eq alg m of
      None \<Rightarrow> Some m | Some None \<Rightarrow> None | Some (Some m) \<Rightarrow> sorter_turns eq alg n m)"

record 'b vm_env =
  mem_env :: "'b mem_env"
  fs_env :: fs_env
  fs_config :: t_fs_config
  equals_ignore_case :: "string \<Rightarrow> string \<Rightarrow> bool"
  replacement_algorithm :: string

definition sorted_command :: "'b vm_env \<Rightarrow> port \<Rightarrow> mem_command \<Rightarrow> 'b memory \<Rightarrow> 'b memory option" where
  "sorted_command v pt c m = do {
     m \<leftarrow> wait_for_command (mem_env v) pt c m;
     sorter_turns (equals_ignore_case v) (replacement_algorithm v) (sort_pages m) m }"

text \<open>The service of a fault, in which the sorter runs between the request and the answer.\<close>

definition fault_turns :: "'b vm_env \<Rightarrow> t_pag \<Rightarrow> 'b memory \<Rightarrow> filesystem \<Rightarrow> ('b memory \<times> filesystem) option" where
  "fault_turns v pg m s = do {
     m1 \<leftarrow> sorted_command v PKernel (LOAD_PAGE pg) m;
     s1 \<leftarrow> deliver (fs_env v) (fs_config v) (new_messages m m1) s;
     data \<leftarrow> swap_data s1;
     m2 \<leftarrow> sorted_command v PFilesystem (GET_FROM_SWAP data) m1;
     s2 \<leftarrow> deliver (fs_env v) (fs_config v) (new_messages m1 m2) s1;
     Some (m2, s2) }"

definition answer_to_cpu :: "'b memory \<Rightarrow> (c_int \<times> u8 list) option" where
  "answer_to_cpu m = (case last (mem_sent m) of (PCpu, MPackage pkg) \<Rightarrow> Some (op_code pkg, buffer pkg) | _ \<Rightarrow> None)"

text \<open>
  An instruction that accesses memory: the frame is asked for; without one (code 10) the fault
  is served and the instruction starts again, otherwise the access is made.
\<close>

fun try_access :: "'b vm_env \<Rightarrow> nat \<Rightarrow> access \<Rightarrow> 'b memory \<Rightarrow> filesystem \<Rightarrow> (u32 \<times> 'b memory \<times> filesystem) option" where
  "try_access v fuel acc m s = (let pg = page_new (access_pid acc) (access_page acc) (access_displacement acc) in do {
     m \<leftarrow> sorted_command v PCpu (PAGE_NUMBER pg) m;
     (code, _) \<leftarrow> answer_to_cpu m;
     (if code = 10
      then (case fuel of 0 \<Rightarrow> None | Suc fuel \<Rightarrow> do {
        (m, s) \<leftarrow> fault_turns v pg m s;
        try_access v fuel acc m s })
      else do {
        m \<leftarrow> sorted_command v PCpu (access_command acc) m;
        (_, buf) \<leftarrow> answer_to_cpu m;
        (x, _) \<leftarrow> rd_u32 buf;
        Some (x, m, s) }) })"

declare try_access.simps [simp del]

fun run_accesses :: "'b vm_env \<Rightarrow> access list \<Rightarrow> 'b memory \<Rightarrow> filesystem \<Rightarrow> (u32 list \<times> 'b memory \<times> filesystem) option" where
  "run_accesses v [] m s = Some ([], m, s)"
| "run_accesses v (acc # accs) m s = do {
     (x, m, s) \<leftarrow> try_access v 1 acc m s;
     (xs, m, s) \<leftarrow> run_accesses v accs m s;
     Some (x # xs, m, s) }"

section \<open>The abstract memory\<close>

type_synonym abstract_memory = "nat \<Rightarrow> u8 list option"

text \<open>
  Each entry has its bytes; a store replaces four of them and answers 0, a load answers with
  them. \<open>page_of\<close> is the page table.
\<close>

fun abstract_access :: "(u32 \<Rightarrow> c_int \<Rightarrow> nat) \<Rightarrow> access \<Rightarrow> abstract_memory \<Rightarrow> (u32 \<times> abstract_memory) option" where
  "abstract_access page_of (Store p n d v) A = do {
     c \<leftarrow> A (page_of p n);
     c \<leftarrow> mem_write c (nat (sint d)) (bytes_of_u32 v);
     Some (0, A(page_of p n \<mapsto> c)) }"
| "abstract_access page_of (Load p n d) A = do {
     c \<leftarrow> A (page_of p n);
     bs \<leftarrow> mem_read c (nat (sint d)) 4;
     (x, _) \<leftarrow> rd_u32 bs;
     Some (x, A) }"

fun abstract_run :: "(u32 \<Rightarrow> c_int \<Rightarrow> nat) \<Rightarrow> access list \<Rightarrow> abstract_memory \<Rightarrow> (u32 list \<times> abstract_memory) option" where
  "abstract_run page_of [] A = Some ([], A)"
| "abstract_run page_of (acc # accs) A = do {
     (x, A) \<leftarrow> abstract_access page_of acc A;
     (xs, A) \<leftarrow> abstract_run page_of accs A;
     Some (x # xs, A) }"

definition page_of :: "'b memory \<Rightarrow> u32 \<Rightarrow> c_int \<Rightarrow> nat" where
  "page_of m p n = the (the (get_page p (sint n) m))"

text \<open>An access inside the pages of its process.\<close>

definition access_ok :: "'b memory \<Rightarrow> access \<Rightarrow> bool" where
  "access_ok m acc \<longleftrightarrow> (case get_page (access_pid acc) (sint (access_page acc)) m of
       Some (Some a) \<Rightarrow> store m a \<noteq> None | _ \<Rightarrow> False)
     \<and> 0 \<le> sint (access_displacement acc) \<and> sint (access_displacement acc) + 4 \<le> page_size m"

section \<open>The replacement list\<close>

text \<open>Where the pages are in the swap.\<close>

definition positions :: "'b memory \<Rightarrow> nat \<Rightarrow> c_int option" where
  "positions m a = map_option swap_position (store m a)"

lemma positions_store: "store m' = (store m)(a \<mapsto> e') \<Longrightarrow> store m a = Some e \<Longrightarrow> swap_position e' = swap_position e \<Longrightarrow>
    positions m' = positions m"
  by (auto simp: positions_def fun_eq_iff)

lemma positions_update [simp]:
  "positions (m\<lparr>frame_table := t\<rparr>) = positions m" "positions (m\<lparr>pages_to_replace := l\<rparr>) = positions m"
  "positions (m\<lparr>list_page := ps\<rparr>) = positions m" "positions (m\<lparr>sort_pages := n\<rparr>) = positions m"
  "positions (m\<lparr>last_page_referenced := r\<rparr>) = positions m" "positions (m\<lparr>frames := fs\<rparr>) = positions m"
  "positions (m\<lparr>mem_sent := ms\<rparr>) = positions m" "positions (mem_send pt x m) = positions m"
  by (simp_all add: positions_def mem_send_def fun_eq_iff)

lemma positions_dom: "positions m' = positions m \<Longrightarrow> dom (store m') = dom (store m)"
  unfolding positions_def fun_eq_iff dom_def by (metis option.map_disc_iff)

text \<open>
  The list of LRU holds the pages in memory, each once, and a replacement is only started with
  such a page to replace: frame 0 is marked only by a page, and the bit that the search looks at
  past the last frame is set.
\<close>

definition lru_ok :: "'b bitarray_ops \<Rightarrow> 'b memory \<Rightarrow> bool" where
  "lru_ok ba m \<longleftrightarrow> distinct (pages_to_replace m)
     \<and> (\<forall>a. a \<in> set (pages_to_replace m) \<longleftrightarrow> (\<exists>f. resident m a f))
     \<and> (bitarray_test_bit ba (frame_table m) 0 \<longrightarrow> (\<exists>a. resident m a 0))
     \<and> 0 < total_frames m \<and> bitarray_test_bit ba (frame_table m) (total_frames m)"

lemma swap_in_rest:
  assumes "swap_in a f data m = Some m'"
  shows "pages_to_replace m' = pages_to_replace m \<and> sort_pages m' = sort_pages m \<and> list_page m' = list_page m
     \<and> last_page_referenced m' = last_page_referenced m \<and> page_tables m' = page_tables m
     \<and> active_processes m' = active_processes m
     \<and> frame_table m' = frame_table m \<and> memory_size m' = memory_size m \<and> page_size m' = page_size m
     \<and> positions m' = positions m \<and> next_entry m' = next_entry m"
proof -
  obtain e d fs where "store m a = Some e" "m' = (set_entry a (e\<lparr>frame_number := f, bit_precense := True\<rparr>) m)\<lparr>frames := fs\<rparr>"
    using assms by (auto simp: swap_in_def bind_eq_Some_conv write_on_frame_def split: if_splits)
  then show ?thesis by (auto simp: set_entry_def positions_def)
qed

lemma swap_out_rest:
  assumes "swap_out a m = Some m'"
  shows "pages_to_replace m' = pages_to_replace m \<and> sort_pages m' = sort_pages m \<and> list_page m' = list_page m
     \<and> last_page_referenced m' = last_page_referenced m \<and> page_tables m' = page_tables m
     \<and> active_processes m' = active_processes m
     \<and> frame_table m' = frame_table m \<and> memory_size m' = memory_size m \<and> page_size m' = page_size m
     \<and> positions m' = positions m \<and> next_entry m' = next_entry m"
proof -
  obtain e m1 where "store m a = Some e" "m1 = m \<or> (\<exists>p msg. m1 = mem_send p msg m)"
    "m' = set_entry a (e\<lparr>bit_precense := False, bit_modified := False\<rparr>) m1"
    using assms by (auto simp: swap_out_def update_page_def bind_eq_Some_conv split: if_splits)
  then show ?thesis by (auto simp: set_entry_def mem_send_def positions_def)
qed

text \<open>What a load leaves of everything but the pages it moves.\<close>

definition same_rest :: "'b memory \<Rightarrow> 'b memory \<Rightarrow> bool" where
  "same_rest m m' \<longleftrightarrow> sort_pages m' = sort_pages m \<and> list_page m' = list_page m
     \<and> page_tables m' = page_tables m \<and> active_processes m' = active_processes m
     \<and> memory_size m' = memory_size m \<and> page_size m' = page_size m
     \<and> positions m' = positions m \<and> next_entry m' = next_entry m"

text \<open>The list of pages to replace once \<open>a\<close> was asked for and the sorter has run.\<close>

definition lru_awaits :: "'b bitarray_ops \<Rightarrow> 'b memory \<Rightarrow> nat \<Rightarrow> bool" where
  "lru_awaits ba m a \<longleftrightarrow> (\<forall>f. \<not> resident m a f) \<and> distinct (pages_to_replace m)
     \<and> (\<forall>b. b \<in> set (pages_to_replace m) \<longleftrightarrow> b = a \<or> (\<exists>f. resident m b f))
     \<and> (\<forall>w ws. pages_to_replace m = w # ws \<longrightarrow> w \<noteq> a \<or> \<not> bitarray_test_bit ba (frame_table m) 0)
     \<and> (bitarray_test_bit ba (frame_table m) 0 \<longrightarrow> (\<exists>b. resident m b 0))
     \<and> 0 < total_frames m \<and> bitarray_test_bit ba (frame_table m) (total_frames m)"

lemma load_free_lru:
  assumes laws: "bitarray_laws ba" and ok: "frames_ok ba m" and p: "get_page p n m = Some (Some a)"
    and l: "load_page ba p n data m = Some m'" and la: "lru_awaits ba m a"
    and Some: "search_frame ba (frame_table m) 0 (total_frames m) = Some f"
  shows "lru_ok ba m' \<and> same_rest m m'"
proof -
  have r: "\<And>f. \<not> resident m a f" and d: "distinct (pages_to_replace m)"
    and ps: "\<And>b. b \<in> set (pages_to_replace m) \<longleftrightarrow> b = a \<or> (\<exists>f. resident m b f)"
    and b0: "bitarray_test_bit ba (frame_table m) 0 \<longrightarrow> (\<exists>b. resident m b 0)"
    and tf: "0 < total_frames m" "bitarray_test_bit ba (frame_table m) (total_frames m)"
    using la by (simp_all add: lru_awaits_def)
  have set: "\<And>b i j. bitarray_test_bit ba (bitarray_set_bit ba b i) j = (i = j \<or> bitarray_test_bit ba b j)"
    using laws by (simp add: bitarray_laws_def)
  have g: "get_page p n (m\<lparr>frame_table := t\<rparr>) = Some (Some a)" for t
    using p by (simp add: get_page_def search_page_table_def)
  let ?m = "m\<lparr>frame_table := bitarray_set_bit ba (frame_table m) f\<rparr>"
  obtain m1 where m1: "swap_in a (int f) data ?m = Some m1"
    "m' = m1\<lparr>frame_table := bitarray_set_bit ba (frame_table m1) f\<rparr>"
    using l g Some by (auto simp: load_page_def check_available_frames_def load_page_in_free_space_def)
  have ok1: "frames_ok ba ?m" by (rule frames_ok_more_bits[OF ok]) (simp add: set)
  have "\<not> bitarray_test_bit ba (frame_table m) f" using search_frame_Some[OF Some] by blast
  then have free: "\<not> resident m b (int f)" for b using ok unfolding frames_ok_def by (metis nat_int)
  note sp = swap_in_spec(2,4)[OF ok1 _ _ _ m1(1), simplified, OF _ free, unfolded set, simplified]
  note rest = swap_in_rest[OF m1(1)]
  have res: "resident m' b g \<longleftrightarrow> (if b = a then resident m1 a g else resident m b g)" for b g
    using sp(2) m1(2) by simp
  have "distinct (pages_to_replace m')" using d rest m1(2) by simp
  moreover have "b \<in> set (pages_to_replace m') \<longleftrightarrow> (\<exists>f. resident m' b f)" for b
    using ps[of b] res[of b] sp(1) rest m1(2) r by auto
  moreover have "\<exists>b. resident m' b 0" if "bitarray_test_bit ba (frame_table m') 0"
  proof (cases "f = 0")
    case True
    then show ?thesis using sp(1) res by auto
  next
    case False
    then have "bitarray_test_bit ba (frame_table m) 0" using that rest m1(2) by (simp add: set)
    then obtain b where b: "resident m b 0" using b0 by blast
    then have "b \<noteq> a" using r by blast
    then show ?thesis using b res by auto
  qed
  moreover have "total_frames m' = total_frames m" using rest m1(2) by (simp add: total_frames_def)
  ultimately show ?thesis using rest m1(2) tf by (auto simp: lru_ok_def same_rest_def set)
qed

lemma load_replacing_lru:
  assumes laws: "bitarray_laws ba" and ok: "frames_ok ba m" and p: "get_page p n m = Some (Some a)"
    and l: "load_page ba p n data m = Some m'" and la: "lru_awaits ba m a"
    and None: "search_frame ba (frame_table m) 0 (total_frames m) = None"
  shows "lru_ok ba m' \<and> same_rest m m'"
proof -
  have r: "\<And>f. \<not> resident m a f" and d: "distinct (pages_to_replace m)"
    and ps: "\<And>b. b \<in> set (pages_to_replace m) \<longleftrightarrow> b = a \<or> (\<exists>f. resident m b f)"
    and b0: "bitarray_test_bit ba (frame_table m) 0 \<longrightarrow> (\<exists>b. resident m b 0)"
    and tf: "0 < total_frames m" "bitarray_test_bit ba (frame_table m) (total_frames m)"
    using la by (simp_all add: lru_awaits_def)
  have pr: "page_replace a data m = Some m'"
    using l p None by (simp add: load_page_def check_available_frames_def)
  have full: "bitarray_test_bit ba (frame_table m) 0" using search_frame_None[OF None, of 0] by simp
  obtain w ws where w: "pages_to_replace m = w # ws"
    using pr by (cases "pages_to_replace m") (auto simp: page_replace_def list_remove_first_def)
  let ?m = "m\<lparr>pages_to_replace := ws\<rparr>"
  obtain m1 e1 where m1: "swap_out w ?m = Some m1" and e1: "store m1 w = Some e1"
    and m2: "swap_in a (frame_number e1) data m1 = Some m'"
    using pr w by (auto simp: page_replace_def list_remove_first_def bind_eq_Some_conv)
  have wa: "w \<noteq> a" using la w full by (simp add: lru_awaits_def)
  then obtain f where f: "resident m w f" using ps[of w] w by auto
  have ok1: "frames_ok ba ?m" using ok by (simp add: frames_ok_def total_frames_def)
  note out = swap_out_spec[OF ok1 m1, simplified]
  obtain e where e: "store m w = Some e" "frame_number e = f" using f by (auto simp: resident_def)
  then have fe: "frame_number e1 = f" using out(6)[of e] e1 by simp
  have fb: "0 \<le> f" "bitarray_test_bit ba (frame_table m1) (nat f)"
    using ok f out(4) by (auto simp: frames_ok_def)
  have "\<not> resident m1 b f" for b using out(2) ok f unfolding frames_ok_def by blast
  note sp = swap_in_spec(2,4)[OF out(1) fb this m2[unfolded fe]]
  note rest = swap_in_rest[OF m2] swap_out_rest[OF m1, simplified]
  have res: "resident m' b g \<longleftrightarrow> b \<noteq> w \<and> resident m b g" if "b \<noteq> a" for b g
    using sp(2)[OF that] out(2) by simp
  have pages: "pages_to_replace m' = ws" using rest by simp
  have "b \<in> set ws \<longleftrightarrow> (\<exists>f. resident m' b f)" for b
  proof (cases "b = a")
    case True
    then show ?thesis using ps[of a] sp(1) w wa by auto
  next
    case False
    then show ?thesis using ps[of b] res[OF False] w d by auto
  qed
  moreover have "\<exists>b. resident m' b 0"
  proof -
    obtain b where b: "resident m b 0" using b0 full by blast
    then have ba: "b \<noteq> a" using r by blast
    show ?thesis
    proof (cases "b = w")
      case True
      then have "f = 0" using b f by (auto simp: resident_def)
      then show ?thesis using sp(1) by blast
    next
      case False
      then show ?thesis using b res[OF ba] by blast
    qed
  qed
  moreover have "total_frames m' = total_frames m" using rest by (simp add: total_frames_def)
  ultimately show ?thesis using pages w d rest tf by (auto simp: lru_ok_def same_rest_def)
qed

lemma load_page_lru:
  assumes laws: "bitarray_laws ba" and ok: "frames_ok ba m" and p: "get_page p n m = Some (Some a)"
    and l: "load_page ba p n data m = Some m'" and la: "lru_awaits ba m a"
  shows "lru_ok ba m' \<and> same_rest m m'"
  using load_free_lru[OF laws ok p l la] load_replacing_lru[OF laws ok p l la]
  by (cases "search_frame ba (frame_table m) 0 (total_frames m)")

section \<open>The invariant of a run\<close>

definition vm_ok :: "'b vm_env \<Rightarrow> 'b memory \<Rightarrow> filesystem \<Rightarrow> bool" where
  "vm_ok v m s \<longleftrightarrow> paging_ok (bits (mem_env v)) (fs_config v) m s \<and> lru_ok (bits (mem_env v)) m
     \<and> list_page m = [] \<and> sort_pages m = 0"

text \<open>The algorithm of the configuration is LRU.\<close>

definition uses_lru :: "'b vm_env \<Rightarrow> bool" where
  "uses_lru v \<longleftrightarrow> \<not> equals_ignore_case v (replacement_algorithm v) ''FIFO''"

definition touched :: "nat \<Rightarrow> 'b memory \<Rightarrow> 'b memory" where
  "touched a m = m\<lparr>sort_pages := 0, pages_to_replace := remove1 a (pages_to_replace m) @ [a]\<rparr>"

lemma sorted_reference:
  assumes "wait_for_command (mem_env v) pt c m = Some m1" and "sort_pages m1 = 1"
    and "last_page_referenced m1 = Some a" and "uses_lru v"
  shows "sorted_command v pt c m = Some (touched a m1)"
  using assms by (simp add: sorted_command_def sorter_step_def uses_lru_def sort_pages_by_lru_def touched_def Let_def)

lemma sorted_quiet:
  assumes "wait_for_command (mem_env v) pt c m = Some m1" and "sort_pages m1 = 0"
  shows "sorted_command v pt c m = Some m1"
  using assms by (simp add: sorted_command_def)

text \<open>The lists and counters do not matter to the contents.\<close>

lemma touched_simps [simp]:
  "store (touched a m) = store m" "page_size (touched a m) = page_size m" "frame_table (touched a m) = frame_table m"
  "memory_size (touched a m) = memory_size m" "total_frames (touched a m) = total_frames m"
  "sort_pages (touched a m) = 0" "list_page (touched a m) = list_page m" "mem_sent (touched a m) = mem_sent m"
  "pages_to_replace (touched a m) = remove1 a (pages_to_replace m) @ [a]"
  "frame_content (touched a m) f = frame_content m f" "resident (touched a m) b f = resident m b f"
  "get_page p n (touched a m) = get_page p n m" "frames_ok ba (touched a m) = frames_ok ba m"
  "page_tables (touched a m) = page_tables m" "active_processes (touched a m) = active_processes m"
  by (simp_all add: touched_def total_frames_def frame_content_def read_frame_def resident_def
      get_page_def search_page_table_def frames_ok_def)

lemma touched_positions [simp]: "positions (touched a m) = positions m" "next_entry (touched a m) = next_entry m"
  by (simp_all add: positions_def fun_eq_iff) (simp add: touched_def)

lemma touched_keeps [simp]:
  "paging_ok ba cfg (touched a m) s = paging_ok ba cfg m s" "contents cfg (touched a m) s b = contents cfg m s b"
  by (simp_all add: paging_ok_def contents_def split: option.split)

lemma lru_ok_touched: "lru_ok ba m \<Longrightarrow> resident m a f \<Longrightarrow> lru_ok ba (touched a m)"
  by (auto simp: lru_ok_def)

lemma lru_ok_frames:
  assumes "lru_ok ba m" and "\<And>b f. resident m' b f = resident m b f" and "pages_to_replace m' = pages_to_replace m"
    and "frame_table m' = frame_table m" and "total_frames m' = total_frames m"
  shows "lru_ok ba m'"
  using assms by (simp add: lru_ok_def)

lemma lru_frame_available:
  assumes "lru_ok ba m"
  shows "search_frame ba (frame_table m) 0 (total_frames m) = Some f \<Longrightarrow> f < total_frames m"
    and "search_frame ba (frame_table m) 0 (total_frames m) = None \<Longrightarrow>
      \<exists>w ws f. pages_to_replace m = w # ws \<and> resident m w f"
proof -
  assume "search_frame ba (frame_table m) 0 (total_frames m) = Some f"
  from search_frame_Some[OF this] show "f < total_frames m" using assms by (auto simp: lru_ok_def le_less)
next
  assume "search_frame ba (frame_table m) 0 (total_frames m) = None"
  from search_frame_None[OF this, of 0] have "\<exists>a. a \<in> set (pages_to_replace m)" using assms by (auto simp: lru_ok_def)
  then show "\<exists>w ws f. pages_to_replace m = w # ws \<and> resident m w f"
    using assms by (cases "pages_to_replace m") (auto simp: lru_ok_def)
qed

lemma reply_simps [simp]:
  "store (reply pt x m) = store m" "page_size (reply pt x m) = page_size m" "frame_table (reply pt x m) = frame_table m"
  "memory_size (reply pt x m) = memory_size m" "total_frames (reply pt x m) = total_frames m" "frames (reply pt x m) = frames m"
  "sort_pages (reply pt x m) = sort_pages m" "list_page (reply pt x m) = list_page m"
  "mem_sent (reply pt x m) = mem_sent m @ [(pt, MPackage x)]" "page_tables (reply pt x m) = page_tables m"
  "pages_to_replace (reply pt x m) = pages_to_replace m" "get_page p n (reply pt x m) = get_page p n m"
  "last_page_referenced (reply pt x m) = last_page_referenced m" "active_processes (reply pt x m) = active_processes m"
  "positions (reply pt x m) = positions m" "next_entry (reply pt x m) = next_entry m"
  by (simp_all add: reply_def mem_send_def total_frames_def get_page_def search_page_table_def)

lemma lru_ok_reply [simp]: "lru_ok ba (reply pt x m) = lru_ok ba m"
  by (simp add: lru_ok_def)

lemma vm_ok_reply [simp]: "vm_ok v (reply pt x m) s = vm_ok v m s"
  by (simp add: vm_ok_def)

section \<open>A page fault in a run\<close>

text \<open>The memory between the request of a page and its answer.\<close>

definition waiting :: "'b memory \<Rightarrow> nat \<Rightarrow> c_int \<Rightarrow> 'b memory" where
  "waiting m a pos = touched a (asked m a pos)"

lemma fault_first_turn:
  assumes lru: "uses_lru v" and ok: "vm_ok v m s" and e: "store m a = Some e"
    and p: "get_page (pag_pid pg) (sint (page_number pg)) m = Some (Some a)"
    and d: "swap_image (fs_config v) (block_map s) (nat (sint (swap_position e))) = Some data"
    and m1: "m1 = (waiting m a (swap_position e))\<lparr>list_page := [pg]\<rparr>"
    and s1: "s1 = fs_send MemorySocket (FsPackage (create_void_package 12 (word_of_int (block_size (fs_config v))) data)) s"
  shows "sorted_command v PKernel (LOAD_PAGE pg) m = Some m1"
    and "deliver (fs_env v) (fs_config v) (new_messages m m1) s = Some s1" and "swap_data s1 = Some data"
proof -
  let ?cfg = "fs_config v" and ?pos = "swap_position e"
  have l: "list_page m = []" "sort_pages m = 0" and mp: "map_ok ?cfg (block_map s)"
    and pos: "0 \<le> sint ?pos" "sint ?pos < block_swap_count ?cfg"
    using ok e by (auto simp: vm_ok_def paging_ok_def)
  show "sorted_command v PKernel (LOAD_PAGE pg) m = Some m1"
    using sorted_reference[OF wait_for_command_load[OF p e, of "mem_env v"] _ _ lru] l
    by (simp add: m1 waiting_def touched_def asked_def mem_send_def)
  have n1: "new_messages m m1 = [(PFilesystem, MPackage (create_integer_package 12 ?pos))]"
    by (simp add: m1 new_messages_def waiting_def asked_def mem_send_def)
  show "deliver (fs_env v) ?cfg (new_messages m m1) s = Some s1"
    using d read_from_swap_block_ok[OF mp pos] unfolding n1 s1
    by (simp add: create_integer_package_def create_empty_package_def u32_codec.dec_enc_nil)
  show "swap_data s1 = Some data"
    by (simp add: s1 swap_data_def fs_send_def create_void_package_def create_empty_package_def)
qed

lemma waiting_can_load:
  assumes lo: "lru_ok ba m" and na: "\<And>f. \<not> resident m a f" and fo: "frames_ok ba m"
  shows "frame_available ba (waiting m a pos)" and "lru_awaits ba (waiting m a pos) a"
    and "search_frame ba (frame_table (waiting m a pos)) 0 (total_frames (waiting m a pos)) = None
      \<Longrightarrow> victim_resident (waiting m a pos)"
proof -
  let ?w = "waiting m a pos"
  have nl: "a \<notin> set (pages_to_replace m)" using lo na by (simp add: lru_ok_def)
  then have pages: "pages_to_replace ?w = pages_to_replace m @ [a]" by (simp add: waiting_def remove1_idem)
  have ws: "store ?w = store m" "resident ?w b f = resident m b f" "frame_table ?w = frame_table m"
    "total_frames ?w = total_frames m" "frames_ok ba ?w = frames_ok ba m" for b f
    by (simp_all add: waiting_def)
  show "frame_available ba ?w"
    using lru_frame_available(1)[OF lo] pages by (simp add: frame_available_def ws split: option.split)
  show "victim_resident ?w" if "search_frame ba (frame_table ?w) 0 (total_frames ?w) = None"
    using lru_frame_available(2)[OF lo] that pages by (auto simp: victim_resident_def ws)
  show "lru_awaits ba ?w a"
    using lo na nl pages by (cases "pages_to_replace m") (auto simp: lru_awaits_def lru_ok_def ws)
qed

lemma fault_turns_keeps:
  assumes laws: "bitarray_laws (bits (mem_env v))" and lru: "uses_lru v" and ok: "vm_ok v m s"
    and p: "get_page (pag_pid pg) (sint (page_number pg)) m = Some (Some a)"
    and e: "store m a = Some e" "\<not> bit_precense e"
  shows "\<exists>m' s' f. fault_turns v pg m s = Some (m', s') \<and> vm_ok v m' s' \<and> resident m' a f
     \<and> same_rest m m' \<and> (\<forall>b. contents (fs_config v) m' s' b = contents (fs_config v) m s b)
     \<and> swap_follows (fs_config v) m s s'"
proof -
  let ?ba = "bits (mem_env v)" and ?cfg = "fs_config v" and ?pos = "swap_position e"
  let ?w = "waiting m a ?pos"
  let ?m1 = "?w\<lparr>list_page := [pg]\<rparr>"
  have pk: "paging_ok ?ba ?cfg m s" and lo: "lru_ok ?ba m" and l: "list_page m = []" "sort_pages m = 0"
    using ok by (auto simp: vm_ok_def)
  have na: "\<not> resident m a f" for f using e by (simp add: resident_def)
  obtain data where d: "swap_image ?cfg (block_map s) (nat (sint ?pos)) = Some data"
    using contents_length[OF pk e(1)] by blast
  let ?s1 = "fs_send MemorySocket (FsPackage (create_void_package 12 (word_of_int (block_size ?cfg)) data)) s"
  note first = fault_first_turn[OF lru ok e(1) p d refl refl]
  have bm: "block_map ?s1 = block_map s" by (simp add: fs_send_def)
  have pk1: "paging_ok ?ba ?cfg ?w ?s1" using pk bm by (simp add: waiting_def paging_ok_def)
  have fo: "frames_ok ?ba m" using pk by (simp add: paging_ok_def)
  note ready = waiting_can_load[OF lo na fo, of ?pos]
  have pw: "get_page (pag_pid pg) (sint (page_number pg)) ?w = Some (Some a)" and ew: "store ?w a = Some e"
    using p e by (simp_all add: waiting_def)
  obtain m' s' msgs f where m': "load_page ?ba (pag_pid pg) (sint (page_number pg)) data ?w = Some m'"
    "mem_sent m' = mem_sent ?w @ msgs" "deliver (fs_env v) ?cfg msgs ?s1 = Some s'"
    "paging_ok ?ba ?cfg m' s'" "resident m' a f" "\<And>b. contents ?cfg m' s' b = contents ?cfg ?w ?s1 b"
    and sf: "swap_follows ?cfg ?w ?s1 s'"
    using load_page_keeps[OF laws pk1 ready(1,3) pw ew e(2), of data "fs_env v"] d bm by auto
  have "frames_ok ?ba ?w" using pk1 by (simp add: paging_ok_def)
  then have "lru_ok ?ba m' \<and> same_rest ?w m'" using load_page_lru[OF laws _ pw m'(1) ready(2)] by blast
  then have lr: "lru_ok ?ba m'" "same_rest ?w m'" by auto
  have "?m1\<lparr>list_page := []\<rparr> = ?w" using l by (simp add: waiting_def touched_def asked_def mem_send_def)
  then have "wait_for_command (mem_env v) PFilesystem (GET_FROM_SWAP data) ?m1 = Some (reply PKernel (create_integer_package 11 0) m')"
    using m'(1) by (simp add: load_page_reply_def list_remove_first_def)
  moreover have "sort_pages m' = 0" "list_page m' = []" using lr(2) l by (simp_all add: same_rest_def waiting_def asked_def mem_send_def)
  ultimately have m2: "sorted_command v PFilesystem (GET_FROM_SWAP data) ?m1 = Some (reply PKernel (create_integer_package 11 0) m')"
    by (intro sorted_quiet) (simp_all add: reply_def mem_send_def)
  have "new_messages ?m1 (reply PKernel (create_integer_package 11 0) m')
      = msgs @ [(PKernel, MPackage (create_integer_package 11 0))]"
    using m'(2) by (simp add: new_messages_def reply_def mem_send_def)
  then have "fault_turns v pg m s = Some (reply PKernel (create_integer_package 11 0) m', s')"
    using first m2 m'(3) by (simp add: fault_turns_def)
  moreover have "vm_ok v (reply PKernel (create_integer_package 11 0) m') s'"
    using m'(4) lr(1) \<open>sort_pages m' = 0\<close> \<open>list_page m' = []\<close> by (simp add: vm_ok_def)
  moreover have "same_rest m (reply PKernel (create_integer_package 11 0) m')"
    using lr(2) l by (simp add: same_rest_def waiting_def asked_def mem_send_def)
  moreover have cw: "contents ?cfg ?w ?s1 b = contents ?cfg m s b" for b
    using bm by (simp add: waiting_def contents_def split: option.split)
  moreover have "swap_follows ?cfg m s s'" using sf by (simp add: swap_follows_def cw bm) (simp add: waiting_def)
  ultimately show ?thesis using m'(5,6) by (auto simp del: fun_upd_apply)
qed

section \<open>An access to a page that is in memory\<close>

lemma stored_keeps:
  assumes pk: "paging_ok ba cfg m s" and e: "store m a = Some e" "bit_precense e"
    and d: "0 \<le> d" "d + 4 \<le> page_size m" and lb: "length bs = 4"
    and w: "mem_write (frames m) (nat (frame_number e) * nat (page_size m) + nat d) bs = Some fs"
  shows "paging_ok ba cfg (stored pt a e fs m) s
     \<and> (\<exists>c c'. contents cfg m s a = Some c \<and> mem_write c (nat d) bs = Some c'
          \<and> contents cfg (stored pt a e fs m) s = (contents cfg m s)(a \<mapsto> c'))"
proof -
  let ?m = "stored pt a e fs m"
  have ok: "frames_ok ba m" using pk by (simp add: paging_ok_def)
  note sc = stored_content[OF ok e d lb w, where pt = pt]
  have fr: "frame_content ?m (frame_number e') = frame_content m (frame_number e')"
    if "b \<noteq> a" "store m b = Some e'" "bit_precense e'" for b e'
    using sc(2)[OF that(1)] that by (auto simp: resident_def)
  have old: "\<exists>e0. store m b = Some e0 \<and> swap_position e1 = swap_position e0 \<and> (b \<noteq> a \<longrightarrow> e1 = e0)"
    if "store ?m b = Some e1" for b e1 using that e by (cases "b = a") auto
  have "paging_ok ba cfg ?m s"
    unfolding paging_ok_def
  proof (intro conjI allI impI)
    have "total_frames ?m = total_frames m" by (simp add: total_frames_def)
    then show "frames_ok ba ?m"
      using ok mem_write_length[OF w] e by (simp add: frames_ok_def)
    show "map_ok cfg (block_map s)" "page_size ?m = block_size cfg" "block_size cfg < 2 ^ 31"
      using pk by (auto simp: paging_ok_def)
    fix b e1 assume b: "store ?m b = Some e1"
    obtain e0 where e0: "store m b = Some e0" "swap_position e1 = swap_position e0"
      "b \<noteq> a \<Longrightarrow> e1 = e0" using old[OF b] by blast
    show "0 \<le> sint (swap_position e1)" "sint (swap_position e1) < block_swap_count cfg"
      using e0 pk by (auto simp: paging_ok_def)
    show "b = b'" if "store ?m b' = Some e2" "swap_position e1 = swap_position e2" for b' e2
      using old[OF that(1)] e0 that(2) pk unfolding paging_ok_def by metis
    show "frame_content ?m (frame_number e1) = swap_image cfg (block_map s) (nat (sint (swap_position e1)))"
      if "bit_precense e1" "\<not> bit_modified e1"
    proof -
      have ba: "b \<noteq> a" using that(2) b by auto
      then show ?thesis using e0 fr[OF ba e0(1)] that pk by (auto simp: paging_ok_def)
    qed
  qed
  moreover obtain c c' where c: "frame_content m (frame_number e) = Some c" "mem_write c (nat d) bs = Some c'"
    "frame_content ?m (frame_number e) = Some c'" using sc(1) by blast
  moreover have "contents cfg ?m s b = ((contents cfg m s)(a \<mapsto> c')) b" for b
    using c(3) e fr[of b] by (auto simp: contents_def split: option.split)
  moreover have "contents cfg m s a = Some c" using e c(1) by (simp add: contents_def)
  ultimately show ?thesis by blast
qed

lemma rd_u32_length: "length bs = 4 \<Longrightarrow> \<exists>x. rd_u32 bs = Some (x, [])"
  by (auto simp: length_Suc_conv eval_nat_numeral)

lemma answer_to_cpu_reply [simp]: "answer_to_cpu (reply PCpu pkg m) = Some (op_code pkg, buffer pkg)"
  by (simp add: answer_to_cpu_def)

lemma answer_to_cpu_touched [simp]: "answer_to_cpu (touched a m) = answer_to_cpu m"
  by (simp add: answer_to_cpu_def)

lemma same_rest_trans: "same_rest m m1 \<Longrightarrow> same_rest m1 m2 \<Longrightarrow> same_rest m m2"
  by (simp add: same_rest_def)

lemma same_rest_page: "same_rest m m' \<Longrightarrow> get_page p n m' = get_page p n m"
  by (simp add: same_rest_def get_page_def search_page_table_def)

lemma access_ok_same: "same_rest m m' \<Longrightarrow> access_ok m' acc = access_ok m acc"
proof -
  assume sr: "same_rest m m'"
  then have "store m' a = None \<longleftrightarrow> store m a = None" for a
    using positions_dom[of m' m] by (simp add: same_rest_def) (metis domIff)
  moreover have "page_size m' = page_size m" using sr by (simp add: same_rest_def)
  ultimately show ?thesis by (simp add: access_ok_def same_rest_page[OF sr] split: option.split)
qed

lemma page_of_same: "same_rest m m' \<Longrightarrow> page_of m' = page_of m"
  by (intro ext) (simp add: page_of_def same_rest_page)

text \<open>The simulation of one command on a page in memory.\<close>

definition simulates :: "'b vm_env \<Rightarrow> access \<Rightarrow> 'b memory \<Rightarrow> filesystem \<Rightarrow> u32 \<Rightarrow> 'b memory \<Rightarrow> filesystem \<Rightarrow> bool" where
  "simulates v acc m s x m' s' \<longleftrightarrow> vm_ok v m' s' \<and> same_rest m m' \<and> swap_follows (fs_config v) m s s'
     \<and> abstract_access (page_of m) acc (contents (fs_config v) m s) = Some (x, contents (fs_config v) m' s')"

lemma store_present:
  assumes ok: "vm_ok v m s" and lru: "uses_lru v"
    and p: "get_page p (sint n) m = Some (Some a)" and e: "store m a = Some e" "bit_precense e"
    and d: "0 \<le> sint d" "sint d + 4 \<le> page_size m"
  shows "\<exists>m'. sorted_command v PCpu (access_command (Store p n d x)) m = Some m'
     \<and> answer_to_cpu m' = Some (16, bytes_of_u32 0) \<and> simulates v (Store p n d x) m s 0 m' s"
proof -
  let ?ba = "bits (mem_env v)" and ?cfg = "fs_config v"
  have pk: "paging_ok ?ba ?cfg m s" and lo: "lru_ok ?ba m" and l: "list_page m = []" "sort_pages m = 0"
    using ok by (auto simp: vm_ok_def)
  have fo: "frames_ok ?ba m" using pk by (simp add: paging_ok_def)
  obtain fs where w: "mem_write (frames m) (nat (frame_number e) * nat (page_size m) + nat (sint d)) (bytes_of_u32 x) = Some fs"
    and c: "mov_out PCpu \<lparr>mo_page_number = n, mo_displacement = d, mo_pid = p, mo_register_value = x\<rparr> m
        = Some (stored PCpu a e fs m)" using mov_out_effect[OF fo p e d] by blast
  let ?m = "stored PCpu a e fs m"
  have "sorted_command v PCpu (access_command (Store p n d x)) m = Some (touched a ?m)"
    by (rule sorted_reference[OF _ _ _ lru]) (use c l in \<open>simp_all add: stored_def\<close>)
  moreover have "answer_to_cpu (touched a ?m) = Some (16, bytes_of_u32 0)"
    by (simp add: answer_to_cpu_def create_integer_package_def create_empty_package_def)
  moreover from stored_keeps[OF pk e d _ w, of PCpu] obtain k k' where k: "paging_ok ?ba ?cfg ?m s"
    "contents ?cfg m s a = Some k" "mem_write k (nat (sint d)) (bytes_of_u32 x) = Some k'"
    "contents ?cfg ?m s = (contents ?cfg m s)(a \<mapsto> k')" by auto
  have "lru_ok ?ba ?m"
    by (rule lru_ok_frames[OF lo]) (use e in \<open>simp_all add: total_frames_def stored_def resident_def\<close>)
  then have "lru_ok ?ba (touched a ?m)" by (rule lru_ok_touched) (use e in \<open>auto simp: resident_def\<close>)
  then have "vm_ok v (touched a ?m) s" using k(1) l by (simp add: vm_ok_def stored_def)
  moreover have "same_rest m (touched a ?m)"
    using e l by (auto simp: same_rest_def stored_def positions_def)
  moreover have "contents ?cfg (touched a ?m) s = (contents ?cfg m s)(a \<mapsto> k')" using k(4) by (simp add: fun_eq_iff)
  moreover have "page_of m p n = a" using p by (simp add: page_of_def)
  ultimately show ?thesis using k(2,3) swap_follows_refl unfolding simulates_def
    by (intro exI[of _ "touched a ?m"]) simp
qed

text \<open>\<open>MOV_IN\<close> only notes the reference, and answers with four bytes of the contents of the page.\<close>

definition noted :: "nat \<Rightarrow> 'b memory \<Rightarrow> 'b memory" where
  "noted a m = m\<lparr>last_page_referenced := Some a, sort_pages := sort_pages m + 1\<rparr>"

lemma noted_simps [simp]:
  "store (noted a m) = store m" "page_size (noted a m) = page_size m" "frame_table (noted a m) = frame_table m"
  "total_frames (noted a m) = total_frames m" "pages_to_replace (noted a m) = pages_to_replace m"
  "list_page (noted a m) = list_page m" "page_tables (noted a m) = page_tables m" "mem_sent (noted a m) = mem_sent m"
  "frame_content (noted a m) f = frame_content m f" "resident (noted a m) b f = resident m b f"
  "get_page p n (noted a m) = get_page p n m" "frames_ok ba (noted a m) = frames_ok ba m"
  "positions (noted a m) = positions m" "active_processes (noted a m) = active_processes m"
  "sort_pages (noted a m) = sort_pages m + 1" "last_page_referenced (noted a m) = Some a"
  "memory_size (noted a m) = memory_size m" "next_entry (noted a m) = next_entry m"
  by (simp_all add: noted_def total_frames_def frame_content_def read_frame_def resident_def
      get_page_def search_page_table_def frames_ok_def)

lemma noted_keeps [simp]:
  "paging_ok ba cfg (noted a m) s = paging_ok ba cfg m s" "contents cfg (noted a m) s b = contents cfg m s b"
  by (simp_all add: paging_ok_def contents_def split: option.split)

lemma mov_in_present:
  assumes pk: "paging_ok ba cfg m s"
    and p: "get_page p (sint n) m = Some (Some a)" and e: "store m a = Some e" "bit_precense e"
    and d: "0 \<le> sint d" "sint d + 4 \<le> page_size m"
  shows "\<exists>x c bs. mov_in pt \<lparr>page_number = n, displacement = d, pag_pid = p\<rparr> m = Some (reply pt (create_uint32_package 15 x) (noted a m))
     \<and> contents cfg m s a = Some c \<and> mem_read c (nat (sint d)) 4 = Some bs \<and> rd_u32 bs = Some (x, [])"
proof -
  have fo: "frames_ok ba m" using pk by (simp add: paging_ok_def)
  have r: "resident m a (frame_number e)" using e by (simp add: resident_def)
  note acc = frame_access[OF fo r d]
  obtain c where c: "frame_content m (frame_number e) = Some c" using frame_content_defined[OF fo r] by blast
  have ps: "0 < page_size m" using fo by (simp add: frames_ok_def)
  have "mem_read (frames m) (nat (frame_number e) * nat (page_size m)) (nat (page_size m)) = Some c"
    using c frame_content_block[OF ps acc(1)] by simp
  note ri = mem_read_inside[OF this acc(5)]
  obtain bs where bs: "mem_read c (nat (sint d)) 4 = Some bs"
    using mem_read_defined[OF acc(4)] ri by auto
  obtain x where x: "rd_u32 bs = Some (x, [])" using rd_u32_length mem_read_length[OF bs] by blast
  have "mov_in pt \<lparr>page_number = n, displacement = d, pag_pid = p\<rparr> m = Some (reply pt (create_uint32_package 15 x) (noted a m))"
    unfolding noted_def by (rule mov_in_effect[OF p e(1) acc(2) _ x]) (use ri bs acc(3) in simp)
  then show ?thesis using c e bs x by (simp add: contents_def)
qed

lemma load_present:
  assumes ok: "vm_ok v m s" and lru: "uses_lru v"
    and p: "get_page p (sint n) m = Some (Some a)" and e: "store m a = Some e" "bit_precense e"
    and d: "0 \<le> sint d" "sint d + 4 \<le> page_size m"
  shows "\<exists>m' x. sorted_command v PCpu (access_command (Load p n d)) m = Some m'
     \<and> answer_to_cpu m' = Some (15, bytes_of_u32 x) \<and> simulates v (Load p n d) m s x m' s"
proof -
  let ?ba = "bits (mem_env v)" and ?cfg = "fs_config v"
  have pk: "paging_ok ?ba ?cfg m s" and lo: "lru_ok ?ba m" and l: "list_page m = []" "sort_pages m = 0"
    using ok by (auto simp: vm_ok_def)
  obtain x c bs where x: "mov_in PCpu \<lparr>page_number = n, displacement = d, pag_pid = p\<rparr> m
      = Some (reply PCpu (create_uint32_package 15 x) (noted a m))" "contents ?cfg m s a = Some c"
    "mem_read c (nat (sint d)) 4 = Some bs" "rd_u32 bs = Some (x, [])"
    using mov_in_present[OF pk p e d, of PCpu] by blast
  let ?m = "reply PCpu (create_uint32_package 15 x) (noted a m)"
  have "sorted_command v PCpu (access_command (Load p n d)) m = Some (touched a ?m)"
    by (intro sorted_reference[OF _ _ _ lru]) (use x(1) l in simp_all)
  moreover have "answer_to_cpu (touched a ?m) = Some (15, bytes_of_u32 x)"
    by (simp add: create_uint32_package_def create_empty_package_def)
  moreover have r: "resident ?m b f = resident m b f" for b f by simp
  have "lru_ok ?ba ?m" by (rule lru_ok_frames[OF lo r]) simp_all
  then have "lru_ok ?ba (touched a ?m)" by (rule lru_ok_touched) (use e in \<open>auto simp: resident_def\<close>)
  then have "vm_ok v (touched a ?m) s" using pk l by (simp add: vm_ok_def)
  moreover have "same_rest m (touched a ?m)" using l by (simp add: same_rest_def)
  moreover have "contents ?cfg (touched a ?m) s = contents ?cfg m s" by (simp add: fun_eq_iff)
  moreover have "page_of m p n = a" using p by (simp add: page_of_def)
  ultimately show ?thesis using x(2-4) unfolding simulates_def
    by (intro exI[of _ "touched a ?m"] exI[of _ x]) simp
qed

lemma frame_request:
  assumes p: "get_page p (sint n) m = Some (Some a)" and e: "store m a = Some e" and z: "sort_pages m = 0"
  shows "sorted_command v PCpu (PAGE_NUMBER (page_new p n d)) m = Some (reply PCpu
     (if bit_precense e then create_integer_package 9 (word_of_int (frame_number e)) else create_integer_package 10 0) m)"
  by (rule sorted_quiet) (use p e z in \<open>auto simp: page_number_request_def page_new_def\<close>)

lemma simulates_reply:
  assumes "simulates v acc (reply pt x m) s y m' s'"
  shows "simulates v acc m s y m' s'"
proof -
  have "contents (fs_config v) (reply pt x m) s = contents (fs_config v) m s" by (simp add: fun_eq_iff)
  moreover have "page_of (reply pt x m) = page_of m" by (simp add: page_of_def fun_eq_iff)
  ultimately show ?thesis using assms by (simp add: simulates_def same_rest_def swap_follows_def)
qed

lemma try_access_present:
  assumes ok: "vm_ok v m s" and lru: "uses_lru v" and acc: "access_ok m acc"
    and a: "get_page (access_pid acc) (sint (access_page acc)) m = Some (Some a)"
    and e: "store m a = Some e" "bit_precense e"
  shows "\<exists>x m'. try_access v fuel acc m s = Some (x, m', s) \<and> simulates v acc m s x m' s"
proof -
  let ?m = "reply PCpu (create_integer_package 9 (word_of_int (frame_number e))) m"
  have ok1: "vm_ok v ?m s" and e1: "store ?m a = Some e" using ok e by simp_all
  have z: "sort_pages m = 0" using ok by (simp add: vm_ok_def)
  have f: "sorted_command v PCpu (PAGE_NUMBER (page_new (access_pid acc) (access_page acc) (access_displacement acc))) m
      = Some ?m" using frame_request[OF a e(1) z] e(2) by simp
  obtain x m' code where x: "sorted_command v PCpu (access_command acc) ?m = Some m'"
    "answer_to_cpu m' = Some (code, bytes_of_u32 x)" "simulates v acc ?m s x m' s"
  proof (cases acc)
    case (Store p n d w)
    then show ?thesis
      using store_present[OF ok1 lru, of p n a e d w] a e acc that by (auto simp: access_ok_def)
  next
    case (Load p n d)
    then show ?thesis
      using load_present[OF ok1 lru, of p n a e d] a e acc that by (auto simp: access_ok_def)
  qed
  have "try_access v fuel acc m s = Some (x, m', s)"
    using f x(1,2) by (simp add: try_access.simps Let_def create_integer_package_def create_empty_package_def u32_codec.dec_enc_nil)
  then show ?thesis using simulates_reply[OF x(3)] by blast
qed

lemma try_access_refines:
  assumes laws: "bitarray_laws (bits (mem_env v))" and lru: "uses_lru v" and ok: "vm_ok v m s" and acc: "access_ok m acc"
  shows "\<exists>x m' s'. try_access v 1 acc m s = Some (x, m', s') \<and> simulates v acc m s x m' s'"
proof -
  let ?pg = "page_new (access_pid acc) (access_page acc) (access_displacement acc)"
  obtain a e where a: "get_page (access_pid acc) (sint (access_page acc)) m = Some (Some a)" and e: "store m a = Some e"
    using acc by (auto simp: access_ok_def split: option.splits)
  show ?thesis
  proof (cases "bit_precense e")
    case True
    then show ?thesis using try_access_present[OF ok lru acc a e] by blast
  next
    case False
    let ?m = "reply PCpu (create_integer_package 10 0) m"
    have z: "sort_pages m = 0" using ok by (simp add: vm_ok_def)
    have f: "sorted_command v PCpu (PAGE_NUMBER ?pg) m = Some ?m" using frame_request[OF a e z] False by simp
    have ok1: "vm_ok v ?m s" and e1: "store ?m a = Some e"
      and a1: "get_page (pag_pid ?pg) (sint (page_number ?pg)) ?m = Some (Some a)" using ok e a by (simp_all add: page_new_def)
    obtain m1 s1 g where m1: "fault_turns v ?pg ?m s = Some (m1, s1)" "vm_ok v m1 s1" "resident m1 a g"
      "same_rest ?m m1" "\<And>b. contents (fs_config v) m1 s1 b = contents (fs_config v) ?m s b"
      and sf: "swap_follows (fs_config v) ?m s s1"
      using fault_turns_keeps[OF laws lru ok1 a1 e1 False] by blast
    have sr: "same_rest m m1" using m1(4) by (simp add: same_rest_def positions_def)
    obtain e2 where e2: "store m1 a = Some e2" "bit_precense e2" using m1(3) by (auto simp: resident_def)
    have acc1: "access_ok m1 acc" using access_ok_same[OF sr] acc by blast
    obtain x m' where x: "try_access v 0 acc m1 s1 = Some (x, m', s1)" "simulates v acc m1 s1 x m' s1"
      using try_access_present[OF m1(2) lru acc1 _ e2, of 0] a same_rest_page[OF sr] by auto
    have "try_access v 1 acc m s = Some (x, m', s1)"
      using f m1(1) x(1)
      by (subst try_access.simps) (simp add: Let_def create_integer_package_def create_empty_package_def)
    moreover have "contents (fs_config v) m1 s1 = contents (fs_config v) m s" using m1(5) by (simp add: fun_eq_iff)
    then have "simulates v acc m s x m' s1"
      using x(2) sr sf page_of_same[OF sr] same_rest_trans by (simp add: simulates_def swap_follows_def) blast
    ultimately show ?thesis by blast
  qed
qed

text \<open>
  C5. Virtual memory is memory. A sequence of stores and loads of any processes inside their pages,
  with the page faults, LRU replacements and swap traffic it causes, ends; every load answers
  what the abstract memory answers, and the contents of all pages afterwards are those of the
  abstract memory, however few frames there are.
\<close>

theorem virtual_memory_refines_memory:
  assumes laws: "bitarray_laws (bits (mem_env v))" and lru: "uses_lru v" and ok: "vm_ok v m s"
    and accs: "list_all (access_ok m) accs"
  shows "\<exists>xs m' s'. run_accesses v accs m s = Some (xs, m', s') \<and> vm_ok v m' s'
     \<and> abstract_run (page_of m) accs (contents (fs_config v) m s) = Some (xs, contents (fs_config v) m' s')"
  using ok accs
proof (induction accs arbitrary: m s)
  case (Cons acc accs)
  then obtain x m1 s1 where x: "try_access v 1 acc m s = Some (x, m1, s1)" "simulates v acc m s x m1 s1"
    using try_access_refines[OF laws lru] by force
  then have sr: "same_rest m m1" and "vm_ok v m1 s1" by (simp_all add: simulates_def)
  moreover have "list_all (access_ok m1) accs" using Cons.prems(2) access_ok_same[OF sr] by (simp add: list_all_iff)
  ultimately obtain xs m' s' where "run_accesses v accs m1 s1 = Some (xs, m', s')" "vm_ok v m' s'"
    "abstract_run (page_of m) accs (contents (fs_config v) m1 s1) = Some (xs, contents (fs_config v) m' s')"
    using Cons.IH page_of_same[OF sr] by metis
  then show ?case using x by (simp add: simulates_def)
qed simp

definition demo_vm_run :: "(nat \<Rightarrow> bool) vm_env" where
  "demo_vm_run = \<lparr>mem_env = demo_vm_env, fs_env = demo_fs_env, fs_config = demo_cfg,
     equals_ignore_case = (\<lambda>a b. a = b), replacement_algorithm = ''LRU''\<rparr>"

theorem virtual_memory_refines_memory_witness:
  "\<exists>m' s'. run_accesses demo_vm_run [Store 1 1 4 77, Load 1 0 0, Load 1 1 4] demo_vm demo_fs = Some ([0, 16843009, 77], m', s')"
proof -
  let ?accs = "[Store 1 1 4 77, Load 1 0 0, Load 1 1 4]"
  have b: "bits (mem_env demo_vm_run) = demo_bits" "fs_config demo_vm_run = demo_cfg"
    by (simp_all add: demo_vm_run_def demo_vm_env_def)
  have lru: "uses_lru demo_vm_run" by (simp add: uses_lru_def demo_vm_run_def)
  have "lru_ok demo_bits demo_vm"
    by (auto simp: lru_ok_def demo_vm_def init_real_memory_def resident_def page_create_def demo_bits_def total_frames_def
        split: if_splits)
  then have ok: "vm_ok demo_vm_run demo_vm demo_fs"
    using demo_vm_ok by (simp add: vm_ok_def b) (simp add: demo_vm_def init_real_memory_def)
  have acc: "list_all (access_ok demo_vm) ?accs"
    using demo_vm_ok(5,6) by (simp add: access_ok_def) (simp add: demo_vm_def init_real_memory_def)
  have "swap_image demo_cfg (block_map demo_fs) 1 = Some (replicate 16 48)" by code_simp
  then have c: "contents demo_cfg demo_vm demo_fs 0 = Some (replicate 16 1)"
    "contents demo_cfg demo_vm demo_fs 1 = Some (replicate 16 48)"
    by (simp_all add: contents_def demo_vm_def page_create_def frame_content_def read_frame_def init_real_memory_def mem_read_def)
  have p: "page_of demo_vm 1 1 = 1" "page_of demo_vm 1 0 = 0" using demo_vm_ok(5,6) by (simp_all add: page_of_def)
  have r4: "replicate 4 1 = [1, 1, 1, 1 :: u8]" by (simp add: eval_nat_numeral)
  have w: "mem_write (replicate 16 48) 4 (bytes_of_u32 77) = Some (replicate 4 48 @ bytes_of_u32 77 @ replicate 8 48)"
    "mem_read (replicate 4 48 @ bytes_of_u32 77 @ replicate 8 48) 4 4 = Some (bytes_of_u32 77)"
    "rd_u32 (replicate 4 1) = Some (16843009, [])" "mem_read (replicate 16 1) 0 4 = Some (replicate 4 1)"
    subgoal by (simp add: mem_write_def)
    subgoal by (simp add: mem_read_def)
    subgoal using r4 by (simp add: u32_of_bytes_def)
    subgoal by (simp add: mem_read_def)
    done
  have laws: "bitarray_laws (bits (mem_env demo_vm_run))" using demo_bits_laws by (simp add: b)
  from virtual_memory_refines_memory[OF laws lru ok acc] obtain xs m' s' where
    r: "run_accesses demo_vm_run ?accs demo_vm demo_fs = Some (xs, m', s')"
    "abstract_run (page_of demo_vm) ?accs (contents demo_cfg demo_vm demo_fs) = Some (xs, contents demo_cfg m' s')"
    unfolding b by blast
  have "map_option fst (abstract_run (page_of demo_vm) ?accs (contents demo_cfg demo_vm demo_fs)) = Some [0, 16843009, 77]"
    using c p w by (simp add: u32_codec.dec_enc_nil)
  then have "xs = [0, 16843009, 77]" using r(2) by simp
  then show ?thesis using r(1) by blast
qed

section \<open>New processes\<close>

lemma create_entries_rest:
  "create_entries p i n blocks m = Some (as, m') \<Longrightarrow> page_size m' = page_size m \<and> memory_size m' = memory_size m
     \<and> frame_table m' = frame_table m \<and> pages_to_replace m' = pages_to_replace m \<and> list_page m' = list_page m
     \<and> sort_pages m' = sort_pages m"
proof (induction n arbitrary: i blocks m as m')
  case (Suc n)
  then obtain b bs where bs: "blocks = b # bs" by (cases blocks) auto
  let ?m = "m\<lparr>store := (store m)(next_entry m \<mapsto> page_create p False False 0 (int i) b), next_entry := next_entry m + 1\<rparr>"
  obtain as1 where "create_entries p (Suc i) n bs ?m = Some (as1, m')"
    using Suc.prems bs by (simp add: Let_def split: option.splits prod.splits)
  from Suc.IH[OF this] show ?case by simp
qed simp

text \<open>The addresses in use are below the next one.\<close>

definition entries_below :: "'b memory \<Rightarrow> bool" where
  "entries_below m \<longleftrightarrow> (\<forall>a. next_entry m \<le> a \<longrightarrow> store m a = None)"

lemma added_entries_paging:
  assumes pk: "paging_ok ba cfg m s" and fo: "frames_ok ba m'"
    and same: "page_size m' = page_size m" "\<And>g. frame_content m' g = frame_content m g" and d: "distinct blocks" "length blocks = n"
    and b: "list_all (\<lambda>b. 0 \<le> sint b \<and> sint b < block_swap_count cfg) blocks"
    and fresh: "\<forall>a e. store m a = Some e \<longrightarrow> swap_position e \<notin> set blocks"
    and entry: "\<And>a e. store m' a = Some e \<Longrightarrow>
        (\<exists>i < n. a = k + i \<and> swap_position e = blocks ! i \<and> \<not> bit_precense e) \<or> (a < k \<and> store m a = Some e)"
  shows "paging_ok ba cfg m' s"
  unfolding paging_ok_def
proof (intro conjI allI impI)
  show "frames_ok ba m'" by (rule fo)
  show "map_ok cfg (block_map s)" "page_size m' = block_size cfg" "block_size cfg < 2 ^ 31"
    using pk same by (auto simp: paging_ok_def)
  fix a e assume a: "store m' a = Some e"
  show "0 \<le> sint (swap_position e)" "sint (swap_position e) < block_swap_count cfg"
    using entry[OF a] b d(2) pk by (auto simp: list_all_length paging_ok_def)
  show "a = a'" if "store m' a' = Some e'" "swap_position e = swap_position e'" for a' e'
    using entry[OF a] entry[OF that(1)] that(2) d fresh pk
    unfolding paging_ok_def by (metis nth_eq_iff_index_eq nth_mem)
  show "frame_content m' (frame_number e) = swap_image cfg (block_map s) (nat (sint (swap_position e)))"
    if "bit_precense e" "\<not> bit_modified e"
    using entry[OF a] that pk unfolding same by (auto simp: paging_ok_def)
qed

text \<open>
  The creation of a process keeps the agreement of the memory and the file system. With blocks of
  the swap that no page has, as a reservation gives them, the pages of the new process have the
  images of the blocks as their contents, no other page changes its content, and the hypotheses of
  the refinement hold again.
\<close>

theorem create_process_keeps_vm:
  assumes ok: "vm_ok v m s" "entries_below m"
    and f: "get_instructions_from_file (mem_env v) (instructions_path (mem_env v) @ ''/'' @ nom_arch_inst p @ ''.txt'') = Some is"
    and n: "nat (uint (tamanio p) div page_size m) = n" "length blocks = n" and d: "distinct blocks"
    and b: "list_all (\<lambda>b. 0 \<le> sint b \<and> sint b < block_swap_count (fs_config v)) blocks"
    and fresh: "\<forall>a e. store m a = Some e \<longrightarrow> swap_position e \<notin> set blocks"
  shows "\<exists>m'. create_process (mem_env v) p blocks m = Some (1, m') \<and> vm_ok v m' s \<and> entries_below m'
     \<and> (\<forall>i < n. contents (fs_config v) m' s (next_entry m + i)
          = swap_image (fs_config v) (block_map s) (nat (sint (blocks ! i))))
     \<and> (\<forall>a < next_entry m. contents (fs_config v) m' s a = contents (fs_config v) m s a)
     \<and> page_tables m' = page_tables m @ [(pid p, [next_entry m ..< next_entry m + n])]
     \<and> (\<forall>a. positions m' a = (if next_entry m \<le> a \<and> a < next_entry m + n
          then Some (blocks ! (a - next_entry m)) else positions m a))"
proof -
  let ?ba = "bits (mem_env v)" and ?cfg = "fs_config v" and ?k = "next_entry m"
  have n': "n \<le> length blocks" using n(2) by simp
  obtain m1 where m1: "create_entries (pid p) 0 n blocks m = Some ([?k ..< ?k + n], m1)"
    "next_entry m1 = ?k + n" "frames m1 = frames m"
    and pt: "page_tables m1 = page_tables m" and st: "\<And>a. store m1 a = (if ?k \<le> a \<and> a < ?k + n
          then Some (page_create (pid p) False False 0 (int (a - ?k)) (blocks ! (a - ?k))) else store m a)"
    using create_entries_spec[OF n', of "pid p" 0 m] by auto
  note rest = create_entries_rest[OF m1(1)]
  let ?m = "m1\<lparr>page_tables := page_tables m1 @ [(pid p, [?k ..< ?k + n])], active_processes := active_processes m1 @
      [\<lparr>pr_pid = pid p, pr_file_name = nom_arch_inst p, pr_bytes = tamanio p, instructions_set = is\<rparr>]\<rparr>"
  have c: "create_process (mem_env v) p blocks m = Some (1, ?m)"
    using f m1(1) n(1) by (simp add: create_process_def page_table_create_def)
  have low: "a < ?k" if "store m a = Some e" for a e using ok(2) that by (force simp: entries_below_def not_le)
  have r: "resident ?m a g \<longleftrightarrow> resident m a g" for a g
    using low[of a] by (auto simp: resident_def st page_create_def)
  have fc: "frame_content ?m g = frame_content m g" for g
    using rest m1(3) by (simp add: frame_content_def read_frame_def)
  have pk: "paging_ok ?ba ?cfg m s" and lo: "lru_ok ?ba m" using ok(1) by (simp_all add: vm_ok_def)
  have tf: "total_frames ?m = total_frames m" using rest by (simp add: total_frames_def)
  have fo: "frames_ok ?ba ?m"
    using pk rest m1(3) tf unfolding paging_ok_def frames_ok_def r by simp
  have entry: "(\<exists>i < n. a = ?k + i \<and> swap_position e = blocks ! i \<and> \<not> bit_precense e) \<or> (a < ?k \<and> store m a = Some e)"
    if "store ?m a = Some e" for a e
    using that low[of a e] by (force simp: st page_create_def split: if_splits)
  have "paging_ok ?ba ?cfg ?m s" by (rule added_entries_paging[OF pk fo _ fc d n(2) b fresh entry]) (simp add: rest)
  moreover have "lru_ok ?ba ?m" by (rule lru_ok_frames[OF lo r]) (use rest tf in simp_all)
  ultimately have "vm_ok v ?m s" using ok(1) rest by (simp add: vm_ok_def)
  moreover have "entries_below ?m" using ok(2) m1(2) by (auto simp: entries_below_def st)
  moreover have "contents ?cfg ?m s (?k + i) = swap_image ?cfg (block_map s) (nat (sint (blocks ! i)))" if "i < n" for i
    using that by (simp add: contents_def st page_create_def)
  moreover have "contents ?cfg ?m s a = contents ?cfg m s a" if "a < ?k" for a
    using that fc by (simp add: contents_def st split: option.split)
  moreover have "positions ?m a = (if ?k \<le> a \<and> a < ?k + n then Some (blocks ! (a - ?k)) else positions m a)" for a
    by (simp add: positions_def st page_create_def)
  ultimately show ?thesis using c pt by (intro exI[of _ ?m]) simp
qed

text \<open>The memory with which the module starts, for four frames.\<close>

definition demo_start :: "(nat \<Rightarrow> bool) memory" where
  "demo_start = init_real_memory demo_bits 64 16 (replicate 64 0)"

definition demo_start_env :: "(nat \<Rightarrow> bool) vm_env" where
  "demo_start_env = demo_vm_run\<lparr>mem_env := demo_mem_env\<rparr>"

lemma demo_start_env_simps [simp]: "mem_env demo_start_env = demo_mem_env" "bits demo_mem_env = demo_bits"
    "fs_config demo_start_env = demo_cfg" "fs_env demo_start_env = demo_fs_env"
  by (simp_all add: demo_start_env_def demo_vm_run_def demo_mem_env_def)

lemma demo_start_simps [simp]: "store demo_start = Map.empty" "total_frames demo_start = 4" "pages_to_replace demo_start = []"
  "page_size demo_start = 16" "list_page demo_start = []" "sort_pages demo_start = 0" "page_tables demo_start = []"
  "next_entry demo_start = 0" "int (length (frames demo_start)) = memory_size demo_start"
  by (simp_all add: demo_start_def init_real_memory_def total_frames_def)

lemma demo_start_ok: "vm_ok demo_start_env demo_start demo_fs" "entries_below demo_start" "uses_lru demo_start_env"
proof -
  have "bitarray_test_bit demo_bits (frame_table demo_start) i \<longleftrightarrow> i mod 8 = 4 \<or> i mod 8 = 5" if "i < 32" for i
    unfolding demo_start_def by (rule frame_table_starts_dirty[OF demo_bits_laws]) (use that in simp)
  then have t: "\<not> bitarray_test_bit demo_bits (frame_table demo_start) 0" "bitarray_test_bit demo_bits (frame_table demo_start) 4"
    by simp_all
  have "\<not> resident demo_start a f" for a f by (simp add: resident_def)
  then have "paging_ok demo_bits demo_cfg demo_start demo_fs" "lru_ok demo_bits demo_start"
    using t demo_fs_ok(2) by (simp_all add: paging_ok_def frames_ok_def lru_ok_def) (simp_all add: demo_cfg_def)
  then show "vm_ok demo_start_env demo_start demo_fs" "entries_below demo_start" "uses_lru demo_start_env"
    by (simp_all add: vm_ok_def entries_below_def uses_lru_def) (simp add: demo_start_env_def demo_vm_run_def)
qed

theorem create_process_keeps_vm_witness:
  "\<exists>m'. create_process demo_mem_env (crear_pcb 2 ''p'' 32 1) [1, 0] demo_start = Some (1, m') \<and> vm_ok demo_start_env m' demo_fs"
proof -
  have f: "get_instructions_from_file (mem_env demo_start_env) (instructions_path (mem_env demo_start_env) @ ''/'' @
      nom_arch_inst (crear_pcb 2 ''p'' 32 1) @ ''.txt'') = Some [''EXIT'']"
    by (simp add: get_instructions_from_file_def crear_pcb_def) (simp add: demo_mem_env_def)
  have n: "nat (uint (tamanio (crear_pcb 2 ''p'' 32 1)) div page_size demo_start) = 2" "length [1, 0 :: c_int] = 2"
    by (simp_all add: crear_pcb_def)
  have d: "distinct [1, 0 :: c_int]" "list_all (\<lambda>b. 0 \<le> sint b \<and> sint b < block_swap_count (fs_config demo_start_env)) [1, 0 :: c_int]"
    by (simp_all add: demo_cfg_def)
  have fresh: "\<forall>a e. store demo_start a = Some e \<longrightarrow> swap_position e \<notin> set [1, 0]" by simp
  from create_process_keeps_vm[OF demo_start_ok(1,2) f n d fresh] show ?thesis unfolding demo_start_env_simps by blast
qed

end
