(* ===== verification/Paged_Cpu.thy ===== *)
theory Paged_Cpu
  imports Virtual_Run Cpu_Props
begin

text \<open>
  The CPU on the virtual memory. A turn that ends with a page fault is served, as the kernel
  does, and the process comes back; a program then runs as it does on a flat memory in which
  all its pages are present.
\<close>

section \<open>Two memories for one CPU\<close>

text \<open>The requests of the CPU are commands of the memory.\<close>

fun request_command :: "cpu_request \<Rightarrow> mem_command" where
  "request_command (AskFetch p) = FETCH_INSTRUCTION p"
| "request_command (AskPage pg) = PAGE_NUMBER pg"
| "request_command (AskMovIn pg) = MOV_IN pg"
| "request_command (AskMovOut d) = MOV_OUT d"

definition paged_ask :: "'b vm_env \<Rightarrow> 'b memory \<Rightarrow> cpu_request \<Rightarrow> ((c_int \<times> u8 list) \<times> 'b memory) option" where
  "paged_ask v m req = do {
     m \<leftarrow> sorted_command v PCpu (request_command req) m;
     answer \<leftarrow> answer_to_cpu m;
     Some (answer, m) }"

text \<open>The two functions of so-commons that the CPU uses.\<close>

type_synonym splitter = "(string \<Rightarrow> string list) \<times> (string \<Rightarrow> string \<Rightarrow> bool)"

definition paged_cpu :: "'b vm_env \<Rightarrow> splitter \<Rightarrow> 'b memory cpu_env" where
  "paged_cpu v sp = \<lparr>ask = paged_ask v, string_split = fst sp, string_equals_ignore_case = snd sp\<rparr>"

text \<open>
  The flat memory has the programs and page tables of a memory \<open>m\<close>, and bytes for each entry.
  An access outside the pages of a process is undefined.
\<close>

fun flat_ask :: "'b memory \<Rightarrow> abstract_memory \<Rightarrow> cpu_request \<Rightarrow> ((c_int \<times> u8 list) \<times> abstract_memory) option" where
  "flat_ask m A (AskFetch p) = (case fetch_next_instruction (pid p) (programCounter p) m of
      Some (Duplicate i) \<Rightarrow> Some ((3, bytes_of_cstr i), A) | _ \<Rightarrow> None)"
| "flat_ask m A (AskPage pg) = (case get_page (pag_pid pg) (sint (page_number pg)) m of
      Some (Some a) \<Rightarrow> if A a = None then None else Some ((9, bytes_of_u32 0), A) | _ \<Rightarrow> None)"
| "flat_ask m A (AskMovIn pg) = (let acc = Load (pag_pid pg) (page_number pg) (displacement pg) in
      if access_ok m acc then map_option (\<lambda>(x, A). ((15, bytes_of_u32 x), A)) (abstract_access (page_of m) acc A) else None)"
| "flat_ask m A (AskMovOut d) =
      (let acc = Store (mo_pid d) (mo_page_number d) (mo_displacement d) (mo_register_value d) in
      if access_ok m acc then map_option (\<lambda>(x, A). ((16, bytes_of_u32 x), A)) (abstract_access (page_of m) acc A) else None)"

definition flat_cpu :: "'b memory \<Rightarrow> splitter \<Rightarrow> abstract_memory cpu_env" where
  "flat_cpu m sp = \<lparr>ask = flat_ask m, string_split = fst sp, string_equals_ignore_case = snd sp\<rparr>"

text \<open>
  A turn, with the service of its page fault: the kernel asks the memory for the page that the
  block names and dispatches the process again.
\<close>

definition served_turn :: "'b vm_env \<Rightarrow> splitter \<Rightarrow> int \<Rightarrow> (c_int \<times> t_pcb) list \<Rightarrow> 'b memory cpu \<Rightarrow> filesystem
    \<Rightarrow> ('b memory turn \<times> filesystem) option" where
  "served_turn v sp ps arrived c s = do {
     t \<leftarrow> instruction_cycle (paged_cpu v sp) ps arrived c;
     (case t of
        Answer c \<Rightarrow> if instruccion (running c) = PAGE_FAULT
          then (case params (running c) of
              PNum n \<Rightarrow> do {
                (m, s) \<leftarrow> fault_turns v (page_new (pid (running c)) n 0) (mem c) s;
                t \<leftarrow> instruction_cycle (paged_cpu v sp) ps [] (c\<lparr>mem := m\<rparr>);
                Some (t, s) }
            | _ \<Rightarrow> None)
          else Some (t, s)
      | _ \<Rightarrow> Some (t, s)) }"

fun served_loop :: "'b vm_env \<Rightarrow> splitter \<Rightarrow> int \<Rightarrow> (c_int \<times> t_pcb) list list \<Rightarrow> 'b memory cpu \<Rightarrow> filesystem
    \<Rightarrow> ('b memory turn \<times> filesystem) option" where
  "served_loop v sp ps [] c s = Some (Again c, s)"
| "served_loop v sp ps (a # as) c s = (case served_turn v sp ps a c s of
      Some (Again c, s) \<Rightarrow> served_loop v sp ps as c s
    | result \<Rightarrow> result)"

section \<open>The simulation relation\<close>

text \<open>
  The process is the same but for the parameters a page fault may have left in a block whose
  reason has none.
\<close>

definition like :: "t_pcb \<Rightarrow> t_pcb \<Rightarrow> bool" where
  "like p q \<longleftrightarrow> same_process p q \<and> programCounter q = programCounter p \<and> instruccion q = instruccion p
     \<and> (params p \<noteq> params q \<longrightarrow> instruccion p \<in> {NORMAL, FINISH, INTERRUPTED, INTERRUPT_FINISH})"

text \<open>
  The memory and the file system have the pages of \<open>m0\<close> with the contents of the flat memory.
\<close>

definition follows :: "'b vm_env \<Rightarrow> 'b memory \<Rightarrow> 'b memory \<Rightarrow> filesystem \<Rightarrow> abstract_memory \<Rightarrow> bool" where
  "follows v m0 m s A \<longleftrightarrow> vm_ok v m s \<and> same_rest m0 m \<and> contents (fs_config v) m s = A"

definition same_machine :: "'b vm_env \<Rightarrow> 'b memory \<Rightarrow> 'b memory cpu \<Rightarrow> filesystem \<Rightarrow> abstract_memory cpu \<Rightarrow> bool" where
  "same_machine v m0 c s fc \<longleftrightarrow> follows v m0 (mem c) s (mem fc)
     \<and> regs fc = regs c \<and> interrupts fc = interrupts c \<and> like (running c) (running fc)"

fun same_turn :: "'b vm_env \<Rightarrow> 'b memory \<Rightarrow> 'b memory turn \<Rightarrow> filesystem \<Rightarrow> abstract_memory turn \<Rightarrow> bool" where
  "same_turn v m0 (Again c) s (Again fc) = same_machine v m0 c s fc"
| "same_turn v m0 (Answer c) s (Answer fc) = same_machine v m0 c s fc"
| "same_turn v m0 Down s Down = True"
| "same_turn v m0 _ s _ = False"

lemma follows_reply [simp]: "follows v m0 (reply pt x m) s A = follows v m0 m s A"
  by (simp add: follows_def same_rest_def fun_eq_iff)

lemma follows_page: "follows v m0 m s A \<Longrightarrow> get_page p n m = get_page p n m0"
  using same_rest_page[of m0 m p n] by (simp add: follows_def)

lemma flat_ask_same:
  assumes "same_rest m m'"
  shows "flat_ask m' = flat_ask m"
proof (intro ext)
  fix A req
  have "search_process q m' = search_process q m" for q using assms by (simp add: search_process_def same_rest_def)
  then show "flat_ask m' A req = flat_ask m A req"
    using page_of_same[OF assms] access_ok_same[OF assms] same_rest_page[OF assms]
    by (cases req) (simp_all add: fetch_next_instruction_def Let_def)
qed

section \<open>The requests\<close>

lemma paged_fetch:
  assumes fo: "follows v m0 m s A" and f: "fetch (flat_cpu m0 sp) q A = Some (found, A')"
    and pq: "pid p = pid q" "programCounter p = programCounter q"
  shows "\<exists>m'. fetch (paged_cpu v sp) p m = Some (found, m') \<and> follows v m0 m' s A' \<and> store m' = store m"
proof -
  have sr: "same_rest m0 m" and z: "sort_pages m = 0" using fo by (simp_all add: follows_def vm_ok_def)
  from f obtain i where i: "fetch_next_instruction (pid q) (programCounter q) m0 = Some (Duplicate i)" and A': "A' = A"
    and found: "found = (if cstr_of_bytes (bytes_of_cstr i) = '''' then None else Some (cstr_of_bytes (bytes_of_cstr i)))"
    by (auto simp: fetch_def flat_cpu_def Let_def bind_eq_Some_conv split: option.splits fetched.splits)
  have "fetch_next_instruction (pid p) (programCounter p) m = Some (Duplicate i)"
    using i sr pq by (simp add: fetch_next_instruction_def search_process_def same_rest_def)
  then have "sorted_command v PCpu (FETCH_INSTRUCTION p) m = Some (reply PCpu (create_string_package 3 i) m)"
    using z by (intro sorted_quiet) simp_all
  then have "fetch (paged_cpu v sp) p m = Some (found, reply PCpu (create_string_package 3 i) m)"
    using found by (simp add: fetch_def paged_cpu_def paged_ask_def create_string_package_def create_empty_package_def)
  then show ?thesis using fo A' by (intro exI[of _ "reply PCpu (create_string_package 3 i) m"]) simp
qed

text \<open>The translation on the flat memory, and what the paged one answers for the same address.\<close>

lemma paged_translate:
  assumes fo: "follows v m0 m s A" and f: "mmu_translate (flat_cpu m0 sp) ps i dir A = Some (pg, A')"
  shows "A' = A \<and> pag_pid pg = i \<and> (\<exists>a e. get_page i (sint (page_number pg)) m = Some (Some a) \<and> store m a = Some e
     \<and> mmu_translate (paged_cpu v sp) ps i dir m = Some (if bit_precense e then pg else pg\<lparr>pag_pid := 0\<rparr>,
         reply PCpu (if bit_precense e then create_integer_package 9 (word_of_int (frame_number e)) else create_integer_package 10 0) m))"
proof -
  let ?a = "atoi dir"
  let ?pg = "page_new i (word_of_int (?a sdiv ps)) (word_of_int (?a - ?a sdiv ps * ps))"
  have sr: "same_rest m0 m" and z: "sort_pages m = 0" and A: "contents (fs_config v) m s = A"
    using fo by (simp_all add: follows_def vm_ok_def)
  from f have pg: "pg = ?pg" "A' = A" "ps \<noteq> 0"
    and "\<exists>a. get_page i (sint (page_number ?pg)) m0 = Some (Some a) \<and> A a \<noteq> None"
    by (auto simp: mmu_translate_def flat_cpu_def Let_def page_new_def bind_eq_Some_conv split: if_splits option.splits)
  then obtain a where a: "get_page i (sint (page_number ?pg)) m = Some (Some a)" "A a \<noteq> None"
    using same_rest_page[OF sr] by auto
  then obtain e where e: "store m a = Some e" unfolding A[symmetric] contents_def by (cases "store m a") auto
  have "sorted_command v PCpu (PAGE_NUMBER ?pg) m = Some (reply PCpu
     (if bit_precense e then create_integer_package 9 (word_of_int (frame_number e)) else create_integer_package 10 0) m)"
    by (rule frame_request) (use a e z in \<open>simp_all add: page_new_def\<close>)
  then have "mmu_translate (paged_cpu v sp) ps i dir m = Some (if bit_precense e then ?pg else ?pg\<lparr>pag_pid := 0\<rparr>,
         reply PCpu (if bit_precense e then create_integer_package 9 (word_of_int (frame_number e)) else create_integer_package 10 0) m)"
    using pg(3) by (simp add: mmu_translate_def paged_cpu_def paged_ask_def Let_def create_integer_package_def create_empty_package_def)
  then show ?thesis using pg a e by (auto simp: page_new_def)
qed

definition present :: "'b memory \<Rightarrow> u32 \<Rightarrow> c_int \<Rightarrow> bool" where
  "present m p n \<longleftrightarrow> (\<exists>a e. get_page p (sint n) m = Some (Some a) \<and> store m a = Some e \<and> bit_precense e)"

fun request_page :: "cpu_request \<Rightarrow> (u32 \<times> c_int) option" where
  "request_page (AskMovIn pg) = Some (pag_pid pg, page_number pg)"
| "request_page (AskMovOut d) = Some (mo_pid d, mo_page_number d)"
| "request_page _ = None"

lemma simulates_follows:
  assumes "follows v m0 m s A" and "simulates v acc m s x m' s" and "abstract_access (page_of m0) acc A = Some (y, A')"
  shows "x = y \<and> follows v m0 m' s A'"
proof -
  have "page_of m = page_of m0" using assms(1) page_of_same by (auto simp: follows_def)
  then show ?thesis using assms same_rest_trans unfolding follows_def simulates_def by auto
qed

lemma paged_access:
  assumes fo: "follows v m0 m s A" and lru: "uses_lru v" and f: "flat_ask m0 A req = Some (ans, A')"
    and r: "request_page req = Some (p, n)" "present m p n"
  shows "\<exists>m'. paged_ask v m req = Some (ans, m') \<and> follows v m0 m' s A'"
proof -
  have ok: "vm_ok v m s" and sr: "same_rest m0 m" using fo by (simp_all add: follows_def)
  obtain a e where a: "get_page p (sint n) m = Some (Some a)" "store m a = Some e" "bit_precense e"
    using r(2) by (auto simp: present_def)
  have ps: "page_size m0 = page_size m" using sr by (simp add: same_rest_def)
  show ?thesis
  proof (cases req)
    case (AskMovIn pg)
    let ?acc = "Load p n (displacement pg)"
    from f r(1) AskMovIn obtain x where x: "access_ok m0 ?acc" "abstract_access (page_of m0) ?acc A = Some (x, A')"
      "ans = (15, bytes_of_u32 x)" by (auto simp: Let_def split: if_splits)
    then have d: "0 \<le> sint (displacement pg)" "sint (displacement pg) + 4 \<le> page_size m"
      using ps by (simp_all add: access_ok_def)
    obtain m' y where m': "sorted_command v PCpu (access_command ?acc) m = Some m'"
      "answer_to_cpu m' = Some (15, bytes_of_u32 y)" "simulates v ?acc m s y m' s"
      using load_present[OF ok lru a d] by blast
    have "request_command req = access_command ?acc" using AskMovIn r(1) by (cases pg) simp
    then show ?thesis using m' simulates_follows[OF fo m'(3) x(2)] x(3) by (auto simp: paged_ask_def)
  next
    case (AskMovOut w)
    let ?acc = "Store p n (mo_displacement w) (mo_register_value w)"
    from f r(1) AskMovOut obtain x where x: "access_ok m0 ?acc" "abstract_access (page_of m0) ?acc A = Some (x, A')"
      "ans = (16, bytes_of_u32 x)" by (auto simp: Let_def split: if_splits)
    then have d: "0 \<le> sint (mo_displacement w)" "sint (mo_displacement w) + 4 \<le> page_size m"
      using ps by (simp_all add: access_ok_def)
    obtain m' where m': "sorted_command v PCpu (access_command ?acc) m = Some m'"
      "answer_to_cpu m' = Some (16, bytes_of_u32 0)" "simulates v ?acc m s 0 m' s"
      using store_present[OF ok lru a d] by blast
    have "request_command req = access_command ?acc" using AskMovOut r(1) by (cases w) simp
    then show ?thesis using m' simulates_follows[OF fo m'(3) x(2)] x(3) by (auto simp: paged_ask_def)
  qed (use r(1) in simp_all)
qed

section \<open>Execution\<close>

lemma like_refl [simp]: "like p p"
  by (simp add: like_def)

lemma like_eq: "like p q \<Longrightarrow> params p = params q \<Longrightarrow> p = q"
  by (rule t_pcb.equality) (simp_all add: like_def same_process_def)

lemma like_same: "like p q \<Longrightarrow> pid q = pid p \<and> programCounter q = programCounter p \<and> instruccion q = instruccion p"
  by (auto simp: like_def same_process_def)

lemma like_reason: "like p q \<Longrightarrow> i \<in> {NORMAL, FINISH, INTERRUPTED, INTERRUPT_FINISH} \<Longrightarrow>
    like (p\<lparr>instruccion := i\<rparr>) (q\<lparr>instruccion := i\<rparr>)"
  by (auto simp: like_def)

lemma like_counter: "like p q \<Longrightarrow> like (p\<lparr>programCounter := n\<rparr>) (q\<lparr>programCounter := n\<rparr>)"
  by (auto simp: like_def)

lemma like_return: "like p q \<Longrightarrow> return_context q i x = return_context p i x"
  by (rule t_pcb.equality) (simp_all add: like_def return_context_def same_process_def)

lemma like_destroy:
  assumes "like p q" and "destroy_params q = Some q1"
  shows "\<exists>p1. destroy_params p = Some p1 \<and> like p1 q1"
proof (cases "params p = params q")
  case True
  then have "p = q" using assms(1) like_eq by blast
  then show ?thesis using assms(2) by auto
next
  case False
  then have "instruccion p \<in> {NORMAL, FINISH, INTERRUPTED, INTERRUPT_FINISH}" "instruccion q = instruccion p"
    using assms(1) by (auto simp: like_def)
  then have "destroy_params p = Some p" "q1 = q" using assms(2) by (auto simp: destroy_params_def)
  then show ?thesis using assms(1) by auto
qed

lemma select_register_paged: "select_register (paged_cpu v sp) = select_register (flat_cpu m sp)"
  by (rule ext) (simp add: select_register_def paged_cpu_def flat_cpu_def)

lemma registers_paged:
  "set_reg (paged_cpu v sp) = set_reg (flat_cpu m sp)" "sum_reg (paged_cpu v sp) = sum_reg (flat_cpu m sp)"
  "sub_reg (paged_cpu v sp) = sub_reg (flat_cpu m sp)"
  by (intro ext, simp add: set_reg_def sum_reg_def sub_reg_def select_register_paged[of v sp m])+

lemma jnz_paged:
  assumes "like p q" and "jnz (flat_cpu m sp) q r reg pc = Some q'"
  shows "\<exists>p'. jnz (paged_cpu v sp) p r reg pc = Some p' \<and> like p' q'"
proof -
  obtain z where z: "select_register (flat_cpu m sp) reg = Some z" using assms(2) by (auto simp: jnz_def)
  have l: "like (p\<lparr>programCounter := n\<rparr>) (q\<lparr>programCounter := n\<rparr>)" for n by (rule like_counter[OF assms(1)])
  have c: "programCounter q = programCounter p" using like_same[OF assms(1)] by simp
  show ?thesis
    by (cases "get_reg z r = 0") (use assms(2) z l c in \<open>auto simp: jnz_def select_register_paged[of v sp m]\<close>)
qed

lemma execute_plain:
  assumes like: "like p q" and f: "execute (flat_cpu m0 sp) q r ins A = Some (res, q', r', A')"
    and w: "ins_name ins \<noteq> ''MOV_IN''" "ins_name ins \<noteq> ''MOV_OUT''"
  shows "A' = A \<and> (\<exists>p'. execute (paged_cpu v sp) p r ins m = Some (res, p', r', m) \<and> like p' q')"
proof -
  obtain q1 where q1: "destroy_params q = Some q1" using f by (auto simp: execute_def execute_files_def bind_eq_Some_conv)
  then obtain p1 where p1: "destroy_params p = Some p1" "like p1 q1" using like_destroy[OF like] by blast
  note l = p1(2)
  have ln: "like (p1\<lparr>instruccion := NORMAL\<rparr>) (q1\<lparr>instruccion := NORMAL\<rparr>)"
    and lf: "like (p1\<lparr>instruccion := FINISH\<rparr>) (q1\<lparr>instruccion := FINISH\<rparr>)" using like_reason[OF l] by simp_all
  note j = jnz_paged[OF ln, where v = v]
  show ?thesis
    using f w
    unfolding execute_def execute_files_def q1 p1(1) Let_def bind.bind_lunit registers_paged[of v sp m0]
    by (auto simp: bind_eq_Some_conv like_return[OF l] ln lf split: if_splits dest: j) (use l in simp)
qed

definition pages_present :: "'b memory \<Rightarrow> t_ins \<Rightarrow> bool" where
  "pages_present m ins \<longleftrightarrow> (\<forall>j pg. page_param ins j = Some pg \<longrightarrow> present m (pag_pid pg) (page_number pg))"

lemma execute_paged:
  assumes fo: "follows v m0 m s A" and lru: "uses_lru v" and like: "like p q" and pg: "pages_present m ins"
    and f: "execute (flat_cpu m0 sp) q r ins A = Some (res, q', r', A')"
  shows "\<exists>p' m'. execute (paged_cpu v sp) p r ins m = Some (res, p', r', m') \<and> like p' q' \<and> follows v m0 m' s A'"
proof -
  obtain q1 where q1: "destroy_params q = Some q1" using f by (auto simp: execute_def execute_files_def bind_eq_Some_conv)
  then obtain p1 where p1: "destroy_params p = Some p1" "like p1 q1" using like_destroy[OF like] by blast
  have ln: "like (p1\<lparr>instruccion := NORMAL\<rparr>) (q1\<lparr>instruccion := NORMAL\<rparr>)" using like_reason[OF p1(2)] by simp
  have fa: "ask (flat_cpu m0 sp) = flat_ask m0" and pa: "ask (paged_cpu v sp) = paged_ask v"
    by (simp_all add: flat_cpu_def paged_cpu_def)
  consider "ins_name ins = ''MOV_IN''" | "ins_name ins = ''MOV_OUT''"
    | "ins_name ins \<noteq> ''MOV_IN''" "ins_name ins \<noteq> ''MOV_OUT''" by blast
  then show ?thesis
  proof cases
    case 1
    then obtain reg g ans x rest d where o: "text_param ins 0 = Some reg" "page_param ins 1 = Some g"
      "flat_ask m0 A (AskMovIn g) = Some (ans, A')" "rd_u32 (snd ans) = Some (x, rest)"
      "select_register (flat_cpu m0 sp) reg = Some d" "r' = put_reg d x r" "res = CONTINUE" "q' = q1\<lparr>instruccion := NORMAL\<rparr>"
      using f q1 by (auto simp: execute_def execute_files_def mov_in_reg_def bind_eq_Some_conv Let_def fa)
    have "present m (pag_pid g) (page_number g)" using pg o(2) by (simp add: pages_present_def)
    then obtain m' where m': "paged_ask v m (AskMovIn g) = Some (ans, m')" "follows v m0 m' s A'"
      using paged_access[OF fo lru o(3)] by auto
    have "execute (paged_cpu v sp) p r ins m = Some (res, p1\<lparr>instruccion := NORMAL\<rparr>, r', m')"
      using 1 p1(1) o m'(1) by (simp add: execute_def execute_files_def mov_in_reg_def pa select_register_paged[of v sp m0] split_beta)
    then show ?thesis using ln o(8) m'(2) by blast
  next
    case 2
    then obtain reg g ans d where o: "text_param ins 1 = Some reg" "page_param ins 0 = Some g"
      "select_register (flat_cpu m0 sp) reg = Some d"
      "flat_ask m0 A (AskMovOut (page_for_mov_out (pag_pid g) (page_number g) (displacement g) (get_reg d r))) = Some (ans, A')"
      "r' = r" "res = CONTINUE" "q' = q1\<lparr>instruccion := NORMAL\<rparr>"
      using f q1 by (auto simp: execute_def execute_files_def mov_out_reg_def bind_eq_Some_conv Let_def fa)
    have "present m (pag_pid g) (page_number g)" using pg o(2) by (simp add: pages_present_def)
    then obtain m' where m': "paged_ask v m (AskMovOut (page_for_mov_out (pag_pid g) (page_number g) (displacement g) (get_reg d r)))
        = Some (ans, m')" "follows v m0 m' s A'"
      using paged_access[OF fo lru o(4)] by (auto simp: page_for_mov_out_def)
    have "execute (paged_cpu v sp) p r ins m = Some (res, p1\<lparr>instruccion := NORMAL\<rparr>, r', m')"
      using 2 p1(1) o m'(1) by (simp add: execute_def execute_files_def mov_out_reg_def pa select_register_paged[of v sp m0] split_beta)
    then show ?thesis using ln o(7) m'(2) by blast
  next
    case 3
    from execute_plain[OF like f this, of v m] fo show ?thesis by auto
  qed
qed

section \<open>A turn\<close>

text \<open>The end of a turn, after \<open>execute\<close>.\<close>

definition turn_end :: "'m cpu \<Rightarrow> (c_int \<times> t_pcb) list \<Rightarrow> execute_result \<times> t_pcb \<times> t_reg \<times> 'm \<Rightarrow> 'm turn" where
  "turn_end c queue = (\<lambda>(result, p, r, m).
     if result = RETURN_CONTEXT then Answer (c\<lparr>running := p, regs := r, mem := m, interrupts := queue\<rparr>)
     else (case check_interrupt (if result = CONTINUE then p\<lparr>programCounter := programCounter p + 1\<rparr> else p) queue of
         (FAIL_CONNECTION, _) \<Rightarrow> Down
       | (INTERRUPTION, p, queue) \<Rightarrow> Answer (c\<lparr>running := p, regs := r, mem := m, interrupts := queue\<rparr>)
       | (NO_INTERRUPTION, p, queue) \<Rightarrow> Again (c\<lparr>running := p, regs := r, mem := m, interrupts := queue\<rparr>)))"

lemma instruction_cycle_end:
  assumes "fetch env (running c) (mem c) = Some (Some i, m1)" and "decode env ps (running c) i m1 = Some (p, ins, m2)"
    and "instruccion p \<noteq> PAGE_FAULT"
  shows "instruction_cycle env ps arrived c = map_option (turn_end c (interrupts c @ arrived)) (execute env p (regs c) ins m2)"
  using assms
  by (cases "execute env p (regs c) ins m2")
    (auto simp: instruction_cycle_def turn_end_def Let_def split: prod.split checks.split)

lemma check_interrupt_like:
  assumes "like p q" and "check_interrupt q queue = (ch, q', rest)"
  shows "\<exists>p'. check_interrupt p queue = (ch, p', rest) \<and> like p' q'"
  using assms
proof (induction q queue rule: check_interrupt.induct)
  case (2 q code z rest)
  then show ?case using like_same[OF 2(2)] like_reason[OF 2(2)] by (auto split: if_splits)
qed auto

lemma turn_end_same:
  assumes l: "like p q" and fo: "follows v m0 m s A"
  shows "same_turn v m0 (turn_end c queue (res, p, r, m)) s (turn_end fc queue (res, q, r, A))"
proof (cases "res = RETURN_CONTEXT")
  case True
  then show ?thesis using assms by (simp add: turn_end_def same_machine_def)
next
  case False
  let ?n = "\<lambda>x. if res = CONTINUE then x\<lparr>programCounter := programCounter x + 1\<rparr> else x"
  have "like (?n p) (?n q)" using l like_counter[OF l] like_same[OF l] by simp
  moreover obtain ch q' rest where q': "check_interrupt (?n q) queue = (ch, q', rest)" by (metis prod_cases3)
  ultimately obtain p' where "check_interrupt (?n p) queue = (ch, p', rest)" "like p' q'"
    using check_interrupt_like by blast
  then show ?thesis using q' False fo by (cases ch) (simp_all add: turn_end_def same_machine_def)
qed

text \<open>
  The parameter of an instruction that is an address. Without one the instruction is decoded
  alike on both memories.
\<close>

definition address_param :: "string \<Rightarrow> int option" where
  "address_param w = (if w \<in> {''MOV_IN'', ''F_READ'', ''F_WRITE''} then Some 1 else if w = ''MOV_OUT'' then Some 0 else None)"

lemma decode_address:
  assumes "string_split env i = w # ws"
  shows "decode env ps p i m = (case address_param w of
      Some j \<Rightarrow> translate_param env ps j p \<lparr>ins_name = w, ins_params = map PText ws\<rparr> m
    | None \<Rightarrow> Some (p, \<lparr>ins_name = w, ins_params = map PText ws\<rparr>, m))"
  using assms by (auto simp: decode_def address_param_def Let_def)

lemma text_pages_present: "pages_present m \<lparr>ins_name = w, ins_params = map PText ws\<rparr>"
  by (auto simp: pages_present_def page_param_def list_get_def split: option.splits if_splits)

lemma replaced_pages_present:
  assumes "present m (pag_pid pg) (page_number pg)"
  shows "pages_present m \<lparr>ins_name = w, ins_params = list_replace (map PText ws) j (PPage pg)\<rparr>"
  using assms
  by (auto simp: pages_present_def page_param_def list_get_def list_replace_def nth_list_update
      split: option.splits if_splits)

lemma flat_translate:
  assumes d: "translate_param (flat_cpu m0 sp) ps j q ins A = Some (q1, ins1, A1)" and q: "pid q \<noteq> 0"
  shows "\<exists>dir pg q0 a. text_param ins j = Some dir \<and> mmu_translate (flat_cpu m0 sp) ps (pid q) dir A = Some (pg, A)
     \<and> A1 = A \<and> pag_pid pg = pid q \<and> get_page (pid q) (sint (page_number pg)) m0 = Some (Some a)
     \<and> destroy_params q = Some q0 \<and> q1 = q0\<lparr>instruccion := NORMAL\<rparr>
     \<and> ins1 = ins\<lparr>ins_params := list_replace (ins_params ins) j (PPage pg)\<rparr>"
proof -
  from d obtain dir pg A2 q0 where tr: "text_param ins j = Some dir"
    "mmu_translate (flat_cpu m0 sp) ps (pid q) dir A = Some (pg, A2)" "destroy_params q = Some q0"
    "(if pag_pid pg = 0 then (q0\<lparr>instruccion := PAGE_FAULT, params := PNum (page_number pg)\<rparr>, ins, A2)
      else (q0\<lparr>instruccion := NORMAL\<rparr>, ins\<lparr>ins_params := list_replace (ins_params ins) j (PPage pg)\<rparr>, A2)) = (q1, ins1, A1)"
    by (simp add: translate_param_def bind_eq_Some_conv) blast
  have "pag_pid pg = pid q" "A2 = A" and "\<exists>a. get_page (pid q) (sint (page_number pg)) m0 = Some (Some a)"
    using tr(2) by (auto simp: mmu_translate_def flat_cpu_def Let_def page_new_def bind_eq_Some_conv split: if_splits option.splits)
  then show ?thesis using tr q by auto
qed

text \<open>
  One instruction with the flat result \<open>t\<close> and its operand in the page at \<open>a\<close>, in any state of the paged
  machine that follows the flat one: it goes on alike when the page is present, and faults with its
  number \<open>n\<close> otherwise.
\<close>

definition resumes ::
  "'b vm_env \<Rightarrow> 'b memory \<Rightarrow> splitter \<Rightarrow> int \<Rightarrow> abstract_memory cpu \<Rightarrow> (c_int \<times> t_pcb) list \<Rightarrow> abstract_memory turn \<Rightarrow> c_int \<Rightarrow> nat \<Rightarrow> bool" where
  "resumes v m0 sp ps fc b t n a \<longleftrightarrow>
    (\<forall>c s arrived p0. follows v m0 (mem c) s (mem fc) \<longrightarrow> regs fc = regs c \<longrightarrow> interrupts fc @ b = interrupts c @ arrived
        \<longrightarrow> same_process (running c) (running fc) \<longrightarrow> programCounter (running c) = programCounter (running fc)
        \<longrightarrow> destroy_params (running c) = Some p0 \<longrightarrow>
      (if \<exists>e. store (mem c) a = Some e \<and> bit_precense e
       then \<exists>t'. instruction_cycle (paged_cpu v sp) ps arrived c = Some t' \<and> same_turn v m0 t' s t
       else \<exists>m'. follows v m0 m' s (mem fc) \<and> store m' = store (mem c) \<and> store m' a \<noteq> None
         \<and> instruction_cycle (paged_cpu v sp) ps arrived c = Some (Answer (c\<lparr>running := p0\<lparr>instruccion := PAGE_FAULT, params := PNum n\<rparr>,
             mem := m', interrupts := interrupts c @ arrived\<rparr>))))"

text \<open>The turn of the flat machine.\<close>

lemma flat_address_turn:
  assumes q: "pid (running fc) \<noteq> 0"
    and ff: "fetch (flat_cpu m0 sp) (running fc) (mem fc) = Some (Some i, mem fc)"
    and sw: "fst sp i = w # ws" "address_param w = Some j"
    and f: "instruction_cycle (flat_cpu m0 sp) ps b fc = Some t"
  shows "\<exists>dir pg q0 a ins1 res q' r' A'. text_param \<lparr>ins_name = w, ins_params = map PText ws\<rparr> j = Some dir
    \<and> mmu_translate (flat_cpu m0 sp) ps (pid (running fc)) dir (mem fc) = Some (pg, mem fc)
    \<and> destroy_params (running fc) = Some q0 \<and> pag_pid pg = pid (running fc)
    \<and> get_page (pid (running fc)) (sint (page_number pg)) m0 = Some (Some a)
    \<and> ins1 = \<lparr>ins_name = w, ins_params = list_replace (map PText ws) j (PPage pg)\<rparr>
    \<and> execute (flat_cpu m0 sp) (q0\<lparr>instruccion := NORMAL\<rparr>) (regs fc) ins1 (mem fc) = Some (res, q', r', A')
    \<and> t = turn_end fc (interrupts fc @ b) (res, q', r', A')"
proof -
  let ?q = "running fc" and ?ins = "\<lparr>ins_name = w, ins_params = map PText ws\<rparr>"
  have sf: "string_split (flat_cpu m0 sp) i = w # ws" using sw(1) by (simp add: flat_cpu_def)
  obtain q1 ins1 A2 where dec: "decode (flat_cpu m0 sp) ps ?q i (mem fc) = Some (q1, ins1, A2)"
    using f ff by (auto simp: instruction_cycle_def bind_eq_Some_conv)
  then have "translate_param (flat_cpu m0 sp) ps j ?q ?ins (mem fc) = Some (q1, ins1, A2)"
    unfolding decode_address[OF sf] sw(2) by simp
  from flat_translate[OF this q] obtain dir pg q0 a where tr: "text_param ?ins j = Some dir"
    "mmu_translate (flat_cpu m0 sp) ps (pid ?q) dir (mem fc) = Some (pg, mem fc)" "destroy_params ?q = Some q0"
    "pag_pid pg = pid ?q" "get_page (pid ?q) (sint (page_number pg)) m0 = Some (Some a)"
    and pid: "A2 = mem fc" and q1: "q1 = q0\<lparr>instruccion := NORMAL\<rparr>"
    and ins1: "ins1 = \<lparr>ins_name = w, ins_params = list_replace (map PText ws) j (PPage pg)\<rparr>"
    by auto
  have qf: "instruccion q1 \<noteq> PAGE_FAULT" using q1 by simp
  obtain res q' r' A' where "execute (flat_cpu m0 sp) q1 (regs fc) ins1 (mem fc) = Some (res, q', r', A')"
    "t = turn_end fc (interrupts fc @ b) (res, q', r', A')"
    using f instruction_cycle_end[OF ff dec qf, of b] pid by auto
  then show ?thesis using tr q1 ins1 by blast
qed

text \<open>The paged machine up to the translation of the address.\<close>

lemma paged_address_turn:
  assumes fo: "follows v m0 (mem c) s (mem fc)" and pp: "pid (running c) = pid (running fc)"
    "programCounter (running c) = programCounter (running fc)"
    and ff: "fetch (flat_cpu m0 sp) (running fc) (mem fc) = Some (Some i, mem fc)" and q: "pid (running fc) \<noteq> 0"
    and sw: "fst sp i = w # ws" "address_param w = Some j" and p0: "destroy_params (running c) = Some p0"
    and tr: "text_param \<lparr>ins_name = w, ins_params = map PText ws\<rparr> j = Some dir"
      "mmu_translate (flat_cpu m0 sp) ps (pid (running fc)) dir (mem fc) = Some (pg, mem fc)"
    and pg: "pag_pid pg = pid (running fc)" "get_page (pid (running fc)) (sint (page_number pg)) m0 = Some (Some a)"
  shows "\<exists>m1 m2 e. fetch (paged_cpu v sp) (running c) (mem c) = Some (Some i, m1) \<and> follows v m0 m2 s (mem fc)
    \<and> store m1 = store (mem c) \<and> store m2 = store (mem c) \<and> store (mem c) a = Some e
    \<and> decode (paged_cpu v sp) ps (running c) i m1 = Some (if bit_precense e
        then (p0\<lparr>instruccion := NORMAL\<rparr>, \<lparr>ins_name = w, ins_params = list_replace (map PText ws) j (PPage pg)\<rparr>, m2)
        else (p0\<lparr>instruccion := PAGE_FAULT, params := PNum (page_number pg)\<rparr>, \<lparr>ins_name = w, ins_params = map PText ws\<rparr>, m2))"
proof -
  obtain m1 where m1: "fetch (paged_cpu v sp) (running c) (mem c) = Some (Some i, m1)" "follows v m0 m1 s (mem fc)"
    "store m1 = store (mem c)"
    using paged_fetch[OF fo ff pp] by auto
  obtain a' e m2 where tp: "get_page (pid (running fc)) (sint (page_number pg)) m1 = Some (Some a')" "store m1 a' = Some e"
    "mmu_translate (paged_cpu v sp) ps (pid (running c)) dir m1 = Some (if bit_precense e then pg else pg\<lparr>pag_pid := 0\<rparr>, m2)"
    "follows v m0 m2 s (mem fc)" "store m2 = store m1"
    using paged_translate[OF m1(2) tr(2)] m1(2) pp(1) by (metis follows_reply reply_simps(1))
  have aa: "a' = a" using tp(1) pg(2) follows_page[OF m1(2)] by simp
  have sp: "string_split (paged_cpu v sp) i = w # ws" using sw(1) by (simp add: paged_cpu_def)
  show ?thesis
    using m1 tp(2,4,5) aa unfolding decode_address[OF sp] sw(2)
    by (intro exI[of _ m1] exI[of _ m2] exI[of _ e]) (use tp(3) tr(1) p0 q pg(1) in \<open>simp add: translate_param_def\<close>)
qed

lemma address_turn:
  fixes v :: "'b vm_env"
  assumes lru: "uses_lru v" and q: "pid (running fc) \<noteq> 0"
    and ff: "fetch (flat_cpu m0 sp) (running fc) (mem fc) = Some (Some i, A1)"
    and sw: "fst sp i = w # ws" "address_param w = Some j"
    and f: "instruction_cycle (flat_cpu m0 sp) ps b fc = Some t"
  shows "\<exists>n a. get_page (pid (running fc)) (sint n) m0 = Some (Some a) \<and> resumes v m0 sp ps fc b t n a"
proof -
  have "A1 = mem fc" using ff by (auto simp: fetch_def flat_cpu_def Let_def bind_eq_Some_conv split: option.splits fetched.splits)
  note ff = ff[unfolded this]
  obtain dir pg q0 a ins1 res q' r' A' where tr: "text_param \<lparr>ins_name = w, ins_params = map PText ws\<rparr> j = Some dir"
    "mmu_translate (flat_cpu m0 sp) ps (pid (running fc)) dir (mem fc) = Some (pg, mem fc)" "destroy_params (running fc) = Some q0"
    and pg: "pag_pid pg = pid (running fc)" "get_page (pid (running fc)) (sint (page_number pg)) m0 = Some (Some a)"
    and ins1: "ins1 = \<lparr>ins_name = w, ins_params = list_replace (map PText ws) j (PPage pg)\<rparr>"
    and ex: "execute (flat_cpu m0 sp) (q0\<lparr>instruccion := NORMAL\<rparr>) (regs fc) ins1 (mem fc) = Some (res, q', r', A')"
      "t = turn_end fc (interrupts fc @ b) (res, q', r', A')"
    using flat_address_turn[OF q ff sw f] by blast
  have "resumes v m0 sp ps fc b t (page_number pg) a"
    unfolding resumes_def
  proof (intro allI impI)
    fix c :: "'b memory cpu" and s arrived p0
    assume fo: "follows v m0 (mem c) s (mem fc)" and rg: "regs fc = regs c" "interrupts fc @ b = interrupts c @ arrived"
      and sm: "same_process (running c) (running fc)" "programCounter (running c) = programCounter (running fc)"
      and p0: "destroy_params (running c) = Some p0"
    have pp: "pid (running c) = pid (running fc)" using sm(1) by (simp add: same_process_def)
    obtain m1 m2 e where m: "fetch (paged_cpu v sp) (running c) (mem c) = Some (Some i, m1)" "follows v m0 m2 s (mem fc)"
      "store m2 = store (mem c)" "store (mem c) a = Some e"
      and d: "decode (paged_cpu v sp) ps (running c) i m1 = Some (if bit_precense e then (p0\<lparr>instruccion := NORMAL\<rparr>, ins1, m2)
        else (p0\<lparr>instruccion := PAGE_FAULT, params := PNum (page_number pg)\<rparr>, \<lparr>ins_name = w, ins_params = map PText ws\<rparr>, m2))"
      using paged_address_turn[OF fo pp sm(2) ff q sw p0 tr(1,2) pg] ins1 by auto
    show "if \<exists>e. store (mem c) a = Some e \<and> bit_precense e
       then \<exists>t'. instruction_cycle (paged_cpu v sp) ps arrived c = Some t' \<and> same_turn v m0 t' s t
       else \<exists>m'. follows v m0 m' s (mem fc) \<and> store m' = store (mem c) \<and> store m' a \<noteq> None
         \<and> instruction_cycle (paged_cpu v sp) ps arrived c = Some (Answer (c\<lparr>running := p0\<lparr>instruccion := PAGE_FAULT,
             params := PNum (page_number pg)\<rparr>, mem := m', interrupts := interrupts c @ arrived\<rparr>))"
    proof (cases "bit_precense e")
      case True
      have l: "like (p0\<lparr>instruccion := NORMAL\<rparr>) (q0\<lparr>instruccion := NORMAL\<rparr>)"
        using sm destroy_params_same[OF p0] destroy_params_same[OF tr(3)] by (auto simp: like_def same_process_def)
      have "present m2 (pag_pid pg) (page_number pg)"
        using pg m(3,4) True follows_page[OF m(2)] by (auto simp: present_def)
      then have "pages_present m2 ins1" unfolding ins1 by (rule replaced_pages_present)
      from execute_paged[OF m(2) lru l this ex(1)] obtain p' m' where
        e: "execute (paged_cpu v sp) (p0\<lparr>instruccion := NORMAL\<rparr>) (regs fc) ins1 m2 = Some (res, p', r', m')"
        "like p' q'" "follows v m0 m' s A'" by blast
      have "instruction_cycle (paged_cpu v sp) ps arrived c = Some (turn_end c (interrupts c @ arrived) (res, p', r', m'))"
        using instruction_cycle_end[OF m(1), of ps "p0\<lparr>instruccion := NORMAL\<rparr>" ins1 m2 arrived] d True e(1) rg(1) by simp
      then show ?thesis
        using turn_end_same[OF e(2,3), of c "interrupts c @ arrived" res r' fc] ex(2) rg(2) m(4) True by auto
    next
      case False
      then show ?thesis using m d by (auto simp: instruction_cycle_def intro!: exI[of _ m2])
    qed
  qed
  then show ?thesis using pg(2) by blast
qed

text \<open>The flat machine never faults.\<close>

lemma decode_flat_no_fault:
  assumes d: "decode (flat_cpu m0 sp) ps q i A = Some (q1, ins, A1)" and q: "pid q \<noteq> 0" "instruccion q \<noteq> PAGE_FAULT"
  shows "instruccion q1 \<noteq> PAGE_FAULT"
proof -
  obtain w ws where sw: "string_split (flat_cpu m0 sp) i = w # ws" using d by (auto simp: decode_def split: list.splits)
  show ?thesis
  proof (cases "address_param w")
    case None
    then show ?thesis using d q decode_address[OF sw, of ps q A] by simp
  next
    case (Some j)
    then have "translate_param (flat_cpu m0 sp) ps j q \<lparr>ins_name = w, ins_params = map PText ws\<rparr> A = Some (q1, ins, A1)"
      using d decode_address[OF sw, of ps q A] by simp
    from flat_translate[OF this q(1)] show ?thesis by auto
  qed
qed

lemma flat_cycle_no_fault:
  assumes f: "instruction_cycle (flat_cpu m0 sp) ps b fc = Some t" and q: "pid (running fc) \<noteq> 0" "instruccion (running fc) \<noteq> PAGE_FAULT"
  shows "case t of Down \<Rightarrow> True | Again c \<Rightarrow> instruccion (running c) \<noteq> PAGE_FAULT \<and> pid (running c) = pid (running fc)
     | Answer c \<Rightarrow> instruccion (running c) \<noteq> PAGE_FAULT"
proof -
  obtain found A1 where ff: "fetch (flat_cpu m0 sp) (running fc) (mem fc) = Some (found, A1)"
    using f by (auto simp: instruction_cycle_def bind_eq_Some_conv)
  show ?thesis
  proof (cases found)
    case None
    then show ?thesis using f ff by (auto simp: instruction_cycle_def)
  next
    case (Some i)
    note ff = ff[unfolded Some]
    obtain q1 ins A2 where d: "decode (flat_cpu m0 sp) ps (running fc) i A1 = Some (q1, ins, A2)"
      using f ff by (auto simp: instruction_cycle_def bind_eq_Some_conv)
    have n1: "instruccion q1 \<noteq> PAGE_FAULT" by (rule decode_flat_no_fault[OF d q])
    obtain res q2 r A3 where e: "execute (flat_cpu m0 sp) q1 (regs fc) ins A2 = Some (res, q2, r, A3)"
      "t = turn_end fc (interrupts fc @ b) (res, q2, r, A3)"
      using f instruction_cycle_end[OF ff d n1, of b] by auto
    have n2: "instruccion q2 \<noteq> PAGE_FAULT"
      using execute_same[OF e(1)] execute_no_fault[of "flat_cpu m0 sp" q1 "regs fc" ins A2 q2 r A3] e(1) n1 by (cases res) auto
    have p2: "pid q2 = pid (running fc)" using decode_same[OF d] execute_same[OF e(1)] by (simp add: same_process_def)
    obtain ch q' rest where k: "check_interrupt (if res = CONTINUE then q2\<lparr>programCounter := programCounter q2 + 1\<rparr> else q2)
        (interrupts fc @ b) = (ch, q', rest)" by (metis prod_cases3)
    note ck = check_interrupt_same[OF k] check_interrupt_not_fault[of _ _ q' rest]
    show ?thesis
      using e(2) k ck(1) ck(2)[of "if res = CONTINUE then q2\<lparr>programCounter := programCounter q2 + 1\<rparr> else q2" "interrupts fc @ b"] n2 p2
      by (cases "res = RETURN_CONTEXT"; cases ch) (auto simp: turn_end_def same_process_def)
  qed
qed

text \<open>An instruction without an address runs alike on both machines.\<close>

lemma plain_turn:
  assumes lru: "uses_lru v" and sm: "same_machine v m0 c s fc" and q: "instruccion (running fc) \<noteq> PAGE_FAULT"
    and ff: "fetch (flat_cpu m0 sp) (running fc) (mem fc) = Some (Some i, mem fc)"
    and m1: "fetch (paged_cpu v sp) (running c) (mem c) = Some (Some i, m1)" "follows v m0 m1 s (mem fc)"
    and sw: "fst sp i = w # ws" "address_param w = None"
    and f: "instruction_cycle (flat_cpu m0 sp) ps a fc = Some t"
  shows "\<exists>t'. instruction_cycle (paged_cpu v sp) ps a c = Some t' \<and> same_turn v m0 t' s t"
proof -
  have rg: "regs fc = regs c" "interrupts fc = interrupts c" and l: "like (running c) (running fc)"
    using sm by (simp_all add: same_machine_def)
  let ?ins = "\<lparr>ins_name = w, ins_params = map PText ws\<rparr>"
  have dq: "decode (flat_cpu m0 sp) ps (running fc) i A = Some (running fc, ?ins, A)" for A
    using sw by (subst decode_address[of _ _ w ws]) (simp_all add: flat_cpu_def)
  have dp: "decode (paged_cpu v sp) ps (running c) i m = Some (running c, ?ins, m)" for m
    using sw by (subst decode_address[of _ _ w ws]) (simp_all add: paged_cpu_def)
  obtain res q' r' A' where e: "execute (flat_cpu m0 sp) (running fc) (regs fc) ?ins (mem fc) = Some (res, q', r', A')"
    "t = turn_end fc (interrupts fc @ a) (res, q', r', A')"
    using f instruction_cycle_end[OF ff dq q, of a] by auto
  obtain p' m' where p': "execute (paged_cpu v sp) (running c) (regs fc) ?ins m1 = Some (res, p', r', m')"
    "like p' q'" "follows v m0 m' s A'"
    using execute_paged[OF m1(2) lru l text_pages_present e(1)] by blast
  have "instruction_cycle (paged_cpu v sp) ps a c = Some (turn_end c (interrupts c @ a) (res, p', r', m'))"
    using instruction_cycle_end[OF m1(1) dp, of a] q like_same[OF l] p'(1) rg(1) by simp
  then show ?thesis
    using turn_end_same[OF p'(2,3), of c "interrupts c @ a" res r' fc] e(2) rg(2) by auto
qed

text \<open>An instruction whose page is not present: after the service of the fault it runs again and goes on.\<close>

lemma fault_turn:
  assumes laws: "bitarray_laws (bits (mem_env v))" and lru: "uses_lru v" and sm: "same_machine v m0 c s fc"
    and b: "get_page (pid (running fc)) (sint n) m0 = Some (Some b)" and turn: "resumes v m0 sp ps fc a t n b"
    and p0: "destroy_params (running c) = Some p0" and absent: "\<not> (\<exists>e. store (mem c) b = Some e \<and> bit_precense e)"
  shows "\<exists>t' s'. served_turn v sp ps a c s = Some (t', s') \<and> same_turn v m0 t' s' t"
proof -
  have fo: "follows v m0 (mem c) s (mem fc)" and rg: "regs fc = regs c" "interrupts fc = interrupts c"
    and l: "like (running c) (running fc)" using sm by (simp_all add: same_machine_def)
  have spr: "same_process (running c) (running fc)" using l by (simp add: like_def)
  note ls = like_same[OF l]
  let ?p = "p0\<lparr>instruccion := PAGE_FAULT, params := PNum n\<rparr>"
  obtain m2 where m2: "follows v m0 m2 s (mem fc)" "store m2 = store (mem c)" "store m2 b \<noteq> None"
    "instruction_cycle (paged_cpu v sp) ps a c = Some (Answer (c\<lparr>running := ?p, mem := m2, interrupts := interrupts c @ a\<rparr>))"
    using turn[unfolded resumes_def, rule_format, OF fo rg(1) _ spr _ p0, of a] absent rg(2) ls by auto
  obtain e where e: "store m2 b = Some e" "\<not> bit_precense e" using m2(2,3) absent by auto
  have p0s: "same_process (running c) p0" "programCounter p0 = programCounter (running c)"
    using destroy_params_same[OF p0] by simp_all
  let ?pg = "page_new (pid ?p) n 0"
  have "get_page (pag_pid ?pg) (sint (page_number ?pg)) m2 = Some (Some b)"
    using b follows_page[OF m2(1)] p0s ls by (simp add: page_new_def same_process_def)
  from fault_turns_keeps[OF laws lru _ this e, of s] m2(1) obtain m3 s3 g where
    m3: "fault_turns v ?pg m2 s = Some (m3, s3)" "vm_ok v m3 s3" "resident m3 b g" "same_rest m2 m3"
    "\<And>x. contents (fs_config v) m3 s3 x = contents (fs_config v) m2 s x" by (auto simp: follows_def)
  have fo3: "follows v m0 m3 s3 (mem fc)"
    using m3 m2(1) same_rest_trans[of m0 m2 m3] by (simp add: follows_def fun_eq_iff)
  let ?c = "c\<lparr>running := ?p, interrupts := interrupts c @ a, mem := m3\<rparr>"
  have "\<exists>e. store (mem ?c) b = Some e \<and> bit_precense e" using m3(3) by (auto simp: resident_def)
  moreover have "same_process (running ?c) (running fc)" "destroy_params (running ?c) = Some ?p"
    using p0s spr by (simp_all add: same_process_def destroy_params_def)
  ultimately obtain t' where t': "instruction_cycle (paged_cpu v sp) ps [] ?c = Some t'" "same_turn v m0 t' s3 t"
    using turn[unfolded resumes_def, rule_format, of ?c s3 "[]" ?p] fo3 rg ls p0s(2) by auto
  have "served_turn v sp ps a c s = Some (t', s3)" using m2(4) m3(1) t'(1) by (simp add: served_turn_def)
  then show ?thesis using t'(2) by blast
qed

lemma served_turn_same:
  assumes laws: "bitarray_laws (bits (mem_env v))" and lru: "uses_lru v" and sm: "same_machine v m0 c s fc"
    and q: "pid (running fc) \<noteq> 0" "instruccion (running fc) \<noteq> PAGE_FAULT"
    and f: "instruction_cycle (flat_cpu m0 sp) ps a fc = Some t"
  shows "\<exists>t' s'. served_turn v sp ps a c s = Some (t', s') \<and> same_turn v m0 t' s' t"
proof -
  have fo: "follows v m0 (mem c) s (mem fc)" and rg: "regs fc = regs c" "interrupts fc = interrupts c"
    and l: "like (running c) (running fc)" using sm by (simp_all add: same_machine_def)
  note ls = like_same[OF l]
  have quiet: "\<exists>t' s'. served_turn v sp ps a c s = Some (t', s') \<and> same_turn v m0 t' s' t"
    if "instruction_cycle (paged_cpu v sp) ps a c = Some t'" "same_turn v m0 t' s t" for t'
  proof -
    have "served_turn v sp ps a c s = Some (t', s)"
      using that flat_cycle_no_fault[OF f q] by (cases t'; cases t) (auto simp: served_turn_def same_machine_def dest: like_same)
    then show ?thesis using that(2) by blast
  qed
  obtain found A1 where ff: "fetch (flat_cpu m0 sp) (running fc) (mem fc) = Some (found, A1)"
    using f by (auto simp: instruction_cycle_def bind_eq_Some_conv)
  have "A1 = mem fc" using ff by (auto simp: fetch_def flat_cpu_def Let_def bind_eq_Some_conv split: option.splits fetched.splits)
  note ff = ff[unfolded this]
  obtain m1 where m1: "fetch (paged_cpu v sp) (running c) (mem c) = Some (found, m1)" "follows v m0 m1 s (mem fc)"
    using paged_fetch[OF fo ff, of "running c"] ls by auto
  show ?thesis
  proof (cases found)
    case None
    then have "instruction_cycle (paged_cpu v sp) ps a c = Some Down" "t = Down"
      using m1 f ff by (auto simp: instruction_cycle_def)
    then show ?thesis using quiet by auto
  next
    case (Some i)
    note ff = ff[unfolded Some] and m1 = m1[unfolded Some]
    obtain q1 ins A2 where "decode (flat_cpu m0 sp) ps (running fc) i (mem fc) = Some (q1, ins, A2)"
      using f ff by (auto simp: instruction_cycle_def bind_eq_Some_conv)
    then obtain w ws where sw: "fst sp i = w # ws" by (auto simp: decode_def flat_cpu_def split: list.splits)
    show ?thesis
    proof (cases "address_param w")
      case None
      then show ?thesis using plain_turn[OF lru sm q(2) ff m1 sw None f] quiet by blast
    next
      case (Some j)
      from address_turn[OF lru q(1) ff sw Some f] obtain n b where
        b: "get_page (pid (running fc)) (sint n) m0 = Some (Some b)" and turn: "resumes v m0 sp ps fc a t n b" by blast
      obtain p0 where p0: "destroy_params (running c) = Some p0"
        using flat_address_turn[OF q(1) ff sw Some f] like_destroy[OF l] by blast
      show ?thesis
      proof (cases "\<exists>e. store (mem c) b = Some e \<and> bit_precense e")
        case True
        have "same_process (running c) (running fc)" using l by (simp add: like_def)
        then show ?thesis
          using turn[unfolded resumes_def, rule_format, OF fo rg(1) _ _ _ p0, of a] rg(2) ls True quiet by auto
      next
        case False
        then show ?thesis by (rule fault_turn[OF laws lru sm b turn p0])
      qed
    qed
  qed
qed

text \<open>
  C4. Programs do not see the paging. Let a process run on a flat memory in which all its pages
  are present, for any number of turns and with any interrupts. On the virtual memory with page
  faults that are served and restarted, LRU replacement and the swap in the file system, the same
  turns end the same way: the registers, the program counter, the reason for returning with its
  parameters and the contents of every page are those of the flat run.
\<close>

theorem programs_run_on_virtual_memory:
  assumes laws: "bitarray_laws (bits (mem_env v))" and lru: "uses_lru v" and sm: "same_machine v m0 c s fc"
    and q: "pid (running fc) \<noteq> 0" "instruccion (running fc) \<noteq> PAGE_FAULT"
    and f: "execute_loop (flat_cpu m0 sp) ps as fc = Some t"
  shows "\<exists>t' s'. served_loop v sp ps as c s = Some (t', s') \<and> same_turn v m0 t' s' t"
  using sm q f
proof (induction "flat_cpu m0 sp" ps as fc arbitrary: c s rule: execute_loop.induct)
  case (2 ps a as fc)
  then obtain t1 where t1: "instruction_cycle (flat_cpu m0 sp) ps a fc = Some t1" by (auto split: option.splits)
  obtain t' s' where t': "served_turn v sp ps a c s = Some (t', s')" "same_turn v m0 t' s' t1"
    using served_turn_same[OF laws lru 2(2-4) t1] by blast
  note nf = flat_cycle_no_fault[OF t1 2(3,4)]
  show ?case
  proof (cases t1)
    case (Again fc1)
    then obtain c1 where "t' = Again c1" "same_machine v m0 c1 s' fc1" using t'(2) by (cases t') auto
    then show ?thesis using 2(1)[OF t1 Again, of c1 s'] nf 2(3,5) t1 t'(1) Again by auto
  next
    case (Answer fc1)
    then show ?thesis using t' t1 2(5) by (cases t') auto
  next
    case Down
    then show ?thesis using t' t1 2(5) by (cases t') auto
  qed
qed auto

text \<open>The process of \<open>demo_vm\<close> with a program that reads the page that is not in memory.\<close>

definition demo_program :: "(nat \<Rightarrow> bool) memory" where
  "demo_program = demo_vm\<lparr>active_processes := [\<lparr>pr_pid = 1, pr_file_name = ''p'', pr_bytes = 32,
     instructions_set = [''MOV_IN AX 20'', ''EXIT'']\<rparr>]\<rparr>"

definition demo_machine :: "'m \<Rightarrow> 'm cpu" where
  "demo_machine m = \<lparr>running = demo_process, regs = create_empty_registers, mem = m, interrupts = []\<rparr>"

definition demo_splitter :: splitter where
  "demo_splitter = (split_words [], (\<lambda>a b. a = b))"

lemma demo_program_simps [simp]:
  "store demo_program = store demo_vm" "get_page p n demo_program = get_page p n demo_vm"
  "page_size demo_program = 16" "access_ok demo_program (Load 1 1 4)" "page_of demo_program 1 1 = 1"
  "fetch_next_instruction 1 0 demo_program = Some (Duplicate ''MOV_IN AX 20'')"
  "fetch_next_instruction 1 1 demo_program = Some (Duplicate ''EXIT'')"
proof -
  show g: "get_page p n demo_program = get_page p n demo_vm" for p n
    by (simp add: demo_program_def get_page_def search_page_table_def)
  show "store demo_program = store demo_vm" "page_size demo_program = 16"
    by (simp_all add: demo_program_def demo_vm_def init_real_memory_def)
  then show "access_ok demo_program (Load 1 1 4)" "page_of demo_program 1 1 = 1"
    using g demo_vm_ok(5) by (simp_all add: access_ok_def page_of_def) (simp add: demo_vm_def)
  show "fetch_next_instruction 1 0 demo_program = Some (Duplicate ''MOV_IN AX 20'')"
    "fetch_next_instruction 1 1 demo_program = Some (Duplicate ''EXIT'')"
    by (simp_all add: fetch_next_instruction_def search_process_def demo_program_def list_get_def)
qed

lemma demo_flat_run:
  assumes A: "A 1 = Some (replicate 16 48)"
  shows "\<exists>c. execute_loop (flat_cpu demo_program demo_splitter) 16 [[], []] (demo_machine A) = Some (Answer c)
     \<and> AX (regs c) = 808464432"
proof -
  have str: "cstr_of_bytes (bytes_of_cstr ''MOV_IN AX 20'') = ''MOV_IN AX 20''" "cstr_of_bytes (bytes_of_cstr ''EXIT'') = ''EXIT''"
    "split_words [] ''MOV_IN AX 20'' = [''MOV_IN'', ''AX'', ''20'']" "split_words [] ''EXIT'' = [''EXIT'']" "atoi ''20'' = 20"
    by (code_simp, code_simp, code_simp, code_simp, code_simp)
  have "replicate 4 48 = [48, 48, 48, 48 :: u8]" by (simp add: eval_nat_numeral)
  then have r: "mem_read (replicate 16 48) 4 4 = Some [48, 48, 48, 48]" "u32_of_bytes 48 48 48 48 = 808464432"
    by (simp_all add: mem_read_def u32_of_bytes_def)
  let ?p = "demo_process\<lparr>programCounter := 1\<rparr>"
  let ?c = "(demo_machine A)\<lparr>running := ?p, regs := create_empty_registers\<lparr>AX := 808464432\<rparr>\<rparr>"
  have "instruction_cycle (flat_cpu demo_program demo_splitter) 16 [] (demo_machine A) = Some (Again ?c)"
    using A r str demo_vm_ok(5)
    by (simp add: instruction_cycle_def fetch_def decode_def translate_param_def mmu_translate_def execute_def execute_files_def mov_in_reg_def
        destroy_params_def demo_machine_def demo_process_def crear_pcb_def demo_splitter_def flat_cpu_def text_param_def
        page_param_def list_get_def list_replace_def page_new_def Let_def select_register_def u32_codec.dec_enc_nil)
  moreover have "\<exists>c. instruction_cycle (flat_cpu demo_program demo_splitter) 16 [] ?c = Some (Answer c) \<and> AX (regs c) = 808464432"
    using str
    by (simp add: instruction_cycle_def fetch_def decode_def execute_def execute_files_def destroy_params_def demo_machine_def
        demo_process_def crear_pcb_def demo_splitter_def flat_cpu_def Let_def)
  ultimately show ?thesis by auto
qed

theorem programs_run_on_virtual_memory_witness:
  "\<exists>c s. served_loop demo_vm_run demo_splitter 16 [[], []] (demo_machine demo_program) demo_fs = Some (Answer c, s)
     \<and> AX (regs c) = 808464432"
proof -
  let ?A = "contents demo_cfg demo_program demo_fs"
  have b: "bits (mem_env demo_vm_run) = demo_bits" "fs_config demo_vm_run = demo_cfg"
    by (simp_all add: demo_vm_run_def demo_vm_env_def)
  have laws: "bitarray_laws (bits (mem_env demo_vm_run))" using demo_bits_laws by (simp add: b)
  have lru: "uses_lru demo_vm_run" by (simp add: uses_lru_def demo_vm_run_def)
  have r: "resident demo_program a f = resident demo_vm a f" "frame_content demo_program f = frame_content demo_vm f" for a f
    by (simp_all add: resident_def) (simp add: demo_program_def frame_content_def read_frame_def)
  have z: "page_size demo_vm = 16" by (simp add: demo_vm_def init_real_memory_def)
  have "frames_ok demo_bits demo_program = frames_ok demo_bits demo_vm" unfolding frames_ok_def r
    by (simp add: demo_program_def total_frames_def)
  then have pk: "paging_ok demo_bits demo_cfg demo_program demo_fs" using demo_vm_ok(1) r z by (simp add: paging_ok_def)
  have "lru_ok demo_bits demo_program"
    by (auto simp: lru_ok_def r) (auto simp: demo_program_def demo_vm_def init_real_memory_def resident_def page_create_def
        demo_bits_def total_frames_def split: if_splits)
  then have ok: "vm_ok demo_vm_run demo_program demo_fs"
    using pk by (simp add: vm_ok_def b) (simp add: demo_program_def demo_vm_def init_real_memory_def)
  then have sm: "same_machine demo_vm_run demo_program (demo_machine demo_program) demo_fs (demo_machine ?A)"
    by (simp add: same_machine_def follows_def same_rest_def demo_machine_def b)
  have "swap_image demo_cfg (block_map demo_fs) 1 = Some (replicate 16 48)" by code_simp
  then have "?A 1 = Some (replicate 16 48)" by (simp add: contents_def demo_vm_def page_create_def)
  then obtain fc where fc: "execute_loop (flat_cpu demo_program demo_splitter) 16 [[], []] (demo_machine ?A) = Some (Answer fc)"
    "AX (regs fc) = 808464432" using demo_flat_run by blast
  have q: "pid (running (demo_machine ?A)) \<noteq> 0" "instruccion (running (demo_machine ?A)) \<noteq> PAGE_FAULT"
    by (simp_all add: demo_machine_def demo_process_def crear_pcb_def)
  from programs_run_on_virtual_memory[OF laws lru sm q fc(1)] obtain t s where
    "served_loop demo_vm_run demo_splitter 16 [[], []] (demo_machine demo_program) demo_fs = Some (t, s)"
    "same_turn demo_vm_run demo_program t s (Answer fc)" by blast
  then show ?thesis using fc(2) by (cases t) (auto simp: same_machine_def)
qed

end
