(* ===== verification/File_Transfer.thy ===== *)
theory File_Transfer
  imports Virtual_Memory
begin

text \<open>
  The instructions \<open>F_WRITE\<close> and \<open>F_READ\<close> across the file system and the memory: a page goes to
  a block of a file and back to a page. Then two ways in which these transfers break the isolation
  of the pages: a transfer to a page that has left the memory, and files that lie over the swap.
\<close>

section \<open>The two services\<close>

text \<open>
  \<open>F_WRITE\<close>: the file system asks the memory for the page and writes its answer to the file; its
  thread for the memory answers the kernel.
\<close>

definition file_write_service :: "'b mem_env \<Rightarrow> fs_env \<Rightarrow> t_fs_config \<Rightarrow> t_pcb \<Rightarrow> 'b memory \<Rightarrow> filesystem
    \<Rightarrow> ('b memory \<times> filesystem) option" where
  "file_write_service env fse cfg p m s = do {
     s \<leftarrow> wait_for_commands fse cfg KRL (F_WRITE p) s;
     page \<leftarrow> (case last (fs_sent s) of (MemorySocket, FsPage code pg) \<Rightarrow> if code = 17 then Some pg else None | _ \<Rightarrow> None);
     m \<leftarrow> wait_for_command env PFilesystem (MOV_IN_FS page) m;
     data \<leftarrow> (case last (mem_sent m) of (PFilesystem, MPackage pkg) \<Rightarrow> Some (buffer pkg) | _ \<Rightarrow> None);
     s \<leftarrow> wait_for_commands fse cfg MRY (MOV_IN_DONE data) s;
     Some (m, s) }"

text \<open>\<open>F_READ\<close>: the block of the file is sent to the memory, and its answer is passed to the kernel.\<close>

definition file_read_service :: "'b mem_env \<Rightarrow> fs_env \<Rightarrow> t_fs_config \<Rightarrow> t_pcb \<Rightarrow> 'b memory \<Rightarrow> filesystem
    \<Rightarrow> ('b memory \<times> filesystem) option" where
  "file_read_service env fse cfg p m s = do {
     s \<leftarrow> wait_for_commands fse cfg KRL (F_READ p) s;
     d \<leftarrow> (case last (fs_sent s) of (MemorySocket, FsMovOut code d) \<Rightarrow> if code = 18 then Some d else None | _ \<Rightarrow> None);
     m \<leftarrow> wait_for_command env PFilesystem (MOV_OUT_FS d) m;
     ok \<leftarrow> (case last (mem_sent m) of (PFilesystem, MPackage pkg) \<Rightarrow> map_option fst (rd_u32 (buffer pkg)) | _ \<Rightarrow> None);
     s \<leftarrow> wait_for_commands fse cfg MRY (MOV_OUT_DONE ok) s;
     Some (m, s) }"

section \<open>The memory side\<close>

text \<open>The memory after a whole page has been written to the frame of the entry \<open>a\<close>.\<close>

definition page_stored :: "nat \<Rightarrow> t_page_entry \<Rightarrow> u8 list \<Rightarrow> 'b memory \<Rightarrow> 'b memory" where
  "page_stored a e fs m = m\<lparr>frames := fs, last_page_referenced := Some a, sort_pages := sort_pages m + 1,
     store := (store m)(a \<mapsto> e\<lparr>bit_modified := True\<rparr>),
     mem_sent := mem_sent m @ [(PFilesystem, MPackage (create_integer_package 18 0))]\<rparr>"

lemma mov_out_fs_effect:
  assumes ok: "frames_ok ba m" and p: "get_page p (sint n) m = Some (Some a)" and e: "store m a = Some e"
    and f: "0 \<le> frame_number e" "frame_number e < int (total_frames m)"
    and d: "length data = nat (page_size m)" "unat sz = nat (page_size m)"
  shows "\<exists>fs. mem_write (frames m) (nat (frame_number e) * nat (page_size m)) data = Some fs
     \<and> mov_out_fs PFilesystem (page_for_mov_out_fs p n disp data sz) m = Some (page_stored a e fs m)"
proof -
  have ps: "0 < page_size m" using ok by (simp add: frames_ok_def)
  have nn: "\<not> frame_number e * page_size m < 0" using f(1) ps by (simp add: not_less)
  have ad: "nat (frame_number e * page_size m) = nat (frame_number e) * nat (page_size m)"
    using f(1) ps by (simp add: nat_mult_distrib)
  obtain fs where w: "mem_write (frames m) (nat (frame_number e) * nat (page_size m)) data = Some fs"
    using mem_write_defined frame_room[OF ok f] d(1) by metis
  have "mem_read data 0 (unat sz) = Some data" using d by (simp add: mem_read_def)
  then show ?thesis
    using referenced_spec[OF p e] w nn ad
    by (simp add: mov_out_fs_def page_for_mov_out_fs_def write_on_frame_def set_entry_def reply_def mem_send_def page_stored_def)
qed

lemma page_stored_content:
  assumes ps: "0 < page_size m" and f: "0 \<le> frame_number e" and d: "length data = nat (page_size m)"
    and w: "mem_write (frames m) (nat (frame_number e) * nat (page_size m)) data = Some fs"
  shows "frame_content (page_stored a e fs m) (frame_number e) = Some data"
    and "\<And>g. 0 \<le> g \<Longrightarrow> g \<noteq> frame_number e \<Longrightarrow> frame_content (page_stored a e fs m) g = frame_content m g"
proof -
  show "frame_content (page_stored a e fs m) (frame_number e) = Some data"
    using frame_store.get_put_same[OF w d] ps f by (simp add: frame_content_block page_stored_def)
  fix g assume g: "0 \<le> g" "g \<noteq> frame_number e"
  then have "nat (frame_number e) \<noteq> nat g" using f by linarith
  from frame_store.get_put_other[OF w d this] show "frame_content (page_stored a e fs m) g = frame_content m g"
    using ps g(1) by (simp add: frame_content_block page_stored_def)
qed

lemma mov_in_fs_effect:
  assumes p: "get_page (pag_pid pg) (sint (page_number pg)) m = Some (Some a)" and e: "store m a = Some e"
    and c: "frame_content m (frame_number e) = Some c"
  shows "mov_in_fs PFilesystem pg m = Some (reply PFilesystem
     (create_void_package 17 (word_of_int (page_size m)) c) (m\<lparr>last_page_referenced := Some a, sort_pages := sort_pages m + 1\<rparr>))"
proof -
  have "read_frame m (frame_number e * page_size m) (page_size m) = Some c" using c by (simp add: frame_content_def)
  then have "read_frame (m\<lparr>last_page_referenced := Some a, sort_pages := sort_pages m + 1\<rparr>)
      (frame_number e * page_size m) (page_size m) = Some c" by (auto simp: read_frame_def split: if_splits)
  then show ?thesis using referenced_spec[OF p e] by (simp add: mov_in_fs_def)
qed

text \<open>
  C37. A transfer to a page that has left the memory. The handler of \<open>MOV_OUT_FS\<close> does not look at
  the presence bit: for a page that was replaced while its process waited for the file system,
  the block of the file is written over the frame the page had, which is now the page of another
  process; the answer is that all went well and the page itself keeps its old content in the swap.
\<close>

theorem late_transfer_overwrites_frame:
  assumes ok: "frames_ok ba m" and p: "get_page p (sint n) m = Some (Some a)"
    and e: "store m a = Some e" "\<not> bit_precense e" and b: "resident m b (frame_number e)"
    and d: "length data = nat (page_size m)" "unat sz = nat (page_size m)"
  shows "\<exists>m'. wait_for_command env PFilesystem (MOV_OUT_FS (page_for_mov_out_fs p n disp data sz)) m = Some m'
     \<and> mem_sent m' = mem_sent m @ [(PFilesystem, MPackage (create_integer_package 18 0))]
     \<and> contents cfg m' s b = Some data \<and> contents cfg m' s a = contents cfg m s a \<and> a \<noteq> b"
proof -
  have ab: "a \<noteq> b" using e b by (auto simp: resident_def)
  have f: "0 \<le> frame_number e" "frame_number e < int (total_frames m)" and ps: "0 < page_size m"
    using ok b by (auto simp: frames_ok_def)
  obtain fs where w: "mem_write (frames m) (nat (frame_number e) * nat (page_size m)) data = Some fs"
    and m': "mov_out_fs PFilesystem (page_for_mov_out_fs p n disp data sz) m = Some (page_stored a e fs m)"
    using mov_out_fs_effect[OF ok p e(1) f d] by blast
  have c: "frame_content (page_stored a e fs m) (frame_number e) = Some data"
    by (rule page_stored_content(1)[OF ps f(1) d(1) w])
  obtain eb where eb: "store m b = Some eb" "bit_precense eb" "frame_number eb = frame_number e"
    using b by (auto simp: resident_def)
  have "contents cfg (page_stored a e fs m) s b = Some data"
    using eb c ab by (simp add: contents_def page_stored_def)
  moreover have "contents cfg (page_stored a e fs m) s a = contents cfg m s a"
    using e by (simp add: contents_def page_stored_def)
  ultimately show ?thesis using m' ab by (intro exI[of _ "page_stored a e fs m"]) (simp add: page_stored_def)
qed

section \<open>The file side\<close>

text \<open>
  C38. Files lie over the swap. The blocks of the files start \<open>block_swap_count\<close> bytes into the block
  file, which is inside the swap: a write to a file whose place is below the end of the swap changes
  the content of the page, of whatever process, that is swapped out there.
\<close>

theorem file_write_overwrites_swap:
  assumes ok: "fat_ok cfg (fat_list s)" "map_ok cfg (block_map s)" and sw: "block_swap_count cfg < block_total_count cfg"
    and f: "file_chain s name bs" and p: "0 \<le> pos" "pos < 2 ^ 31" "nat (pos div block_size cfg) < length bs"
    and d: "length data = nat (block_size cfg)"
    and over: "file_offset cfg pos < block_swap_count cfg * block_size cfg"
    and e: "store m a = Some e" "\<not> bit_precense e" "sint (swap_position e) = file_offset cfg pos div block_size cfg"
  shows "\<exists>s' c. write_file cfg name pos data s = Some s' \<and> contents cfg m s' a = Some c
     \<and> c ! nat (file_offset cfg pos mod block_size cfg) = data ! 0"
proof -
  let ?o = "file_offset cfg pos" and ?bs = "block_size cfg"
  have b: "0 < ?bs" "0 \<le> block_swap_count cfg" and len: "int (length (block_map s)) = block_total_count cfg * ?bs"
    using ok(2) by (simp_all add: map_ok_def)
  have o: "0 \<le> ?o" by (rule file_block(5)[OF b p(1,2)])
  have "(block_swap_count cfg + 1) * ?bs \<le> block_total_count cfg * ?bs" using sw b(1) by (intro mult_right_mono) auto
  then have "?o + ?bs \<le> int (length (block_map s))" using over len by (simp add: distrib_right)
  from write_file_effect[OF ok(1) b f p d this] obtain m' where m': "mem_write (block_map s) (nat ?o) data = Some m'"
    "write_file cfg name pos data s = Some (s\<lparr>block_map := m'\<rparr>)" by blast
  let ?i = "nat (?o div ?bs)" and ?r = "nat (?o mod ?bs)"
  have "?o div ?bs * ?bs + ?o mod ?bs = ?o" by (rule div_mult_mod_eq)
  moreover have q: "0 \<le> ?o div ?bs" "0 \<le> ?o mod ?bs" "?o mod ?bs < ?bs" using o b(1) by (simp_all add: pos_imp_zdiv_nonneg_iff)
  ultimately have at: "?i * nat ?bs + ?r = nat ?o" using b(1) by (simp add: flip: nat_mult_distrib nat_add_distrib)
  have "?o div ?bs * ?bs < block_swap_count cfg * ?bs" using over q at b(1) div_mult_mod_eq[of ?o ?bs] by linarith
  then have "?o div ?bs < block_swap_count cfg" using b(1) by simp
  moreover have lm: "length m' = length (block_map s)" by (rule mem_write_length[OF m'(1)])
  then have mp: "map_ok cfg m'" using ok(2) by (simp add: map_ok_def)
  ultimately obtain c where c: "swap_image cfg m' ?i = Some c" using swap_image_defined[OF mp q(1)] by blast
  have rb: "?r < nat ?bs" using q b(1) by simp
  have lw: "nat ?o + length data \<le> length (block_map s)" using m'(1) by (auto simp: mem_write_def split: if_splits)
  then have "m' ! nat ?o = data ! 0" using mem_write_nth[OF m'(1), of "nat ?o"] d b(1) by simp
  moreover have "c ! ?r = m' ! (?i * nat ?bs + ?r)"
    using c rb by (auto simp: swap_image_def mem_read_def split: if_splits)
  ultimately have "c ! ?r = data ! 0" unfolding at by simp
  then show ?thesis using m'(2) e c by (intro exI[of _ "s\<lparr>block_map := m'\<rparr>"] exI[of _ c]) (simp add: contents_def)
qed

lemma file_write_service_effect:
  assumes ok: "fat_ok cfg (fat_list s)" "0 < block_size cfg" "0 \<le> block_swap_count cfg" and fo: "frames_ok ba m"
    and w: "params p = PModify d" "open_entry_of d p = Some e"
    and f: "file_chain s (openf_file e) bs" and pos: "0 \<le> sint (seek e)" "nat (sint (seek e) div block_size cfg) < length bs"
    and inside: "file_offset cfg (sint (seek e)) + block_size cfg \<le> int (length (block_map s))"
    and pg: "get_page (pag_pid (fm_page d)) (sint (page_number (fm_page d))) m = Some (Some a)" "store m a = Some pe"
      "bit_precense pe" and ps: "page_size m = block_size cfg"
  shows "\<exists>m1 s1 c. file_write_service env fse cfg p m s = Some (m1, s1) \<and> frame_content m (frame_number pe) = Some c
     \<and> mem_write (block_map s) (nat (file_offset cfg (sint (seek e)))) c = Some (block_map s1)
     \<and> fat_list s1 = fat_list s \<and> fcbs s1 = fcbs s \<and> last (fs_sent s1) = (KernelSocket, FsPackage (create_integer_package 23 0))
     \<and> frames m1 = frames m \<and> store m1 = store m \<and> page_size m1 = page_size m \<and> memory_size m1 = memory_size m
     \<and> frame_table m1 = frame_table m \<and> page_tables m1 = page_tables m"
proof -
  have r: "resident m a (frame_number pe)" using pg by (simp add: resident_def)
  obtain c where c: "frame_content m (frame_number pe) = Some c" "length c = nat (block_size cfg)"
    using frame_content_defined[OF fo r] ps by auto
  let ?s1 = "fs_send MemorySocket (FsPage 17 (fm_page d)) (s\<lparr>pcb_write := Some p, modify_data := Some d, seek_data_write := Some e\<rparr>)"
  have s1: "wait_for_commands fse cfg KRL (F_WRITE p) s = Some ?s1" using w by (simp add: f_write_command_def)
  have m1: "wait_for_command env PFilesystem (MOV_IN_FS (fm_page d)) m = Some (reply PFilesystem
      (create_void_package 17 (word_of_int (page_size m)) c) (m\<lparr>last_page_referenced := Some a, sort_pages := sort_pages m + 1\<rparr>))"
    using mov_in_fs_effect[OF pg(1,2) c(1)] by simp
  have k31: "sint (seek e) < 2 ^ 31" using sint_lt[of "seek e"] by simp
  have "file_chain ?s1 (openf_file e) bs" using f file_chain_cong[of ?s1 s] by (simp add: fs_send_def)
  moreover have "fat_list ?s1 = fat_list s" "block_map ?s1 = block_map s" by (simp_all add: fs_send_def)
  ultimately obtain b where b: "mem_write (block_map s) (nat (file_offset cfg (sint (seek e)))) c = Some b"
    "write_file cfg (openf_file e) (sint (seek e)) c ?s1 = Some (?s1\<lparr>block_map := b\<rparr>)"
    using write_file_effect[OF _ ok(2,3) _ pos(1) k31 pos(2) c(2), of ?s1 "openf_file e"] ok(1) inside by auto
  then show ?thesis using s1 m1 c(1)
    by (simp add: file_write_service_def fs_send_def fs_reply_def reply_def mem_send_def mov_in_command_def
        create_void_package_def create_empty_package_def)
qed

text \<open>The service of a read whose block is \<open>c\<close>: the frame of the destination receives it.\<close>

lemma file_read_service_effect:
  assumes fo: "frames_ok ba m" and r: "params q = PModify d'" "open_entry_of d' q = Some e'"
    and rd: "read_file cfg (openf_file e') (sint (seek e')) s = Some (Some c)" and lc: "length c = nat (page_size m)"
    and ps: "page_size m = block_size cfg" "0 < block_size cfg" "block_size cfg < 2 ^ 31"
    and dst: "get_page (pid q) (sint (page_number (fm_page d'))) m = Some (Some b)" "store m b = Some pe'" "bit_precense pe'"
  shows "\<exists>m2 s2. file_read_service env fse cfg q m s = Some (m2, s2) \<and> frame_content m2 (frame_number pe') = Some c
     \<and> (\<forall>x g. x \<noteq> b \<longrightarrow> resident m x g \<longrightarrow> resident m2 x g \<and> frame_content m2 g = frame_content m g)
     \<and> last (fs_sent s2) = (KernelSocket, FsPackage (create_integer_package 22 0))"
proof -
  let ?n = "page_number (fm_page d')"
  let ?d = "page_for_mov_out_fs (pid q) ?n (displacement (fm_page d')) c (word_of_int (block_size cfg))"
  let ?s2 = "fs_send MemorySocket (FsMovOut 18 ?d) (s\<lparr>modify_data := None\<rparr>)"
  have s2: "wait_for_commands fse cfg KRL (F_READ q) s = Some ?s2" using r rd by (simp add: f_read_command_def)
  have rb: "resident m b (frame_number pe')" using dst by (simp add: resident_def)
  then have fb: "0 \<le> frame_number pe'" "frame_number pe' < int (total_frames m)" and ps1: "0 < page_size m"
    using fo by (auto simp: frames_ok_def total_frames_def)
  have "unat (word_of_int (block_size cfg) :: u32) = nat (page_size m)"
    using ps by (simp add: unat_eq_nat_uint uint_word_of_int take_bit_int_eq_self)
  then obtain fs where wr: "mem_write (frames m) (nat (frame_number pe') * nat (page_size m)) c = Some fs"
    "mov_out_fs PFilesystem ?d m = Some (page_stored b pe' fs m)"
    using mov_out_fs_effect[OF fo dst(1,2) fb lc] by blast
  let ?m2 = "page_stored b pe' fs m"
  note pc = page_stored_content[OF ps1 fb(1) lc wr(1)]
  have "resident ?m2 x g \<and> frame_content ?m2 g = frame_content m g" if "x \<noteq> b" "resident m x g" for x g
  proof -
    have "0 \<le> g" "g \<noteq> frame_number pe'" using fo that rb unfolding frames_ok_def by metis+
    then show ?thesis using pc(2) that by (simp add: resident_def page_stored_def)
  qed
  moreover have "file_read_service env fse cfg q m s = Some (?m2, fs_reply KernelSocket 22 0 ?s2)"
    using s2 wr(2)
    by (simp add: file_read_service_def) (simp add: fs_send_def page_stored_def create_integer_package_def
        create_empty_package_def u32_codec.dec_enc_nil)
  moreover have "last (fs_sent (fs_reply KernelSocket 22 0 ?s2)) = (KernelSocket, FsPackage (create_integer_package 22 0))"
    by (simp add: fs_reply_def fs_send_def)
  ultimately show ?thesis using pc(1) by blast
qed

text \<open>
  C21. A page through a file. \<open>F_WRITE\<close> of a page in memory at a position inside a file and a later
  \<open>F_READ\<close> of the same position to another page succeed: the second page has the content of the
  first, no other page that is in memory has changed (one in the swap may have:
  \<open>file_write_overwrites_swap\<close>), and the kernel gets the answers of both.
\<close>

theorem files_move_pages:
  assumes ok: "fat_ok cfg (fat_list s)" "0 < block_size cfg" "0 \<le> block_swap_count cfg" and fo: "frames_ok ba m"
    and ps: "page_size m = block_size cfg" "block_size cfg < 2 ^ 31"
    and w: "params p = PModify d" "open_entry_of d p = Some e" and r: "params q = PModify d'" "open_entry_of d' q = Some e'"
    and same: "openf_file e' = openf_file e" "seek e' = seek e"
    and f: "file_chain s (openf_file e) bs" and pos: "0 \<le> sint (seek e)" "nat (sint (seek e) div block_size cfg) < length bs"
    and inside: "file_offset cfg (sint (seek e)) + block_size cfg \<le> int (length (block_map s))"
    and src: "get_page (pag_pid (fm_page d)) (sint (page_number (fm_page d))) m = Some (Some a)" "store m a = Some pe" "bit_precense pe"
    and dst: "get_page (pid q) (sint (page_number (fm_page d'))) m = Some (Some b)" "store m b = Some pe'" "bit_precense pe'"
  shows "\<exists>m1 s1 m2 s2 c. file_write_service env fse cfg p m s = Some (m1, s1) \<and> file_read_service env fse cfg q m1 s1 = Some (m2, s2)
     \<and> frame_content m (frame_number pe) = Some c \<and> frame_content m2 (frame_number pe') = Some c
     \<and> (\<forall>x g. x \<noteq> b \<longrightarrow> resident m x g \<longrightarrow> resident m2 x g \<and> frame_content m2 g = frame_content m g)
     \<and> last (fs_sent s1) = (KernelSocket, FsPackage (create_integer_package 23 0))
     \<and> last (fs_sent s2) = (KernelSocket, FsPackage (create_integer_package 22 0))"
proof -
  obtain m1 s1 c where m1: "file_write_service env fse cfg p m s = Some (m1, s1)" "frame_content m (frame_number pe) = Some c"
    "mem_write (block_map s) (nat (file_offset cfg (sint (seek e)))) c = Some (block_map s1)"
    "fat_list s1 = fat_list s" "fcbs s1 = fcbs s" "last (fs_sent s1) = (KernelSocket, FsPackage (create_integer_package 23 0))"
    "frames m1 = frames m" "store m1 = store m" "page_size m1 = page_size m" "memory_size m1 = memory_size m"
    "frame_table m1 = frame_table m" "page_tables m1 = page_tables m"
    using file_write_service_effect[OF ok fo w f pos inside src ps(1)] by blast
  have "resident m a (frame_number pe)" using src by (simp add: resident_def)
  then have lc: "length c = nat (page_size m)" using frame_content_defined[OF fo] m1(2) by fastforce
  have rd: "read_file cfg (openf_file e') (sint (seek e')) s1 = Some (Some c)"
  proof -
    have "sint (seek e) < 2 ^ 31" using sint_lt[of "seek e"] by simp
    moreover have "file_chain s1 (openf_file e) bs" "fat_ok cfg (fat_list s1)"
      using f ok(1) m1(4,5) file_chain_cong[of s1 s] by simp_all
    ultimately show ?thesis
      using read_file_effect[of cfg s1 "sint (seek e)" "openf_file e" bs] ok(2,3) pos same mem_read_write_same[OF m1(3)] lc ps by simp
  qed
  have rs: "resident m1 x g = resident m x g" "frame_content m1 g = frame_content m g" for x g
    using m1 by (simp_all add: resident_def frame_content_def read_frame_def)
  have fo1: "frames_ok ba m1" using fo m1 rs unfolding frames_ok_def by (simp add: total_frames_def)
  have dst1: "get_page (pid q) (sint (page_number (fm_page d'))) m1 = Some (Some b)" "store m1 b = Some pe'"
    using dst m1(8,12) by (simp_all add: get_page_def search_page_table_def)
  have "length c = nat (page_size m1)" "page_size m1 = block_size cfg" using lc ps m1(9) by simp_all
  from file_read_service_effect[OF fo1 r rd this ok(2) ps(2) dst1 dst(3), unfolded rs]
  show ?thesis using m1(1,2,6) by blast
qed

section \<open>Concrete transfers\<close>

text \<open>Page 0 of process 1 had frame 2, which is now the page of process 2.\<close>

definition demo_replaced :: "(nat \<Rightarrow> bool) memory" where
  "demo_replaced = demo_memory\<lparr>store := [0 \<mapsto> page_create 1 False False 2 0 0, 1 \<mapsto> page_create 2 False True 2 0 1],
     page_tables := [(1, [0]), (2, [1])], frame_table := (\<lambda>i. i = 2)\<rparr>"

theorem late_transfer_overwrites_frame_witness:
  "\<exists>m'. wait_for_command demo_vm_env PFilesystem (MOV_OUT_FS (page_for_mov_out_fs 1 0 0 (replicate 16 9) 16)) demo_replaced = Some m'
     \<and> contents demo_cfg m' demo_fs 1 = Some (replicate 16 9)"
proof -
  have ok: "frames_ok demo_bits demo_replaced"
    by (auto simp: frames_ok_def demo_replaced_def demo_memory_def init_real_memory_def resident_def page_create_def
        total_frames_def demo_bits_def split: if_splits)
  have p: "get_page 1 (sint (0 :: c_int)) demo_replaced = Some (Some 0)"
    by (simp add: demo_replaced_def get_page_def search_page_table_def list_get_def)
  have e: "store demo_replaced 0 = Some (page_create 1 False False 2 0 0)" "\<not> bit_precense (page_create 1 False False 2 0 0)"
    by (simp_all add: demo_replaced_def page_create_def)
  have b: "resident demo_replaced 1 (frame_number (page_create 1 False False 2 0 0))"
    by (simp add: resident_def demo_replaced_def page_create_def)
  have d: "length (replicate 16 (9 :: u8)) = nat (page_size demo_replaced)" "unat (16 :: u32) = nat (page_size demo_replaced)"
    by (simp_all add: demo_replaced_def demo_memory_def init_real_memory_def)
  from late_transfer_overwrites_frame[OF ok p e b d, of demo_vm_env 0 demo_cfg demo_fs] show ?thesis by blast
qed

theorem file_write_overwrites_swap_witness:
  "\<exists>s' c. write_file demo_cfg ''a'' 17 (replicate 16 9) demo_fs = Some s' \<and> contents demo_cfg demo_vm s' 1 = Some c \<and> c ! 2 = 9"
proof -
  have "sint (swap_position (page_create 1 False False 0 1 1)) = file_offset demo_cfg 17 div block_size demo_cfg"
    by (simp add: page_create_def file_offset_def demo_cfg_def)
  moreover have "nat (file_offset demo_cfg 17 mod block_size demo_cfg) = 2" by (simp add: file_offset_def demo_cfg_def)
  moreover have "store demo_vm 1 = Some (page_create 1 False False 0 1 1)" by (simp add: demo_vm_def)
  moreover have "block_swap_count demo_cfg < block_total_count demo_cfg" "nat (17 div block_size demo_cfg) < length [1, 2, 3 :: int]"
    "length (replicate 16 (9 :: u8)) = nat (block_size demo_cfg)"
    "file_offset demo_cfg 17 < block_swap_count demo_cfg * block_size demo_cfg"
    by (simp_all add: file_offset_def demo_cfg_def)
  ultimately show ?thesis
    using file_write_overwrites_swap[OF demo_fs_ok(1,2) _ demo_fs_ok(8), of 17 "replicate 16 9" demo_vm 1 "page_create 1 False False 0 1 1"]
    by (auto simp: page_create_def)
qed

definition demo_two_pages :: "(nat \<Rightarrow> bool) memory" where
  "demo_two_pages = demo_memory\<lparr>store := [0 \<mapsto> page_create 1 False True 2 0 0, 1 \<mapsto> page_create 1 False True 3 1 1],
     frame_table := (\<lambda>i. i = 2 \<or> i = 3), frames := replicate 32 0 @ replicate 16 7 @ replicate 16 0\<rparr>"

definition demo_transfer :: "c_int \<Rightarrow> t_fmodify" where
  "demo_transfer n = \<lparr>fm_file_name = ''a'', fm_page = page_new 1 n 0\<rparr>"

definition demo_writer :: "c_int \<Rightarrow> t_pcb" where
  "demo_writer n = (crear_pcb 1 ''p'' 32 1)\<lparr>params := PModify (demo_transfer n),
     open_files := [\<lparr>openf_file = ''a'', seek = 17\<rparr>]\<rparr>"

theorem files_move_pages_witness:
  "\<exists>m1 s1 m2 s2. file_write_service demo_vm_env demo_fs_env demo_cfg (demo_writer 0) demo_two_pages demo_fs = Some (m1, s1)
     \<and> file_read_service demo_vm_env demo_fs_env demo_cfg (demo_writer 1) m1 s1 = Some (m2, s2)
     \<and> frame_content m2 3 = Some (replicate 16 7)"
proof -
  let ?e = "\<lparr>openf_file = ''a'', seek = 17\<rparr>"
  have fo: "frames_ok demo_bits demo_two_pages"
    by (auto simp: frames_ok_def demo_two_pages_def demo_memory_def init_real_memory_def resident_def page_create_def
        total_frames_def demo_bits_def split: if_splits)
  have w: "params (demo_writer n) = PModify (demo_transfer n)" "open_entry_of (demo_transfer n) (demo_writer n) = Some ?e" for n
    by (simp_all add: demo_writer_def demo_transfer_def open_entry_of_def)
  have g: "get_page 1 0 demo_two_pages = Some (Some 0)" "get_page 1 1 demo_two_pages = Some (Some 1)"
    by (simp_all add: demo_two_pages_def demo_memory_def init_real_memory_def get_page_def search_page_table_def list_get_def)
  have e: "store demo_two_pages 0 = Some (page_create 1 False True 2 0 0)" "bit_precense (page_create 1 False True 2 0 0)"
    "store demo_two_pages 1 = Some (page_create 1 False True 3 1 1)" "bit_precense (page_create 1 False True 3 1 1)"
    by (simp_all add: demo_two_pages_def page_create_def)
  have c: "frame_content demo_two_pages 2 = Some (replicate 16 7)"
    by (simp add: frame_content_def read_frame_def mem_read_def demo_two_pages_def demo_memory_def init_real_memory_def)
  have src: "get_page (pag_pid (fm_page (demo_transfer 0))) (sint (page_number (fm_page (demo_transfer 0)))) demo_two_pages = Some (Some 0)"
    and dst: "get_page (pid (demo_writer 1)) (sint (page_number (fm_page (demo_transfer 1)))) demo_two_pages = Some (Some 1)"
    using g by (simp_all add: demo_transfer_def page_new_def demo_writer_def crear_pcb_def)
  have b: "0 < block_size demo_cfg" "0 \<le> block_swap_count demo_cfg" "page_size demo_two_pages = block_size demo_cfg"
    "block_size demo_cfg < 2 ^ 31" "openf_file ?e = openf_file ?e" "seek ?e = seek ?e" "0 \<le> sint (seek ?e)"
    "nat (sint (seek ?e) div block_size demo_cfg) < length [1, 2, 3 :: int]"
    "file_offset demo_cfg (sint (seek ?e)) + block_size demo_cfg \<le> int (length (block_map demo_fs))"
    by (simp_all add: demo_cfg_def file_offset_def demo_two_pages_def demo_memory_def init_real_memory_def demo_fs_def)
  have f: "file_chain demo_fs (openf_file ?e) [1, 2, 3]" using demo_fs_ok(8) by simp
  have fn: "frame_number (page_create 1 False True 2 0 0) = 2" "frame_number (page_create 1 False True 3 1 1) = 3"
    by (simp_all add: page_create_def)
  from files_move_pages[OF demo_fs_ok(1) b(1,2) fo b(3,4) w w b(5,6) f b(7-9) src e(1,2) dst e(3,4), of demo_vm_env demo_fs_env] c
  show ?thesis unfolding fn by auto
qed

end
