(* ===== verification/Kernel_Cpu.thy ===== *)
theory Kernel_Cpu
  imports Scheduler Paged_Cpu
begin

text \<open>
  The contract between the kernel and the CPU. The steps of the kernel take the answers of the
  CPU as labels, under the promise that a process comes back as itself; the model of the CPU
  keeps that promise, and its answers can be sent.
\<close>

section \<open>The contract\<close>

text \<open>\<open>answers p q\<close>: the process \<open>p\<close> that was dispatched may come back as the block \<open>q\<close>.\<close>

locale dispatch_contract =
  fixes answers :: "t_pcb \<Rightarrow> t_pcb \<Rightarrow> bool"
  assumes same_pid: "answers p q \<Longrightarrow> pid q = pid p"
    and params_sendable: "answers p q \<Longrightarrow> serialize_params (instruccion q) (params q) \<noteq> None"
begin

text \<open>What the kernel does with an answer is a step of its relation.\<close>

lemma answer_is_step:
  assumes "i < length (threads k)" and "threads k ! i = TRunning p" and "answers p q"
    and "kernel_step env (LThread i q) k = Runs k'"
  shows "kstep env k (LThread i q) k'"
  using assms same_pid by (simp add: kstep_iff cpu_answers_def)

lemma answer_serializes: "answers p q \<Longrightarrow> \<exists>bs. serialize_pcb q = Some bs"
  using params_sendable[of p q] by (auto simp: serialize_pcb_def)

end

section \<open>The CPU keeps it\<close>

definition cpu_result :: "'m cpu_env \<Rightarrow> int \<Rightarrow> t_pcb \<Rightarrow> t_pcb \<Rightarrow> bool" where
  "cpu_result env ps p q \<longleftrightarrow> fault_has_page p
     \<and> (\<exists>as c c'. wait_for_dispatch_command env ps as p c = Some (Answer c') \<and> q = running c')"

lemma cpu_result_same:
  assumes "cpu_result env ps p q"
  shows "pid q = pid p \<and> params_fit q"
proof -
  obtain as c c' where "wait_for_dispatch_command env ps as p c = Some (Answer c')" "q = running c'" and f: "fault_has_page p"
    using assms by (auto simp: cpu_result_def)
  then obtain c1 where c1: "execute_loop env ps as (c\<lparr>running := p\<rparr>) = Some (Answer c1)"
    "q = (running c1)\<lparr>registers := regs c1\<rparr>"
    by (auto simp: wait_for_dispatch_command_def split: option.splits turn.splits)
  show ?thesis using execute_loop_same[OF c1(1)] f c1(2) by (simp add: same_process_def params_fit_def)
qed

interpretation cpu_dispatch: dispatch_contract "cpu_result env ps" for env :: "'m cpu_env" and ps
proof unfold_locales
  fix p q assume "cpu_result env ps p q"
  note s = cpu_result_same[OF this]
  show "pid q = pid p" using s by simp
  show "serialize_params (instruccion q) (params q) \<noteq> None" using s by (simp add: params_fit_def)
qed

text \<open>
  The kernel and the CPU together. When the thread that waits for the CPU gets the block with which
  the model of the CPU answers the process that was sent, on whatever memory, its handling is a step
  of the kernel, so what is proved of the reachable states of the kernel holds of it.
\<close>

lemma kernel_steps_on_cpu_answer:
  assumes "i < length (threads k)" and "threads k ! i = TRunning p" and "fault_has_page p"
    and "wait_for_dispatch_command env ps as p c = Some (Answer c')"
    and "kernel_step kenv (LThread i (running c')) k = Runs k'"
  shows "kstep kenv k (LThread i (running c')) k'"
proof -
  have "cpu_result env ps p (running c')" using assms(3,4) by (auto simp: cpu_result_def)
  from cpu_dispatch.answer_is_step[OF assms(1,2) this assms(5)] show ?thesis .
qed

section \<open>The memory of the model\<close>

text \<open>What is fetched depends on the process number and the program counter only.\<close>

lemma paged_fetch_ignores_registers: "fetch_ignores_registers (paged_cpu v sp)"
  by (simp add: fetch_ignores_registers_def paged_cpu_def paged_ask_def sorted_command_def)

end
