(* ===== verification/Simulation.thy ===== *)
theory Simulation
  imports Prelude
begin

text \<open>
  Runs of a machine over a list of events, with their answers, and the interface under which a
  concrete machine simulates an abstract one: each event that the abstract machine can do, the
  concrete one does with the same answer, and the abstraction of its state follows.
\<close>

fun run_events :: "('e \<Rightarrow> 's \<Rightarrow> ('o \<times> 's) option) \<Rightarrow> 'e list \<Rightarrow> 's \<Rightarrow> ('o list \<times> 's) option" where
  "run_events step [] s = Some ([], s)"
| "run_events step (e # es) s = (case step e s of
      None \<Rightarrow> None
    | Some (x, s) \<Rightarrow> (case run_events step es s of None \<Rightarrow> None | Some (xs, s) \<Rightarrow> Some (x # xs, s)))"

locale simulation =
  fixes cstep :: "'e \<Rightarrow> 's \<Rightarrow> ('o \<times> 's) option" and astep :: "'e \<Rightarrow> 'a \<Rightarrow> ('o \<times> 'a) option"
    and inv :: "'s \<Rightarrow> bool" and abst :: "'s \<Rightarrow> 'a"
  assumes step_simulates: "inv s \<Longrightarrow> astep e (abst s) = Some (x, A) \<Longrightarrow>
    \<exists>s'. cstep e s = Some (x, s') \<and> inv s' \<and> abst s' = A"
begin

lemma run_simulates:
  "inv s \<Longrightarrow> run_events astep es (abst s) = Some (xs, A) \<Longrightarrow>
    \<exists>s'. run_events cstep es s = Some (xs, s') \<and> inv s' \<and> abst s' = A"
proof (induction es arbitrary: s xs)
  case (Cons e es)
  then obtain x B ys where B: "astep e (abst s) = Some (x, B)" "run_events astep es B = Some (ys, A)" "xs = x # ys"
    by (auto split: option.splits)
  obtain s1 where s1: "cstep e s = Some (x, s1)" "inv s1" "abst s1 = B"
    using step_simulates[OF Cons.prems(1) B(1)] by blast
  then show ?case using Cons.IH[of s1 ys] B by auto
qed simp

end

text \<open>
  The other direction: what the concrete machine does, the abstract one does with the same answer.
  It is the contract of machines that may refuse an event.
\<close>

locale refines =
  fixes cstep :: "'e \<Rightarrow> 's \<Rightarrow> ('o \<times> 's) option" and astep :: "'e \<Rightarrow> 'a \<Rightarrow> ('o \<times> 'a) option"
    and inv :: "'s \<Rightarrow> bool" and abst :: "'s \<Rightarrow> 'a"
  assumes step_refines: "inv s \<Longrightarrow> cstep e s = Some (x, s') \<Longrightarrow> inv s' \<and> astep e (abst s) = Some (x, abst s')"
begin

lemma run_refines:
  "inv s \<Longrightarrow> run_events cstep es s = Some (xs, s') \<Longrightarrow> inv s' \<and> run_events astep es (abst s) = Some (xs, abst s')"
proof (induction es arbitrary: s xs)
  case (Cons e es)
  then obtain x s1 ys where s1: "cstep e s = Some (x, s1)" "run_events cstep es s1 = Some (ys, s')" "xs = x # ys"
    by (auto split: option.splits)
  then show ?case using step_refines[OF Cons.prems(1) s1(1)] Cons.IH[of s1 ys] by simp
qed simp

end

end
