(* ===== verification/Process_Life.thy ===== *)
theory Process_Life
  imports Virtual_Run Simulation
begin

text \<open>
  The life of processes in the memory and the file system: a process is created with blocks that
  the file system reserves in the swap, its accesses run with page faults and replacements, and
  at its end its frames and blocks are free for others. The abstract machine gives every process a
  list of pages of its own, which start as zeros, and counts the free blocks.
\<close>

section \<open>The messages of creation and end\<close>

text \<open>The list of blocks in the last answer to the memory.\<close>

definition swap_list :: "filesystem \<Rightarrow> c_int list option" where
  "swap_list s = (case last (fs_sent s) of (MemorySocket, FsList code bs) \<Rightarrow> Some bs | _ \<Rightarrow> None)"

definition create_service :: "'b vm_env \<Rightarrow> t_pcb \<Rightarrow> 'b memory \<Rightarrow> filesystem \<Rightarrow> ('b memory \<times> filesystem) option" where
  "create_service v p m s = do {
     m1 \<leftarrow> sorted_command v PKernel (CREATE_PROCESS_CMD p) m;
     s1 \<leftarrow> deliver (fs_env v) (fs_config v) (new_messages m m1) s;
     blocks \<leftarrow> swap_list s1;
     m2 \<leftarrow> sorted_command v PFilesystem (GET_SWAP_BLOCKS blocks) m1;
     Some (m2, s1) }"

definition end_service :: "'b vm_env \<Rightarrow> t_pcb \<Rightarrow> 'b memory \<Rightarrow> filesystem \<Rightarrow> ('b memory \<times> filesystem) option" where
  "end_service v p m s = do {
     m1 \<leftarrow> sorted_command v PKernel (END_PROCESS p) m;
     s1 \<leftarrow> deliver (fs_env v) (fs_config v) (new_messages m m1) s;
     m2 \<leftarrow> sorted_command v PFilesystem (FREE_PAGES 0) m1;
     Some (m2, s1) }"

section \<open>The end of a process\<close>

lemma remove1_fold: "distinct xs \<Longrightarrow> distinct (fold remove1 as xs) \<and> set (fold remove1 as xs) = set xs - set as"
  by (induction as arbitrary: xs) auto

lemma destroy_entries_rest:
  "destroy_entries ba as m = Some m' \<Longrightarrow> page_tables m' = page_tables m \<and> next_entry m' = next_entry m
     \<and> sort_pages m' = sort_pages m \<and> list_page m' = list_page m \<and> memory_size m' = memory_size m
     \<and> pages_to_replace m' = fold remove1 as (pages_to_replace m)"
proof (induction as arbitrary: m)
  case (Cons a as)
  then obtain m1 where m1: "destroy_page_entry ba a m = Some m1" "destroy_entries ba as m1 = Some m'"
    by (auto split: option.splits)
  have "page_tables m1 = page_tables m \<and> next_entry m1 = next_entry m \<and> sort_pages m1 = sort_pages m
      \<and> list_page m1 = list_page m \<and> memory_size m1 = memory_size m \<and> pages_to_replace m1 = remove1 a (pages_to_replace m)"
    using m1(1) by (auto simp: destroy_page_entry_def free_frame_def Let_def split: option.splits)
  then show ?case using Cons.IH[OF m1(2)] by simp
qed simp

text \<open>The blocks that a release names become free, the others keep their images.\<close>

lemma release_swap_spec:
  assumes "map_ok cfg m" and "list_all (\<lambda>b. 0 \<le> b \<and> b < block_swap_count cfg) bs"
  shows "\<exists>m'. release_swap_blocks cfg bs m = Some m' \<and> map_ok cfg m'
     \<and> (\<forall>j. swap_image cfg m' j = (if j \<in> nat ` set bs then Some (memset_bytes zero_char (block_size cfg)) else swap_image cfg m j))"
  using assms
proof (induction bs arbitrary: m)
  case (Cons b bs)
  then have b: "0 \<le> b" "b < block_swap_count cfg" by simp_all
  have l: "length (memset_bytes zero_char (block_size cfg)) = nat (block_size cfg)" by (simp add: memset_bytes_def)
  obtain m1 where m1: "map_write m (b * block_size cfg) (memset_bytes zero_char (block_size cfg)) = Some m1" "map_ok cfg m1"
    "swap_image cfg m1 (nat b) = Some (memset_bytes zero_char (block_size cfg))"
    "\<And>j. j \<noteq> nat b \<Longrightarrow> swap_image cfg m1 j = swap_image cfg m j" using swap_write[OF Cons.prems(1) b l] by auto
  obtain m' where "release_swap_blocks cfg bs m1 = Some m'" "map_ok cfg m'"
    "\<And>j. swap_image cfg m' j = (if j \<in> nat ` set bs then Some (memset_bytes zero_char (block_size cfg)) else swap_image cfg m1 j)"
    using Cons.IH[OF m1(2)] Cons.prems(2) by auto
  then show ?case using m1 b by (intro exI[of _ m']) auto
qed simp

lemma deallocate_effect:
  assumes laws: "bitarray_laws ba" and ok: "frames_ok ba m"
    and t: "search_page_table p m = Some (p, as)" "distinct as" "list_all (\<lambda>a. store m a \<noteq> None) as"
  shows "\<exists>m'. deallocate_process ba p m = Some m' \<and> frames_ok ba m'
     \<and> mem_sent m' = mem_sent m @ [(PFilesystem, MList 14 (map (\<lambda>a. swap_position (the (store m a))) as))]
     \<and> store m' = (\<lambda>b. if b \<in> set as then None else store m b) \<and> page_tables m' = remove1 (p, as) (page_tables m)
     \<and> (\<forall>f. frame_content m' f = frame_content m f) \<and> page_size m' = page_size m \<and> memory_size m' = memory_size m
     \<and> next_entry m' = next_entry m \<and> sort_pages m' = sort_pages m \<and> list_page m' = list_page m
     \<and> pages_to_replace m' = fold remove1 as (pages_to_replace m)
     \<and> (\<forall>i. bitarray_test_bit ba (frame_table m') i \<longleftrightarrow>
          bitarray_test_bit ba (frame_table m) i \<and> (\<forall>a \<in> set as. \<not> resident m a (int i)))"
proof -
  let ?msg = "MList 14 (map (\<lambda>a. swap_position (the (store m a))) as)"
  let ?m1 = "(mem_send PFilesystem ?msg m)\<lparr>page_tables := remove1 (p, as) (page_tables m)\<rparr>"
  have r1: "resident ?m1 = resident m" by (intro ext) (simp add: resident_def mem_send_def)
  have ok1: "frames_ok ba ?m1" using ok unfolding frames_ok_def r1 by (simp add: mem_send_def total_frames_def)
  have live: "list_all (\<lambda>a. store ?m1 a \<noteq> None) as" using t(3) by (simp add: mem_send_def)
  from destroy_entries_spec[OF laws ok1 t(2) live] obtain m2 where m2: "destroy_entries ba as ?m1 = Some m2"
    "frames_ok ba m2" "\<forall>b. store m2 b = (if b \<in> set as then None else store m b)" "frames m2 = frames m"
    "page_size m2 = page_size m" "mem_sent m2 = mem_sent m @ [(PFilesystem, ?msg)]"
    "\<forall>i. bitarray_test_bit ba (frame_table m2) i \<longleftrightarrow>
          bitarray_test_bit ba (frame_table m) i \<and> list_all (\<lambda>a. \<not> resident m a (int i)) as"
    unfolding r1 by (auto simp: mem_send_def)
  note rest = destroy_entries_rest[OF m2(1)]
  let ?m' = "m2\<lparr>active_processes := snd (list_remove_by_condition (\<lambda>q. pr_pid q = p) (active_processes m2))\<rparr>"
  have "deallocate_process ba p m = Some ?m'"
    using t m2(1) by (simp add: deallocate_process_def free_swap_blocks_def destroy_page_table_def)
      (simp add: mem_send_def)
  moreover have "frames_ok ba ?m'" using m2(2) by (simp add: frames_ok_def resident_def total_frames_def)
  moreover have "frame_content ?m' f = frame_content m f" for f
    using m2(4,5) by (simp add: frame_content_def read_frame_def)
  moreover have "store ?m' = (\<lambda>b. if b \<in> set as then None else store m b)" using m2(3) by (simp add: fun_eq_iff)
  ultimately show ?thesis using m2(5-7) rest by (intro exI[of _ ?m']) (simp add: mem_send_def list_all_iff)
qed

lemma end_process_keeps_vm:
  assumes laws: "bitarray_laws (bits (mem_env v))" and ok: "vm_ok v m s"
    and t: "search_page_table p m = Some (p, as)" "distinct as" "list_all (\<lambda>a. store m a \<noteq> None) as"
    and d: "deallocate_process (bits (mem_env v)) p m = Some m'"
    and s': "map_ok (fs_config v) (block_map s')"
      "\<And>b e. b \<notin> set as \<Longrightarrow> store m b = Some e \<Longrightarrow> swap_image (fs_config v) (block_map s') (nat (sint (swap_position e)))
         = swap_image (fs_config v) (block_map s) (nat (sint (swap_position e)))"
  shows "vm_ok v m' s' \<and> contents (fs_config v) m' s' b = (if b \<in> set as then None else contents (fs_config v) m s b)"
proof -
  let ?ba = "bits (mem_env v)" and ?cfg = "fs_config v"
  have pk: "paging_ok ?ba ?cfg m s" and lo: "lru_ok ?ba m" using ok by (simp_all add: vm_ok_def)
  have fo: "frames_ok ?ba m" using pk by (simp add: paging_ok_def)
  have eff: "frames_ok ?ba m'" "store m' = (\<lambda>b. if b \<in> set as then None else store m b)"
    "\<And>f. frame_content m' f = frame_content m f" "page_size m' = page_size m" "memory_size m' = memory_size m"
    "sort_pages m' = sort_pages m" "list_page m' = list_page m" "pages_to_replace m' = fold remove1 as (pages_to_replace m)"
    "\<And>i. bitarray_test_bit ?ba (frame_table m') i \<longleftrightarrow>
          bitarray_test_bit ?ba (frame_table m) i \<and> (\<forall>a \<in> set as. \<not> resident m a (int i))"
    using deallocate_effect[OF laws fo t] d by auto
  have r: "resident m' b f \<longleftrightarrow> b \<notin> set as \<and> resident m b f" for b f by (simp add: resident_def eff(2))
  have old: "b \<notin> set as \<and> store m b = Some e" if "store m' b = Some e" for b e
    using that by (simp add: eff(2) split: if_splits)
  have "paging_ok ?ba ?cfg m' s'"
    unfolding paging_ok_def
  proof (intro conjI allI impI)
    show "frames_ok ?ba m'" "map_ok ?cfg (block_map s')" "page_size m' = block_size ?cfg" "block_size ?cfg < 2 ^ 31"
      using eff(1,4) s'(1) pk by (auto simp: paging_ok_def)
    fix b e assume b: "store m' b = Some e"
    show "0 \<le> sint (swap_position e)" "sint (swap_position e) < block_swap_count ?cfg"
      using old[OF b] pk by (auto simp: paging_ok_def)
    show "b = c" if "store m' c = Some e'" "swap_position e = swap_position e'" for c e'
      using old[OF b] old[OF that(1)] that(2) pk unfolding paging_ok_def by blast
    show "frame_content m' (frame_number e) = swap_image ?cfg (block_map s') (nat (sint (swap_position e)))"
      if "bit_precense e" "\<not> bit_modified e"
      using old[OF b] s'(2)[of b e] that pk eff(3) by (auto simp: paging_ok_def)
  qed
  moreover have "lru_ok ?ba m'"
  proof -
    have tf: "total_frames m' = total_frames m" using eff(4,5) by (simp add: total_frames_def)
    have l: "distinct (pages_to_replace m')" "set (pages_to_replace m') = set (pages_to_replace m) - set as"
      using remove1_fold[of "pages_to_replace m" as] lo eff(8) by (simp_all add: lru_ok_def)
    have "\<not> resident m a (int (total_frames m))" for a using fo unfolding frames_ok_def by fastforce
    then show ?thesis using lo l r unfolding lru_ok_def tf eff(9) by (auto simp del: fold_simps)
  qed
  moreover have "contents ?cfg m' s' b = (if b \<in> set as then None else contents ?cfg m s b)"
    using s'(2)[of b] eff(2,3) by (auto simp: contents_def split: option.split)
  ultimately show ?thesis using ok eff(6,7) by (simp add: vm_ok_def)
qed

section \<open>Private memories\<close>

datatype life_event = Create t_pcb | Access access | Finish t_pcb

definition life_step :: "'b vm_env \<Rightarrow> life_event \<Rightarrow> 'b memory \<times> filesystem \<Rightarrow> (u32 option \<times> 'b memory \<times> filesystem) option" where
  "life_step v ev ms = (case ev of
      Create p \<Rightarrow> map_option (Pair None) (create_service v p (fst ms) (snd ms))
    | Finish p \<Rightarrow> map_option (Pair None) (end_service v p (fst ms) (snd ms))
    | Access acc \<Rightarrow> map_option (\<lambda>(x, ms). (Some x, ms)) (try_access v 1 acc (fst ms) (snd ms)))"

record life =
  processes :: "u32 \<Rightarrow> u8 list list option"
  free_blocks :: nat

text \<open>
  The abstract machine. A process is created when its number is new, its program exists and there are
  enough free blocks; its pages are zeros. An access is to a page of the process; a store may not
  make a page of zero characters (the mark of a free block). At the end the blocks are free again.
\<close>

definition program_exists :: "'b vm_env \<Rightarrow> t_pcb \<Rightarrow> bool" where
  "program_exists v p \<longleftrightarrow> get_instructions_from_file (mem_env v)
     (instructions_path (mem_env v) @ ''/'' @ nom_arch_inst p @ ''.txt'') \<noteq> None"

definition page_access :: "int \<Rightarrow> access \<Rightarrow> u8 list list \<Rightarrow> (u32 \<times> u8 list list) option" where
  "page_access psize acc pages = (let n = sint (access_page acc); d = sint (access_displacement acc) in
     if 0 \<le> n \<and> n < int (length pages) \<and> 0 \<le> d \<and> d + 4 \<le> psize
     then (case acc of
         Store p _ _ v \<Rightarrow> do {
           c \<leftarrow> mem_write (pages ! nat n) (nat d) (bytes_of_u32 v);
           (if c = memset_bytes zero_char psize then None else Some (0, pages[nat n := c])) }
       | Load p _ _ \<Rightarrow> do {
           bs \<leftarrow> mem_read (pages ! nat n) (nat d) 4;
           (x, _) \<leftarrow> rd_u32 bs;
           Some (x, pages) })
     else None)"

definition life_spec :: "'b vm_env \<Rightarrow> life_event \<Rightarrow> life \<Rightarrow> (u32 option \<times> life) option" where
  "life_spec v ev L = (let psize = block_size (fs_config v) in case ev of
      Create p \<Rightarrow> (let n = nat (uint (tamanio p) div psize) in
        if processes L (pid p) = None \<and> program_exists v p \<and> uint (tamanio p) < 2 ^ 31 \<and> n \<le> free_blocks L
        then Some (None, L\<lparr>processes := (processes L)(pid p \<mapsto> replicate n (memset_bytes 0 psize)),
                           free_blocks := free_blocks L - n\<rparr>)
        else None)
    | Finish p \<Rightarrow> (case processes L (pid p) of
        None \<Rightarrow> None
      | Some pages \<Rightarrow> Some (None, L\<lparr>processes := (processes L)(pid p := None),
                                     free_blocks := free_blocks L + length pages\<rparr>))
    | Access acc \<Rightarrow> (case processes L (access_pid acc) of
        None \<Rightarrow> None
      | Some pages \<Rightarrow> (case page_access psize acc pages of
          None \<Rightarrow> None
        | Some (x, pages) \<Rightarrow> Some (Some x, L\<lparr>processes := (processes L)(access_pid acc \<mapsto> pages)\<rparr>))))"

definition life_of :: "'b vm_env \<Rightarrow> 'b memory \<times> filesystem \<Rightarrow> life" where
  "life_of v ms = \<lparr>processes = (\<lambda>p. map_option (\<lambda>(_, as). map (\<lambda>a. the (contents (fs_config v) (fst ms) (snd ms) a)) as)
       (search_page_table p (fst ms))),
     free_blocks = length (free_swap_list (fs_config v) (block_map (snd ms)))\<rparr>"

section \<open>The invariant\<close>

text \<open>Every table has its own entries; the blocks without a page are the free ones.\<close>

definition tables_ok :: "'b memory \<Rightarrow> bool" where
  "tables_ok m \<longleftrightarrow> distinct (map fst (page_tables m)) \<and> distinct (concat (map snd (page_tables m)))
     \<and> list_all (\<lambda>a. store m a \<noteq> None) (concat (map snd (page_tables m)))"

definition blocks_marked :: "t_fs_config \<Rightarrow> 'b memory \<Rightarrow> filesystem \<Rightarrow> bool" where
  "blocks_marked cfg m s \<longleftrightarrow> (\<forall>b. 0 \<le> b \<longrightarrow> b < block_swap_count cfg \<longrightarrow>
     (swap_free cfg (block_map s) b \<longleftrightarrow> (\<forall>a w. positions m a = Some w \<longrightarrow> sint w \<noteq> b)))"

definition no_zero_page :: "t_fs_config \<Rightarrow> 'b memory \<Rightarrow> filesystem \<Rightarrow> bool" where
  "no_zero_page cfg m s \<longleftrightarrow> (\<forall>a. contents cfg m s a \<noteq> Some (memset_bytes zero_char (block_size cfg)))"

definition life_ok :: "'b vm_env \<Rightarrow> 'b memory \<times> filesystem \<Rightarrow> bool" where
  "life_ok v ms \<longleftrightarrow> vm_ok v (fst ms) (snd ms) \<and> entries_below (fst ms) \<and> tables_ok (fst ms)
     \<and> blocks_marked (fs_config v) (fst ms) (snd ms) \<and> no_zero_page (fs_config v) (fst ms) (snd ms)
     \<and> block_swap_count (fs_config v) < 2 ^ 31"

lemma find_append: "find P (xs @ ys) = (case find P xs of None \<Rightarrow> find P ys | Some x \<Rightarrow> Some x)"
  by (induction xs) simp_all

text \<open>What a table of a process gives.\<close>

lemma table_found: "search_page_table p m = Some t \<Longrightarrow> t \<in> set (page_tables m) \<and> fst t = p"
proof -
  have "find P xs = Some x \<Longrightarrow> x \<in> set xs \<and> P x" for P and xs :: "(u32 \<times> nat list) list" and x
    by (induction xs) (auto split: if_splits)
  then show "search_page_table p m = Some t \<Longrightarrow> t \<in> set (page_tables m) \<and> fst t = p"
    unfolding search_page_table_def by fastforce
qed

lemma table_none: "search_page_table p m = None \<longleftrightarrow> p \<notin> fst ` set (page_tables m)"
  by (force simp: search_page_table_def find_None_iff)

lemma tables_entries:
  assumes "tables_ok m" and "search_page_table p m = Some t"
  shows "distinct (snd t)" and "a \<in> set (snd t) \<Longrightarrow> \<exists>e. store m a = Some e"
    and "list_all (\<lambda>a. store m a \<noteq> None) (snd t)"
proof -
  have t: "t \<in> set (page_tables m)" using table_found[OF assms(2)] by blast
  then show "distinct (snd t)" using assms(1) by (auto simp: tables_ok_def distinct_concat_iff)
  show "a \<in> set (snd t) \<Longrightarrow> \<exists>e. store m a = Some e" using assms(1) t by (auto simp: tables_ok_def list_all_iff)
  show "list_all (\<lambda>a. store m a \<noteq> None) (snd t)" using assms(1) t by (auto simp: tables_ok_def list_all_iff)
qed

lemma distinct_tables:
  "distinct (concat (map snd ts)) \<Longrightarrow> distinct (map fst ts) \<Longrightarrow> t \<in> set ts \<Longrightarrow> t' \<in> set ts \<Longrightarrow>
    fst t \<noteq> fst t' \<Longrightarrow> set (snd t) \<inter> set (snd t') = {}"
  by (induction ts) auto

lemma tables_disjoint:
  assumes "tables_ok m" and "search_page_table p m = Some t" and "search_page_table q m = Some t'" and "p \<noteq> q"
  shows "set (snd t) \<inter> set (snd t') = {}"
  using assms(1,4) table_found[OF assms(2)] table_found[OF assms(3)]
  by (intro distinct_tables[of "page_tables m"]) (auto simp: tables_ok_def)

lemma contents_defined:
  assumes "paging_ok ba cfg m s" and "store m a = Some e"
  shows "\<exists>c. contents cfg m s a = Some c"
proof (cases "bit_precense e")
  case True
  then have "resident m a (frame_number e)" using assms(2) by (simp add: resident_def)
  then show ?thesis using frame_content_defined[of ba m a "frame_number e"] assms True
    by (auto simp: contents_def paging_ok_def)
next
  case False
  then show ?thesis using contents_length[OF assms] assms(2) by (auto simp: contents_def)
qed

text \<open>The traffic of page faults marks and frees no block.\<close>

lemma swap_follows_free:
  assumes sf: "swap_follows cfg m s s'" and bm: "blocks_marked cfg m s" and nz: "no_zero_page cfg m s"
    and rng: "paging_ok ba cfg m s" and b: "0 \<le> b" "b < block_swap_count cfg"
  shows "swap_free cfg (block_map s') b = swap_free cfg (block_map s) b"
proof (cases "swap_image cfg (block_map s') (nat b) = swap_image cfg (block_map s) (nat b)")
  case True
  then show ?thesis by (simp add: swap_free_def)
next
  case False
  then obtain a e where e: "store m a = Some e" "nat b = nat (sint (swap_position e))"
    "swap_image cfg (block_map s') (nat b) = contents cfg m s a"
    using sf unfolding swap_follows_def by metis
  have "0 \<le> sint (swap_position e)" using rng e(1) by (auto simp: paging_ok_def)
  then have "sint (swap_position e) = b" using e(2) b(1) by (simp add: eq_nat_nat_iff)
  moreover have "positions m a = Some (swap_position e)" using e(1) by (simp add: positions_def)
  ultimately have "\<not> swap_free cfg (block_map s) b" using bm b unfolding blocks_marked_def by blast
  moreover have "\<not> swap_free cfg (block_map s') b" using nz e(3) by (simp add: swap_free_def no_zero_page_def)
  ultimately show ?thesis by simp
qed

lemma marked_follows:
  assumes "swap_follows cfg m s s'" and "blocks_marked cfg m s" and "no_zero_page cfg m s" and "paging_ok ba cfg m s"
    and "positions m' = positions m"
  shows "blocks_marked cfg m' s'" and "free_swap_list cfg (block_map s') = free_swap_list cfg (block_map s)"
  subgoal using swap_follows_free[OF assms(1-4)] assms(2) unfolding blocks_marked_def assms(5) by blast
  subgoal unfolding free_swap_list_def using swap_follows_free[OF assms(1-4)] by (auto intro: filter_cong)
  done

text \<open>An access as the abstract machine of one process sees it.\<close>

lemma page_access_abstract:
  assumes "page_access sz acc (map (\<lambda>a. the (C a)) as) = Some (x, pages')" and "a = as ! nat (sint (access_page acc))"
    and "C a = Some c" and "abstract_access pof acc C = Some (y, C')" and "pof (access_pid acc) (access_page acc) = a"
    and "distinct as"
  shows "y = x \<and> pages' = map (\<lambda>a. the (C' a)) as \<and> (\<forall>b. b \<noteq> a \<longrightarrow> C' b = C b)
     \<and> (C' a \<noteq> C a \<longrightarrow> C' a \<noteq> Some (memset_bytes zero_char sz))"
proof (cases acc)
  case (Load p n d)
  then show ?thesis using assms by (auto simp: page_access_def Let_def bind_eq_Some_conv split: if_splits prod.splits)
next
  case (Store p n d v)
  let ?i = "nat (sint n)"
  have i: "?i < length as" and c: "C (as ! ?i) = Some c" and p: "pof p n = as ! ?i"
    using assms Store by (auto simp: page_access_def Let_def split: if_splits)
  obtain c' where c': "mem_write c (nat (sint d)) (bytes_of_u32 v) = Some c'" "c' \<noteq> memset_bytes zero_char sz"
    "x = 0" "pages' = (map (\<lambda>a. the (C a)) as)[?i := c']"
    using assms(1) Store i c by (auto simp: page_access_def Let_def bind_eq_Some_conv split: if_splits)
  have C': "C' = C(as ! ?i \<mapsto> c')" "y = 0" using assms(4) Store c c'(1) p by auto
  have "(map (\<lambda>a. the (C a)) as)[?i := c'] = map (\<lambda>a. the (C' a)) as"
    using assms(6) i C'(1) by (intro nth_equalityI) (auto simp: nth_list_update nth_eq_iff_index_eq)
  then show ?thesis using C' c' assms(2) Store by auto
qed

section \<open>The events\<close>

lemma access_step:
  assumes laws: "bitarray_laws (bits (mem_env v))" and lru: "uses_lru v" and ok: "life_ok v (m, s)"
    and pg: "processes (life_of v (m, s)) (access_pid acc) = Some pages"
    and pa: "page_access (block_size (fs_config v)) acc pages = Some (x, pages')"
  shows "\<exists>m' s'. try_access v 1 acc m s = Some (x, m', s') \<and> life_ok v (m', s')
     \<and> life_of v (m', s') = (life_of v (m, s))\<lparr>processes := (processes (life_of v (m, s)))(access_pid acc \<mapsto> pages')\<rparr>"
proof -
  let ?cfg = "fs_config v" and ?p = "access_pid acc"
  have vm: "vm_ok v m s" and to: "tables_ok m" and pk: "paging_ok (bits (mem_env v)) ?cfg m s"
    and bm: "blocks_marked ?cfg m s" and nz: "no_zero_page ?cfg m s"
    using ok by (simp_all add: life_ok_def vm_ok_def)
  obtain t where t: "search_page_table ?p m = Some t" "pages = map (\<lambda>a. the (contents ?cfg m s a)) (snd t)"
    using pg by (auto simp: life_of_def split: prod.splits)
  define a where "a = snd t ! nat (sint (access_page acc))"
  have n: "0 \<le> sint (access_page acc)" "sint (access_page acc) < int (length (snd t))"
    "0 \<le> sint (access_displacement acc)" "sint (access_displacement acc) + 4 \<le> block_size ?cfg"
    using pa t(2) by (auto simp: page_access_def Let_def split: if_splits)
  then have am: "a \<in> set (snd t)" by (simp add: a_def)
  obtain e where e: "store m a = Some e" using tables_entries(2)[OF to t(1) am] by blast
  obtain c where c: "contents ?cfg m s a = Some c" using contents_defined[OF pk e] by blast
  have g: "get_page ?p (sint (access_page acc)) m = Some (Some a)"
    using t(1) n by (cases t) (simp add: get_page_def list_get_def a_def)
  have "access_ok m acc" using g e n pk by (simp add: access_ok_def paging_ok_def)
  then obtain y m' s' where y: "try_access v 1 acc m s = Some (y, m', s')" "simulates v acc m s y m' s'"
    using try_access_refines[OF laws lru vm] by blast
  have po: "page_of m ?p (access_page acc) = a" using g by (simp add: page_of_def)
  have sim: "vm_ok v m' s'" "same_rest m m'" "swap_follows ?cfg m s s'"
    "abstract_access (page_of m) acc (contents ?cfg m s) = Some (y, contents ?cfg m' s')"
    using y(2) by (simp_all add: simulates_def)
  have pos: "positions m' = positions m" and nx: "next_entry m' = next_entry m" and pt: "page_tables m' = page_tables m"
    using sim(2) by (simp_all add: same_rest_def)
  have dt: "distinct (snd t)" by (rule tables_entries(1)[OF to t(1)])
  note pq = page_access_abstract[OF pa[unfolded t(2)] a_def c sim(4) po dt]
  have "no_zero_page ?cfg m' s'" using nz pq unfolding no_zero_page_def by metis
  moreover note mf = marked_follows[OF sim(3) bm nz pk pos]
  moreover have "store m' b = None \<longleftrightarrow> store m b = None" for b using positions_dom[OF pos] by (metis domIff)
  then have "entries_below m'" "tables_ok m'"
    using ok nx pt by (simp_all add: life_ok_def entries_below_def tables_ok_def list_all_iff)
  ultimately have "life_ok v (m', s')" using ok sim(1) by (simp add: life_ok_def)
  moreover have st: "search_page_table q m' = search_page_table q m" for q using pt by (simp add: search_page_table_def)
  have "map_option (\<lambda>(_, as). map (\<lambda>b. the (contents ?cfg m' s' b)) as) (search_page_table q m) =
      ((processes (life_of v (m, s)))(?p \<mapsto> pages')) q" for q
  proof (cases "q = ?p")
    case True
    then show ?thesis using t(1) pq by (simp split: prod.splits)
  next
    case False
    have "map (\<lambda>b. the (contents ?cfg m' s' b)) (snd t') = map (\<lambda>b. the (contents ?cfg m s b)) (snd t')"
      if "search_page_table q m = Some t'" for t'
      using tables_disjoint[OF to that t(1) False] am pq by (intro map_cong) auto
    then show ?thesis using False by (cases "search_page_table q m") (auto simp: life_of_def)
  qed
  then have "life_of v (m', s') = (life_of v (m, s))\<lparr>processes := (processes (life_of v (m, s)))(?p \<mapsto> pages')\<rparr>"
    using mf(2) by (simp add: life_of_def st fun_eq_iff)
  ultimately show ?thesis using y(1) pq by blast
qed

text \<open>The service of a page fault leaves the processes what they were.\<close>

lemma moved_pages_life:
  assumes ok: "life_ok v (m, s)" and vm: "vm_ok v m' s'" and sr: "same_rest m m'" and sf: "swap_follows (fs_config v) m s s'"
    and c: "\<And>b. contents (fs_config v) m' s' b = contents (fs_config v) m s b"
  shows "life_ok v (m', s')" and "life_of v (m', s') = life_of v (m, s)"
proof -
  let ?cfg = "fs_config v"
  have pk: "paging_ok (bits (mem_env v)) ?cfg m s" and bm: "blocks_marked ?cfg m s" and nz: "no_zero_page ?cfg m s"
    using ok by (simp_all add: life_ok_def vm_ok_def)
  have pos: "positions m' = positions m" and nx: "next_entry m' = next_entry m" and pt: "page_tables m' = page_tables m"
    using sr by (simp_all add: same_rest_def)
  note mf = marked_follows[OF sf bm nz pk pos]
  have "no_zero_page ?cfg m' s'" using nz c by (simp add: no_zero_page_def)
  moreover have "store m' b = None \<longleftrightarrow> store m b = None" for b using positions_dom[OF pos] by (metis domIff)
  then have "entries_below m'" "tables_ok m'"
    using ok nx pt by (simp_all add: life_ok_def entries_below_def tables_ok_def list_all_iff)
  ultimately show "life_ok v (m', s')" using ok vm mf(1) by (simp add: life_ok_def)
  show "life_of v (m', s') = life_of v (m, s)" using mf(2) pt c by (simp add: life_of_def search_page_table_def)
qed

text \<open>The request of a creation is noted down; nothing of the pages changes with it.\<close>

lemma vm_ok_pcb [simp]: "vm_ok v (m\<lparr>mem_pcb_create := x\<rparr>) s = vm_ok v m s"
  and contents_pcb [simp]: "contents cfg (m\<lparr>mem_pcb_create := x\<rparr>) s a = contents cfg m s a"
  by (simp_all add: vm_ok_def paging_ok_def lru_ok_def frames_ok_def contents_def resident_def total_frames_def
      frame_content_def read_frame_def split: option.split)

lemma vm_ok_images:
  assumes "vm_ok v m s" and "map_ok (fs_config v) (block_map s')"
    and "\<And>b e. store m b = Some e \<Longrightarrow> swap_image (fs_config v) (block_map s') (nat (sint (swap_position e)))
         = swap_image (fs_config v) (block_map s) (nat (sint (swap_position e)))"
  shows "vm_ok v m s'" and "contents (fs_config v) m s' b = contents (fs_config v) m s b"
  using assms by (auto simp: vm_ok_def paging_ok_def contents_def split: option.split)

lemma free_swap_mem: "b \<in> set (free_swap_list cfg m) \<longleftrightarrow> 0 \<le> b \<and> b < block_swap_count cfg \<and> swap_free cfg m b"
  by (auto simp: free_swap_list_def)

lemma swap_request:
  assumes "uint (tamanio p) < 2 ^ 31" and "0 < page_size m" and "int n < 2 ^ 31" and "n = nat (uint (tamanio p) div page_size m)"
  shows "get_swap_blocks (sint (tamanio p)) m = reply PFilesystem (create_integer_package 7 (word_of_int (int n))) m"
    and "sint (word_of_int (int n) :: c_int) = int n"
proof -
  have "sint (tamanio p) = uint (tamanio p)" using sint_of_block[of "uint (tamanio p)"] assms(1) by simp
  moreover have "uint (tamanio p) sdiv page_size m = uint (tamanio p) div page_size m"
    using assms(2) by (cases "tamanio p = 0") (simp_all add: signed_divide_int_def)
  moreover have "0 \<le> uint (tamanio p) div page_size m" using assms(2) pos_imp_zdiv_nonneg_iff uint_ge_0 by blast
  then have "int n = uint (tamanio p) div page_size m" using assms(4) by (simp only: nat_0_le)
  ultimately show "get_swap_blocks (sint (tamanio p)) m = reply PFilesystem (create_integer_package 7 (word_of_int (int n))) m"
    by (simp add: get_swap_blocks_def reply_def)
  show "sint (word_of_int (int n) :: c_int) = int n" using assms(3) by (intro sint_of_block) simp_all
qed

lemma life_reply [simp]: "life_ok v (reply pt x m, s) = life_ok v (m, s)" "life_of v (reply pt x m, s) = life_of v (m, s)"
  by (simp_all add: life_ok_def entries_below_def tables_ok_def blocks_marked_def no_zero_page_def life_of_def search_page_table_def)

lemma life_pcb [simp]: "life_ok v (m\<lparr>mem_pcb_create := x\<rparr>, s) = life_ok v (m, s)"
    "life_of v (m\<lparr>mem_pcb_create := x\<rparr>, s) = life_of v (m, s)"
  by (simp_all add: life_ok_def entries_below_def tables_ok_def blocks_marked_def no_zero_page_def life_of_def
      search_page_table_def positions_def)

text \<open>The state after a creation, in terms of the blocks \<open>bs\<close> that the new pages have.\<close>

text \<open>The modules after a creation, as the messages leave them.\<close>

definition created_from :: "'b vm_env \<Rightarrow> u32 \<Rightarrow> nat \<Rightarrow> int list \<Rightarrow> 'b memory \<times> filesystem \<Rightarrow> 'b memory \<times> filesystem \<Rightarrow> bool" where
  "created_from v p n bs = (\<lambda>(m, s) (m2, s2).
     search_page_table p m = None \<and> length bs = n \<and> distinct bs
     \<and> list_all (\<lambda>b. b \<in> set (free_swap_list (fs_config v) (block_map s)) \<and> sint (word_of_int b :: c_int) = b) bs
     \<and> page_tables m2 = page_tables m @ [(p, [next_entry m ..< next_entry m + n])]
     \<and> (\<forall>i < n. contents (fs_config v) m2 s2 (next_entry m + i) = Some (memset_bytes 0 (block_size (fs_config v))))
     \<and> (\<forall>a < next_entry m. contents (fs_config v) m2 s2 a = contents (fs_config v) m s a)
     \<and> (\<forall>a. positions m2 a = (if next_entry m \<le> a \<and> a < next_entry m + n
          then Some (word_of_int (bs ! (a - next_entry m))) else positions m a))
     \<and> free_swap_list (fs_config v) (block_map s2) = filter (\<lambda>b. b \<notin> set bs) (free_swap_list (fs_config v) (block_map s)))"

lemma table_below:
  assumes "tables_ok m" and "entries_below m" and "a \<in> set (snd t)" and "t \<in> set (page_tables m)"
  shows "a < next_entry m"
  using assms unfolding tables_ok_def entries_below_def by (fastforce simp: list_all_iff not_le[symmetric])

lemma created_tables:
  assumes ok: "life_ok v (m, s)" and cr: "created_from v p n bs (m, s) (m2, s2)"
  shows "tables_ok m2"
proof -
  have eb: "entries_below m" and to: "tables_ok m" using ok by (simp_all add: life_ok_def)
  have new: "search_page_table p m = None" and pt: "page_tables m2 = page_tables m @ [(p, [next_entry m ..< next_entry m + n])]"
    and pos: "positions m2 a = (if next_entry m \<le> a \<and> a < next_entry m + n then Some (word_of_int (bs ! (a - next_entry m))) else positions m a)"
    for a using cr by (simp_all add: created_from_def)
  have st: "store m2 a = None \<longleftrightarrow> store m a = None \<and> \<not> (next_entry m \<le> a \<and> a < next_entry m + n)" for a
    using pos[of a] by (auto simp: positions_def split: if_splits)
  show ?thesis
    using to table_below[OF to eb] new st unfolding tables_ok_def pt table_none by (fastforce simp: list_all_iff)
qed

lemma created_blocks:
  assumes ok: "life_ok v (m, s)" and cr: "created_from v p n bs (m, s) (m2, s2)"
  shows "blocks_marked (fs_config v) m2 s2"
proof -
  let ?cfg = "fs_config v" and ?k = "next_entry m"
  have eb: "entries_below m" and bm: "blocks_marked ?cfg m s" using ok by (simp_all add: life_ok_def)
  have bs: "length bs = n" "distinct bs" "list_all (\<lambda>b. b \<in> set (free_swap_list ?cfg (block_map s)) \<and> sint (word_of_int b :: c_int) = b) bs"
    and pos: "\<forall>a. positions m2 a = (if ?k \<le> a \<and> a < ?k + n then Some (word_of_int (bs ! (a - ?k))) else positions m a)"
    and fl: "free_swap_list ?cfg (block_map s2) = filter (\<lambda>b. b \<notin> set bs) (free_swap_list ?cfg (block_map s))"
    using cr by (simp_all add: created_from_def)
  show ?thesis
    unfolding blocks_marked_def
  proof (intro allI impI)
    fix b assume b: "0 \<le> b" "b < block_swap_count ?cfg"
    have "swap_free ?cfg (block_map s2) b \<longleftrightarrow> swap_free ?cfg (block_map s) b \<and> b \<notin> set bs"
      using b arg_cong[OF fl, of "\<lambda>l. b \<in> set l"] by (simp add: free_swap_mem)
    moreover have pn: "positions m a = None" if "?k \<le> a" for a using eb that by (simp add: positions_def entries_below_def)
    have "(\<forall>a w. positions m2 a = Some w \<longrightarrow> sint w \<noteq> b) \<longleftrightarrow>
        (\<forall>a w. positions m a = Some w \<longrightarrow> sint w \<noteq> b) \<and> (\<forall>i < n. bs ! i \<noteq> b)" (is "?l \<longleftrightarrow> ?r \<and> ?i")
    proof
      have "bs ! i \<noteq> b" if ?l "i < n" for i
      proof -
        have "positions m2 (?k + i) = Some (word_of_int (bs ! i))" using pos that(2) by simp
        then have "sint (word_of_int (bs ! i) :: c_int) \<noteq> b" using that(1) by blast
        then show ?thesis using bs(1,3) that(2) by (simp add: list_all_length)
      qed
      moreover have ?r if ?l using that pos pn by (metis not_le option.distinct(1))
      ultimately show "?l \<Longrightarrow> ?r \<and> ?i" by blast
      have False if "\<forall>i < length bs. bs ! i \<noteq> bs ! (a - ?k)" "?k \<le> a" "a < ?k + length bs" for a
        using that(1)[rule_format, of "a - ?k"] that(2,3) by linarith
      then show "?r \<and> ?i \<Longrightarrow> ?l" using pos bs(1,3) by (auto simp: list_all_length split: if_splits)
    qed
    moreover have "b \<in> set bs \<longleftrightarrow> (\<exists>i < n. bs ! i = b)" using bs(1) by (auto simp: in_set_conv_nth)
    ultimately show "swap_free ?cfg (block_map s2) b \<longleftrightarrow> (\<forall>a w. positions m2 a = Some w \<longrightarrow> sint w \<noteq> b)"
      using bm b unfolding blocks_marked_def by blast
  qed
qed

lemma created_pages:
  assumes ok: "life_ok v (m, s)" and cr: "created_from v p n bs (m, s) (m2, s2)"
  shows "no_zero_page (fs_config v) m2 s2"
proof -
  let ?cfg = "fs_config v" and ?k = "next_entry m"
  have eb: "entries_below m" and nz: "no_zero_page ?cfg m s" and mp: "map_ok ?cfg (block_map s)"
    using ok by (simp_all add: life_ok_def vm_ok_def paging_ok_def)
  have c: "\<forall>i < n. contents ?cfg m2 s2 (?k + i) = Some (memset_bytes 0 (block_size ?cfg))"
      "\<forall>a < ?k. contents ?cfg m2 s2 a = contents ?cfg m s a"
    and pos: "positions m2 a = (if ?k \<le> a \<and> a < ?k + n then Some (word_of_int (bs ! (a - ?k))) else positions m a)" for a
    using cr by (simp_all add: created_from_def)
  have st: "store m2 a = None \<longleftrightarrow> store m a = None \<and> \<not> (?k \<le> a \<and> a < ?k + n)" for a
    using pos[of a] by (auto simp: positions_def split: if_splits)
  show ?thesis
    unfolding no_zero_page_def
  proof
    fix a
    have "contents ?cfg m2 s2 a = None" if "?k + n \<le> a"
    proof -
      have "store m2 a = None" using that st[of a] eb by (simp add: entries_below_def)
      then show ?thesis by (simp add: contents_def)
    qed
    moreover have "memset_bytes 0 (block_size ?cfg) \<noteq> memset_bytes zero_char (block_size ?cfg)"
      using mp by (simp add: memset_bytes_def zero_char_def map_ok_def)
    then have "contents ?cfg m2 s2 a \<noteq> Some (memset_bytes zero_char (block_size ?cfg))" if "?k \<le> a" "a < ?k + n"
      using c(1)[rule_format, of "a - ?k"] that by simp
    ultimately show "contents ?cfg m2 s2 a \<noteq> Some (memset_bytes zero_char (block_size ?cfg))"
      using c(2) nz unfolding no_zero_page_def by (cases "a < ?k"; cases "a < ?k + n") auto
  qed
qed


lemma created_life:
  assumes ok: "life_ok v (m, s)" and cr: "created_from v p n bs (m, s) (m2, s2)"
  shows "life_of v (m2, s2) = (life_of v (m, s))
     \<lparr>processes := (processes (life_of v (m, s)))(p \<mapsto> replicate n (memset_bytes 0 (block_size (fs_config v)))),
      free_blocks := length (free_swap_list (fs_config v) (block_map s)) - n\<rparr>"
proof -
  let ?cfg = "fs_config v" and ?k = "next_entry m" and ?F = "free_swap_list (fs_config v) (block_map s)"
  have eb: "entries_below m" and to: "tables_ok m" using ok by (simp_all add: life_ok_def)
  note low = table_below[OF to eb]
  have new: "search_page_table p m = None" and bs: "length bs = n" "distinct bs"
      "list_all (\<lambda>b. b \<in> set ?F \<and> sint (word_of_int b :: c_int) = b) bs"
    and pt: "page_tables m2 = page_tables m @ [(p, [?k ..< ?k + n])]"
    and c: "\<forall>i < n. contents ?cfg m2 s2 (?k + i) = Some (memset_bytes 0 (block_size ?cfg))"
      "\<forall>a < ?k. contents ?cfg m2 s2 a = contents ?cfg m s a"
    and fl: "free_swap_list ?cfg (block_map s2) = filter (\<lambda>b. b \<notin> set bs) ?F"
    using cr by (simp_all add: created_from_def)
  have pg: "map_option (\<lambda>(_, as). map (\<lambda>a. the (contents ?cfg m2 s2 a)) as) (search_page_table q m2) =
      ((processes (life_of v (m, s)))(p \<mapsto> replicate n (memset_bytes 0 (block_size ?cfg)))) q" for q
  proof (cases "search_page_table q m")
    case None
    then have "search_page_table q m2 = (if q = p then Some (p, [?k ..< ?k + n]) else None)"
      using find_snoc[of "\<lambda>(r, _). r = q" "page_tables m"] by (simp add: search_page_table_def pt)
    moreover have "map (\<lambda>a. the (contents ?cfg m2 s2 a)) [?k ..< ?k + n] = replicate n (memset_bytes 0 (block_size ?cfg))"
      using c(1) by (intro nth_equalityI) simp_all
    ultimately show ?thesis using None by (simp add: life_of_def)
  next
    case (Some t)
    then have "search_page_table q m2 = Some t"
      by (simp add: search_page_table_def pt find_append)
    moreover have "map (\<lambda>a. the (contents ?cfg m2 s2 a)) (snd t) = map (\<lambda>a. the (contents ?cfg m s a)) (snd t)"
      using c(2) low table_found[OF Some] by (intro map_cong) auto
    ultimately show ?thesis using Some new by (auto simp: life_of_def split: prod.split)
  qed
  have "length (filter (\<lambda>b. b \<in> set bs) ?F) = card (set bs)"
    using bs(3) by (subst distinct_card[symmetric]) (auto simp: free_swap_list_def list_all_iff intro!: arg_cong[of _ _ card])
  then have "length (free_swap_list ?cfg (block_map s2)) = length ?F - n"
    using sum_length_filter_compl[of "\<lambda>b. b \<in> set bs" ?F] bs(1,2) fl by (simp add: distinct_card)
  then show ?thesis using pg by (simp add: life_of_def fun_eq_iff)
qed

lemma created_state:
  assumes ok: "life_ok v (m, s)" and cr: "created_from v p n bs (m, s) (m2, s2)" and m2: "vm_ok v m2 s2" "entries_below m2"
  shows "life_ok v (m2, s2)" and "life_of v (m2, s2) = (life_of v (m, s))
     \<lparr>processes := (processes (life_of v (m, s)))(p \<mapsto> replicate n (memset_bytes 0 (block_size (fs_config v)))),
      free_blocks := length (free_swap_list (fs_config v) (block_map s)) - n\<rparr>"
  using created_tables[OF ok cr] created_blocks[OF ok cr] created_pages[OF ok cr] created_life[OF ok cr] ok m2
  by (simp_all add: life_ok_def)

text \<open>The first half: the memory asks for \<open>n\<close> blocks and the file system reserves them.\<close>

lemma blocks_are_reserved:
  assumes ok: "life_ok v (m, s)" and n: "n = nat (uint (tamanio p) div block_size (fs_config v))" "uint (tamanio p) < 2 ^ 31"
    and F: "F = free_swap_list (fs_config v) (block_map s)" "n \<le> length F"
    and m1: "m1 = reply PFilesystem (create_integer_package 7 (word_of_int (int n))) (m\<lparr>mem_pcb_create := Some p\<rparr>)"
  shows "sorted_command v PKernel (CREATE_PROCESS_CMD p) m = Some m1
    \<and> (\<exists>s1. deliver (fs_env v) (fs_config v) (new_messages m m1) s = Some s1 \<and> swap_list s1 = Some (map word_of_int (take n F))
      \<and> map_ok (fs_config v) (block_map s1)
      \<and> (\<forall>b \<in> set (take n F). swap_image (fs_config v) (block_map s1) (nat b) = Some (memset_bytes 0 (block_size (fs_config v))))
      \<and> (\<forall>j. j \<notin> nat ` set (take n F) \<longrightarrow> swap_image (fs_config v) (block_map s1) j = swap_image (fs_config v) (block_map s) j)
      \<and> free_swap_list (fs_config v) (block_map s1) = filter (\<lambda>b. b \<notin> set (take n F)) F)"
proof -
  let ?cfg = "fs_config v"
  have cnt: "block_swap_count ?cfg < 2 ^ 31" and z: "sort_pages m = 0" and pk: "paging_ok (bits (mem_env v)) ?cfg m s"
    using ok by (simp_all add: life_ok_def vm_ok_def)
  then have mp: "map_ok ?cfg (block_map s)" and ps: "page_size m = block_size ?cfg" and psp: "0 < page_size m"
    by (simp_all add: paging_ok_def frames_ok_def)
  have "length F \<le> length [0 .. block_swap_count ?cfg - 1]" unfolding F free_swap_list_def by (rule length_filter_le)
  moreover have "0 \<le> block_swap_count ?cfg" using mp by (simp add: map_ok_def)
  ultimately have nc: "int n \<le> block_swap_count ?cfg" using F(2) by simp
  then have ni: "int n < 2 ^ 31" using cnt by linarith
  have dF: "distinct F" by (simp add: F free_swap_list_def)
  note rq = swap_request[OF n(2) psp _ n(1)[folded ps]]
  have c: "sorted_command v PKernel (CREATE_PROCESS_CMD p) m = Some m1"
    unfolding m1 using swap_request(1)[of p "m\<lparr>mem_pcb_create := Some p\<rparr>" n] n psp ni z ps by (intro sorted_quiet) simp_all
  have nm: "new_messages m m1 = [(PFilesystem, MPackage (create_integer_package 7 (word_of_int (int n))))]"
    by (simp add: new_messages_def m1)
  obtain w where w: "wait_for_commands (fs_env v) ?cfg MRY (GET_SWAP_BLOCKS_FS (word_of_int (int n))) s
        = Some (fs_send MemorySocket (FsList 7 (map word_of_int (take n F))) (s\<lparr>block_map := w\<rparr>))" "map_ok ?cfg w"
     "\<forall>b \<in> set (take n F). swap_image ?cfg w (nat b) = Some (memset_bytes 0 (block_size ?cfg))"
     "\<forall>j. j \<notin> nat ` set (take n F) \<longrightarrow> swap_image ?cfg w j = swap_image ?cfg (block_map s) j"
     "free_swap_list ?cfg w = drop n F"
    using reserve_effect[OF mp, of "word_of_int (int n)" "take n F" "fs_env v"] rq(2)[OF ni] nc by (auto simp: F)
  let ?s1 = "fs_send MemorySocket (FsList 7 (map word_of_int (take n F))) (s\<lparr>block_map := w\<rparr>)"
  have bw: "block_map ?s1 = w" by (simp add: fs_send_def)
  have "deliver (fs_env v) ?cfg (new_messages m m1) s = Some ?s1"
    using w(1) unfolding nm by (simp add: create_integer_package_def create_empty_package_def u32_codec.dec_enc_nil)
  moreover have "swap_list ?s1 = Some (map word_of_int (take n F))" by (simp add: swap_list_def fs_send_def)
  moreover have "free_swap_list ?cfg (block_map ?s1) = filter (\<lambda>b. b \<notin> set (take n F)) F"
    unfolding bw w(5) using filter_notin_take[of F n] by (simp add: dF)
  ultimately show ?thesis using c w(2-4) by (intro conjI exI[of _ ?s1]) (simp_all only: bw)
qed

text \<open>Reserved blocks belong to no page, so nothing else has changed.\<close>

lemma reserved_blocks_fresh:
  assumes ok: "life_ok v (m, s)" and bs: "set bs \<subseteq> set (free_swap_list (fs_config v) (block_map s))"
    and s1: "map_ok (fs_config v) (block_map s1)"
      "\<forall>j. j \<notin> nat ` set bs \<longrightarrow> swap_image (fs_config v) (block_map s1) j = swap_image (fs_config v) (block_map s) j"
  shows "vm_ok v m s1" and "contents (fs_config v) m s1 a = contents (fs_config v) m s a"
    and "store m b = Some e \<Longrightarrow> sint (swap_position e) \<notin> set bs"
proof -
  let ?cfg = "fs_config v"
  have vm: "vm_ok v m s" and bm: "blocks_marked ?cfg m s" and pk: "paging_ok (bits (mem_env v)) ?cfg m s"
    using ok by (simp_all add: life_ok_def vm_ok_def)
  have bsr: "0 \<le> b \<and> b < block_swap_count ?cfg \<and> swap_free ?cfg (block_map s) b" if "b \<in> set bs" for b
    using that bs by (auto simp: free_swap_mem)
  have used: "sint (swap_position e) \<notin> set bs" if "store m a = Some e" for a e
    using that bsr[of "sint (swap_position e)"] bm unfolding blocks_marked_def positions_def by fastforce
  have im: "swap_image ?cfg (block_map s1) (nat (sint (swap_position e))) = swap_image ?cfg (block_map s) (nat (sint (swap_position e)))"
    if "store m a = Some e" for a e
  proof -
    have "0 \<le> sint (swap_position e)" using pk that by (auto simp: paging_ok_def)
    then have "nat (sint (swap_position e)) \<notin> nat ` set bs" using used[OF that] bsr by (auto simp: eq_nat_nat_iff)
    then show ?thesis using s1(2) by blast
  qed
  show "vm_ok v m s1" "contents ?cfg m s1 a = contents ?cfg m s a" using vm_ok_images[OF vm, of s1] s1(1) im by blast+
  show "store m b = Some e \<Longrightarrow> sint (swap_position e) \<notin> set bs" by (rule used)
qed

lemma create_step:
  assumes ok: "life_ok v (m, s)" and L: "life_spec v (Create p) (life_of v (m, s)) = Some (x, L)"
  shows "\<exists>m' s'. create_service v p m s = Some (m', s') \<and> x = None \<and> life_ok v (m', s') \<and> life_of v (m', s') = L"
proof -
  let ?cfg = "fs_config v" and ?k = "next_entry m" and ?F = "free_swap_list (fs_config v) (block_map s)"
  define n where "n = nat (uint (tamanio p) div block_size ?cfg)"
  have eb: "entries_below m" and cnt: "block_swap_count ?cfg < 2 ^ 31" and ps: "page_size m = block_size ?cfg"
    using ok by (simp_all add: life_ok_def vm_ok_def paging_ok_def)
  have g: "search_page_table (pid p) m = None" "program_exists v p" "uint (tamanio p) < 2 ^ 31" "n \<le> length ?F" "x = None"
    and LL: "L = (life_of v (m, s))\<lparr>processes := (processes (life_of v (m, s)))(pid p \<mapsto> replicate n (memset_bytes 0 (block_size ?cfg))),
        free_blocks := length ?F - n\<rparr>"
    using L by (auto simp: life_spec_def Let_def n_def life_of_def split: if_splits)
  define bs where "bs = take n ?F"
  have sub: "set bs \<subseteq> set ?F" by (simp add: bs_def set_take_subset)
  have bsr: "0 \<le> b \<and> b < block_swap_count ?cfg \<and> sint (word_of_int b :: c_int) = b \<and> b \<in> set ?F" if "b \<in> set bs" for b
    using that sub sint_of_block[of b] cnt by (auto simp: free_swap_mem)
  have dbs: "distinct bs" and lbs: "length bs = n" using g(4) by (simp_all add: bs_def free_swap_list_def)
  let ?m1 = "reply PFilesystem (create_integer_package 7 (word_of_int (int n))) (m\<lparr>mem_pcb_create := Some p\<rparr>)"
  obtain s1 where m1: "sorted_command v PKernel (CREATE_PROCESS_CMD p) m = Some ?m1"
    and s1: "deliver (fs_env v) ?cfg (new_messages m ?m1) s = Some s1" and sl: "swap_list s1 = Some (map word_of_int bs)"
    and w: "map_ok ?cfg (block_map s1)"
     "\<forall>b \<in> set bs. swap_image ?cfg (block_map s1) (nat b) = Some (memset_bytes 0 (block_size ?cfg))"
     "\<forall>j. j \<notin> nat ` set bs \<longrightarrow> swap_image ?cfg (block_map s1) j = swap_image ?cfg (block_map s) j"
     "free_swap_list ?cfg (block_map s1) = filter (\<lambda>b. b \<notin> set bs) ?F"
    using blocks_are_reserved[OF ok n_def g(3) refl g(4) refl] unfolding bs_def[symmetric] by blast
  note fresh = reserved_blocks_fresh[OF ok sub w(1,3)]
  obtain "is" where f: "get_instructions_from_file (mem_env v)
      (instructions_path (mem_env v) @ ''/'' @ nom_arch_inst p @ ''.txt'') = Some is"
    using g(2) by (auto simp: program_exists_def)
  have a1: "vm_ok v ?m1 s1" using fresh(1) by simp
  have a2: "entries_below ?m1" and a4: "length (map word_of_int bs :: c_int list) = n"
    and a3: "nat (uint (tamanio p) div page_size ?m1) = n"
    using eb lbs ps by (simp_all add: entries_below_def n_def)
  have a5: "distinct (map word_of_int bs :: c_int list)"
    using dbs bsr by (auto simp: distinct_map intro!: inj_onI) metis
  have a6: "list_all (\<lambda>b. 0 \<le> sint b \<and> sint b < block_swap_count ?cfg) (map word_of_int bs :: c_int list)"
    using bsr by (auto simp: list_all_iff)
  have a7: "\<forall>a e. store ?m1 a = Some e \<longrightarrow> swap_position e \<notin> set (map word_of_int bs)"
    using fresh(3) bsr by fastforce
  obtain m2 where m2: "create_process (mem_env v) p (map word_of_int bs) ?m1 = Some (1, m2)" "vm_ok v m2 s1" "entries_below m2"
    "\<forall>i < n. contents ?cfg m2 s1 (?k + i) = swap_image ?cfg (block_map s1) (nat (sint (map word_of_int bs ! i :: c_int)))"
    "\<forall>a < ?k. contents ?cfg m2 s1 a = contents ?cfg ?m1 s1 a" "page_tables m2 = page_tables m @ [(pid p, [?k ..< ?k + n])]"
    "\<forall>a. positions m2 a = (if ?k \<le> a \<and> a < ?k + n then Some (map word_of_int bs ! (a - ?k)) else positions ?m1 a)"
    using create_process_keeps_vm[OF a1 a2 f a3 a4 a5 a6 a7] by auto
  let ?m3 = "reply PKernel (create_integer_package 5 1) (m2\<lparr>mem_pcb_create := None\<rparr>)"
  have "mem_pcb_create ?m1 = Some p" by (simp add: reply_def mem_send_def)
  then have "wait_for_command (mem_env v) PFilesystem (GET_SWAP_BLOCKS (map word_of_int bs)) ?m1 = Some ?m3" using m2(1) by simp
  then have "sorted_command v PFilesystem (GET_SWAP_BLOCKS (map word_of_int bs)) ?m1 = Some ?m3"
    using m2(2) by (intro sorted_quiet) (simp_all add: vm_ok_def)
  then have sv: "create_service v p m s = Some (?m3, s1)" using m1 s1 sl by (simp add: create_service_def)
  have "created_from v (pid p) n bs (m, s) (m2, s1)"
    using g(1) lbs dbs bsr w(2,4) m2(4-7) fresh(2) by (auto simp: created_from_def list_all_iff positions_def)
  from created_state[OF ok this m2(2,3)] show ?thesis
    using sv LL g(5) by (intro exI[of _ ?m3] exI[of _ s1]) simp
qed

text \<open>The state after an end, in terms of the entries \<open>as\<close> that the process had.\<close>

lemma tables_ok_remove:
  assumes to: "tables_ok m" and t: "search_page_table p m = Some (p, as)" and pt: "page_tables m' = remove1 (p, as) (page_tables m)"
    and st: "store m' = (\<lambda>b. if b \<in> set as then None else store m b)"
  shows "tables_ok m'" and "search_page_table q m' = (if q = p then None else search_page_table q m)"
proof -
  have i: "(p, as) \<in> set (page_tables m)" using table_found[OF t] by simp
  have d: "distinct (page_tables m)" "distinct (map fst (page_tables m))" "distinct (concat (map snd (page_tables m)))"
    using to by (auto simp: tables_ok_def distinct_map)
  have other: "t' \<in> set (page_tables m') \<longleftrightarrow> t' \<in> set (page_tables m) \<and> fst t' \<noteq> p" for t'
  proof (cases t')
    case (Pair q bs)
    have "bs = as" if "(p, bs) \<in> set (page_tables m)" using eq_key_imp_eq_value[OF d(2) that i] .
    then show ?thesis using Pair i d(1) by (auto simp: pt)
  qed
  obtain xs ys where xy: "page_tables m = xs @ (p, as) # ys" using i by (meson split_list)
  then have ptx: "page_tables m' = xs @ ys" using d(1) by (simp add: pt remove1_append)
  have "set (snd t') \<inter> set as = {}" if "t' \<in> set (page_tables m')" for t'
    using distinct_tables[OF d(3,2) _ i, of t'] other[of t'] that by auto
  then show "tables_ok m'"
    using to by (auto simp: tables_ok_def xy ptx st list_all_iff)
  have "find (\<lambda>(r, _). r = q) (xs @ ys) = (if q = p then None else find (\<lambda>(r, _). r = q) (xs @ (p, as) # ys))"
  proof -
    have "find (\<lambda>(r, _). r = p) zs = None" if "p \<notin> fst ` set zs" for zs :: "(u32 \<times> nat list) list"
      using that by (induction zs) auto
    then show ?thesis using d(2) unfolding xy by (simp add: find_append split: option.split)
  qed
  then show "search_page_table q m' = (if q = p then None else search_page_table q m)"
    by (simp add: search_page_table_def xy ptx)
qed

text \<open>The blocks of the pages \<open>as\<close>.\<close>

definition blocks_of :: "'b memory \<Rightarrow> nat list \<Rightarrow> int set" where
  "blocks_of m as = (\<lambda>a. sint (swap_position (the (store m a)))) ` set as"

lemma in_blocks_of:
  assumes pk: "paging_ok ba cfg m s" and live: "list_all (\<lambda>a. store m a \<noteq> None) as" and "store m a = Some e"
  shows "sint (swap_position e) \<in> blocks_of m as \<longleftrightarrow> a \<in> set as"
proof
  assume "sint (swap_position e) \<in> blocks_of m as"
  then obtain b e' where b: "b \<in> set as" "store m b = Some e'" "sint (swap_position e) = sint (swap_position e')"
    using live by (auto simp: blocks_of_def list_all_iff)
  then have "swap_position e = swap_position e'" using signed_word_eqI by blast
  then show "a \<in> set as" using b assms(3) pk unfolding paging_ok_def by metis
next
  assume "a \<in> set as"
  then show "sint (swap_position e) \<in> blocks_of m as" using assms(3) by (force simp: blocks_of_def)
qed

lemma blocks_of_range:
  assumes pk: "paging_ok ba cfg m s" and bm: "blocks_marked cfg m s" and live: "list_all (\<lambda>a. store m a \<noteq> None) as"
    and b: "b \<in> blocks_of m as"
  shows "0 \<le> b \<and> b < block_swap_count cfg \<and> \<not> swap_free cfg (block_map s) b"
proof -
  obtain a where "a \<in> set as" "b = sint (swap_position (the (store m a)))" using b by (auto simp: blocks_of_def)
  then obtain e where a: "store m a = Some e" "b = sint (swap_position e)" using live by (force simp: list_all_iff)
  then have "0 \<le> b" "b < block_swap_count cfg" "positions m a = Some (swap_position e)"
    using pk by (auto simp: paging_ok_def positions_def)
  then show ?thesis using a(2) bm unfolding blocks_marked_def by blast
qed

lemma card_blocks_of:
  assumes pk: "paging_ok ba cfg m s" and live: "list_all (\<lambda>a. store m a \<noteq> None) as" and d: "distinct as"
  shows "card (blocks_of m as) = length as"
proof -
  have "inj_on (\<lambda>a. sint (swap_position (the (store m a)))) (set as)"
  proof (rule inj_onI)
    fix a b assume ab: "a \<in> set as" "b \<in> set as" "sint (swap_position (the (store m a))) = sint (swap_position (the (store m b)))"
    obtain e e' where e: "store m a = Some e" "store m b = Some e'" using ab(1,2) live unfolding list_all_iff by blast
    then have "swap_position e = swap_position e'" using ab(3) signed_word_eqI by fastforce
    then show "a = b" using e pk unfolding paging_ok_def by metis
  qed
  then show ?thesis unfolding blocks_of_def using d by (simp add: card_image distinct_card)
qed

text \<open>The modules after an end: the entries and the table are gone and the blocks are marked as free.\<close>

definition ended_from :: "'b vm_env \<Rightarrow> u32 \<Rightarrow> nat list \<Rightarrow> 'b memory \<times> filesystem \<Rightarrow> 'b memory \<times> filesystem \<Rightarrow> bool" where
  "ended_from v p as = (\<lambda>(m, s) (m1, s1).
     search_page_table p m = Some (p, as) \<and> deallocate_process (bits (mem_env v)) p m = Some m1 \<and> map_ok (fs_config v) (block_map s1)
     \<and> (\<forall>j. swap_image (fs_config v) (block_map s1) j = (if j \<in> nat ` blocks_of m as
          then Some (memset_bytes zero_char (block_size (fs_config v))) else swap_image (fs_config v) (block_map s) j)))"

lemma ended_blocks:
  assumes ok: "life_ok v (m, s)" and en: "ended_from v p as (m, s) (m1, s1)" and live: "list_all (\<lambda>a. store m a \<noteq> None) as"
  shows "0 \<le> b \<Longrightarrow> swap_free (fs_config v) (block_map s1) b \<longleftrightarrow> b \<in> blocks_of m as \<or> swap_free (fs_config v) (block_map s) b"
    and "a \<notin> set as \<Longrightarrow> store m a = Some e \<Longrightarrow> swap_image (fs_config v) (block_map s1) (nat (sint (swap_position e)))
      = swap_image (fs_config v) (block_map s) (nat (sint (swap_position e)))"
proof -
  have pk: "paging_ok (bits (mem_env v)) (fs_config v) m s" and bm: "blocks_marked (fs_config v) m s"
    using ok by (simp_all add: life_ok_def vm_ok_def)
  note rng = blocks_of_range[OF pk bm live]
  have im: "swap_image (fs_config v) (block_map s1) j = (if j \<in> nat ` blocks_of m as
      then Some (memset_bytes zero_char (block_size (fs_config v))) else swap_image (fs_config v) (block_map s) j)" for j
    using en by (simp add: ended_from_def)
  have nb: "nat b \<in> nat ` blocks_of m as \<longleftrightarrow> b \<in> blocks_of m as" if "0 \<le> b" for b
    using that rng by (auto simp: eq_nat_nat_iff)
  show "0 \<le> b \<Longrightarrow> swap_free (fs_config v) (block_map s1) b \<longleftrightarrow> b \<in> blocks_of m as \<or> swap_free (fs_config v) (block_map s) b"
    using nb im[of "nat b"] by (auto simp: swap_free_def)
  assume a: "a \<notin> set as" "store m a = Some e"
  then have "0 \<le> sint (swap_position e)" using pk by (auto simp: paging_ok_def)
  then show "swap_image (fs_config v) (block_map s1) (nat (sint (swap_position e)))
      = swap_image (fs_config v) (block_map s) (nat (sint (swap_position e)))"
    using im[of "nat (sint (swap_position e))"] nb in_blocks_of[OF pk live a(2)] a(1) by simp
qed

lemma ended_marks:
  assumes ok: "life_ok v (m, s)" and en: "ended_from v p as (m, s) (m1, s1)" and live: "list_all (\<lambda>a. store m a \<noteq> None) as"
    and st: "store m1 = (\<lambda>b. if b \<in> set as then None else store m b)"
  shows "blocks_marked (fs_config v) m1 s1"
  unfolding blocks_marked_def
proof (intro allI impI)
  fix b assume b: "0 \<le> b" "b < block_swap_count (fs_config v)"
  have bm: "blocks_marked (fs_config v) m s" and pk: "paging_ok (bits (mem_env v)) (fs_config v) m s"
    using ok by (simp_all add: life_ok_def vm_ok_def)
  have "(\<forall>a w. positions m1 a = Some w \<longrightarrow> sint w \<noteq> b) \<longleftrightarrow>
      (\<forall>a e. a \<notin> set as \<longrightarrow> store m a = Some e \<longrightarrow> sint (swap_position e) \<noteq> b)"
    by (auto simp: positions_def st)
  moreover have "swap_free (fs_config v) (block_map s) b \<longleftrightarrow> (\<forall>a e. store m a = Some e \<longrightarrow> sint (swap_position e) \<noteq> b)"
    using bm b unfolding blocks_marked_def by (auto simp: positions_def)
  moreover have "(\<forall>a e. a \<notin> set as \<longrightarrow> store m a = Some e \<longrightarrow> sint (swap_position e) \<noteq> b) \<longleftrightarrow>
      b \<in> blocks_of m as \<or> (\<forall>a e. store m a = Some e \<longrightarrow> sint (swap_position e) \<noteq> b)"
    using in_blocks_of[OF pk live] by metis
  ultimately show "swap_free (fs_config v) (block_map s1) b \<longleftrightarrow> (\<forall>a w. positions m1 a = Some w \<longrightarrow> sint w \<noteq> b)"
    using ended_blocks(1)[OF ok en live b(1)] by simp
qed

lemma ended_free_blocks:
  assumes ok: "life_ok v (m, s)" and en: "ended_from v p as (m, s) (m1, s1)" and live: "list_all (\<lambda>a. store m a \<noteq> None) as"
    and d: "distinct as"
  shows "length (free_swap_list (fs_config v) (block_map s1)) = length (free_swap_list (fs_config v) (block_map s)) + length as"
proof -
  let ?cfg = "fs_config v"
  have pk: "paging_ok (bits (mem_env v)) ?cfg m s" and bm: "blocks_marked ?cfg m s"
    using ok by (simp_all add: life_ok_def vm_ok_def)
  note rng = blocks_of_range[OF pk bm live]
  have df: "distinct (free_swap_list ?cfg w)" for w by (simp add: free_swap_list_def)
  have "set (free_swap_list ?cfg (block_map s1)) = set (free_swap_list ?cfg (block_map s)) \<union> blocks_of m as"
    using ended_blocks(1)[OF ok en live] rng by (auto simp: free_swap_mem)
  moreover have "set (free_swap_list ?cfg (block_map s)) \<inter> blocks_of m as = {}" using rng by (auto simp: free_swap_mem)
  moreover have "finite (blocks_of m as)" by (simp add: blocks_of_def)
  ultimately show ?thesis
    using distinct_card[OF df, of "block_map s"] distinct_card[OF df, of "block_map s1"] card_blocks_of[OF pk live d]
    by (simp add: card_Un_disjoint)
qed

lemma ended_state:
  assumes laws: "bitarray_laws (bits (mem_env v))" and ok: "life_ok v (m, s)" and en: "ended_from v p as (m, s) (m1, s1)"
  shows "life_ok v (m1, s1)" and "life_of v (m1, s1) = (life_of v (m, s))
     \<lparr>processes := (processes (life_of v (m, s)))(p := None), free_blocks := free_blocks (life_of v (m, s)) + length as\<rparr>"
proof -
  let ?cfg = "fs_config v" and ?ba = "bits (mem_env v)"
  have vm: "vm_ok v m s" and eb: "entries_below m" and to: "tables_ok m" and nz: "no_zero_page ?cfg m s" and fo: "frames_ok ?ba m"
    using ok by (simp_all add: life_ok_def vm_ok_def paging_ok_def)
  have t: "search_page_table p m = Some (p, as)" and d: "deallocate_process ?ba p m = Some m1" and mp: "map_ok ?cfg (block_map s1)"
    using en by (simp_all add: ended_from_def)
  have dist: "distinct as" and live: "list_all (\<lambda>a. store m a \<noteq> None) as"
    using tables_entries[OF to t] by simp_all
  have m1: "store m1 = (\<lambda>b. if b \<in> set as then None else store m b)" "page_tables m1 = remove1 (p, as) (page_tables m)"
    "next_entry m1 = next_entry m" using deallocate_effect[OF laws fo t dist live] d by auto
  note vm1 = end_process_keeps_vm[OF laws vm t dist live d mp ended_blocks(2)[OF ok en live]]
  note tr = tables_ok_remove[OF to t m1(2,1)]
  have "entries_below m1" using eb m1 by (simp add: entries_below_def)
  moreover have "no_zero_page ?cfg m1 s1" using nz vm1 by (auto simp: no_zero_page_def)
  ultimately show "life_ok v (m1, s1)" using vm1 tr(1) ok ended_marks[OF ok en live m1(1)] by (simp add: life_ok_def)
  have "map_option (\<lambda>(_, as). map (\<lambda>a. the (contents ?cfg m1 s1 a)) as) (search_page_table q m1) =
      ((processes (life_of v (m, s)))(p := None)) q" for q
  proof (cases "q = p \<or> search_page_table q m = None")
    case False
    then obtain t' where t': "search_page_table q m = Some t'" by auto
    then have "map (\<lambda>a. the (contents ?cfg m1 s1 a)) (snd t') = map (\<lambda>a. the (contents ?cfg m s a)) (snd t')"
      using tables_disjoint[OF to t' t] False vm1 by (intro map_cong) auto
    then show ?thesis using False t' tr(2) by (auto simp: life_of_def split: prod.split)
  qed (use tr(2) in \<open>auto simp: life_of_def\<close>)
  then show "life_of v (m1, s1) = (life_of v (m, s))
     \<lparr>processes := (processes (life_of v (m, s)))(p := None), free_blocks := free_blocks (life_of v (m, s)) + length as\<rparr>"
    using ended_free_blocks[OF ok en live dist] by (simp add: life_of_def fun_eq_iff)
qed

lemma end_step:
  assumes laws: "bitarray_laws (bits (mem_env v))" and ok: "life_ok v (m, s)"
    and L: "life_spec v (Finish p) (life_of v (m, s)) = Some (x, L)"
  shows "\<exists>m' s'. end_service v p m s = Some (m', s') \<and> x = None \<and> life_ok v (m', s') \<and> life_of v (m', s') = L"
proof -
  let ?cfg = "fs_config v" and ?ba = "bits (mem_env v)"
  have vm: "vm_ok v m s" and eb: "entries_below m" and to: "tables_ok m" and bm: "blocks_marked ?cfg m s"
    and nz: "no_zero_page ?cfg m s" and cnt: "block_swap_count ?cfg < 2 ^ 31" and z: "sort_pages m = 0"
    and pk: "paging_ok ?ba ?cfg m s"
    using ok by (simp_all add: life_ok_def vm_ok_def)
  then have mp: "map_ok ?cfg (block_map s)" and fo: "frames_ok ?ba m" by (simp_all add: paging_ok_def)
  obtain as where t: "search_page_table (pid p) m = Some (pid p, as)" and x: "x = None"
    and LL: "L = (life_of v (m, s))\<lparr>processes := (processes (life_of v (m, s)))(pid p := None),
        free_blocks := free_blocks (life_of v (m, s)) + length as\<rparr>"
    using L table_found[of "pid p" m] by (auto simp: life_spec_def Let_def life_of_def split: option.splits)
  have dist: "distinct as" and live: "list_all (\<lambda>a. store m a \<noteq> None) as"
    using tables_entries[OF to t] by simp_all
  define bs where "bs = map (\<lambda>a. swap_position (the (store m a))) as"
  obtain m1 where m1: "deallocate_process ?ba (pid p) m = Some m1" "mem_sent m1 = mem_sent m @ [(PFilesystem, MList 14 bs)]"
    "store m1 = (\<lambda>b. if b \<in> set as then None else store m b)" "page_tables m1 = remove1 (pid p, as) (page_tables m)"
    "next_entry m1 = next_entry m" "sort_pages m1 = sort_pages m"
    using deallocate_effect[OF laws fo t dist live] unfolding bs_def by blast
  have c1: "sorted_command v PKernel (END_PROCESS p) m = Some m1" using m1 z by (intro sorted_quiet) simp_all
  have nm: "new_messages m m1 = [(PFilesystem, MList 14 bs)]" using m1(2) by (simp add: new_messages_def)
  have rng: "list_all (\<lambda>b. 0 \<le> b \<and> b < block_swap_count ?cfg) (map sint bs)"
    using pk live by (auto simp: bs_def list_all_iff paging_ok_def)
  obtain w where w: "release_swap_blocks ?cfg (map sint bs) (block_map s) = Some w" "map_ok ?cfg w"
    "\<And>j. swap_image ?cfg w j = (if j \<in> nat ` set (map sint bs) then Some (memset_bytes zero_char (block_size ?cfg))
        else swap_image ?cfg (block_map s) j)" using release_swap_spec[OF mp rng] by blast
  define s1 where "s1 = fs_reply MemorySocket 14 0 (s\<lparr>block_map := w\<rparr>)"
  have bw: "block_map s1 = w" by (simp add: s1_def fs_reply_def fs_send_def)
  have s1: "deliver (fs_env v) ?cfg (new_messages m m1) s = Some s1" using w(1) unfolding nm by (simp add: s1_def)
  have "end_service v p m s = Some (m1, s1)"
    using c1 s1 sorted_quiet[of v PFilesystem "FREE_PAGES 0" m1 m1] m1(6) z by (simp add: end_service_def)
  moreover have "set (map sint bs) = blocks_of m as" by (simp add: bs_def blocks_of_def image_image)
  then have "ended_from v (pid p) as (m, s) (m1, s1)" using t m1(1) w(2,3) by (simp add: ended_from_def bw)
  ultimately show ?thesis using ended_state[OF laws ok] x LL by (intro exI[of _ m1] exI[of _ s1]) simp
qed

section \<open>The refinement\<close>

text \<open>The machines under LRU and a bit array that keeps its laws.\<close>

definition life_inv :: "'b vm_env \<Rightarrow> 'b memory \<times> filesystem \<Rightarrow> bool" where
  "life_inv v ms \<longleftrightarrow> bitarray_laws (bits (mem_env v)) \<and> uses_lru v \<and> life_ok v ms"

interpretation lives: simulation "life_step v" "life_spec v" "life_inv v" "life_of v" for v :: "'b vm_env"
proof
  fix e :: life_event and x L and ms :: "'b memory \<times> filesystem"
  assume inv: "life_inv v ms" and L: "life_spec v e (life_of v ms) = Some (x, L)"
  obtain m s where ms: "ms = (m, s)" by (cases ms)
  then have ok: "life_ok v (m, s)" and laws: "bitarray_laws (bits (mem_env v))" and lru: "uses_lru v"
    using inv by (simp_all add: life_inv_def)
  have "\<exists>m' s'. life_step v e (m, s) = Some (x, m', s') \<and> life_ok v (m', s') \<and> life_of v (m', s') = L"
  proof (cases e)
    case (Create p)
    then show ?thesis using create_step[OF ok, of p] L ms by (force simp: life_step_def)
  next
    case (Finish p)
    then show ?thesis using end_step[OF laws ok, of p] L ms by (force simp: life_step_def)
  next
    case (Access acc)
    then obtain pages y pages' where "processes (life_of v (m, s)) (access_pid acc) = Some pages"
      "page_access (block_size (fs_config v)) acc pages = Some (y, pages')" "x = Some y"
      "L = (life_of v (m, s))\<lparr>processes := (processes (life_of v (m, s)))(access_pid acc \<mapsto> pages')\<rparr>"
      using L ms by (auto simp: life_spec_def Let_def split: option.splits prod.splits)
    then show ?thesis using access_step[OF laws lru ok] Access by (force simp: life_step_def)
  qed
  then show "\<exists>s'. life_step v e ms = Some (x, s') \<and> life_inv v s' \<and> life_of v s' = L"
    using laws lru ms by (auto simp: life_inv_def)
qed

text \<open>
  C3. Processes have private memories. Any interleaving of creations, stores, loads and ends of
  processes that the abstract machine allows is carried out by the memory and the file system, with
  all reservations, page faults, replacements and releases it needs: every load answers what the
  process itself stored last at that place, or zero when it stored nothing since its creation,
  whatever the others do, and the blocks of an ended process are usable again.
\<close>

theorem processes_have_private_memory:
  assumes "bitarray_laws (bits (mem_env v))" and "uses_lru v" and "life_ok v ms"
    and "run_events (life_spec v) evs (life_of v ms) = Some (xs, L)"
  shows "\<exists>ms'. run_events (life_step v) evs ms = Some (xs, ms') \<and> life_ok v ms' \<and> life_of v ms' = L"
  using lives.run_simulates[of v ms evs xs L] assms by (auto simp: life_inv_def)

lemma demo_start_life: "life_ok demo_start_env (demo_start, demo_fs)"
  "life_of demo_start_env (demo_start, demo_fs) = \<lparr>processes = Map.empty, free_blocks = 2\<rparr>"
proof -
  have f: "free_swap_list demo_cfg (block_map demo_fs) = [0, 1]" by code_simp
  have "swap_free demo_cfg (block_map demo_fs) b" if "0 \<le> b" "b < 2" for b
  proof -
    have "b \<in> set (free_swap_list demo_cfg (block_map demo_fs))" using that unfolding f by auto
    then show ?thesis by (simp add: free_swap_mem)
  qed
  moreover have "contents demo_cfg demo_start demo_fs a = None" for a by (simp add: contents_def)
  moreover have "block_swap_count demo_cfg = 2" by (simp add: demo_cfg_def)
  ultimately show "life_ok demo_start_env (demo_start, demo_fs)"
    using demo_start_ok by (simp add: life_ok_def tables_ok_def blocks_marked_def positions_def no_zero_page_def)
  show "life_of demo_start_env (demo_start, demo_fs) = \<lparr>processes = Map.empty, free_blocks = 2\<rparr>"
    using f by (simp add: life_of_def search_page_table_def fun_eq_iff)
qed

text \<open>Two processes one after the other in two blocks: the second does not see the page of the first.\<close>

theorem processes_have_private_memory_witness:
  "\<exists>ms'. run_events (life_step demo_start_env)
     [Create (crear_pcb 1 ''p'' 32 1), Access (Store 1 1 4 77), Access (Load 1 1 4), Finish (crear_pcb 1 ''p'' 32 1),
      Create (crear_pcb 2 ''p'' 32 1), Access (Load 2 1 4)] (demo_start, demo_fs)
     = Some ([None, Some 0, Some 77, None, None, Some 0], ms')"
proof -
  let ?evs = "[Create (crear_pcb 1 ''p'' 32 1), Access (Store 1 1 4 77), Access (Load 1 1 4), Finish (crear_pcb 1 ''p'' 32 1),
      Create (crear_pcb 2 ''p'' 32 1), Access (Load 2 1 4)]"
  let ?z = "replicate 16 0 :: u8 list"
  have p: "pid (crear_pcb q f 32 n) = q" "tamanio (crear_pcb q f 32 n) = 32" "nom_arch_inst (crear_pcb q f 32 n) = f" for q f n
    by (simp_all add: crear_pcb_def)
  have pe: "program_exists demo_start_env (crear_pcb q ''p'' 32 1)" for q
    by (simp add: program_exists_def get_instructions_from_file_def p) (simp add: demo_mem_env_def)
  have cfg: "block_size demo_cfg = 16" "memset_bytes 0 16 = ?z" by (simp_all add: demo_cfg_def memset_bytes_def)
  have r4: "replicate 4 x = [x, x, x, x]" for x :: u8 by (simp add: eval_nat_numeral)
  have r2: "replicate 2 z = [z, z]" for z :: "u8 list" by (simp add: eval_nat_numeral)
  have w: "mem_write ?z 4 (bytes_of_u32 77) = Some (replicate 4 0 @ bytes_of_u32 77 @ replicate 8 0)"
    "mem_read (replicate 4 0 @ bytes_of_u32 77 @ replicate 8 0) 4 4 = Some (bytes_of_u32 77)"
    "mem_read ?z 4 4 = Some (bytes_of_u32 0)" "replicate 4 0 @ bytes_of_u32 77 @ replicate 8 0 \<noteq> memset_bytes zero_char 16"
    subgoal by (simp add: mem_write_def)
    subgoal by (simp add: mem_read_def)
    subgoal using r4 by (simp add: mem_read_def bytes_of_u32_def)
    subgoal using r4 by (simp add: memset_bytes_def zero_char_def replicate_add[of 4 12, simplified])
    done
  have "map_option fst (run_events (life_spec demo_start_env) ?evs \<lparr>processes = Map.empty, free_blocks = 2\<rparr>)
      = Some [None, Some 0, Some 77, None, None, Some 0]"
    by (simp add: life_spec_def Let_def p pe cfg page_access_def w u32_codec.dec_enc_nil r2)
  then obtain L where L: "run_events (life_spec demo_start_env) ?evs (life_of demo_start_env (demo_start, demo_fs))
      = Some ([None, Some 0, Some 77, None, None, Some 0], L)" unfolding demo_start_life(2) by auto
  have "bitarray_laws (bits (mem_env demo_start_env))" using demo_bits_laws by simp
  from processes_have_private_memory[OF this demo_start_ok(3) demo_start_life(1) L] show ?thesis by blast
qed

section \<open>Why pages of zero characters are excluded\<close>

text \<open>
  C36. A page of zero characters is lost. The file system recognises a free block of the swap by its bytes,
  all the character \<open>0\<close>. A page that a program filled with this character and that was written back is
  such a block: a reservation of as many blocks as are free gives it to a new process, and the page
  reads as zero bytes afterwards.
\<close>

theorem zero_page_is_given_away:
  assumes pk: "paging_ok ba cfg m s" and e: "store m a = Some e" "\<not> bit_precense e"
    and z: "contents cfg m s a = Some (memset_bytes zero_char (block_size cfg))"
    and n: "int (length (free_swap_list cfg (block_map s))) \<le> sint n" "sint n \<le> block_swap_count cfg"
  shows "\<exists>s' bs. wait_for_commands env cfg MRY (GET_SWAP_BLOCKS_FS n) s = Some s'
     \<and> last (fs_sent s') = (MemorySocket, FsList 7 bs) \<and> swap_position e \<in> set bs
     \<and> contents cfg m s' a = Some (memset_bytes 0 (block_size cfg))"
proof -
  let ?F = "free_swap_list cfg (block_map s)" and ?b = "sint (swap_position e)"
  have mp: "map_ok cfg (block_map s)" and b: "0 \<le> ?b" "?b < block_swap_count cfg" using pk e by (auto simp: paging_ok_def)
  have "swap_image cfg (block_map s) (nat ?b) = Some (memset_bytes zero_char (block_size cfg))" using z e by (simp add: contents_def)
  then have m: "?b \<in> set ?F" using b by (simp add: free_swap_mem swap_free_def)
  have t: "take (nat (sint n)) ?F = ?F" using n(1) by simp
  obtain w where w: "wait_for_commands env cfg MRY (GET_SWAP_BLOCKS_FS n) s
        = Some (fs_send MemorySocket (FsList 7 (map word_of_int ?F)) (s\<lparr>block_map := w\<rparr>))"
     "\<forall>b \<in> set ?F. swap_image cfg w (nat b) = Some (memset_bytes 0 (block_size cfg))"
    using reserve_effect[OF mp n(2) t[symmetric], of env] by blast
  have "word_of_int ?b = swap_position e" by simp
  then have "swap_position e \<in> set (map word_of_int ?F)" using m by (metis image_eqI set_map)
  then show ?thesis using w m e by (auto simp: fs_send_def contents_def)
qed

theorem zero_page_is_given_away_witness:
  "\<exists>s' bs. wait_for_commands demo_fs_env demo_cfg MRY (GET_SWAP_BLOCKS_FS 2) demo_fs = Some s'
     \<and> last (fs_sent s') = (MemorySocket, FsList 7 bs) \<and> 1 \<in> set bs
     \<and> contents demo_cfg demo_vm demo_fs 1 = Some (replicate 16 48) \<and> contents demo_cfg demo_vm s' 1 = Some (replicate 16 0)"
proof -
  have e: "store demo_vm 1 = Some (page_create 1 False False 0 1 1)" "\<not> bit_precense (page_create 1 False False 0 1 1)"
    by (simp_all add: demo_vm_def page_create_def)
  have "swap_image demo_cfg (block_map demo_fs) 1 = Some (replicate 16 48)" by code_simp
  then have c: "contents demo_cfg demo_vm demo_fs 1 = Some (replicate 16 48)" using e by (simp add: contents_def page_create_def)
  have m: "memset_bytes zero_char (block_size demo_cfg) = replicate 16 48" "memset_bytes 0 (block_size demo_cfg) = replicate 16 0"
    by (simp_all add: memset_bytes_def zero_char_def demo_cfg_def)
  have f: "free_swap_list demo_cfg (block_map demo_fs) = [0, 1]" by code_simp
  have n: "int (length (free_swap_list demo_cfg (block_map demo_fs))) \<le> sint (2 :: c_int)" "sint (2 :: c_int) \<le> block_swap_count demo_cfg"
    unfolding f by (simp_all add: demo_cfg_def)
  from zero_page_is_given_away[OF demo_vm_ok(1) e, unfolded m, OF c n, of demo_fs_env] c
  show ?thesis by (simp add: page_create_def)
qed

end
