(* ===== verification/Kernel_Memory.thy ===== *)
theory Kernel_Memory
  imports Scheduler_Runs Process_Life
begin

text \<open>
  The kernel as a client of the memory: in every run without a pause, the messages it sends create each process
  once, ask for pages of processes that exist, and end each process once. The processes that the
  memory has are those that the kernel has somewhere.
\<close>

section \<open>The protocol\<close>

fun to_memory :: "kmsg \<Rightarrow> bool" where
  "to_memory (ToMemory c p) = True" | "to_memory (PageToMemory c pg) = True" | "to_memory _ = False"

text \<open>
  The processes of the memory after a message; \<open>None\<close> is a creation with a number in use, or a
  page or an end of a process that the memory does not have.
\<close>

fun memory_has :: "kmsg \<Rightarrow> u32 set \<Rightarrow> u32 set option" where
  "memory_has (ToMemory c p) A =
     (if c = CREATE_PROCESS \<and> pid p \<notin> A then Some (insert (pid p) A)
      else if c = FINISH_PROCESS \<and> pid p \<in> A then Some (A - {pid p})
      else None)"
| "memory_has (PageToMemory c pg) A = (if c = PAGE_FAULT_COMMAND \<and> pag_pid pg \<in> A then Some A else None)"
| "memory_has _ A = Some A"

fun memory_protocol :: "kmsg list \<Rightarrow> u32 set \<Rightarrow> u32 set option" where
  "memory_protocol [] A = Some A"
| "memory_protocol (m # msgs) A = (case memory_has m A of None \<Rightarrow> None | Some A \<Rightarrow> memory_protocol msgs A)"

lemma memory_protocol_append:
  "memory_protocol (msgs @ ns) A = (case memory_protocol msgs A of None \<Rightarrow> None | Some B \<Rightarrow> memory_protocol ns B)"
  by (induction msgs arbitrary: A) (auto split: option.split)

definition mem_inv :: "kernel \<Rightarrow> bool" where
  "mem_inv k \<longleftrightarrow> memory_protocol (sent k) {} = Some (set_mset (all_ms k))"

text \<open>A step that moves processes and tells the memory nothing.\<close>

definition memory_quiet :: "kernel \<Rightarrow> kernel \<Rightarrow> bool" where
  "memory_quiet k k' \<longleftrightarrow> all_ms k' = all_ms k
     \<and> (\<exists>msgs. sent k' = sent k @ msgs \<and> list_all (\<lambda>m. \<not> to_memory m) msgs)"

lemma memory_silent: "list_all (\<lambda>m. \<not> to_memory m) msgs \<Longrightarrow> memory_protocol msgs A = Some A"
proof (induction msgs)
  case (Cons m msgs)
  then show ?case by (cases m) simp_all
qed simp

lemma quiet_inv: "memory_quiet k k' \<Longrightarrow> mem_inv k \<Longrightarrow> mem_inv k'"
  by (auto simp: memory_quiet_def mem_inv_def memory_protocol_append memory_silent)

lemma quiet_refl [simp]: "memory_quiet k k"
  by (simp add: memory_quiet_def)

lemma quiet_same: "all_ms k' = all_ms k \<Longrightarrow> sent k' = sent k \<Longrightarrow> memory_quiet k k'"
  by (simp add: memory_quiet_def)

lemma quiet_message: "all_ms k' = all_ms k \<Longrightarrow> sent k' = sent k @ [m] \<Longrightarrow> \<not> to_memory m \<Longrightarrow> memory_quiet k k'"
  by (simp add: memory_quiet_def)

section \<open>Handlers of the dispatcher\<close>

definition told_nothing :: "kernel \<Rightarrow> kernel \<Rightarrow> bool" where
  "told_nothing k k' \<longleftrightarrow> (\<exists>msgs. sent k' = sent k @ msgs \<and> list_all (\<lambda>m. \<not> to_memory m) msgs)"

lemma told_same: "sent k' = sent k \<Longrightarrow> told_nothing k k'"
  by (simp add: told_nothing_def)

lemma set_locks_sent [simp]: "sent (set_locks name ls k) = sent k"
  by (simp add: set_locks_def split: option.split)

lemma basic_sent [simp]:
  "sent (spawn t k) = sent k" "sent (agregar_pcb_a_cola_READY p k) = sent k" "sent (send_to_exit p e k) = sent k"
  "sent (block_executing p mk k) = sent k" "sent (resume_executing p k) = sent k" "sent (set_block r b k) = sent k"
  "sent (destroy_executing_process k) = sent k" "sent (post_ready k) = sent k" "sent (send m k) = sent k @ [m]"
  "sent (execute_first_ready p ps k) = sent k" "sent (manage_page_fault p k) = sent k" "sent (interrupt_process p k) = sent k"
  "sent (unblock_processes itoa k) = sent k" "sent (set_list s ps k) = sent k" "sent (free_all_instances itoa p k) = sent k"
  by (simp_all add: kernel_basic_defs resume_executing_def set_block_def execute_first_ready_def manage_page_fault_def
      interrupt_process_def unblock_processes_def Let_def fold_ready set_list_def free_all_instances_def)

lemma open_told: "f_open d p k = Some k' \<Longrightarrow> told_nothing k k'"
proof -
  assume o: "f_open d p k = Some k'"
  let ?q = "p\<lparr>open_files := open_files p @ [\<lparr>openf_file = fo_file_name d, seek = 0\<rparr>]\<rparr>"
  obtain m where "sent (open_entry (fo_file_name d) ?q k) = sent k @ [m]" "\<not> to_memory m"
    by (cases "open_files_global_table k (fo_file_name d)") (simp_all add: open_entry_def send_def)
  then show ?thesis using o by (auto simp: told_nothing_def f_open_def Let_def split: if_splits)
qed

lemma wait_sent: "wait_instance_of_resource itoa r p k = Some k' \<Longrightarrow> sent k' = sent k"
  and signal_sent: "signal_instance_of_resource itoa r p k = Some k' \<Longrightarrow> sent k' = sent k"
  by (auto simp: wait_instance_of_resource_def signal_instance_of_resource_def kernel_basic_defs set_block_def
      split: option.splits if_splits)

lemma resource_sent:
  assumes "resource_call op p k = Some k'" and "\<And>r k'. op r p k = Some k' \<Longrightarrow> sent k' = sent k"
  shows "sent k' = sent k"
  using assms by (auto simp: resource_call_def split: params.splits if_splits)

lemma switch_told: "execute_switch env p k = Some k' \<Longrightarrow> told_nothing k k'"
proof (cases "instruccion p")
  case WAIT
  then show "execute_switch env p k = Some k' \<Longrightarrow> ?thesis"
    using wait_sent resource_sent by (intro told_same) (auto simp: execute_switch_def split: if_splits)
next
  case SIGNAL
  then show "execute_switch env p k = Some k' \<Longrightarrow> ?thesis"
    using signal_sent resource_sent by (intro told_same) (auto simp: execute_switch_def split: if_splits)
next
  case FOPEN
  then show "execute_switch env p k = Some k' \<Longrightarrow> ?thesis"
    by (auto simp: execute_switch_def open_told split: params.splits if_splits)
qed (auto simp: execute_switch_def f_seek_def f_close_def f_truncate_def f_read_def f_write_def bind_eq_Some_conv
    intro!: told_same split: params.splits option.splits if_splits prod.splits)

section \<open>Elimination\<close>

lemma close_files_sent: "close_files_of p fs k = Some k' \<Longrightarrow> sent k' = sent k"
  using close_files_frame by fastforce

lemma eliminar_told:
  assumes "eliminar_proceso itoa p k = Some k'"
  shows "sent k' = sent k @ [ToMemory FINISH_PROCESS p] \<and> all_ms k' = all_ms k"
proof -
  have "sent k' = sent k @ [ToMemory FINISH_PROCESS p]"
    using assms close_files_sent by (fastforce simp: eliminar_proceso_def bind_eq_Some_conv)
  moreover obtain t s n cs where "blocked_ms cs = blocked_ms (colas_BLOCKED k)"
    "k' = k\<lparr>open_files_global_table := t, sent := s, colas_BLOCKED := cs, freed_resource := n\<rparr>"
    by (rule eliminar_frame[OF assms])
  then have "all_ms k' = all_ms k" by (simp add: measure_defs)
  ultimately show ?thesis by blast
qed

lemma mem_eliminar:
  assumes "mem_inv k0" and "places_inv k0" and "all_ms k0 = add_mset (pid p) (all_ms k)" and "sent k = sent k0"
    and "eliminar_proceso itoa p k = Some k'"
  shows "mem_inv k'"
proof -
  have "count (all_ms k0) (pid p) \<le> 1" using assms(2) by (simp add: places_inv_def)
  then have "pid p \<notin># all_ms k" using assms(3) by (simp add: not_in_iff)
  then have "set_mset (all_ms k) = set_mset (all_ms k0) - {pid p}" using assms(3) by simp
  then show ?thesis using assms(1,3,4) eliminar_told[OF assms(5)] by (simp add: mem_inv_def memory_protocol_append)
qed

section \<open>Steps\<close>

text \<open>What a step must show: processes only moved, and the memory told nothing.\<close>

lemma mem_quiet:
  assumes "mem_inv k" and "told_nothing k k'" and "all_ms k' = all_ms k"
  shows "mem_inv k'"
  using assms by (auto simp: told_nothing_def mem_inv_def memory_protocol_append memory_silent)

lemma mem_idle [simp]: "thread_pids t = [] \<Longrightarrow> mem_inv (spawn t k) = mem_inv k"
  by (simp add: mem_inv_def all_ms_spawn)

lemma mem_counters [simp]:
  "mem_inv (k\<lparr>proceso_en_cola_ready := n\<rparr>) = mem_inv k" "mem_inv (k\<lparr>process_in_exit := n\<rparr>) = mem_inv k"
  "mem_inv (k\<lparr>freed_resource := n\<rparr>) = mem_inv k" "mem_inv (k\<lparr>process_in_new := n\<rparr>) = mem_inv k"
  "mem_inv (k\<lparr>grd_mult := n\<rparr>) = mem_inv k" "mem_inv (k\<lparr>executing_process := n\<rparr>) = mem_inv k"
  "mem_inv (k\<lparr>working := b\<rparr>) = mem_inv k" "mem_inv (post_ready k) = mem_inv k"
  by (simp_all add: mem_inv_def measure_defs post_ready_def)

lemma mem_interrupt: "interrupt_executing_process k = Some k' \<Longrightarrow> mem_inv k \<Longrightarrow> mem_inv k'"
  "interrupt_finish_executing_process k = Some k' \<Longrightarrow> mem_inv k \<Longrightarrow> mem_inv k'"
  by (auto simp: interrupt_executing_process_def interrupt_finish_executing_process_def send_def measure_defs
      told_nothing_def split: option.splits elim!: mem_quiet)

lemma mem_ready_first:
  assumes "mem_inv k" and "estado_EXEC k = None" and "mset (lista_READY k) = add_mset p (mset ps)"
  shows "mem_inv (execute_first_ready p ps k)"
proof (rule mem_quiet[OF assms(1)])
  have "ms (lista_READY k) = add_mset (pid p) (ms ps)" unfolding assms(3) by simp
  then show "all_ms (execute_first_ready p ps k) = all_ms k"
    using assms(2) by (simp add: execute_first_ready_def measure_defs kernel_basic_defs)
qed (simp add: told_same)

lemma mem_planners:
  assumes "mem_inv k"
  shows "planificador_largo_plazo k = Runs k' \<Longrightarrow> mem_inv k'" and "planificador_fifo k = Runs k' \<Longrightarrow> mem_inv k'"
    and "planificador_rr k = Runs k' \<Longrightarrow> mem_inv k'" and "quantum_checker i k = Runs k' \<Longrightarrow> mem_inv k'"
    and "wait_grd_mlt k = Runs k' \<Longrightarrow> mem_inv k'"
  using assms by (auto simp: planificador_largo_plazo_def planificador_fifo_def planificador_rr_def quantum_checker_def
      wait_grd_mlt_def Let_def mem_ready_first mem_interrupt split: if_splits option.splits list.splits)

lemma mem_prioridades:
  assumes min: "minimum_law env" and inv: "mem_inv k" and r: "planificador_prioridades env k = Runs k'"
  shows "mem_inv k'"
proof -
  let ?k = "k\<lparr>proceso_en_cola_ready := proceso_en_cola_ready k - 1\<rparr>"
  let ?m = "list_get_minimum env min_priority (lista_READY k)"
  have inv: "mem_inv ?k" using inv by simp
  have pick: "mem_inv (execute_first_ready ?m (remove1 ?m (lista_READY k)) ?k)"
    if "lista_READY k \<noteq> []" "estado_EXEC k = None"
    by (rule mem_ready_first[OF inv]) (use min that in \<open>auto simp: minimum_law_def\<close>)
  have only: "mem_inv (execute_first_ready (hd (lista_READY k)) (tl (lista_READY k)) ?k)"
    if "lista_READY k \<noteq> []" "estado_EXEC k = None"
    by (rule mem_ready_first[OF inv]) (use that in \<open>auto simp flip: mset.simps\<close>)
  show ?thesis
    using r inv pick only by (auto simp: planificador_prioridades_def Let_def mem_interrupt split: if_splits option.splits)
qed

lemma mem_admit:
  assumes inv: "mem_inv (spawn TAdmit k)" and r: "admitir_proceso k = Runs k'"
  shows "mem_inv k'"
proof -
  obtain p ps where "lista_NEW k = p # ps" "k' = spawn TLong (agregar_pcb_a_cola_READY p (k\<lparr>grd_mult := grd_mult k - 1, lista_NEW := ps\<rparr>))"
    using r by (cases "lista_NEW k") (auto simp: admitir_proceso_def list_remove_first_def split: if_splits)
  then show ?thesis
    by (intro mem_quiet[OF inv]) (simp_all add: told_same all_ms_spawn measure_defs kernel_basic_defs)
qed

lemma mem_enter:
  assumes inv: "mem_inv (spawn (TInterrupted p) k)" and r: "treat_interrupted_enter p k = Runs k'"
  shows "mem_inv k'"
  by (rule mem_quiet[OF inv]) (use r in \<open>auto simp: treat_interrupted_enter_def Let_def set_list_def list_of_def
      all_ms_spawn measure_defs spawn_def told_same split: if_splits\<close>)

text \<open>A thread that owns a process makes it ready.\<close>

lemma mem_ready_owned:
  assumes "mem_inv (spawn t k)" and "thread_pids t = [pid p]"
  shows "mem_inv (agregar_pcb_a_cola_READY p k)"
  by (rule mem_quiet[OF assms(1)]) (use assms in \<open>simp_all add: told_same all_ms_spawn measure_defs kernel_basic_defs\<close>)

lemma mem_set_locks [simp]: "mem_inv (set_locks name ls k) = mem_inv k"
  and mem_send [simp]: "\<not> to_memory m \<Longrightarrow> mem_inv (send m k) = mem_inv k"
proof -
  have "all_ms (set_locks name ls k) = all_ms k" using set_locks_frame[of name ls k] by (auto simp: measure_defs)
  then show "mem_inv (set_locks name ls k) = mem_inv k" by (simp add: mem_inv_def)
  show "\<not> to_memory m \<Longrightarrow> mem_inv (send m k) = mem_inv k"
    by (cases m) (auto simp: mem_inv_def memory_protocol_append measure_defs send_def split: option.splits)
qed

lemma mem_fs:
  assumes inv: "mem_inv (spawn (TFsCall p c) k)" and r: "treat_fs_function p c k = Some k'"
  shows "mem_inv k'"
proof -
  have "k' = agregar_pcb_a_cola_READY p (send (ToFilesystem c p) k)"
    using r by (auto simp: treat_fs_function_def Let_def split: if_splits params.splits)
  then show ?thesis using inv by (auto intro!: mem_ready_owned[of "TFsCall p c"] simp: spawn_send)
qed

lemma mem_locks:
  shows "mem_inv (spawn (TLockQueued p name w) k) \<Longrightarrow> wake_lock_waiter p name w k = Some k' \<Longrightarrow> mem_inv k'"
    and "mem_inv (spawn (TLockWait p name w) k) \<Longrightarrow> mem_inv (spawn (TLockQueued p name w) (enqueue_lock p name w k))"
proof -
  assume inv: "mem_inv (spawn (TLockQueued p name w) k)" and "wake_lock_waiter p name w k = Some k'"
  then obtain ls where "k' = agregar_pcb_a_cola_READY p (set_locks name ls k)"
    by (auto simp: wake_lock_waiter_def split: option.splits)
  then show "mem_inv k'" using inv by (auto intro!: mem_ready_owned[of "TLockQueued p name w"] simp: spawn_set_locks)
next
  assume "mem_inv (spawn (TLockWait p name w) k)"
  then have "mem_inv (spawn (TLockQueued p name w) k)" by (simp add: mem_inv_def all_ms_spawn)
  then show "mem_inv (spawn (TLockQueued p name w) (enqueue_lock p name w k))" by (simp add: enqueue_lock_def spawn_set_locks)
qed

lemma mem_execute: "mem_inv (spawn TExecute k) \<Longrightarrow> execute_process k = Runs k' \<Longrightarrow> mem_inv k'"
  by (auto simp: execute_process_def Let_def split: if_splits option.splits)

text \<open>The answer of the CPU: its handler moves the process and tells the memory nothing.\<close>

lemma mem_reply:
  assumes mi: "mem_inv (spawn (TRunning p) k)" and inv: "sched_inv d (spawn (TRunning p) k)" and q: "pid q = pid p"
    and r: "execute_reply env q k = Runs k'"
  shows "mem_inv k'"
proof -
  obtain k1 where k1: "execute_switch env q k = Some k1" "k' = spawn TExecute k1"
    using r by (auto simp: execute_reply_def)
  have "estado_EXEC k = Some p"
    using sched_invD(4)[OF inv] by (auto simp: dispatch_inv_def spawn_def split: if_splits)
  then have "handled k k1" by (rule execute_switch_handled[OF _ _ k1(1)]) (simp add: q)
  then have "all_ms k1 = all_ms k" by (simp add: handled_def)
  moreover have "mem_inv k" using mi by simp
  ultimately show ?thesis using mem_quiet switch_told[OF k1(1)] k1(2) by simp
qed

lemma mem_unblock:
  assumes "mem_inv k"
  shows "mem_inv (unblock_processes itoa k)"
proof (rule mem_quiet[OF assms])
  have "unblock_processes itoa k = fold agregar_pcb_a_cola_READY
      (concat (map (\<lambda>(r, b). snd (unblock_block itoa b)) (colas_BLOCKED k)))
      (k\<lparr>colas_BLOCKED := map (\<lambda>(r, b). (r, fst (unblock_block itoa b))) (colas_BLOCKED k)\<rparr>)"
    by (simp add: unblock_processes_def Let_def split_def comp_def)
  then show "all_ms (unblock_processes itoa k) = all_ms k"
    using unblock_moves[of "colas_BLOCKED k" itoa] by (simp add: fold_ready measure_defs)
qed (simp add: told_same)

text \<open>Threads that end a process, or ask for a page.\<close>

lemma mem_exit:
  assumes mi: "mem_inv k" and inv: "places_inv k" and r: "atender_procesos_en_EXIT env k = Runs k'"
  shows "mem_inv k'"
proof (cases "lista_EXIT k")
  case Nil
  then show ?thesis using mi r by (auto simp: atender_procesos_en_EXIT_def list_remove_first_def Let_def split: if_splits)
next
  case (Cons p ps)
  have "all_ms k = add_mset (pid p) (all_ms (k\<lparr>process_in_exit := n, lista_EXIT := ps\<rparr>))" for n
    using Cons by (simp add: measure_defs)
  then show ?thesis using mi r Cons mem_eliminar[OF mi inv]
    by (fastforce simp: atender_procesos_en_EXIT_def list_remove_first_def Let_def split: if_splits)
qed

lemma mem_page_fault:
  assumes inv: "mem_inv (spawn (TPageFault p) k)" and r: "treat_page_fault p k = Runs k'"
  shows "mem_inv k'"
proof -
  obtain n where k': "k' = spawn (TPageWait (pid p)) (send (PageToMemory PAGE_FAULT_COMMAND (page_new (pid p) n 0))
      (k\<lparr>lista_INTERRUPT := lista_INTERRUPT k @ [p]\<rparr>))"
    using r by (auto simp: treat_page_fault_def split: if_splits params.splits)
  have "all_ms k' = all_ms (spawn (TPageFault p) k)" "pid p \<in># all_ms (spawn (TPageFault p) k)"
    by (simp_all add: k' all_ms_spawn send_def measure_defs spawn_def)
  then show ?thesis using inv by (simp add: mem_inv_def memory_protocol_append k' page_new_def)
qed

lemma mem_page_reply:
  assumes inv: "mem_inv (spawn (TPageWait i) k)" and r: "treat_page_fault_reply i k = Runs k'"
  shows "mem_inv k'"
proof -
  obtain p ps where rm: "list_remove_by_condition (\<lambda>p. pid p = i) (lista_INTERRUPT k) = (Some p, ps)"
    and k': "k' = agregar_pcb_a_cola_READY p (k\<lparr>lista_INTERRUPT := ps\<rparr>)"
    using r by (auto simp: treat_page_fault_reply_def split: if_splits prod.splits option.splits)
  show ?thesis unfolding k' by (rule mem_quiet[OF inv])
    (use remove_ms[OF rm] in \<open>simp_all add: told_same all_ms_spawn measure_defs kernel_basic_defs\<close>)
qed

lemma mem_interrupted_leave:
  assumes mi: "mem_inv (spawn (TSleeping i s) k)" and inv: "places_inv (spawn (TSleeping i s) k)"
    and r: "treat_interrupted_leave env i s k = Runs k'"
  shows "mem_inv k'"
proof -
  obtain p ps where rm: "list_remove_by_condition (\<lambda>p. pid p = i) (list_of s k) = (Some p, ps)"
    using r by (auto simp: treat_interrupted_leave_def split: if_splits prod.splits option.splits)
  have pk: "places_inv k" using inv by (simp add: places_inv_def all_ms_spawn) (simp add: spawn_def)
  have al: "all_ms k = add_mset (pid p) (all_ms (set_list s ps k))"
    using remove_ms[OF rm] by (simp add: set_list_def list_of_def measure_defs split: if_splits)
  then have "mem_inv (agregar_pcb_a_cola_READY p (set_list s ps k))"
    by (intro mem_quiet[OF mi]) (simp_all add: told_same all_ms_spawn kernel_basic_defs measure_defs)
  moreover have "mem_inv k1" if "eliminar_proceso itoa p ((set_list s ps k)\<lparr>grd_mult := n\<rparr>) = Some k1" for itoa n k1
    by (rule mem_eliminar[OF _ _ _ _ that, of k])
      (use mi pk al in \<open>simp_all add: measure_defs\<close>)
  ultimately show ?thesis
    using r rm by (auto simp: treat_interrupted_leave_def Let_def split: if_splits)
qed

lemma mem_finalizar_executing:
  assumes mi: "mem_inv k" and inv: "places_inv k" and r: "finalizar_executing env k = Runs k'"
  shows "mem_inv k'"
proof -
  obtain e n k1 where e: "estado_EXEC k = Some e"
    and k1: "eliminar_proceso (string_itoa env) e (k\<lparr>finish_interrupted_process := n, estado_EXEC := None\<rparr>) = Some k1"
    and k': "k' = post_ready (k1\<lparr>grd_mult := grd_mult k1 + 1\<rparr>)"
    using r by (auto simp: finalizar_executing_def Let_def split: if_splits option.splits)
  have "mem_inv k1" by (rule mem_eliminar[OF mi inv _ _ k1]) (use e in \<open>simp_all add: measure_defs\<close>)
  then show ?thesis by (simp add: k')
qed

lemma mem_thread_step:
  assumes min: "minimum_law env" and mi: "mem_inv (spawn t k)" and inv: "sched_inv d (spawn t k)"
    and cpu: "\<And>p. t = TRunning p \<Longrightarrow> pid q = pid p" and r: "thread_step env q t k = Runs k'"
  shows "mem_inv k'"
proof -
  have pl: "places_inv (spawn t k)" by (rule sched_invD(1)[OF inv])
  then have pk: "places_inv k" if "thread_pids t = []" using that by (simp add: places_inv_def all_ms_spawn) (simp add: spawn_def)
  show ?thesis
  proof (cases t)
    case TUnblock
    with r mi show ?thesis by (auto simp: unblock_loop_def Let_def mem_unblock split: if_splits)
  next
    case TPrioridades
    with mem_prioridades[OF min] mi r show ?thesis by simp
  next
    case (TRunning p)
    with mem_reply mi inv cpu r show ?thesis by simp
  next
    case (TSleeping i s)
    with mem_interrupted_leave mi pl r show ?thesis by simp
  next
    case (TLockQueued p name w)
    with mi r show ?thesis by (auto intro: mem_locks(1) split: option.splits)
  qed (use mi r pk in \<open>auto intro: mem_planners mem_admit mem_exit mem_execute mem_enter mem_page_fault mem_page_reply
      mem_fs mem_locks(2) mem_finalizar_executing\<close>)
qed

section \<open>Console\<close>

lemma mem_iniciar:
  assumes mi: "mem_inv k" and inv: "places_inv k"
  shows "mem_inv (iniciar_proceso src tam prio k)"
proof -
  let ?k = "iniciar_proceso src tam prio k"
  have "all_ms ?k = add_mset (sig_PID k) (all_ms k)"
    "sent ?k = sent k @ [ToMemory CREATE_PROCESS (crear_proceso src tam prio k)]" "pid (crear_proceso src tam prio k) = sig_PID k"
    by (simp_all add: iniciar_proceso_def Let_def crear_proceso_def crear_pcb_def measure_defs kernel_basic_defs)
  moreover have "sig_PID k \<notin># all_ms k" using inv unfolding places_inv_def by blast
  ultimately show ?thesis using mi by (simp add: mem_inv_def memory_protocol_append)
qed

lemma mem_finalizar_blocked:
  "finalizar_blocked env i rs k = Some k' \<Longrightarrow> sched_inv d k \<Longrightarrow> mem_inv k \<Longrightarrow> mem_inv k'"
proof (induction env i rs k rule: finalizar_blocked.induct)
  case (2 env i r rs k)
  show ?case
  proof (cases "\<exists>b p ps. map_of (colas_BLOCKED k) r = Some b \<and>
      list_remove_by_condition (\<lambda>p. pid p = i) (blocked_list b) = (Some p, ps)")
    case False
    then show ?thesis using 2 by (fastforce split: option.splits prod.splits)
  next
    case True
    then obtain b p ps where b: "map_of (colas_BLOCKED k) r = Some b"
      and rm: "list_remove_by_condition (\<lambda>p. pid p = i) (blocked_list b) = (Some p, ps)" by blast
    let ?k = "(set_block r (b\<lparr>blocked_list := ps\<rparr>) k)\<lparr>grd_mult := grd_mult k + 1\<rparr>"
    obtain k1 where k1: "eliminar_proceso (string_itoa env) p ?k = Some k1" "finalizar_blocked env i rs k1 = Some k'"
      using 2(4) b rm by (auto split: option.splits)
    have eq: "blocked_ms (colas_BLOCKED k) = add_mset (pid p)
        (blocked_ms (put_block r (b\<lparr>blocked_list := ps\<rparr>) (colas_BLOCKED k)))"
      using blocked_pids_put[OF b, of "b\<lparr>blocked_list := ps\<rparr>"] remove_ms[OF rm] by simp
    have "mem_inv k1"
      by (rule mem_eliminar[OF 2(6) sched_invD(1)[OF 2(5)] _ _ k1(1)]) (simp_all add: measure_defs set_block_def eq)
    moreover have "sched_inv d ?k"
      by (rule sched_inv_step[OF 2(5)]) (simp_all add: set_block_def measure_defs sleep_inv_def dispatch_inv_def eq)
    then have "sched_inv d k1" using sched_eliminar[OF k1(1)] by simp
    ultimately show ?thesis using 2(3)[OF b rm[symmetric] refl k1(1)] k1(2) by simp
  qed
qed simp

lemma mem_finalizar:
  assumes mi: "mem_inv k" and inv: "sched_inv d k" and r: "finalizar_proceso env i k = Runs k'"
  shows "mem_inv k'"
proof -
  note pl = sched_invD(1)[OF inv]
  have el: "mem_inv k1" if "eliminar_proceso (string_itoa env) p k2 = Some k1" "all_ms k = add_mset (pid p) (all_ms k2)"
    "sent k2 = sent k" for p k1 k2
    using mem_eliminar[OF mi pl that(2,3,1)] .
  have new: "all_ms k = add_mset (pid p) (all_ms (k\<lparr>lista_NEW := ps\<rparr>))"
    if "list_remove_by_condition (\<lambda>p. pid p = i) (lista_NEW k) = (Some p, ps)" for p ps
    using remove_ms[OF that] by (simp add: measure_defs)
  have ready: "all_ms k = add_mset (pid p) (all_ms (k\<lparr>lista_READY := ps, grd_mult := grd_mult k + 1\<rparr>))"
    if "list_remove_by_condition (\<lambda>p. pid p = i) (lista_READY k) = (Some p, ps)" for p ps
    using remove_ms[OF that] by (simp add: measure_defs)
  have exit: "all_ms k = add_mset (pid p) (all_ms (k\<lparr>lista_EXIT := ps\<rparr>))"
    if "list_remove_by_condition (\<lambda>p. pid p = i) (lista_EXIT k) = (Some p, ps)" for p ps
    using remove_ms[OF that] by (simp add: measure_defs)
  have mark: "mem_inv (k\<lparr>lista_SLEEP := mark_manual i (lista_SLEEP k), cola_sleep_locked := b\<rparr>)"
    "mem_inv (k\<lparr>lista_INTERRUPT := mark_manual i (lista_INTERRUPT k), cola_interrupt_locked := b\<rparr>)" for b
    by (rule mem_quiet[OF mi]; simp add: told_same measure_defs)+
  have w: "finalizar_waiting env i k = Runs k' \<Longrightarrow> mem_inv k'"
    using mark mi mem_finalizar_blocked[OF _ inv mi] by (auto simp: finalizar_waiting_def split: if_splits)
  have ex: "mem_inv k1" if "interrupt_finish_executing_process k = Some k1" for k1
    using that mi by (rule mem_interrupt(2))
  show ?thesis
    using r w ex el[OF _ new] el[OF _ ready] el[OF _ exit]
    by (auto simp: finalizar_proceso_def split: if_splits prod.splits option.splits)
qed

lemma mem_step:
  assumes min: "minimum_law env" and mi: "mem_inv k" and inv: "sched_inv d k" and s: "kstep env k l k'"
  shows "mem_inv k'"
proof (cases l)
  case (LThread i q)
  then have i: "i < length (threads k)"
    and r: "thread_step env q (threads k ! i) (remove_thread i k) = Runs k'"
    and cpu: "\<And>p. threads k ! i = TRunning p \<Longrightarrow> pid q = pid p"
    using s by (auto simp: kstep_iff cpu_answers_def split: if_splits)
  let ?k = "spawn (threads k ! i) (remove_thread i k)"
  have "mset (threads k) = mset (take i (threads k) @ threads k ! i # drop (Suc i) (threads k))"
    by (subst id_take_nth_drop[OF i, symmetric]) (rule refl)
  then have "all_ms ?k = all_ms k" by (simp add: measure_defs spawn_def remove_thread_def thr_sum)
  then have "mem_inv ?k" using mi by (simp add: mem_inv_def spawn_def remove_thread_def)
  then show ?thesis using mem_thread_step[OF min _ _ cpu r] inv sched_inv_at[OF i] by simp
next
  case (LConsole addr ws)
  then have r: "consola_interactiva env addr ws k = Runs k'" using s by (simp add: kstep_iff split: if_splits)
  have "mem_inv (detener_planificacion k)" "mem_inv (iniciar_planificacion env k)"
    "mem_inv (cambiar_grado_multiprogramacion addr v k)" for v
    using mi by (auto simp: detener_planificacion_def post_all_def mem_inv_def measure_defs iniciar_planificacion_def
        iniciar_planificador_corto_plazo_def iniciar_planificador_largo_plazo_def spawn_def
        cambiar_grado_multiprogramacion_def Let_def)
  then show ?thesis
    using r mi mem_finalizar[OF mi inv] mem_iniciar[OF mi sched_invD(1)[OF inv]]
    by (auto simp: consola_interactiva_def lock_list_copies_def split: option.splits if_splits)
qed

section \<open>All runs\<close>

lemma mem_reach:
  assumes "kernel_start env rs ns g = Some k0" and "0 \<le> g" and "planner_thread env \<noteq> None"
    and min: "minimum_law env" and reach: "kreach env uninterrupted k0 k"
  shows "mem_inv k"
proof -
  have "(\<exists>d. kernel_inv d k) \<and> mem_inv k"
  proof (rule kreach_invariant[OF reach])
    have "all_ms k0 = {#}" "sent k0 = []"
    proof -
      obtain cs where cs: "init_resources rs ns [] = Some cs" and k0: "k0 = iniciar_planificador_corto_plazo env
          (iniciar_planificador_largo_plazo (empty_kernel\<lparr>sig_PID := 1, colas_BLOCKED := cs, actual_grd_mult := g, grd_mult := nat g\<rparr>))"
        using assms(1) by (auto simp: kernel_start_def iniciar_estructuras_planificadores_def bind_eq_Some_conv)
      have "blocked_pids cs = []" using init_resources_blocked[OF cs] by (simp add: blocked_pids_def)
      then show "all_ms k0 = {#}" "sent k0 = []"
        by (simp_all add: k0 iniciar_planificador_corto_plazo_def iniciar_planificador_largo_plazo_def spawn_def Let_def
            measure_defs empty_kernel_def blocked_ms_def)
    qed
    then show "(\<exists>d. kernel_inv d k0) \<and> mem_inv k0"
      using kernel_start_inv[OF assms(1-3)] by (auto simp: mem_inv_def)
  next
    fix k l k'
    assume i: "(\<exists>d. kernel_inv d k) \<and> mem_inv k" and l: "uninterrupted l k" and s: "kstep env k l k'"
    then obtain d where d: "kernel_inv d k" by blast
    then have "sched_inv d k" by (simp add: kernel_inv_def)
    then show "(\<exists>d. kernel_inv d k') \<and> mem_inv k'"
      using mem_step[OF min _ _ s] i kernel_inv_step[OF min d l s] by blast
  qed
  then show ?thesis by blast
qed

text \<open>
  C9. The memory has the kernel's processes. In every reachable state of an uninterrupted run, the
  messages that the kernel has sent create each process once, request pages only of processes that
  exist then, and end only processes that exist; what they leave in the memory are exactly
  the processes that are somewhere in the kernel.
\<close>

theorem memory_has_the_kernels_processes:
  assumes "kernel_start env rs ns g = Some k0" and "0 \<le> g" and "planner_thread env \<noteq> None"
    and "minimum_law env" and "kreach env uninterrupted k0 k"
  shows "memory_protocol (sent k) {} = Some (set (all_pids k))"
proof -
  have "set (all_pids k) = set_mset (all_ms k)" by (simp flip: all_ms_pids)
  then show ?thesis using mem_reach[OF assms] by (simp add: mem_inv_def)
qed

theorem memory_has_the_kernels_processes_witness:
  "memory_protocol (sent demo_running) {} = Some (set (all_pids demo_running))"
  by (rule memory_has_the_kernels_processes[OF demo_started _ demo_planner demo_minimum
        fixed_uninterrupted[OF demo_running_reached]]) simp

section \<open>A run of three commands\<close>

definition three_commands :: "label list" where
  "three_commands = [LConsole 0 [''INICIAR_PROCESO'', ''p'', ''32'', ''1''], LConsole 0 [''FINALIZAR_PROCESO'', ''1''],
     LConsole 0 [''INICIAR_PROCESO'', ''p'', ''32'', ''1'']]"

definition demo_after :: kernel where
  "demo_after = the (run demo_env fixed_grade three_commands Scheduler_Runs.demo_start)"

lemma demo_after_run: "run demo_env fixed_grade three_commands Scheduler_Runs.demo_start = Some demo_after"
  unfolding demo_after_def by (rule some_the) code_simp

end
