(* ===== verification/Kernel_Places.thy ===== *)
theory Kernel_Places
  imports Kernel_Memory
begin

text \<open>
  Where the processes are, over whole runs: the messages to the memory record which processes were
  created and which have ended, and the others are each in exactly one place of the kernel.
\<close>

section \<open>The record of the messages\<close>

fun created :: "kmsg \<Rightarrow> u32 list" where
  "created (ToMemory c p) = (if c = CREATE_PROCESS then [pid p] else [])"
| "created _ = []"

definition created_pids :: "kmsg list \<Rightarrow> u32 list" where
  "created_pids msgs = concat (map created msgs)"

definition ended_pids :: "kmsg list \<Rightarrow> u32 set" where
  "ended_pids msgs = {pid p | p. ToMemory FINISH_PROCESS p \<in> set msgs}"

lemma created_simps [simp]:
  "created_pids [] = []" "created_pids (m # msgs) = created m @ created_pids msgs"
  "created_pids (msgs @ ns) = created_pids msgs @ created_pids ns"
  by (simp_all add: created_pids_def)

lemma ended_simps [simp]:
  "ended_pids [] = {}"
  "ended_pids (ToMemory c p # msgs) = (if c = FINISH_PROCESS then insert (pid p) (ended_pids msgs) else ended_pids msgs)"
  "\<not> to_memory m \<Longrightarrow> ended_pids (m # msgs) = ended_pids msgs"
  "ended_pids (PageToMemory c pg # msgs) = ended_pids msgs"
  by (auto simp: ended_pids_def)

lemma protocol_leaves:
  "memory_protocol msgs A = Some B \<Longrightarrow> distinct (created_pids msgs) \<Longrightarrow> A \<inter> set (created_pids msgs) = {} \<Longrightarrow>
     B = (A \<union> set (created_pids msgs)) - ended_pids msgs"
proof (induction msgs arbitrary: A)
  case (Cons m msgs)
  show ?case
  proof (cases m)
    case (ToMemory c p)
    show ?thesis
    proof (cases "c = CREATE_PROCESS")
      case True
      then have "memory_protocol msgs (insert (pid p) A) = Some B" using Cons.prems(1) ToMemory by (auto split: if_splits option.splits)
      moreover have "insert (pid p) A \<inter> set (created_pids msgs) = {}" "distinct (created_pids msgs)"
        using Cons.prems(2,3) ToMemory True by auto
      ultimately show ?thesis using Cons.IH ToMemory True by auto
    next
      case False
      then have f: "c = FINISH_PROCESS" "pid p \<in> A" "memory_protocol msgs (A - {pid p}) = Some B"
        using Cons.prems(1) ToMemory by (auto split: if_splits option.splits)
      have "(A - {pid p}) \<inter> set (created_pids msgs) = {}" "distinct (created_pids msgs)" "pid p \<notin> set (created_pids msgs)"
        using Cons.prems(2,3) ToMemory False f(2) by auto
      with Cons.IH[OF f(3)] show ?thesis using ToMemory f(1) by auto
    qed
  qed (use Cons in \<open>auto split: if_splits\<close>)
qed simp

section \<open>The numbers that were given out\<close>

text \<open>
  What only a creation changes, and (when \<open>b\<close>) that no reduction of the degree of multiprogramming is
  pending.
\<close>

definition numbered :: "bool \<Rightarrow> u32 list \<Rightarrow> u32 \<Rightarrow> kernel \<Rightarrow> bool" where
  "numbered b xs n k \<longleftrightarrow> created_pids (sent k) = xs \<and> sig_PID k = n \<and> (b \<longrightarrow> TGradeWait \<notin> set (threads k))"

lemma numbered_cong:
  "sent k' = sent k \<Longrightarrow> sig_PID k' = sig_PID k \<Longrightarrow> threads k' = threads k \<Longrightarrow> numbered b xs n k' = numbered b xs n k"
  by (simp add: numbered_def)

lemma numbered_locks [simp]: "numbered b xs n (set_locks name ls k) = numbered b xs n k"
  using set_locks_frame[of name ls k] by (auto simp: numbered_def)

lemma numbered_spawn [simp]: "numbered b xs n (spawn t k) \<longleftrightarrow> numbered b xs n k \<and> (b \<longrightarrow> t \<noteq> TGradeWait)"
  by (auto simp: numbered_def spawn_def)

lemma numbered_send [simp]: "created m = [] \<Longrightarrow> numbered b xs n (send m k) = numbered b xs n k"
  by (simp add: numbered_def send_def)

lemma numbered_open_entry [simp]: "numbered b xs n (open_entry name p k) = numbered b xs n k"
  by (simp add: open_entry_def numbered_def send_def split: option.splits)

lemma numbered_ops [simp]:
  "numbered b xs n (agregar_pcb_a_cola_READY p k) = numbered b xs n k"
  "numbered b xs n (execute_first_ready p qs k) = numbered b xs n k"
  "numbered b xs n (resume_executing p k) = numbered b xs n k"
  "numbered b xs n (send_to_exit p e k) = numbered b xs n k"
  "numbered b xs n (set_list s qs k) = numbered b xs n k"
  "numbered b xs n (post_ready k) = numbered b xs n k"
  "numbered b xs n (post_executing k) = numbered b xs n k"
  "numbered b xs n (modify_executing_process p k) = numbered b xs n k"
  "numbered b xs n (destroy_executing_process k) = numbered b xs n k"
  "numbered b xs n (set_block r c k) = numbered b xs n k"
  "numbered b xs n (fold agregar_pcb_a_cola_READY qs k) = numbered b xs n k"
  "numbered b xs n (post_all k) = numbered b xs n k"
  by (simp_all add: numbered_def kernel_basic_defs execute_first_ready_def resume_executing_def set_list_def
      set_block_def fold_ready post_all_def)

lemma numbered_blocks [simp]:
  "mk (p\<lparr>estado := BLOCKED\<rparr>) \<noteq> TGradeWait \<Longrightarrow> numbered b xs n (block_executing p mk k) = numbered b xs n k"
  "numbered b xs n (interrupt_process p k) = numbered b xs n k"
  "numbered b xs n (manage_page_fault p k) = numbered b xs n k"
  by (simp_all add: block_executing_def interrupt_process_def manage_page_fault_def)

lemma numbered_fields [simp]:
  "numbered b xs n (k\<lparr>process_in_new := m\<rparr>) = numbered b xs n k"
  "numbered b xs n (k\<lparr>process_in_exit := m\<rparr>) = numbered b xs n k"
  "numbered b xs n (k\<lparr>proceso_en_cola_ready := m\<rparr>) = numbered b xs n k"
  "numbered b xs n (k\<lparr>executing_process := m\<rparr>) = numbered b xs n k"
  "numbered b xs n (k\<lparr>finish_interrupted_process := m\<rparr>) = numbered b xs n k"
  "numbered b xs n (k\<lparr>freed_resource := m\<rparr>) = numbered b xs n k"
  "numbered b xs n (k\<lparr>grd_mult := m\<rparr>) = numbered b xs n k"
  "numbered b xs n (k\<lparr>lista_NEW := qs\<rparr>) = numbered b xs n k"
  "numbered b xs n (k\<lparr>lista_READY := qs\<rparr>) = numbered b xs n k"
  "numbered b xs n (k\<lparr>lista_EXIT := qs\<rparr>) = numbered b xs n k"
  "numbered b xs n (k\<lparr>lista_SLEEP := qs\<rparr>) = numbered b xs n k"
  "numbered b xs n (k\<lparr>lista_INTERRUPT := qs\<rparr>) = numbered b xs n k"
  "numbered b xs n (k\<lparr>estado_EXEC := e\<rparr>) = numbered b xs n k"
  "numbered b xs n (k\<lparr>colas_BLOCKED := cs\<rparr>) = numbered b xs n k"
  "numbered b xs n (k\<lparr>open_files_global_table := tab\<rparr>) = numbered b xs n k"
  "numbered b xs n (k\<lparr>cola_sleep_locked := l\<rparr>) = numbered b xs n k"
  "numbered b xs n (k\<lparr>cola_interrupt_locked := l\<rparr>) = numbered b xs n k"
  "numbered b xs n (k\<lparr>working := l\<rparr>) = numbered b xs n k"
  by (simp_all add: numbered_def)

lemma numbered_eliminar: "eliminar_proceso itoa p k = Some k' \<Longrightarrow> numbered b xs n k' = numbered b xs n k"
proof -
  assume e: "eliminar_proceso itoa p k = Some k'"
  then have "sent k' = sent k @ [ToMemory FINISH_PROCESS p]" using eliminar_told by blast
  moreover have "sig_PID k' = sig_PID k" "threads k' = threads k" by (rule eliminar_frame[OF e]; simp)+
  ultimately show ?thesis by (simp add: numbered_def)
qed

lemma numbered_switch: "execute_switch env p k = Some k' \<Longrightarrow> numbered b xs n k \<Longrightarrow> numbered b xs n k'"
  by (cases "instruccion p")
    (auto simp: execute_switch_def resource_call_def wait_instance_of_resource_def Let_def
      signal_instance_of_resource_def f_seek_def f_close_def f_truncate_def f_read_def f_write_def f_open_def
      bind_eq_Some_conv split: params.splits option.splits prod.splits if_splits)

lemma numbered_thread_step:
  assumes r: "thread_step env q t k = Runs k'" and s: "numbered b xs n k"
  shows "numbered b xs n k'"
proof (cases t)
  case (TRunning p)
  with r s show ?thesis by (auto simp: execute_reply_def numbered_switch)
qed (use r s in \<open>auto simp: step_parts unblock_loop_def unblock_processes_def enqueue_lock_def
    wake_lock_waiter_def treat_fs_function_def finalizar_executing_def Let_def numbered_eliminar
    split: if_splits option.splits list.splits prod.splits params.splits\<close>)

lemma numbered_finalizar_blocked:
  "finalizar_blocked env i rs k = Some k' \<Longrightarrow> numbered b xs n k' = numbered b xs n k"
proof (induction env i rs k rule: finalizar_blocked.induct)
  case (2 env i r rs k)
  then show ?case by (auto simp: numbered_eliminar split: option.splits prod.splits)
qed simp

lemma numbered_finalizar: "finalizar_proceso env i k = Runs k' \<Longrightarrow> numbered b xs n k \<Longrightarrow> numbered b xs n k'"
  by (auto simp: finalizar_proceso_def finalizar_waiting_def interrupt_finish_executing_process_def
      numbered_eliminar numbered_finalizar_blocked split: if_splits prod.splits option.splits)

lemma numbered_planificacion [simp]:
  "numbered b xs n k \<Longrightarrow> numbered b xs n (iniciar_planificacion env k)"
  "numbered b xs n (detener_planificacion k) = numbered b xs n k"
  by (auto simp: iniciar_planificacion_def iniciar_planificador_corto_plazo_def
      iniciar_planificador_largo_plazo_def detener_planificacion_def Let_def)

lemma numbered_grade: "numbered False xs n (cambiar_grado_multiprogramacion addr s k) = numbered False xs n k"
  by (simp add: numbered_def cambiar_grado_multiprogramacion_def Let_def)

lemma numbered_iniciar: "numbered b xs n k \<Longrightarrow> numbered b (xs @ [n]) (n + 1) (iniciar_proceso src tam prio k)"
  by (simp add: numbered_def iniciar_proceso_def Let_def kernel_basic_defs obt_sig_PID_def crear_proceso_def crear_pcb_def)

lemma numbered_step:
  assumes "kstep env k l k'" and s: "numbered b xs n k"
    and "b \<Longrightarrow> command_word l \<noteq> ''MULTIPROGRAMACION''"
  shows "numbered b xs n k' \<or> (command_word l = ''INICIAR_PROCESO'' \<and> numbered b (xs @ [n]) (n + 1) k')"
proof (cases l)
  case (LConsole addr ws)
  then have r: "consola_interactiva env addr ws k = Runs k'" using assms(1) by (simp add: kstep_iff split: if_splits)
  then obtain c cs where ws: "ws = c # cs" by (cases ws) (auto simp: consola_interactiva_def word_at_def)
  have g: "\<not> b" if "c = ''MULTIPROGRAMACION''" using assms(3) that by (auto simp: LConsole ws command_word_def)
  show ?thesis
    using r s g numbered_finalizar[of env _ k k' b xs n] numbered_iniciar[OF s] numbered_grade[of xs n addr _ k]
    by (auto simp: consola_interactiva_def lock_list_copies_def LConsole ws command_word_def split: option.splits if_splits)
next
  case (LThread i q)
  with assms have "thread_step env q (threads k ! i) (remove_thread i k) = Runs k'"
    by (auto simp: kstep_iff split: if_splits)
  moreover have "numbered b xs n (remove_thread i k)"
    using s by (auto simp: numbered_def remove_thread_def dest: in_set_takeD in_set_dropD)
  ultimately show ?thesis using numbered_thread_step by blast
qed

definition numbers_inv :: "bool \<Rightarrow> kernel \<Rightarrow> bool" where
  "numbers_inv b k \<longleftrightarrow> (\<exists>n. 1 \<le> n \<and> n < 2 ^ 32 \<and> numbered b (map word_of_nat [1..<n]) (word_of_nat n) k)"

lemma numbers_step:
  assumes "kstep env k l k'" and "numbers_inv b k" and "uninterrupted l k" and "b \<Longrightarrow> fixed_grade l k"
  shows "numbers_inv b k'"
proof -
  obtain n where n: "1 \<le> n" "n < 2 ^ 32" "numbered b (map word_of_nat [1..<n]) (word_of_nat n) k"
    using assms(2) by (auto simp: numbers_inv_def)
  from numbered_step[OF assms(1) n(3)] assms(4)
  consider "numbered b (map word_of_nat [1..<n]) (word_of_nat n) k'"
    | "command_word l = ''INICIAR_PROCESO''" "numbered b (map word_of_nat [1..<n] @ [word_of_nat n]) (word_of_nat n + 1) k'"
    by (auto simp: fixed_grade_def)
  then show ?thesis
  proof cases
    case 1
    then show ?thesis using n by (auto simp: numbers_inv_def)
  next
    case 2
    then have "sig_PID k \<noteq> - 1" using assms(3) by (simp add: uninterrupted_def)
    then have ne: "(word_of_nat n :: u32) \<noteq> - 1" using n(3) by (simp add: numbered_def)
    have "n \<noteq> 2 ^ 32 - 1"
    proof
      assume "n = 2 ^ 32 - 1"
      then have "(word_of_nat n :: u32) = - 1" by simp
      then show False using ne by simp
    qed
    then have "Suc n < 2 ^ 32" using n(2) by simp
    moreover have "numbered b (map word_of_nat [1..<Suc n]) (word_of_nat (Suc n)) k'"
      using 2(2) n(1) by (simp add: add.commute)
    ultimately show ?thesis unfolding numbers_inv_def using n(1) by (intro exI[of _ "Suc n"]) simp
  qed
qed

lemma numbers_start:
  assumes "kernel_start env rs ns g = Some k0"
  shows "numbers_inv b k0"
proof -
  obtain cs where k0: "k0 = iniciar_planificador_corto_plazo env (iniciar_planificador_largo_plazo
      (empty_kernel\<lparr>sig_PID := 1, colas_BLOCKED := cs, actual_grd_mult := g, grd_mult := nat g\<rparr>))"
    using assms by (auto simp: kernel_start_def iniciar_estructuras_planificadores_def bind_eq_Some_conv)
  have "numbered b [] 1 (empty_kernel\<lparr>sig_PID := 1, colas_BLOCKED := cs, actual_grd_mult := g, grd_mult := nat g\<rparr>)"
    by (simp add: numbered_def empty_kernel_def)
  then have "numbered b [] 1 k0"
    by (simp add: k0 iniciar_planificador_corto_plazo_def iniciar_planificador_largo_plazo_def Let_def)
  then show ?thesis unfolding numbers_inv_def by (intro exI[of _ 1]) simp
qed

lemma numbers_reach:
  assumes "kernel_start env rs ns g = Some k0" and "kreach env P k0 k"
    and "\<And>l k. P l k \<Longrightarrow> uninterrupted l k \<and> (b \<longrightarrow> fixed_grade l k)"
  shows "numbers_inv b k"
  by (rule kreach_invariant[OF assms(2)]) (use numbers_start[OF assms(1)] numbers_step assms(3) in blast)+

text \<open>The processes created are the numbers given out, each once.\<close>

lemma numbers_created:
  assumes "numbers_inv b k"
  shows "distinct (created_pids (sent k)) \<and> set (created_pids (sent k)) = {p. 1 \<le> p \<and> p < sig_PID k}"
proof -
  obtain n where n: "1 \<le> n" "n < 2 ^ 32" "created_pids (sent k) = map word_of_nat [1..<n]" "sig_PID k = word_of_nat n"
    using assms by (auto simp: numbers_inv_def numbered_def)
  have u: "unat (word_of_nat i :: u32) = i" if "i \<le> n" for i using n(2) that by (intro unat_of_nat_u32) simp
  have "inj_on (word_of_nat :: nat \<Rightarrow> u32) {1..<n}" by (rule inj_on_inverseI[of _ unat]) (simp add: u)
  moreover have "word_of_nat ` {1..<n} = {p :: u32. 1 \<le> p \<and> p < word_of_nat n}"
  proof -
    have "p \<in> word_of_nat ` {1..<n}" if "1 \<le> p" "p < word_of_nat n" for p :: u32
      by (rule image_eqI[of _ _ "unat p"]) (use that u[of n] in \<open>auto simp: word_le_nat_alt word_less_nat_alt\<close>)
    then show ?thesis using u by (auto simp: word_le_nat_alt word_less_nat_alt)
  qed
  ultimately show ?thesis by (simp add: n(3,4) distinct_map)
qed

lemma no_grade_taken: "TGradeWait \<notin> set ts \<Longrightarrow> thr grade_taken ts = {#}"
proof (induction ts)
  case (Cons t ts)
  then show ?case by (cases t) simp_all
qed simp

section \<open>Every process in one place\<close>

text \<open>
  C1. Every process is in exactly one place. In every reachable state of a run without
  \<open>DETENER_PLANIFICACION\<close> and with fewer than 2^32 processes, the queues, the CPU and the threads of
  the kernel together hold each process once, and the processes that they hold are all those that were
  created (the numbers from 1 below \<open>sig_PID\<close>) but the ones whose end the memory has been told: none is
  lost and none is duplicated.
\<close>

theorem process_in_one_place:
  assumes "kernel_start env rs ns g = Some k0" and "0 \<le> g" and "planner_thread env \<noteq> None"
    and "minimum_law env" and "kreach env uninterrupted k0 k"
  shows "distinct (all_pids k) \<and> set (all_pids k) = {p. 1 \<le> p \<and> p < sig_PID k} - ended_pids (sent k)"
proof -
  obtain d where "kernel_inv d k" using reach_inv[OF assms] by blast
  then have p: "places_inv k" by (simp add: kernel_inv_def sched_inv_def)
  have "distinct (all_pids k)"
    unfolding distinct_count_atmost_1
    using p by (auto simp: places_inv_def all_ms_pids le_Suc_eq not_in_iff simp flip: set_mset_mset)
      (metis count_eq_zero_iff)
  moreover have "set (all_pids k) = set_mset (all_ms k)"
    by (simp flip: all_ms_pids)
  moreover have "memory_protocol (sent k) {} = Some (set_mset (all_ms k))"
    using mem_reach[OF assms] by (simp add: mem_inv_def)
  moreover have "numbers_inv False k" by (rule numbers_reach[OF assms(1,5)]) simp
  ultimately show ?thesis using numbers_created protocol_leaves by fastforce
qed

theorem process_in_one_place_witness:
  "distinct (all_pids demo_after)
     \<and> set (all_pids demo_after) = {p. 1 \<le> p \<and> p < sig_PID demo_after} - ended_pids (sent demo_after)"
  by (rule process_in_one_place[OF demo_started _ demo_planner demo_minimum
        fixed_uninterrupted[OF run_kreach[OF demo_after_run]]]) simp

text \<open>
  C2. The degree of multiprogramming is respected. In every reachable state of a run without
  \<open>DETENER_PLANIFICACION\<close> and \<open>MULTIPROGRAMACION\<close> and with fewer than 2^32 processes, the processes
  between NEW and EXIT plus the free units of \<open>grd_mult\<close> are exactly the configured degree.
\<close>

theorem multiprogramming_degree:
  assumes "kernel_start env rs ns g = Some k0" and "0 \<le> g" and "planner_thread env \<noteq> None"
    and "minimum_law env" and "kreach env fixed_grade k0 k"
  shows "int (length (admitted_pids k)) + int (grd_mult k) = g"
proof -
  have "degree k = g" using reach_fixed_inv[OF assms] by (simp add: kernel_inv_def sched_inv_def)
  moreover have "msize (adm_ms k) = length (admitted_pids k)"
    by (metis adm_ms_pids size_mset)
  moreover have "numbers_inv True k" by (rule numbers_reach[OF assms(1,5)]) (simp add: fixed_grade_def)
  then have "TGradeWait \<notin> set (threads k)" by (auto simp: numbers_inv_def numbered_def)
  then have "thr grade_taken (threads k) = {#}" by (rule no_grade_taken)
  ultimately show ?thesis by (simp add: degree_def)
qed

theorem multiprogramming_degree_witness:
  "int (length (admitted_pids demo_running)) + int (grd_mult demo_running) = 2"
  by (rule multiprogramming_degree[OF demo_started _ demo_planner demo_minimum demo_running_reached]) simp

end
