(* ===== verification/Kernel_Service.thy ===== *)
theory Kernel_Service
  imports Kernel_Places
begin

text \<open>
  The kernel and the CPU as the clients of the memory and the file system. What the kernel sends
  to the memory in a run is carried out one message after the other, with accesses of the CPU
  between them: creations and ends of processes and page faults, with all reservations,
  replacements and releases that they need.
\<close>

section \<open>The requests and their service\<close>

text \<open>
  An access of the CPU: the frame is asked for, and without one the access is not made (the CPU gives the
  process back to the kernel, which asks for the page).
\<close>

definition cpu_access :: "'b vm_env \<Rightarrow> access \<Rightarrow> 'b memory \<Rightarrow> (u32 option \<times> 'b memory) option" where
  "cpu_access v acc m = do {
     m \<leftarrow> sorted_command v PCpu (PAGE_NUMBER (page_new (access_pid acc) (access_page acc) (access_displacement acc))) m;
     (code, _) \<leftarrow> answer_to_cpu m;
     (if code = 10 then Some (None, m)
      else do {
        m \<leftarrow> sorted_command v PCpu (access_command acc) m;
        (_, buf) \<leftarrow> answer_to_cpu m;
        (x, _) \<leftarrow> rd_u32 buf;
        Some (Some x, m) }) }"

datatype serving = KernelAsks kmsg | CpuAccess access

text \<open>The service of a message of the kernel; those to other modules are none of the memory's.\<close>

fun serve_kernel :: "'b vm_env \<Rightarrow> kmsg \<Rightarrow> 'b memory \<times> filesystem \<Rightarrow> ('b memory \<times> filesystem) option" where
  "serve_kernel v (ToMemory c p) st =
     (if c = CREATE_PROCESS then create_service v p (fst st) (snd st) else end_service v p (fst st) (snd st))"
| "serve_kernel v (PageToMemory c pg) st = fault_turns v pg (fst st) (snd st)"
| "serve_kernel v m st = Some st"

fun serve_step :: "'b vm_env \<Rightarrow> serving \<Rightarrow> 'b memory \<times> filesystem \<Rightarrow> (u32 option \<times> 'b memory \<times> filesystem) option" where
  "serve_step v (KernelAsks m) st = map_option (Pair None) (serve_kernel v m st)"
| "serve_step v (CpuAccess acc) st = map_option (\<lambda>(x, m). (x, m, snd st)) (cpu_access v acc (fst st))"

fun asked_by_kernel :: "serving list \<Rightarrow> kmsg list" where
  "asked_by_kernel [] = []"
| "asked_by_kernel (KernelAsks m # evs) = m # asked_by_kernel evs"
| "asked_by_kernel (CpuAccess acc # evs) = asked_by_kernel evs"

text \<open>
  What must hold of a request when it is made: the program of a new process exists and the swap has
  room for it; a page that is asked for is a page of its process and is not in memory (the CPU reports
  no other); an access is one that the process may make on its own pages.
\<close>

fun admissible :: "'b vm_env \<Rightarrow> serving \<Rightarrow> 'b memory \<times> filesystem \<Rightarrow> bool" where
  "admissible v (KernelAsks (ToMemory c p)) st = (c = CREATE_PROCESS \<longrightarrow> program_exists v p \<and> uint (tamanio p) < 2 ^ 31
     \<and> nat (uint (tamanio p) div block_size (fs_config v)) \<le> free_blocks (life_of v st))"
| "admissible v (KernelAsks (PageToMemory c pg)) st =
     (case get_page (pag_pid pg) (sint (page_number pg)) (fst st) of
        Some (Some a) \<Rightarrow> (case store (fst st) a of None \<Rightarrow> False | Some e \<Rightarrow> \<not> bit_precense e)
      | _ \<Rightarrow> False)"
| "admissible v (KernelAsks m) st = True"
| "admissible v (CpuAccess acc) st = (case processes (life_of v st) (access_pid acc) of
        None \<Rightarrow> False
      | Some pages \<Rightarrow> page_access (block_size (fs_config v)) acc pages \<noteq> None)"

fun orderly :: "'b vm_env \<Rightarrow> serving list \<Rightarrow> 'b memory \<times> filesystem \<Rightarrow> bool" where
  "orderly v [] st = True"
| "orderly v (ev # evs) st = (admissible v ev st
     \<and> (case serve_step v ev st of None \<Rightarrow> True | Some (x, st) \<Rightarrow> orderly v evs st))"

section \<open>The same with private memories\<close>

text \<open>The events of the abstract machine, with their answers: an access without a frame is not one.\<close>

fun life_trace :: "serving list \<Rightarrow> u32 option list \<Rightarrow> (life_event \<times> u32 option) list" where
  "life_trace (KernelAsks (ToMemory c p) # evs) (x # xs) =
     ((if c = CREATE_PROCESS then Create p else Finish p), None) # life_trace evs xs"
| "life_trace (CpuAccess acc # evs) (Some x # xs) = (Access acc, Some x) # life_trace evs xs"
| "life_trace (_ # evs) (_ # xs) = life_trace evs xs"
| "life_trace _ _ = []"

lemma access_served:
  assumes laws: "bitarray_laws (bits (mem_env v))" and lru: "uses_lru v" and ok: "life_ok v (m, s)"
    and pg: "processes (life_of v (m, s)) (access_pid acc) = Some pages"
    and pa: "page_access (block_size (fs_config v)) acc pages = Some (x, pages')"
  shows "\<exists>m'. (cpu_access v acc m = Some (None, m') \<and> life_ok v (m', s) \<and> life_of v (m', s) = life_of v (m, s))
     \<or> (cpu_access v acc m = Some (Some x, m') \<and> life_ok v (m', s)
        \<and> life_spec v (Access acc) (life_of v (m, s)) = Some (Some x, life_of v (m', s)))"
proof -
  let ?pg = "page_new (access_pid acc) (access_page acc) (access_displacement acc)"
  obtain m' s' where t: "try_access v 1 acc m s = Some (x, m', s')" "life_ok v (m', s')"
    "life_of v (m', s') = (life_of v (m, s))\<lparr>processes := (processes (life_of v (m, s)))(access_pid acc \<mapsto> pages')\<rparr>"
    using access_step[OF laws lru ok pg pa] by blast
  then obtain m1 code buf where m1: "sorted_command v PCpu (PAGE_NUMBER ?pg) m = Some m1" "answer_to_cpu m1 = Some (code, buf)"
    by (auto simp: try_access.simps Let_def bind_eq_Some_conv)
  have z: "sort_pages m = 0" using ok by (simp add: life_ok_def vm_ok_def)
  have m1': "\<exists>pkg. m1 = reply PCpu pkg m"
  proof -
    obtain m2 where "wait_for_command (mem_env v) PCpu (PAGE_NUMBER ?pg) m = Some m2"
      "sorter_turns (equals_ignore_case v) (replacement_algorithm v) (sort_pages m2) m2 = Some m1"
      using m1(1) by (auto simp: sorted_command_def bind_eq_Some_conv)
    then show ?thesis using z by (auto simp: page_number_request_def split: option.splits)
  qed
  show ?thesis
  proof (cases "code = 10")
    case True
    then have "cpu_access v acc m = Some (None, m1)" using m1 by (simp add: cpu_access_def)
    then show ?thesis using m1' ok by auto
  next
    case False
    then have c: "cpu_access v acc m = Some (Some x, m')" "s' = s"
      using t(1)[unfolded try_access.simps[of v 1]] m1 by (auto simp: cpu_access_def Let_def bind_eq_Some_conv)
    have "life_spec v (Access acc) (life_of v (m, s)) = Some (Some x, life_of v (m', s))"
      using pg pa t(3) c(2) by (simp add: life_spec_def Let_def)
    then show ?thesis using c t(2) by blast
  qed
qed

lemma fault_served:
  assumes laws: "bitarray_laws (bits (mem_env v))" and lru: "uses_lru v" and ok: "life_ok v (m, s)"
    and ad: "admissible v (KernelAsks (PageToMemory c pg)) (m, s)"
  shows "\<exists>m' s'. fault_turns v pg m s = Some (m', s') \<and> life_ok v (m', s') \<and> life_of v (m', s') = life_of v (m, s)"
proof -
  obtain a e where a: "get_page (pag_pid pg) (sint (page_number pg)) m = Some (Some a)" "store m a = Some e" "\<not> bit_precense e"
    using ad by (auto split: option.splits)
  have vm: "vm_ok v m s" using ok by (simp add: life_ok_def)
  obtain m' s' where f: "fault_turns v pg m s = Some (m', s')" "vm_ok v m' s'" "same_rest m m'"
    "\<And>b. contents (fs_config v) m' s' b = contents (fs_config v) m s b" "swap_follows (fs_config v) m s s'"
    using fault_turns_keeps[OF laws lru vm a] by blast
  show ?thesis using moved_pages_life[OF ok f(2,3,5,4)] f(1) by blast
qed

text \<open>One request: it is served, and the abstract machine does the same.\<close>

lemma request_served:
  assumes laws: "bitarray_laws (bits (mem_env v))" and lru: "uses_lru v" and ok: "life_ok v st" and ad: "admissible v ev st"
    and prot: "memory_protocol (asked_by_kernel [ev]) (dom (processes (life_of v st))) = Some B"
  shows "\<exists>x st'. serve_step v ev st = Some (x, st') \<and> life_ok v st' \<and> dom (processes (life_of v st')) = B
     \<and> run_events (life_spec v) (map fst (life_trace [ev] [x])) (life_of v st)
         = Some (map snd (life_trace [ev] [x]), life_of v st')"
proof -
  obtain m s where st: "st = (m, s)" by (cases st)
  note ok = ok[unfolded st]
  show ?thesis
  proof (cases ev)
    case (CpuAccess acc)
    obtain pages x pages' where pg: "processes (life_of v (m, s)) (access_pid acc) = Some pages"
      "page_access (block_size (fs_config v)) acc pages = Some (x, pages')"
      using ad CpuAccess st by (auto split: option.splits)
    from access_served[OF laws lru ok pg] consider
      m' where "cpu_access v acc m = Some (None, m')" "life_ok v (m', s)" "life_of v (m', s) = life_of v (m, s)"
      | m' where "cpu_access v acc m = Some (Some x, m')" "life_ok v (m', s)"
        "life_spec v (Access acc) (life_of v (m, s)) = Some (Some x, life_of v (m', s))" by blast
    then show ?thesis
    proof cases
      case 1
      then show ?thesis using prot CpuAccess st by (intro exI[of _ None] exI[of _ "(m', s)"]) simp
    next
      case 2
      have "life_of v (m', s) = (life_of v (m, s))\<lparr>processes := (processes (life_of v (m, s)))(access_pid acc \<mapsto> pages')\<rparr>"
        using 2(3) pg by (simp add: life_spec_def Let_def)
      then have "dom (processes (life_of v (m', s))) = dom (processes (life_of v (m, s)))" using pg(1) by auto
      then show ?thesis using 2 prot CpuAccess st by (intro exI[of _ "Some x"] exI[of _ "(m', s)"]) simp
    qed
  next
    case (KernelAsks msg)
    show ?thesis
    proof (cases msg)
      case (ToMemory c p)
      let ?L = "life_of v (m, s)"
      show ?thesis
      proof (cases "c = CREATE_PROCESS")
        case True
        then have new: "pid p \<notin> dom (processes ?L)" and B: "B = insert (pid p) (dom (processes ?L))"
          using prot KernelAsks ToMemory st by (auto split: if_splits)
        then have "\<exists>L'. life_spec v (Create p) ?L = Some (None, L') \<and> dom (processes L') = B"
          using ad KernelAsks ToMemory True st by (auto simp: life_spec_def Let_def domIff)
        then obtain L' where L': "life_spec v (Create p) ?L = Some (None, L')" "dom (processes L') = B" by blast
        then obtain m' s' where "create_service v p m s = Some (m', s')" "life_ok v (m', s')" "life_of v (m', s') = L'"
          using create_step[OF ok, of p] by force
        then show ?thesis using L' KernelAsks ToMemory True st by (intro exI[of _ None] exI[of _ "(m', s')"]) simp
      next
        case False
        then have f: "c = FINISH_PROCESS" "pid p \<in> dom (processes ?L)" "B = dom (processes ?L) - {pid p}"
          using prot KernelAsks ToMemory st by (auto split: if_splits)
        then have "\<exists>L'. life_spec v (Finish p) ?L = Some (None, L') \<and> dom (processes L') = B"
          by (auto simp: life_spec_def Let_def)
        then obtain L' where L': "life_spec v (Finish p) ?L = Some (None, L')" "dom (processes L') = B" by blast
        then obtain m' s' where "end_service v p m s = Some (m', s')" "life_ok v (m', s')" "life_of v (m', s') = L'"
          using end_step[OF laws ok, of p] by force
        then show ?thesis using L' KernelAsks ToMemory False st by (intro exI[of _ None] exI[of _ "(m', s')"]) simp
      qed
    next
      case (PageToMemory c pg)
      obtain m' s' where f: "fault_turns v pg m s = Some (m', s')" "life_ok v (m', s')" "life_of v (m', s') = life_of v (m, s)"
        using fault_served[OF laws lru ok, of c pg] ad KernelAsks PageToMemory st by auto
      then show ?thesis using prot KernelAsks PageToMemory st
        by (intro exI[of _ None] exI[of _ "(m', s')"]) (auto split: if_splits)
    qed (use KernelAsks ok st prot in auto)
  qed
qed

lemma trace_Cons: "life_trace (ev # evs) (x # xs) = life_trace [ev] [x] @ life_trace evs xs"
  by (cases "(ev # evs, x # xs)" rule: life_trace.cases) auto

lemma protocol_Cons: "asked_by_kernel (ev # evs) = asked_by_kernel [ev] @ asked_by_kernel evs"
  by (cases ev) simp_all

lemma run_events_append:
  "run_events step es s = Some (xs, s1) \<Longrightarrow> run_events step fs s1 = Some (ys, s2) \<Longrightarrow>
     run_events step (es @ fs) s = Some (xs @ ys, s2)"
  by (induction es arbitrary: s xs) (auto split: option.splits)

lemma requests_served:
  assumes laws: "bitarray_laws (bits (mem_env v))" and lru: "uses_lru v" and "life_ok v st" and "orderly v evs st"
    and "memory_protocol (asked_by_kernel evs) (dom (processes (life_of v st))) = Some B"
  shows "\<exists>xs st'. run_events (serve_step v) evs st = Some (xs, st') \<and> life_ok v st' \<and> dom (processes (life_of v st')) = B
     \<and> run_events (life_spec v) (map fst (life_trace evs xs)) (life_of v st) = Some (map snd (life_trace evs xs), life_of v st')"
  using assms(3-5)
proof (induction evs arbitrary: st)
  case (Cons ev evs)
  obtain C where C: "memory_protocol (asked_by_kernel [ev]) (dom (processes (life_of v st))) = Some C"
    "memory_protocol (asked_by_kernel evs) C = Some B"
    using Cons.prems(3) unfolding protocol_Cons[of ev evs] memory_protocol_append by (auto split: option.splits)
  obtain x st1 where x: "serve_step v ev st = Some (x, st1)" "life_ok v st1" "dom (processes (life_of v st1)) = C"
    "run_events (life_spec v) (map fst (life_trace [ev] [x])) (life_of v st) = Some (map snd (life_trace [ev] [x]), life_of v st1)"
    using request_served[OF laws lru Cons.prems(1) _ C(1)] Cons.prems(2) by auto
  then obtain xs st' where xs: "run_events (serve_step v) evs st1 = Some (xs, st')" "life_ok v st'"
    "dom (processes (life_of v st')) = B"
    "run_events (life_spec v) (map fst (life_trace evs xs)) (life_of v st1) = Some (map snd (life_trace evs xs), life_of v st')"
    using Cons.IH[of st1] Cons.prems(2) C(2) by auto
  show ?case
    using x(1) xs(1-3) run_events_append[OF x(4) xs(4)]
    by (intro exI[of _ "x # xs"] exI[of _ st']) (simp add: trace_Cons[of ev evs x xs])
qed simp

section \<open>The memory serves the kernel and the CPU\<close>

text \<open>
  C10. The requests of the kernel are served. Take any run of the kernel without \<open>DETENER_PLANIFICACION\<close>
  and with fewer than 2^32 processes, a memory under LRU with its file system that are in order and have no
  process yet, and any interleaving \<open>evs\<close> of what the kernel has sent with accesses of the CPU. If (\<open>orderly\<close>)
  at each creation the program exists and the swap has room, each page that is asked for is a page of its
  process that is not in memory, and each access is within the process and makes no page of zero characters,
  the memory and the file system carry out every creation, page fault and end and every access,
  one after the other and to its end: each access of a page that is in memory answers what the private memory of its
  process holds, the others answer with a page fault, and the processes that the memory has at the
  end are exactly those of the kernel. (Page faults that overlap are not served so:
  \<open>two_faults_lose_a_page\<close>.)
\<close>

theorem kernel_runs_are_served:
  assumes "kernel_start env rs ns g = Some k0" and "0 \<le> g" and "planner_thread env \<noteq> None"
    and "minimum_law env" and "kreach env uninterrupted k0 k"
    and laws: "bitarray_laws (bits (mem_env v))" and lru: "uses_lru v" and ok: "life_ok v st"
    and new: "processes (life_of v st) = Map.empty"
    and evs: "asked_by_kernel evs = sent k" and orderly: "orderly v evs st"
  shows "\<exists>xs st'. run_events (serve_step v) evs st = Some (xs, st') \<and> life_ok v st'
     \<and> dom (processes (life_of v st')) = set (all_pids k)
     \<and> run_events (life_spec v) (map fst (life_trace evs xs)) (life_of v st)
         = Some (map snd (life_trace evs xs), life_of v st')"
proof -
  have "memory_protocol (sent k) {} = Some (set (all_pids k))"
    using mem_reach[OF assms(1-5)] by (simp add: mem_inv_def flip: all_ms_pids)
  then show ?thesis using requests_served[OF laws lru ok orderly] new evs by simp
qed

section \<open>A run with a page fault\<close>

text \<open>The pages of a new process are not in memory.\<close>

definition nothing_in_memory :: "'b memory \<Rightarrow> bool" where
  "nothing_in_memory m \<longleftrightarrow> (\<forall>a e. store m a = Some e \<longrightarrow> \<not> bit_precense e)"

lemma created_entries_absent:
  "create_entries p i n blocks m = Some (as, m') \<Longrightarrow> nothing_in_memory m \<Longrightarrow> nothing_in_memory m' \<and> sort_pages m' = sort_pages m"
proof (induction n arbitrary: i blocks m as m')
  case (Suc n)
  then obtain b bs where bs: "blocks = b # bs" by (cases blocks) auto
  let ?m = "m\<lparr>store := (store m)(next_entry m \<mapsto> page_create p False False 0 (int i) b), next_entry := next_entry m + 1\<rparr>"
  obtain as1 where "create_entries p (Suc i) n bs ?m = Some (as1, m')"
    using Suc.prems bs by (simp add: Let_def split: option.splits prod.splits)
  moreover have "nothing_in_memory ?m" using Suc.prems(2) by (simp add: nothing_in_memory_def page_create_def)
  ultimately show ?case using Suc.IH by fastforce
qed simp

lemma created_absent:
  assumes "create_service v p m s = Some (m', s')" and "nothing_in_memory m" and "sort_pages m = 0"
  shows "nothing_in_memory m'"
proof -
  let ?m1 = "get_swap_blocks (sint (tamanio p)) (m\<lparr>mem_pcb_create := Some p\<rparr>)"
  have m1: "sort_pages ?m1 = 0" "nothing_in_memory ?m1" "mem_pcb_create ?m1 = Some p"
    using assms(2,3) by (simp_all add: get_swap_blocks_def mem_send_def nothing_in_memory_def)
  then have "sorted_command v PKernel (CREATE_PROCESS_CMD p) m = Some ?m1" by (intro sorted_quiet) simp_all
  then obtain blocks where "sorted_command v PFilesystem (GET_SWAP_BLOCKS blocks) ?m1 = Some m'"
    using assms(1) by (auto simp: create_service_def bind_eq_Some_conv)
  then obtain i m2 m3 where m2: "create_process (mem_env v) p blocks ?m1 = Some (i, m2)"
    "m3 = reply PKernel (create_integer_package 5 i) (m2\<lparr>mem_pcb_create := None\<rparr>)"
    "sorter_turns (equals_ignore_case v) (replacement_algorithm v) (sort_pages m3) m3 = Some m'"
    using m1(3) by (auto simp: sorted_command_def bind_eq_Some_conv split: option.splits)
  have "nothing_in_memory m2 \<and> sort_pages m2 = 0"
    using m2(1) m1 created_entries_absent[of "pid p" 0 _ blocks ?m1]
    by (fastforce simp: create_process_def page_table_create_def nothing_in_memory_def split: option.splits)
  then have "nothing_in_memory m3" and "sort_pages m3 = 0" unfolding m2(2) nothing_in_memory_def by simp_all
  then show ?thesis using m2(3) by simp
qed

text \<open>A process whose first access is to a page in the swap.\<close>

definition faulting :: t_pcb where
  "faulting = (crear_pcb 1 ''p'' 32 1)\<lparr>instruccion := PAGE_FAULT, params := PNum 1\<rparr>"

definition fault_labels :: "label list" where
  "fault_labels = [LConsole 0 [''INICIAR_PROCESO'', ''p'', ''32'', ''1''], at 0, at 4, at 1, at 1, LThread 4 faulting, at 4]"

definition demo_faulted :: kernel where
  "demo_faulted = the (run demo_env fixed_grade fault_labels Scheduler_Runs.demo_start)"

lemma demo_faulted_run: "run demo_env fixed_grade fault_labels Scheduler_Runs.demo_start = Some demo_faulted"
  unfolding demo_faulted_def by (rule some_the) code_simp

definition demo_requests :: "serving list" where
  "demo_requests = [KernelAsks (ToMemory CREATE_PROCESS (crear_pcb 1 ''p'' 32 1)),
     KernelAsks (ToDispatch INSTRUCTION_CMD ((crear_pcb 1 ''p'' 32 1)\<lparr>estado := EXEC\<rparr>)),
     KernelAsks (PageToMemory PAGE_FAULT_COMMAND (page_new 1 1 0)), CpuAccess (Store 1 1 4 77), CpuAccess (Load 1 1 4)]"

lemma demo_faulted_sent: "asked_by_kernel demo_requests = sent demo_faulted"
  by code_simp

lemma demo_faulted_pids: "all_pids demo_faulted = [1]"
  by code_simp

lemma demo_program: "program_exists demo_start_env (crear_pcb q ''p'' n 1)"
  by (simp add: program_exists_def get_instructions_from_file_def crear_pcb_def) (simp add: demo_mem_env_def)

abbreviation zero_page :: "u8 list" where "zero_page \<equiv> replicate 16 0"
abbreviation page_77 :: "u8 list" where "page_77 \<equiv> replicate 4 0 @ bytes_of_u32 77 @ replicate 8 0"

lemma demo_pages:
  "page_access 16 (Store 1 1 4 77) [zero_page, zero_page] = Some (0, [zero_page, page_77])"
  "page_access 16 (Load 1 1 4) [zero_page, zero_page] = Some (0, [zero_page, zero_page])"
  "page_access 16 (Load 1 1 4) [zero_page, page_77] = Some (77, [zero_page, page_77])"
proof -
  have r4: "replicate 4 x = [x, x, x, x]" for x :: u8 by (simp add: eval_nat_numeral)
  have w: "mem_write zero_page 4 (bytes_of_u32 77) = Some page_77" by (simp add: mem_write_def)
  have r: "mem_read page_77 4 4 = Some (bytes_of_u32 77)" by (simp add: mem_read_def)
  have z: "mem_read zero_page 4 4 = Some (bytes_of_u32 0)" using r4 by (simp add: mem_read_def bytes_of_u32_def)
  have n: "page_77 \<noteq> memset_bytes zero_char 16"
    using r4 by (simp add: memset_bytes_def zero_char_def replicate_add[of 4 12, simplified])
  show "page_access 16 (Store 1 1 4 77) [zero_page, zero_page] = Some (0, [zero_page, page_77])"
    "page_access 16 (Load 1 1 4) [zero_page, zero_page] = Some (0, [zero_page, zero_page])"
    "page_access 16 (Load 1 1 4) [zero_page, page_77] = Some (77, [zero_page, page_77])"
    using w r z n by (simp_all add: page_access_def u32_codec.dec_enc_nil)
qed

lemma demo_orderly: "orderly demo_start_env demo_requests (Virtual_Run.demo_start, demo_fs)"
proof -
  let ?v = demo_start_env and ?p = "crear_pcb 1 ''p'' 32 1" and ?L = "\<lparr>processes = [1 \<mapsto> [zero_page, zero_page]], free_blocks = 0\<rparr>"
  have laws: "bitarray_laws (bits (mem_env ?v))" using demo_bits_laws by simp
  note lru = demo_start_ok(3)
  have cfg: "block_size (fs_config ?v) = 16" by (simp add: demo_cfg_def)
  have p: "pid ?p = 1" "tamanio ?p = 32" by (simp_all add: crear_pcb_def)
  have z: "memset_bytes 0 16 = zero_page" by (simp add: memset_bytes_def)
  have r2: "replicate 2 x = [x, x]" for x :: "u8 list" by (simp add: eval_nat_numeral)
  have "life_spec ?v (Create ?p) (life_of ?v (Virtual_Run.demo_start, demo_fs)) = Some (None, ?L)"
    unfolding demo_start_life(2) using cfg by (simp add: life_spec_def Let_def p demo_program z r2)
  then obtain m1 s1 where c: "create_service ?v ?p Virtual_Run.demo_start demo_fs = Some (m1, s1)" "life_ok ?v (m1, s1)"
    "life_of ?v (m1, s1) = ?L"
    using create_step[OF demo_start_life(1)] by blast
  have "nothing_in_memory m1"
    by (rule created_absent[OF c(1)]) (use demo_start_ok(1) in \<open>simp_all add: nothing_in_memory_def vm_ok_def\<close>)
  moreover obtain t where t: "search_page_table 1 m1 = Some t" "length (snd t) = 2"
    using arg_cong[OF c(3), of "\<lambda>L. processes L 1"] by (auto simp: life_of_def split: prod.splits)
  moreover have "tables_ok m1" using c(2) by (simp add: life_ok_def)
  ultimately have ad: "admissible ?v (KernelAsks (PageToMemory PAGE_FAULT_COMMAND (page_new 1 1 0))) (m1, s1)"
    using tables_entries(2)[of m1 1 t "snd t ! 1"]
    by (cases t) (auto simp: get_page_def list_get_def page_new_def nothing_in_memory_def split: option.split)
  obtain m2 s2 where f: "fault_turns ?v (page_new 1 1 0) m1 s1 = Some (m2, s2)" "life_ok ?v (m2, s2)" "life_of ?v (m2, s2) = ?L"
    using fault_served[OF laws lru c(2) ad] c(3) by metis
  have a: "orderly ?v [CpuAccess (Load 1 1 4)] st"
    if "processes (life_of ?v st) 1 = Some [zero_page, zero_page] \<or> processes (life_of ?v st) 1 = Some [zero_page, page_77]" for st
    using that cfg demo_pages by (auto split: option.split)
  have "orderly ?v [CpuAccess (Store 1 1 4 77), CpuAccess (Load 1 1 4)] (m2, s2)"
  proof -
    have "processes (life_of ?v (m2, s2)) (access_pid (Store 1 1 4 77)) = Some [zero_page, zero_page]" using f(3) by simp
    from access_served[OF laws lru f(2) this, of 0 "[zero_page, page_77]"] demo_pages(1) cfg
    obtain x m3 where m3: "cpu_access ?v (Store 1 1 4 77) m2 = Some (x, m3)"
      "processes (life_of ?v (m3, s2)) 1 = Some [zero_page, zero_page] \<or> processes (life_of ?v (m3, s2)) 1 = Some [zero_page, page_77]"
      using f(3) by (auto simp: life_spec_def Let_def dest!: sym[of "\<lparr>processes = [1 \<mapsto> [zero_page, page_77]], free_blocks = 0\<rparr>"])
    then show ?thesis using a[OF m3(2)] f(3) demo_pages(1) cfg by simp
  qed
  then show ?thesis
    using c(1,3) f(1) ad p cfg demo_program demo_start_life(2) by (simp add: demo_requests_def)
qed

theorem kernel_runs_are_served_witness:
  "\<exists>xs st'. run_events (serve_step demo_start_env) demo_requests (Virtual_Run.demo_start, demo_fs) = Some (xs, st')
     \<and> life_ok demo_start_env st' \<and> dom (processes (life_of demo_start_env st')) = {1}"
proof -
  have reach: "kreach demo_env uninterrupted Scheduler_Runs.demo_start demo_faulted"
    by (rule fixed_uninterrupted[OF run_kreach[OF demo_faulted_run]])
  have bl: "bitarray_laws (bits (mem_env demo_start_env))" using demo_bits_laws by simp
  from kernel_runs_are_served[OF demo_started _ demo_planner demo_minimum reach bl demo_start_ok(3) demo_start_life(1) _
      demo_faulted_sent demo_orderly]
  show ?thesis unfolding demo_faulted_pids demo_start_life(2) by auto
qed

end
