(* ===== verification/Boot.thy ===== *)
theory Boot
  imports Startup
begin

text \<open>
  The start of the four modules together (\<^verbatim>\<open>main.c\<close> and \<^verbatim>\<open>initial_configuration\<close> of each): the memory
  listens for three clients, the file system and the CPU connect to it and then listen for the kernel,
  the kernel connects to all of them, and the CPU asks the memory for the size of a page. A step of a
  module goes to its next blocking call; all interleavings are considered.
\<close>

section \<open>Sockets\<close>

text \<open>
  \<^verbatim>\<open>utils/src/connection/connection.c\<close> over the results of the system calls. The result of \<open>getaddrinfo\<close>
  is not looked at: when it fails, \<open>None\<close> is the use of a list of addresses that was never set.
\<close>

definition connect_to_server :: "bool \<Rightarrow> int \<Rightarrow> int \<Rightarrow> int option" where
  "connect_to_server getaddrinfo_ok socket_cliente conexion =
     (if \<not> getaddrinfo_ok then None else if conexion \<noteq> 0 then Some (- 1) else Some socket_cliente)"

definition start_server :: "bool \<Rightarrow> int \<Rightarrow> int \<Rightarrow> int \<Rightarrow> int option" where
  "start_server getaddrinfo_ok socket_servidor bind_result listen_result =
     (if \<not> getaddrinfo_ok then None
      else if socket_servidor = - 1 then Some (- 1)
      else if bind_result \<noteq> 0 then Some (- 1)
      else if listen_result \<noteq> 0 then Some (- 1)
      else Some socket_servidor)"

definition wait_for_client :: "int \<Rightarrow> int" where
  "wait_for_client socket_cliente = socket_cliente"

section \<open>The network and the modules\<close>

text \<open>The four ports that are listened to, and where each module stands in its \<open>main\<close>.\<close>

datatype server = Mem | Fs | Dispatch | Interrupt

datatype mem_at = MemStart | MemAccept nat t_conn | MemPageSize t_conn | MemUp t_conn | MemDown

datatype fs_at = FsConnect | FsResult | FsListen | FsAccept | FsUp | FsDown

datatype cpu_at = CpuConnect | CpuResult | CpuListen | CpuDispatch | CpuInterrupt | CpuPageSize | CpuUp c_int | CpuDown

datatype kernel_at = KernelConnect nat | KernelResult nat | KernelUp | KernelDown nat

text \<open>
  The keys of the configuration files, the results of the system calls that open sockets, and the
  size of a page. A socket of a server is numbered by the module at its other end.
\<close>

record boot_env =
  has_key :: "MODULOS \<Rightarrow> string \<Rightarrow> bool"
  resolves :: "MODULOS \<Rightarrow> server \<Rightarrow> bool"
  socket_of :: "server \<Rightarrow> int"
  bind_of :: "server \<Rightarrow> int"
  listen_of :: "server \<Rightarrow> int"
  page_bytes :: c_int

text \<open>\<open>None\<close> as a queue is a port at which nobody listens; a connection has bytes under way in both directions.\<close>

record boot =
  queue :: "server \<Rightarrow> MODULOS list option"
  to_server :: "server \<Rightarrow> MODULOS \<Rightarrow> stream"
  to_client :: "server \<Rightarrow> MODULOS \<Rightarrow> stream"
  mem_at :: mem_at
  fs_at :: fs_at
  cpu_at :: cpu_at
  kernel_at :: kernel_at

definition fd_of :: "MODULOS \<Rightarrow> int" where
  "fd_of m = sint (module_code m)"

definition client_of :: "int \<Rightarrow> MODULOS" where
  "client_of fd = (if fd = 1 then FILESYSTEM else if fd = 2 then CPU else if fd = 3 then MEMORY else KERNEL)"

definition put_server :: "server \<Rightarrow> MODULOS \<Rightarrow> stream \<Rightarrow> boot \<Rightarrow> boot" where
  "put_server s m x b = b\<lparr>to_server := (to_server b)(s := (to_server b s)(m := x))\<rparr>"

definition put_client :: "server \<Rightarrow> MODULOS \<Rightarrow> stream \<Rightarrow> boot \<Rightarrow> boot" where
  "put_client s m x b = b\<lparr>to_client := (to_client b)(s := (to_client b s)(m := x))\<rparr>"

definition put_queue :: "server \<Rightarrow> MODULOS list option \<Rightarrow> boot \<Rightarrow> boot" where
  "put_queue s q b = b\<lparr>queue := (queue b)(s := q)\<rparr>"

section \<open>The steps of the clients\<close>

text \<open>
  The two keys of a server, the connection and the first \<open>send\<close>, which succeeds on a new connection:
  \<open>Some None\<close> is the return of \<open>-1\<close> or the \<open>break\<close>, \<open>None\<close> undefined behaviour. A server that
  listens has room for the connection.
\<close>

definition connect_step :: "boot_env \<Rightarrow> MODULOS \<Rightarrow> server \<Rightarrow> string \<Rightarrow> string \<Rightarrow> boot \<Rightarrow> boot option option" where
  "connect_step env m s port_key ip_key b =
     (if \<not> has_key env m port_key \<or> \<not> has_key env m ip_key then Some None
      else (case connect_to_server (resolves env m s) (fd_of m) (if queue b s = None then - 1 else 0) of
          None \<Rightarrow> None
        | Some fd \<Rightarrow> if fd = - 1 then Some None
            else Some (Some (put_server s m (to_server b s m @ send_handshake (module_code m))
              (put_queue s (map_option (\<lambda>q. q @ [m]) (queue b s)) b)))))"

text \<open>The module of a server has ended, and its sockets are closed.\<close>

fun gone :: "server \<Rightarrow> boot \<Rightarrow> bool" where
  "gone Mem b = (mem_at b = MemDown)" | "gone Fs b = (fs_at b = FsDown)"
| "gone Dispatch b = (cpu_at b = CpuDown)" | "gone Interrupt b = (cpu_at b = CpuDown)"

text \<open>\<open>check_handshake_result\<close> when the four bytes are there: whether the server accepted, and the bytes after them.\<close>

definition result_step :: "server \<Rightarrow> MODULOS \<Rightarrow> boot \<Rightarrow> (bool \<times> boot) outcome" where
  "result_step s m b = (if length (to_client b s m) < 4 \<and> \<not> gone s b then Waits
     else (case check_handshake_result (Some (to_client b s m)) of
         None \<Rightarrow> Crashes
       | Some r \<Rightarrow> Runs (r \<noteq> - 1, put_client s m (drop 4 (to_client b s m)) b)))"

text \<open>A server that starts: whether its socket is there, and the new queue.\<close>

definition listen_step :: "boot_env \<Rightarrow> MODULOS \<Rightarrow> server \<Rightarrow> boot \<Rightarrow> (bool \<times> boot) option" where
  "listen_step env m s b = (case start_server (resolves env m s) (socket_of env s) (bind_of env s) (listen_of env s) of
      None \<Rightarrow> None
    | Some fd \<Rightarrow> Some (fd \<noteq> - 1, if fd = - 1 then b else put_queue s (Some []) b))"

text \<open>
  \<open>wait_for_initial_handshake_from_kernel\<close> at a port, when a client is there: its result and the
  answer to the client. Without a listening socket \<open>accept\<close> and \<open>recv\<close> fail.
\<close>

definition kernel_step_at :: "server \<Rightarrow> boot \<Rightarrow> (bool \<times> boot) outcome" where
  "kernel_step_at s b = (case queue b s of
      None \<Rightarrow> Runs (False, b)
    | Some [] \<Rightarrow> Waits
    | Some (m # ms) \<Rightarrow>
        (case wait_for_initial_handshake_from_kernel (wait_for_client (fd_of m)) (Some (to_server b s m)) of
          None \<Rightarrow> Crashes
        | Some (result, reply, closed) \<Rightarrow> Runs (result \<noteq> - 1, put_queue s (Some ms)
            (put_client s m (to_client b s m @ reply) (put_server s m (drop 4 (to_server b s m)) b)))))"

definition fs_boot :: "boot_env \<Rightarrow> boot \<Rightarrow> boot outcome" where
  "fs_boot env b = (case fs_at b of
      FsConnect \<Rightarrow> (case connect_step env FILESYSTEM Mem ''PUERTO_MEMORIA'' ''IP_MEMORIA'' b of
          None \<Rightarrow> Crashes
        | Some None \<Rightarrow> Runs (b\<lparr>fs_at := FsDown\<rparr>)
        | Some (Some b) \<Rightarrow> Runs (b\<lparr>fs_at := FsResult\<rparr>))
    | FsResult \<Rightarrow> (case result_step Mem FILESYSTEM b of
          Runs (ok, b) \<Rightarrow> Runs (b\<lparr>fs_at := if ok then FsListen else FsDown\<rparr>)
        | Waits \<Rightarrow> Waits | Crashes \<Rightarrow> Crashes)
    | FsListen \<Rightarrow> if \<not> has_key env FILESYSTEM ''PUERTO_ESCUCHA'' then Runs (b\<lparr>fs_at := FsDown\<rparr>)
        else (case listen_step env FILESYSTEM Fs b of
            None \<Rightarrow> Crashes
          | Some (ok, b) \<Rightarrow> Runs (b\<lparr>fs_at := if ok then FsAccept else FsDown\<rparr>))
    | FsAccept \<Rightarrow> (case kernel_step_at Fs b of
          Runs (ok, b) \<Rightarrow> Runs (b\<lparr>fs_at := if ok then FsUp else FsDown\<rparr>)
        | Waits \<Rightarrow> Waits | Crashes \<Rightarrow> Crashes)
    | _ \<Rightarrow> Waits)"

text \<open>
  The CPU starts both servers without looking at the result, and asks for the size of a page as soon
  as the kernel is on both ports.
\<close>

definition cpu_listen :: "boot_env \<Rightarrow> boot \<Rightarrow> boot outcome" where
  "cpu_listen env b =
     (if \<not> has_key env CPU ''PUERTO_ESCUCHA_DISPATCH'' then Runs (b\<lparr>cpu_at := CpuDown\<rparr>)
      else (case listen_step env CPU Dispatch b of
          None \<Rightarrow> Crashes
        | Some (_, b) \<Rightarrow> if \<not> has_key env CPU ''PUERTO_ESCUCHA_INTERRUPT'' then Runs (b\<lparr>cpu_at := CpuDown\<rparr>)
            else (case listen_step env CPU Interrupt b of
                None \<Rightarrow> Crashes
              | Some (_, b) \<Rightarrow> Runs (b\<lparr>cpu_at := CpuDispatch\<rparr>))))"

definition get_page_size_of_memory :: "stream \<Rightarrow> c_int option option" where
  "get_page_size_of_memory s = (case receive_op_code s of
      (None, _) \<Rightarrow> None
    | (Some code, s) \<Rightarrow> if code \<noteq> 4 then Some None
        else (case receive_buffer s of
            (Null, _) \<Rightarrow> Some None
          | (Indeterminate, _) \<Rightarrow> None
          | (Buf b, _) \<Rightarrow> (case rd_u32 b of None \<Rightarrow> None | Some (n, _) \<Rightarrow> Some (Some n))))"

definition cpu_boot :: "boot_env \<Rightarrow> boot \<Rightarrow> boot outcome" where
  "cpu_boot env b = (case cpu_at b of
      CpuConnect \<Rightarrow> (case connect_step env CPU Mem ''PUERTO_MEMORIA'' ''IP_MEMORIA'' b of
          None \<Rightarrow> Crashes
        | Some None \<Rightarrow> Runs (b\<lparr>cpu_at := CpuDown\<rparr>)
        | Some (Some b) \<Rightarrow> Runs (b\<lparr>cpu_at := CpuResult\<rparr>))
    | CpuResult \<Rightarrow> (case result_step Mem CPU b of
          Runs (ok, b) \<Rightarrow> Runs (b\<lparr>cpu_at := if ok then CpuListen else CpuDown\<rparr>)
        | Waits \<Rightarrow> Waits | Crashes \<Rightarrow> Crashes)
    | CpuListen \<Rightarrow> cpu_listen env b
    | CpuDispatch \<Rightarrow> (case kernel_step_at Dispatch b of
          Runs (ok, b) \<Rightarrow> Runs (b\<lparr>cpu_at := if ok then CpuInterrupt else CpuDown\<rparr>)
        | Waits \<Rightarrow> Waits | Crashes \<Rightarrow> Crashes)
    | CpuInterrupt \<Rightarrow> (case kernel_step_at Interrupt b of
          Runs (ok, b) \<Rightarrow> Runs (if \<not> ok then b\<lparr>cpu_at := CpuDown\<rparr>
            else (put_server Mem CPU (to_server b Mem CPU @ bytes_of_u32 4) b)\<lparr>cpu_at := CpuPageSize\<rparr>)
        | Waits \<Rightarrow> Waits | Crashes \<Rightarrow> Crashes)
    | CpuPageSize \<Rightarrow> if to_client b Mem CPU = [] \<and> \<not> gone Mem b then Waits
        else (case get_page_size_of_memory (to_client b Mem CPU) of
            None \<Rightarrow> Crashes
          | Some None \<Rightarrow> Runs (b\<lparr>cpu_at := CpuDown\<rparr>)
          | Some (Some n) \<Rightarrow> Runs ((put_client Mem CPU [] b)\<lparr>cpu_at := CpuUp n\<rparr>))
    | _ \<Rightarrow> Waits)"

text \<open>The kernel connects in the order of its keys; when it gives up it closes what it has.\<close>

definition kernel_servers :: "(server \<times> string \<times> string) list" where
  "kernel_servers = [(Mem, ''PUERTO_MEMORIA'', ''IP_MEMORIA''), (Fs, ''PUERTO_FILESYSTEM'', ''IP_FILESYSTEM''),
     (Dispatch, ''PUERTO_CPU_DISPATCH'', ''IP_CPU''), (Interrupt, ''PUERTO_CPU_INTERRUPT'', ''IP_CPU'')]"

definition kernel_boot :: "boot_env \<Rightarrow> boot \<Rightarrow> boot outcome" where
  "kernel_boot env b = (case kernel_at b of
      KernelConnect n \<Rightarrow> if n \<ge> 4 then Runs (b\<lparr>kernel_at := KernelUp\<rparr>)
        else (case kernel_servers ! n of (s, port_key, ip_key) \<Rightarrow>
          (case connect_step env KERNEL s port_key ip_key b of
              None \<Rightarrow> Crashes
            | Some None \<Rightarrow> Runs (b\<lparr>kernel_at := KernelDown n\<rparr>)
            | Some (Some b) \<Rightarrow> Runs (b\<lparr>kernel_at := KernelResult n\<rparr>)))
    | KernelResult n \<Rightarrow> (case result_step (fst (kernel_servers ! n)) KERNEL b of
          Runs (ok, b) \<Rightarrow> Runs (b\<lparr>kernel_at := if ok then KernelConnect (Suc n) else KernelDown n\<rparr>)
        | Waits \<Rightarrow> Waits | Crashes \<Rightarrow> Crashes)
    | _ \<Rightarrow> Waits)"

section \<open>The steps of the memory\<close>

definition accept_step :: "nat \<Rightarrow> t_conn \<Rightarrow> boot \<Rightarrow> boot outcome" where
  "accept_step n conn b = (case queue b Mem of
      None \<Rightarrow> Crashes
    | Some [] \<Rightarrow> Waits
    | Some (m # ms) \<Rightarrow> (let fd = wait_for_client (fd_of m); b = put_queue Mem (Some ms) b in
        if fd = - 1 then Runs (b\<lparr>mem_at := MemDown\<rparr>)
        else (case receive_handshake (Some (to_server b Mem m)) of
            None \<Rightarrow> Crashes
          | Some handshake \<Rightarrow> if handshake = - 1 then Runs (b\<lparr>mem_at := MemDown\<rparr>)
              else (case accept_client fd handshake conn of (conn, reply) \<Rightarrow>
                Runs ((put_client Mem m (to_client b Mem m @ reply) (put_server Mem m (drop 4 (to_server b Mem m)) b))
                  \<lparr>mem_at := MemAccept n conn\<rparr>)))))"

text \<open>\<open>send_page_size_to_cpu\<close>: the operation code that is received is not looked at.\<close>

definition send_page_size :: "boot_env \<Rightarrow> t_conn \<Rightarrow> boot \<Rightarrow> boot outcome" where
  "send_page_size env conn b = (case socket_cpu conn of
      None \<Rightarrow> Crashes
    | Some fd \<Rightarrow> (let m = client_of fd in
        if length (to_server b Mem m) < 4 \<and> cpu_at b \<noteq> CpuDown then Waits
        else (case send_package (create_integer_package 4 (page_bytes env)) of
            None \<Rightarrow> Crashes
          | Some bytes \<Rightarrow> Runs ((put_client Mem m (to_client b Mem m @ bytes)
              (put_server Mem m (snd (receive_op_code (to_server b Mem m))) b))\<lparr>mem_at := MemUp conn\<rparr>))))"

definition mem_boot :: "boot_env \<Rightarrow> boot \<Rightarrow> boot outcome" where
  "mem_boot env b = (case mem_at b of
      MemStart \<Rightarrow> if \<not> has_key env MEMORY ''PUERTO_ESCUCHA'' then Runs (b\<lparr>mem_at := MemDown\<rparr>)
        else (case listen_step env MEMORY Mem b of
            None \<Rightarrow> Crashes
          | Some (ok, b) \<Rightarrow> Runs (b\<lparr>mem_at := if ok then MemAccept 3 \<lparr>socket_filesystem = None, socket_cpu = None,
              socket_kernel = None\<rparr> else MemDown\<rparr>))
    | MemAccept 0 conn \<Rightarrow> Runs (b\<lparr>mem_at := MemPageSize conn\<rparr>)
    | MemAccept (Suc n) conn \<Rightarrow> accept_step n conn b
    | MemPageSize conn \<Rightarrow> send_page_size env conn b
    | _ \<Rightarrow> Waits)"

section \<open>Runs\<close>

fun boot_step :: "boot_env \<Rightarrow> MODULOS \<Rightarrow> boot \<Rightarrow> boot outcome" where
  "boot_step env MEMORY b = mem_boot env b" | "boot_step env FILESYSTEM b = fs_boot env b"
| "boot_step env CPU b = cpu_boot env b" | "boot_step env KERNEL b = kernel_boot env b"

fun boot_run :: "boot_env \<Rightarrow> MODULOS list \<Rightarrow> boot \<Rightarrow> boot outcome" where
  "boot_run env [] b = Runs b"
| "boot_run env (m # ms) b = (case boot_step env m b of Runs b \<Rightarrow> boot_run env ms b | r \<Rightarrow> r)"

definition boot_start :: boot where
  "boot_start = \<lparr>queue = (\<lambda>s. None), to_server = (\<lambda>s m. []), to_client = (\<lambda>s m. []),
     mem_at = MemStart, fs_at = FsConnect, cpu_at = CpuConnect, kernel_at = KernelConnect 0\<rparr>"

text \<open>All keys are there, all addresses resolve, and the ports are free.\<close>

definition boots :: "boot_env \<Rightarrow> bool" where
  "boots env \<longleftrightarrow> has_key env = (\<lambda>m k. True) \<and> resolves env = (\<lambda>m s. True)
     \<and> (\<forall>s. socket_of env s \<noteq> - 1 \<and> bind_of env s = 0 \<and> listen_of env s = 0)"

section \<open>The invariant\<close>

text \<open>
  A connection as its two ends see it: \<open>0\<close> before the client connects, \<open>1\<close> while it waits for the
  answer, \<open>2\<close> afterwards; on the other side whether the server has taken it.
\<close>

fun kernel_stage :: "nat \<Rightarrow> kernel_at \<Rightarrow> nat" where
  "kernel_stage i (KernelConnect j) = (if j \<le> i then 0 else 2)"
| "kernel_stage i (KernelResult j) = (if j < i then 0 else if j = i then 1 else 2)"
| "kernel_stage i KernelUp = 2"
| "kernel_stage i (KernelDown j) = (if j \<le> i then 0 else 2)"

fun fs_stage :: "fs_at \<Rightarrow> nat" where
  "fs_stage FsConnect = 0" | "fs_stage FsDown = 0" | "fs_stage FsResult = 1" | "fs_stage _ = 2"

fun cpu_stage :: "cpu_at \<Rightarrow> nat" where
  "cpu_stage CpuConnect = 0" | "cpu_stage CpuDown = 0" | "cpu_stage CpuResult = 1" | "cpu_stage _ = 2"

text \<open>How many kernels the ports of the CPU have taken; \<open>None\<close> before it listens.\<close>

fun cpu_ports :: "cpu_at \<Rightarrow> nat option" where
  "cpu_ports CpuDispatch = Some 0" | "cpu_ports CpuInterrupt = Some 1" | "cpu_ports CpuPageSize = Some 2"
| "cpu_ports (CpuUp n) = Some 2" | "cpu_ports _ = None"

fun conn_at :: "mem_at \<Rightarrow> t_conn" where
  "conn_at (MemAccept n c) = c" | "conn_at (MemPageSize c) = c" | "conn_at (MemUp c) = c"
| "conn_at _ = \<lparr>socket_filesystem = None, socket_cpu = None, socket_kernel = None\<rparr>"

definition link :: "MODULOS \<Rightarrow> nat \<Rightarrow> bool \<Rightarrow> stream \<Rightarrow> stream \<Rightarrow> bool" where
  "link m stage taken ts tc \<longleftrightarrow>
     (stage = 0 \<longrightarrow> \<not> taken \<and> ts = [] \<and> tc = [])
     \<and> (stage = 1 \<longrightarrow> (if taken then ts = [] \<and> tc = send_handshake_success else ts = send_handshake (module_code m) \<and> tc = []))
     \<and> (stage = 2 \<longrightarrow> taken \<and> (m \<noteq> CPU \<longrightarrow> ts = [] \<and> tc = []))"

text \<open>A port of the file system or the CPU, with the kernel as its only client.\<close>

definition port_ok :: "nat \<Rightarrow> bool \<Rightarrow> bool \<Rightarrow> MODULOS list option \<Rightarrow> stream \<Rightarrow> stream \<Rightarrow> bool" where
  "port_ok stage listening taken q ts tc \<longleftrightarrow> link KERNEL stage taken ts tc
     \<and> q = (if listening then Some (if stage = 1 \<and> \<not> taken then [KERNEL] else []) else None)
     \<and> (\<not> listening \<longrightarrow> stage = 0)"

text \<open>The port of the memory: how many sockets it has, and who is in its queue.\<close>

fun mem_ok :: "mem_at \<Rightarrow> bool" where
  "mem_ok MemStart = True"
| "mem_ok (MemAccept n c) = (n + (if socket_filesystem c = None then 0 else 1) + (if socket_cpu c = None then 0 else 1)
     + (if socket_kernel c = None then 0 else 1) = 3)"
| "mem_ok (MemPageSize c) = (c = \<lparr>socket_filesystem = Some 1, socket_cpu = Some 2, socket_kernel = Some 4\<rparr>)"
| "mem_ok (MemUp c) = (c = \<lparr>socket_filesystem = Some 1, socket_cpu = Some 2, socket_kernel = Some 4\<rparr>)"
| "mem_ok MemDown = False"

fun in_queue :: "t_conn \<Rightarrow> nat \<Rightarrow> nat \<Rightarrow> nat \<Rightarrow> MODULOS \<Rightarrow> bool" where
  "in_queue c fs cpu krn FILESYSTEM = (fs = 1 \<and> socket_filesystem c = None)"
| "in_queue c fs cpu krn CPU = (cpu = 1 \<and> socket_cpu c = None)"
| "in_queue c fs cpu krn KERNEL = (krn = 1 \<and> socket_kernel c = None)"
| "in_queue c fs cpu krn MEMORY = False"

definition queue_ok :: "mem_at \<Rightarrow> nat \<Rightarrow> nat \<Rightarrow> nat \<Rightarrow> MODULOS list option \<Rightarrow> bool" where
  "queue_ok ma fs cpu krn q \<longleftrightarrow> (if ma = MemStart then q = None \<and> fs = 0 \<and> cpu = 0 \<and> krn = 0
     else (\<exists>ms. q = Some ms \<and> distinct ms \<and> (\<forall>m. m \<in> set ms \<longleftrightarrow> in_queue (conn_at ma) fs cpu krn m)))"

definition sockets_ok :: "t_conn \<Rightarrow> bool" where
  "sockets_ok c \<longleftrightarrow> socket_filesystem c \<in> {None, Some 1} \<and> socket_cpu c \<in> {None, Some 2} \<and> socket_kernel c \<in> {None, Some 4}"

text \<open>The exchange of the size of a page.\<close>

fun mem_is_up :: "mem_at \<Rightarrow> bool" where
  "mem_is_up (MemUp c) = True" | "mem_is_up _ = False"

fun size_ok :: "c_int \<Rightarrow> bool \<Rightarrow> cpu_at \<Rightarrow> stream \<Rightarrow> stream \<Rightarrow> bool" where
  "size_ok n up CpuPageSize ts tc = (if up then ts = [] \<and> Some tc = send_package (create_integer_package 4 n)
     else ts = bytes_of_u32 4 \<and> tc = [])"
| "size_ok n up (CpuUp k) ts tc = (k = n \<and> up \<and> ts = [] \<and> tc = [])"
| "size_ok n up ca ts tc = (\<not> up \<and> (cpu_stage ca = 2 \<longrightarrow> ts = [] \<and> tc = []))"

fun kernel_bound :: "kernel_at \<Rightarrow> bool" where
  "kernel_bound (KernelConnect n) = (n \<le> 4)" | "kernel_bound (KernelResult n) = (n < 4)"
| "kernel_bound KernelUp = True" | "kernel_bound (KernelDown n) = (n < 4)"

definition boot_inv :: "boot_env \<Rightarrow> boot \<Rightarrow> bool" where
  "boot_inv env b \<longleftrightarrow> mem_ok (mem_at b) \<and> sockets_ok (conn_at (mem_at b)) \<and> kernel_bound (kernel_at b)
     \<and> queue_ok (mem_at b) (fs_stage (fs_at b)) (cpu_stage (cpu_at b)) (kernel_stage 0 (kernel_at b)) (queue b Mem)
     \<and> size_ok (page_bytes env) (mem_is_up (mem_at b)) (cpu_at b) (to_server b Mem CPU) (to_client b Mem CPU)
     \<and> link FILESYSTEM (fs_stage (fs_at b)) (socket_filesystem (conn_at (mem_at b)) \<noteq> None) (to_server b Mem FILESYSTEM) (to_client b Mem FILESYSTEM)
     \<and> link CPU (cpu_stage (cpu_at b)) (socket_cpu (conn_at (mem_at b)) \<noteq> None) (to_server b Mem CPU) (to_client b Mem CPU)
     \<and> link KERNEL (kernel_stage 0 (kernel_at b)) (socket_kernel (conn_at (mem_at b)) \<noteq> None) (to_server b Mem KERNEL) (to_client b Mem KERNEL)
     \<and> port_ok (kernel_stage 1 (kernel_at b)) (fs_at b = FsAccept \<or> fs_at b = FsUp) (fs_at b = FsUp)
         (queue b Fs) (to_server b Fs KERNEL) (to_client b Fs KERNEL)
     \<and> port_ok (kernel_stage 2 (kernel_at b)) (cpu_ports (cpu_at b) \<noteq> None) (cpu_ports (cpu_at b) \<in> {Some 1, Some 2})
         (queue b Dispatch) (to_server b Dispatch KERNEL) (to_client b Dispatch KERNEL)
     \<and> port_ok (kernel_stage 3 (kernel_at b)) (cpu_ports (cpu_at b) \<noteq> None) (cpu_ports (cpu_at b) = Some 2)
         (queue b Interrupt) (to_server b Interrupt KERNEL) (to_client b Interrupt KERNEL)"

lemma boot_inv_start: "boot_inv env boot_start"
  by (simp add: boot_inv_def boot_start_def queue_ok_def sockets_ok_def link_def port_ok_def)

lemmas put_defs = put_server_def put_client_def put_queue_def

lemma fields [simp]:
  "queue (put_server s m x b) = queue b" "queue (put_client s m x b) = queue b" "queue (put_queue s q b) = (queue b)(s := q)"
  "mem_at (put_server s m x b) = mem_at b" "mem_at (put_client s m x b) = mem_at b" "mem_at (put_queue s q b) = mem_at b"
  "fs_at (put_server s m x b) = fs_at b" "fs_at (put_client s m x b) = fs_at b" "fs_at (put_queue s q b) = fs_at b"
  "cpu_at (put_server s m x b) = cpu_at b" "cpu_at (put_client s m x b) = cpu_at b" "cpu_at (put_queue s q b) = cpu_at b"
  "kernel_at (put_server s m x b) = kernel_at b" "kernel_at (put_client s m x b) = kernel_at b"
  "kernel_at (put_queue s q b) = kernel_at b"
  "to_server (put_client s m x b) = to_server b" "to_server (put_queue s q b) = to_server b"
  "to_client (put_server s m x b) = to_client b" "to_client (put_queue s q b) = to_client b"
  "to_server (put_server s m x b) s' m' = (if s' = s \<and> m' = m then x else to_server b s' m')"
  "to_client (put_client s m x b) s' m' = (if s' = s \<and> m' = m then x else to_client b s' m')"
  by (simp_all add: put_defs)

lemma connect_refused:
  assumes "boots env" and "queue b s = None"
  shows "connect_step env m s k k' b = Some None"
  using assms by (simp add: boots_def connect_step_def connect_to_server_def)

lemma connect_taken:
  assumes "boots env" and "queue b s = Some q"
  shows "connect_step env m s k k' b = Some (Some (put_server s m (to_server b s m @ send_handshake (module_code m))
     (put_queue s (Some (q @ [m])) b)))"
  using assms by (cases m) (simp_all add: boots_def connect_step_def connect_to_server_def fd_of_def)

lemma length_handshake [simp]: "length send_handshake_success = 4" "length (send_handshake h) = 4"
  by (simp_all add: send_handshake_success_def send_handshake_def)

lemma result_waits: "to_client b s m = [] \<Longrightarrow> \<not> gone s b \<Longrightarrow> result_step s m b = Waits"
  by (simp add: result_step_def)

lemma result_accepted: "to_client b s m = send_handshake_success \<Longrightarrow> result_step s m b = Runs (True, put_client s m [] b)"
  by (simp add: result_step_def)

lemma queue_ok_connect:
  assumes "queue_ok ma fs cpu krn (Some q)"
  shows "fs = 0 \<Longrightarrow> socket_filesystem (conn_at ma) = None \<Longrightarrow> queue_ok ma 1 cpu krn (Some (q @ [FILESYSTEM]))"
    and "cpu = 0 \<Longrightarrow> socket_cpu (conn_at ma) = None \<Longrightarrow> queue_ok ma fs 1 krn (Some (q @ [CPU]))"
    and "krn = 0 \<Longrightarrow> socket_kernel (conn_at ma) = None \<Longrightarrow> queue_ok ma fs cpu 1 (Some (q @ [KERNEL]))"
proof -
  have q: "distinct q" "\<And>m. m \<in> set q \<longleftrightarrow> in_queue (conn_at ma) fs cpu krn m" "ma \<noteq> MemStart"
    using assms by (auto simp: queue_ok_def split: if_splits)
  have add: "m \<in> set (q @ [FILESYSTEM]) \<longleftrightarrow> in_queue (conn_at ma) 1 cpu krn m" if "fs = 0" "socket_filesystem (conn_at ma) = None" for m
    using that q(2)[of m] by (cases m) simp_all
  show "fs = 0 \<Longrightarrow> socket_filesystem (conn_at ma) = None \<Longrightarrow> queue_ok ma 1 cpu krn (Some (q @ [FILESYSTEM]))"
    using q add by (simp add: queue_ok_def)
  have add: "m \<in> set (q @ [CPU]) \<longleftrightarrow> in_queue (conn_at ma) fs 1 krn m" if "cpu = 0" "socket_cpu (conn_at ma) = None" for m
    using that q(2)[of m] by (cases m) simp_all
  show "cpu = 0 \<Longrightarrow> socket_cpu (conn_at ma) = None \<Longrightarrow> queue_ok ma fs 1 krn (Some (q @ [CPU]))"
    using q add by (simp add: queue_ok_def)
  have add: "m \<in> set (q @ [KERNEL]) \<longleftrightarrow> in_queue (conn_at ma) fs cpu 1 m" if "krn = 0" "socket_kernel (conn_at ma) = None" for m
    using that q(2)[of m] by (cases m) simp_all
  show "krn = 0 \<Longrightarrow> socket_kernel (conn_at ma) = None \<Longrightarrow> queue_ok ma fs cpu 1 (Some (q @ [KERNEL]))"
    using q add by (simp add: queue_ok_def)
qed

lemma in_queue_taken:
  "socket_filesystem c \<noteq> None \<Longrightarrow> in_queue c fs' cpu krn m = in_queue c fs cpu krn m"
  "socket_cpu c \<noteq> None \<Longrightarrow> in_queue c fs cpu' krn m = in_queue c fs cpu krn m"
  "socket_kernel c \<noteq> None \<Longrightarrow> in_queue c fs cpu krn' m = in_queue c fs cpu krn m"
  by (cases m; auto)+

lemma not_started: "socket_filesystem (conn_at ma) \<noteq> None \<Longrightarrow> ma \<noteq> MemStart"
  "socket_cpu (conn_at ma) \<noteq> None \<Longrightarrow> ma \<noteq> MemStart" "socket_kernel (conn_at ma) \<noteq> None \<Longrightarrow> ma \<noteq> MemStart"
  by auto

lemma queue_ok_taken:
  assumes "queue_ok ma fs cpu krn q"
  shows "socket_filesystem (conn_at ma) \<noteq> None \<Longrightarrow> queue_ok ma fs' cpu krn q"
    and "socket_cpu (conn_at ma) \<noteq> None \<Longrightarrow> queue_ok ma fs cpu' krn q"
    and "socket_kernel (conn_at ma) \<noteq> None \<Longrightarrow> queue_ok ma fs cpu krn' q"
proof -
  assume f: "socket_filesystem (conn_at ma) \<noteq> None"
  show "queue_ok ma fs' cpu krn q"
    using assms unfolding queue_ok_def in_queue_taken(1)[OF f, of fs' _ _ _ fs] by (simp only: not_started(1)[OF f] if_False)
next
  assume f: "socket_cpu (conn_at ma) \<noteq> None"
  show "queue_ok ma fs cpu' krn q"
    using assms unfolding queue_ok_def in_queue_taken(2)[OF f, of _ cpu' _ _ cpu] by (simp only: not_started(2)[OF f] if_False)
next
  assume f: "socket_kernel (conn_at ma) \<noteq> None"
  show "queue_ok ma fs cpu krn' q"
    using assms unfolding queue_ok_def in_queue_taken(3)[OF f, of _ _ krn' _ krn] by (simp only: not_started(3)[OF f] if_False)
qed

lemma gone_mem [simp]: "boot_inv env b \<Longrightarrow> \<not> gone Mem b"
  by (auto simp: boot_inv_def)

lemma listens: "boots env \<Longrightarrow> listen_step env m s b = Some (True, put_queue s (Some []) b)"
  by (simp add: boots_def listen_step_def start_server_def)

lemma kernel_taken:
  assumes "queue b s = Some [KERNEL]" and "to_server b s KERNEL = send_handshake 4" and "to_client b s KERNEL = []"
  shows "kernel_step_at s b = Runs (True, put_queue s (Some []) (put_client s KERNEL send_handshake_success (put_server s KERNEL [] b)))"
  using assms by (simp add: kernel_step_at_def wait_for_initial_handshake_from_kernel_def wait_for_client_def fd_of_def)

lemma port_ok_closed [simp]:
  "port_ok st False taken q ts tc \<longleftrightarrow> st = 0 \<and> \<not> taken \<and> ts = [] \<and> tc = [] \<and> q = None"
  "port_ok 0 True False (Some []) [] []"
  by (auto simp: port_ok_def link_def)

lemma link_cpu [simp]: "link CPU 2 taken ts tc = taken"
  by (simp add: link_def)

lemma port_takes: "st = 1 \<Longrightarrow> port_ok st True True (Some []) [] send_handshake_success"
  by (simp add: port_ok_def link_def)

section \<open>Progress\<close>

text \<open>A bound on the steps that are left; every step decreases it.\<close>

fun mem_left :: "mem_at \<Rightarrow> nat" where
  "mem_left MemStart = 6" | "mem_left (MemAccept n c) = n + 2" | "mem_left (MemPageSize c) = 1" | "mem_left _ = 0"

fun fs_left :: "fs_at \<Rightarrow> nat" where
  "fs_left FsConnect = 4" | "fs_left FsResult = 3" | "fs_left FsListen = 2" | "fs_left FsAccept = 1" | "fs_left _ = 0"

fun cpu_left :: "cpu_at \<Rightarrow> nat" where
  "cpu_left CpuConnect = 6" | "cpu_left CpuResult = 5" | "cpu_left CpuListen = 4" | "cpu_left CpuDispatch = 3"
| "cpu_left CpuInterrupt = 2" | "cpu_left CpuPageSize = 1" | "cpu_left _ = 0"

fun kernel_left :: "kernel_at \<Rightarrow> nat" where
  "kernel_left (KernelConnect n) = 9 - 2 * n" | "kernel_left (KernelResult n) = 8 - 2 * n" | "kernel_left _ = 0"

definition boot_left :: "boot \<Rightarrow> nat" where
  "boot_left b = mem_left (mem_at b) + fs_left (fs_at b) + cpu_left (cpu_at b) + kernel_left (kernel_at b)"

text \<open>Everybody listens, and the kernel has not given up.\<close>

fun gave_up :: "kernel_at \<Rightarrow> bool" where
  "gave_up (KernelDown n) = True" | "gave_up _ = False"

definition ready :: "boot \<Rightarrow> bool" where
  "ready b \<longleftrightarrow> mem_at b \<noteq> MemStart \<and> (fs_at b = FsAccept \<or> fs_at b = FsUp) \<and> cpu_ports (cpu_at b) \<noteq> None
     \<and> \<not> gave_up (kernel_at b)"

definition moves :: "boot_env \<Rightarrow> boot \<Rightarrow> boot outcome \<Rightarrow> bool" where
  "moves env b r \<longleftrightarrow> (\<exists>b'. r = Runs b' \<and> boot_inv env b' \<and> boot_left b' < boot_left b \<and> (ready b \<longrightarrow> ready b'))"

lemma moves_Runs [simp]:
  "moves env b (Runs b') \<longleftrightarrow> boot_inv env b' \<and> boot_left b' < boot_left b \<and> (ready b \<longrightarrow> ready b')"
  by (simp add: moves_def)

lemma fs_connects:
  assumes e: "boots env" and i: "boot_inv env b" and p: "fs_at b = FsConnect"
  shows "moves env b (fs_boot env b)"
proof (cases "queue b Mem")
  case None
  have "boot_inv env (b\<lparr>fs_at := FsDown\<rparr>)" using i p by (simp add: boot_inv_def)
  then show ?thesis using connect_refused[OF e None] p by (simp add: fs_boot_def ready_def boot_left_def)
next
  case (Some q)
  let ?b = "(put_server Mem FILESYSTEM (to_server b Mem FILESYSTEM @ send_handshake (module_code FILESYSTEM))
     (put_queue Mem (Some (q @ [FILESYSTEM])) b))\<lparr>fs_at := FsResult\<rparr>"
  have "boot_inv env ?b"
    using i p Some queue_ok_connect(1)[of "mem_at b" 0] by (simp add: boot_inv_def link_def)
  then show ?thesis using connect_taken[OF e Some, of FILESYSTEM] p by (simp add: fs_boot_def ready_def boot_left_def)
qed

text \<open>A step of a module keeps the invariant, or the module waits for a peer.\<close>

definition fs_waits :: "boot \<Rightarrow> bool" where
  "fs_waits b \<longleftrightarrow> fs_at b = FsResult \<and> socket_filesystem (conn_at (mem_at b)) = None
     \<or> fs_at b = FsAccept \<and> kernel_stage 1 (kernel_at b) \<noteq> 1 \<or> fs_at b = FsUp \<or> fs_at b = FsDown"

lemma fs_is_accepted:
  assumes e: "boots env" and i: "boot_inv env b" and p: "fs_at b = FsResult"
  shows "fs_boot env b = Waits \<and> fs_waits b \<or> moves env b (fs_boot env b)"
proof -
  note g = gone_mem[OF i]
  show ?thesis
  proof (cases "socket_filesystem (conn_at (mem_at b))")
    case None
    then have "to_client b Mem FILESYSTEM = []" using i p by (simp add: boot_inv_def link_def)
    then show ?thesis using None p result_waits[OF _ g] by (simp add: fs_boot_def fs_waits_def)
  next
    case (Some fd)
    then have l: "to_client b Mem FILESYSTEM = send_handshake_success" "to_server b Mem FILESYSTEM = []"
      using i p by (simp_all add: boot_inv_def link_def)
    let ?b = "(put_client Mem FILESYSTEM [] b)\<lparr>fs_at := FsListen\<rparr>"
    have "boot_inv env ?b"
      using i p Some l queue_ok_taken(1)[of "mem_at b" 1 _ _ _ 2] by (simp add: boot_inv_def link_def)
    then show ?thesis using p result_accepted[of b Mem FILESYSTEM] l by (simp add: fs_boot_def ready_def boot_left_def)
  qed
qed

lemma fs_takes_kernel:
  assumes e: "boots env" and i: "boot_inv env b" and p: "fs_at b = FsAccept"
  shows "fs_boot env b = Waits \<and> fs_waits b \<or> moves env b (fs_boot env b)"
proof -
  have po: "port_ok (kernel_stage 1 (kernel_at b)) True False (queue b Fs) (to_server b Fs KERNEL) (to_client b Fs KERNEL)"
    using i p by (simp add: boot_inv_def)
  show ?thesis
  proof (cases "kernel_stage 1 (kernel_at b) = 1")
    case True
    then have q: "queue b Fs = Some [KERNEL]" "to_server b Fs KERNEL = send_handshake 4" "to_client b Fs KERNEL = []"
      using po by (simp_all add: port_ok_def link_def)
    let ?b = "(put_queue Fs (Some []) (put_client Fs KERNEL send_handshake_success (put_server Fs KERNEL [] b)))\<lparr>fs_at := FsUp\<rparr>"
    have "boot_inv env ?b" using i p True by (simp add: boot_inv_def port_takes)
    then show ?thesis using p kernel_taken[OF q] by (simp add: fs_boot_def ready_def boot_left_def)
  next
    case False
    then have "queue b Fs = Some []" using po by (simp add: port_ok_def)
    then show ?thesis using p False by (simp add: fs_boot_def fs_waits_def kernel_step_at_def)
  qed
qed

lemma fs_step:
  assumes e: "boots env" and i: "boot_inv env b"
  shows "fs_boot env b = Waits \<and> fs_waits b \<or> moves env b (fs_boot env b)"
proof (cases "fs_at b")
  case FsConnect
  then show ?thesis using fs_connects[OF e i] by blast
next
  case FsResult
  then show ?thesis by (rule fs_is_accepted[OF e i])
next
  case FsListen
  let ?b = "(put_queue Fs (Some []) b)\<lparr>fs_at := FsAccept\<rparr>"
  have "boot_inv env ?b" using i FsListen by (simp add: boot_inv_def)
  then show ?thesis using FsListen listens[OF e] e by (simp add: fs_boot_def boots_def ready_def boot_left_def)
next
  case FsAccept
  then show ?thesis by (rule fs_takes_kernel[OF e i])
qed (simp_all add: fs_boot_def fs_waits_def)

definition cpu_waits :: "boot \<Rightarrow> bool" where
  "cpu_waits b \<longleftrightarrow> cpu_at b = CpuResult \<and> socket_cpu (conn_at (mem_at b)) = None
     \<or> cpu_at b = CpuDispatch \<and> kernel_stage 2 (kernel_at b) \<noteq> 1 \<or> cpu_at b = CpuInterrupt \<and> kernel_stage 3 (kernel_at b) \<noteq> 1
     \<or> cpu_at b = CpuPageSize \<and> \<not> mem_is_up (mem_at b) \<or> (\<exists>n. cpu_at b = CpuUp n) \<or> cpu_at b = CpuDown"

lemma page_size_read:
  "Some s = send_package (create_integer_package 4 n) \<Longrightarrow> get_page_size_of_memory s = Some (Some n) \<and> s \<noteq> []"
proof -
  assume s: "Some s = send_package (create_integer_package 4 n)"
  have "package_ok (create_integer_package 4 n)" "buffer (create_integer_package 4 n) = bytes_of_u32 n" "op_code (create_integer_package 4 n) = 4"
    by (simp_all add: create_integer_package_def create_empty_package_def package_ok_def)
  then obtain rest where "receive_op_code s = (Some 4, rest)" "receive_buffer rest = (Buf (bytes_of_u32 n), [])"
    using package_roundtrip[of "create_integer_package 4 n" "[]"] s by auto
  then show ?thesis using rd_u32_bytes[of n "[]"]
    by (auto simp: get_page_size_of_memory_def receive_op_code_def recv_waitall_def check_recv_def)
qed

lemma cpu_connects:
  assumes e: "boots env" and i: "boot_inv env b" and p: "cpu_at b = CpuConnect"
  shows "cpu_boot env b = Waits \<and> cpu_waits b \<or> moves env b (cpu_boot env b)"
proof (cases "queue b Mem")
  case None
  have "boot_inv env (b\<lparr>cpu_at := CpuDown\<rparr>)" using i p by (simp add: boot_inv_def)
  then show ?thesis using connect_refused[OF e None] p by (simp add: cpu_boot_def ready_def boot_left_def)
next
  case (Some q)
  let ?b = "(put_server Mem CPU (to_server b Mem CPU @ send_handshake (module_code CPU))
     (put_queue Mem (Some (q @ [CPU])) b))\<lparr>cpu_at := CpuResult\<rparr>"
  have "boot_inv env ?b"
    using i p Some queue_ok_connect(2)[of "mem_at b" _ 0] by (simp add: boot_inv_def link_def)
  then show ?thesis using connect_taken[OF e Some, of CPU] p by (simp add: cpu_boot_def ready_def boot_left_def)
qed

lemma cpu_is_accepted:
  assumes e: "boots env" and i: "boot_inv env b" and p: "cpu_at b = CpuResult"
  shows "cpu_boot env b = Waits \<and> cpu_waits b \<or> moves env b (cpu_boot env b)"
proof -
  note g = gone_mem[OF i]
  show ?thesis
  proof (cases "socket_cpu (conn_at (mem_at b))")
    case None
    then have "to_client b Mem CPU = []" using i p by (simp add: boot_inv_def link_def)
    then show ?thesis using None p result_waits[OF _ g] by (simp add: cpu_boot_def cpu_waits_def)
  next
    case (Some fd)
    then have l: "to_client b Mem CPU = send_handshake_success" "to_server b Mem CPU = []"
      using i p by (simp_all add: boot_inv_def link_def)
    let ?b = "(put_client Mem CPU [] b)\<lparr>cpu_at := CpuListen\<rparr>"
    have "boot_inv env ?b"
      using i p Some l queue_ok_taken(2)[of "mem_at b" _ 1 _ _ 2] by (simp add: boot_inv_def link_def)
    then show ?thesis using p result_accepted[of b Mem CPU] l by (simp add: cpu_boot_def ready_def boot_left_def)
  qed
qed

lemma cpu_listens:
  assumes e: "boots env" and i: "boot_inv env b" and p: "cpu_at b = CpuListen"
  shows "cpu_boot env b = Waits \<and> cpu_waits b \<or> moves env b (cpu_boot env b)"
proof -
  let ?b = "(put_queue Interrupt (Some []) (put_queue Dispatch (Some []) b))\<lparr>cpu_at := CpuDispatch\<rparr>"
  have "boot_inv env ?b" using i p by (simp add: boot_inv_def)
  then show ?thesis using p listens[OF e] e by (simp add: cpu_boot_def cpu_listen_def boots_def ready_def boot_left_def)
qed

lemma cpu_takes_dispatch:
  assumes e: "boots env" and i: "boot_inv env b" and p: "cpu_at b = CpuDispatch"
  shows "cpu_boot env b = Waits \<and> cpu_waits b \<or> moves env b (cpu_boot env b)"
proof -
  have po: "port_ok (kernel_stage 2 (kernel_at b)) True False (queue b Dispatch) (to_server b Dispatch KERNEL) (to_client b Dispatch KERNEL)"
    using i p by (simp add: boot_inv_def)
  show ?thesis
  proof (cases "kernel_stage 2 (kernel_at b) = 1")
    case True
    then have q: "queue b Dispatch = Some [KERNEL]" "to_server b Dispatch KERNEL = send_handshake 4" "to_client b Dispatch KERNEL = []"
      using po by (simp_all add: port_ok_def link_def)
    let ?b = "(put_queue Dispatch (Some []) (put_client Dispatch KERNEL send_handshake_success (put_server Dispatch KERNEL [] b)))
      \<lparr>cpu_at := CpuInterrupt\<rparr>"
    have "boot_inv env ?b" using i p True by (simp add: boot_inv_def port_takes)
    then show ?thesis using p kernel_taken[OF q] by (simp add: cpu_boot_def ready_def boot_left_def)
  next
    case False
    then have "queue b Dispatch = Some []" using po by (simp add: port_ok_def)
    then show ?thesis using p False by (simp add: cpu_boot_def cpu_waits_def kernel_step_at_def)
  qed
qed

lemma cpu_takes_interrupt:
  assumes e: "boots env" and i: "boot_inv env b" and p: "cpu_at b = CpuInterrupt"
  shows "cpu_boot env b = Waits \<and> cpu_waits b \<or> moves env b (cpu_boot env b)"
proof -
  have po: "port_ok (kernel_stage 3 (kernel_at b)) True False (queue b Interrupt) (to_server b Interrupt KERNEL) (to_client b Interrupt KERNEL)"
    using i p by (simp add: boot_inv_def)
  show ?thesis
  proof (cases "kernel_stage 3 (kernel_at b) = 1")
    case True
    then have q: "queue b Interrupt = Some [KERNEL]" "to_server b Interrupt KERNEL = send_handshake 4" "to_client b Interrupt KERNEL = []"
      using po by (simp_all add: port_ok_def link_def)
    let ?b = "(put_server Mem CPU (bytes_of_u32 4) (put_queue Interrupt (Some []) (put_client Interrupt KERNEL send_handshake_success
      (put_server Interrupt KERNEL [] b))))\<lparr>cpu_at := CpuPageSize\<rparr>"
    have "boot_inv env ?b" using i p True by (simp add: boot_inv_def port_takes link_def)
    moreover have "to_server b Mem CPU = []" using i p by (simp add: boot_inv_def)
    ultimately show ?thesis using p kernel_taken[OF q] by (simp add: cpu_boot_def ready_def boot_left_def)
  next
    case False
    then have "queue b Interrupt = Some []" using po by (simp add: port_ok_def)
    then show ?thesis using p False by (simp add: cpu_boot_def cpu_waits_def kernel_step_at_def)
  qed
qed

lemma cpu_gets_page_size:
  assumes e: "boots env" and i: "boot_inv env b" and p: "cpu_at b = CpuPageSize"
  shows "cpu_boot env b = Waits \<and> cpu_waits b \<or> moves env b (cpu_boot env b)"
proof -
  show ?thesis
  proof (cases "mem_is_up (mem_at b)")
    case True
    then have "Some (to_client b Mem CPU) = send_package (create_integer_package 4 (page_bytes env))"
      using i p by (simp add: boot_inv_def)
    note r = page_size_read[OF this]
    let ?b = "(put_client Mem CPU [] b)\<lparr>cpu_at := CpuUp (page_bytes env)\<rparr>"
    have "boot_inv env ?b" using i p True by (simp add: boot_inv_def link_def)
    then show ?thesis using p r by (simp add: cpu_boot_def ready_def boot_left_def)
  next
    case False
    then have "to_client b Mem CPU = []" using i p by (simp add: boot_inv_def)
    then show ?thesis using p False gone_mem[OF i] by (simp add: cpu_boot_def cpu_waits_def)
  qed
qed

lemma cpu_step:
  assumes e: "boots env" and i: "boot_inv env b"
  shows "cpu_boot env b = Waits \<and> cpu_waits b \<or> moves env b (cpu_boot env b)"
proof (cases "cpu_at b")
  case CpuConnect
  then show ?thesis by (rule cpu_connects[OF e i])
next
  case CpuResult
  then show ?thesis by (rule cpu_is_accepted[OF e i])
next
  case CpuListen
  then show ?thesis by (rule cpu_listens[OF e i])
next
  case CpuDispatch
  then show ?thesis by (rule cpu_takes_dispatch[OF e i])
next
  case CpuInterrupt
  then show ?thesis by (rule cpu_takes_interrupt[OF e i])
next
  case CpuPageSize
  then show ?thesis by (rule cpu_gets_page_size[OF e i])
qed (simp_all add: cpu_boot_def cpu_waits_def)

definition kernel_answered :: "nat \<Rightarrow> boot \<Rightarrow> bool" where
  "kernel_answered n b \<longleftrightarrow> (if n = 0 then socket_kernel (conn_at (mem_at b)) \<noteq> None else if n = 1 then fs_at b = FsUp
     else if n = 2 then cpu_ports (cpu_at b) \<in> {Some 1, Some 2} else cpu_ports (cpu_at b) = Some 2)"

definition kernel_waits :: "boot \<Rightarrow> bool" where
  "kernel_waits b \<longleftrightarrow> (\<exists>n<4. kernel_at b = KernelResult n \<and> \<not> kernel_answered n b)
     \<or> kernel_at b = KernelUp \<or> gave_up (kernel_at b)"

lemma four: "n < 4 \<Longrightarrow> n = 0 \<or> n = 1 \<or> n = 2 \<or> n = (3::nat)"
  by arith

lemma kernel_servers_nth [simp]:
  "kernel_servers ! 0 = (Mem, ''PUERTO_MEMORIA'', ''IP_MEMORIA'')"
  "kernel_servers ! Suc 0 = (Fs, ''PUERTO_FILESYSTEM'', ''IP_FILESYSTEM'')"
  "kernel_servers ! 2 = (Dispatch, ''PUERTO_CPU_DISPATCH'', ''IP_CPU'')"
  "kernel_servers ! 3 = (Interrupt, ''PUERTO_CPU_INTERRUPT'', ''IP_CPU'')"
  by (simp_all add: kernel_servers_def)

lemma kernel_refused:
  assumes e: "boots env" and i: "boot_inv env b" and p: "kernel_at b = KernelConnect n" "n < 4"
    and q: "queue b (fst (kernel_servers ! n)) = None"
  shows "moves env b (kernel_boot env b)"
proof -
  obtain s k k' where s: "kernel_servers ! n = (s, k, k')" by (cases "kernel_servers ! n")
  have d: "boot_inv env (b\<lparr>kernel_at := KernelDown n\<rparr>)" using i p by (simp add: boot_inv_def)
  have r: "\<not> ready b"
  proof
    assume "ready b"
    moreover have "queue_ok (mem_at b) (fs_stage (fs_at b)) (cpu_stage (cpu_at b)) (kernel_stage 0 (kernel_at b)) (queue b Mem)"
      using i by (simp add: boot_inv_def)
    ultimately show False using four[OF p(2)] q i by (auto simp: ready_def queue_ok_def boot_inv_def port_ok_def)
  qed
  have "connect_step env KERNEL s k k' b = Some None" using q s connect_refused[OF e] by simp
  then have "kernel_boot env b = Runs (b\<lparr>kernel_at := KernelDown n\<rparr>)" using s p by (simp add: kernel_boot_def)
  then show ?thesis using d r p by (simp add: boot_left_def)
qed

text \<open>The ports \<open>1\<close> to \<open>3\<close> have no other client.\<close>

lemma port_asks: "port_ok 0 listening taken (Some q) ts tc
  \<Longrightarrow> port_ok (Suc 0) listening taken (Some (q @ [KERNEL])) (ts @ send_handshake 4) tc"
  by (auto simp: port_ok_def link_def split: if_splits)

lemma kernel_connects:
  assumes e: "boots env" and i: "boot_inv env b" and p: "kernel_at b = KernelConnect n" "n < 4"
    and s: "kernel_servers ! n = (s, k, k')" and q: "queue b s = Some q"
  shows "moves env b (kernel_boot env b)"
proof -
  let ?b = "(put_server s KERNEL (to_server b s KERNEL @ send_handshake (module_code KERNEL))
     (put_queue s (Some (q @ [KERNEL])) b))\<lparr>kernel_at := KernelResult n\<rparr>"
  have "boot_inv env ?b"
    using four[OF p(2)]
  proof (elim disjE)
    assume "n = 0"
    then show ?thesis
      using i p s q queue_ok_connect(3)[of "mem_at b" _ _ 0] by (auto simp: boot_inv_def link_def)
  next
    assume "n = 1"
    then show ?thesis
      using i p s q by (auto simp: boot_inv_def intro: port_asks)
  next
    assume "n = 2"
    then show ?thesis
      using i p s q by (auto simp: boot_inv_def intro: port_asks)
  next
    assume "n = 3"
    then show ?thesis
      using i p s q by (auto simp: boot_inv_def intro: port_asks)
  qed
  moreover have "kernel_boot env b = Runs ?b" using connect_taken[OF e q] s p by (simp add: kernel_boot_def)
  moreover have "boot_left ?b < boot_left b" "ready b \<longrightarrow> ready ?b" using p by (simp_all add: boot_left_def ready_def)
  ultimately show ?thesis by simp
qed

text \<open>The kernel at a port that waits for the answer, and once it has it.\<close>

lemma port_stages:
  "port_ok (Suc 0) listening True q ts tc \<longleftrightarrow> listening \<and> q = Some [] \<and> ts = [] \<and> tc = send_handshake_success"
  "port_ok (Suc 0) listening False q ts tc \<longleftrightarrow> listening \<and> q = Some [KERNEL] \<and> ts = send_handshake 4 \<and> tc = []"
  "port_ok 2 listening taken q ts tc \<longleftrightarrow> listening \<and> taken \<and> q = Some [] \<and> ts = [] \<and> tc = []"
  by (auto simp: port_ok_def link_def)

lemma kernel_answer:
  assumes i: "boot_inv env b" and p: "kernel_at b = KernelResult n" and s: "kernel_servers ! n = (s, k, k')" and a: "kernel_answered n b"
  shows "to_client b s KERNEL = send_handshake_success \<and> boot_inv env ((put_client s KERNEL [] b)\<lparr>kernel_at := KernelConnect (Suc n)\<rparr>)"
proof -
  have n: "n < 4" using i p by (simp add: boot_inv_def)
  show ?thesis
    using four[OF n]
  proof (elim disjE)
    assume z: "n = 0"
    have "link KERNEL 1 True (to_server b s KERNEL) (to_client b s KERNEL)"
      using i p s a z by (simp add: boot_inv_def kernel_answered_def)
    then have "to_client b s KERNEL = send_handshake_success" "to_server b s KERNEL = []" by (simp_all add: link_def)
    then show ?thesis
      using i p s a z queue_ok_taken(3)[of "mem_at b" _ _ 1 _ 2] by (auto simp: boot_inv_def kernel_answered_def link_def)
  next
    assume "n = 1"
    then show ?thesis
      using i p s a by (auto simp: boot_inv_def kernel_answered_def port_stages)
  next
    assume "n = 2"
    then show ?thesis
      using i p s a by (auto simp: boot_inv_def kernel_answered_def port_stages)
  next
    assume "n = 3"
    then show ?thesis
      using i p s a by (auto simp: boot_inv_def kernel_answered_def port_stages)
  qed
qed

lemma kernel_no_answer:
  assumes i: "boot_inv env b" and p: "kernel_at b = KernelResult n" and s: "kernel_servers ! n = (s, k, k')" and a: "\<not> kernel_answered n b"
  shows "to_client b s KERNEL = [] \<and> \<not> gone s b"
proof -
  have n: "n < 4" using i p by (simp add: boot_inv_def)
  show ?thesis
    using four[OF n]
  proof (elim disjE)
    assume z: "n = 0"
    then show ?thesis
      using i p s a by (auto simp: boot_inv_def kernel_answered_def link_def)
  next
    assume "n = 1"
    then show ?thesis
      using i p s a by (auto simp: boot_inv_def kernel_answered_def port_stages)
  next
    assume "n = 2"
    then show ?thesis
      using i p s a by (auto simp: boot_inv_def kernel_answered_def port_stages)
  next
    assume "n = 3"
    then show ?thesis
      using i p s a by (auto simp: boot_inv_def kernel_answered_def port_stages)
  qed
qed

lemma kernel_boots:
  assumes e: "boots env" and i: "boot_inv env b"
  shows "kernel_boot env b = Waits \<and> kernel_waits b \<or> moves env b (kernel_boot env b)"
proof (cases "kernel_at b")
  case (KernelConnect n)
  show ?thesis
  proof (cases "n < 4")
    case True
    obtain s k k' where s: "kernel_servers ! n = (s, k, k')" by (cases "kernel_servers ! n")
    then show ?thesis using kernel_refused[OF e i KernelConnect True] kernel_connects[OF e i KernelConnect True s] by fastforce
  next
    case False
    then have n: "n = 4" using i KernelConnect by (simp add: boot_inv_def)
    have "boot_inv env (b\<lparr>kernel_at := KernelUp\<rparr>)" using i n KernelConnect by (simp add: boot_inv_def)
    then show ?thesis using n KernelConnect by (simp add: kernel_boot_def boot_left_def ready_def)
  qed
next
  case (KernelResult n)
  obtain s k k' where s: "kernel_servers ! n = (s, k, k')" by (cases "kernel_servers ! n")
  have n: "n < 4" using i KernelResult by (simp add: boot_inv_def)
  show ?thesis
  proof (cases "kernel_answered n b")
    case True
    note a = kernel_answer[OF i KernelResult s True]
    then show ?thesis
      using KernelResult s n result_accepted[of b s KERNEL] by (simp add: kernel_boot_def boot_left_def ready_def)
  next
    case False
    note a = kernel_no_answer[OF i KernelResult s False]
    then show ?thesis
      using KernelResult s n False result_waits[of b s KERNEL] by (simp add: kernel_boot_def kernel_waits_def)
  qed
qed (simp_all add: kernel_boot_def kernel_waits_def)

definition mem_waits :: "boot \<Rightarrow> bool" where
  "mem_waits b \<longleftrightarrow> (\<exists>n c. mem_at b = MemAccept (Suc n) c \<and> queue b Mem = Some [])
     \<or> (\<exists>c. mem_at b = MemPageSize c \<and> cpu_at b \<noteq> CpuPageSize) \<or> mem_is_up (mem_at b)"

lemma queue_ok_next:
  assumes "queue_ok ma fs cpu krn (Some (m # ms))"
  shows "ma \<noteq> MemStart \<and> distinct (m # ms) \<and> in_queue (conn_at ma) fs cpu krn m
     \<and> (\<forall>m'. m' \<in> set ms \<longleftrightarrow> m' \<noteq> m \<and> in_queue (conn_at ma) fs cpu krn m')"
  using assms by (auto simp: queue_ok_def split: if_splits)

definition put_socket :: "MODULOS \<Rightarrow> t_conn \<Rightarrow> t_conn" where
  "put_socket m c = fst (accept_client (fd_of m) (module_code m) c)"

lemma put_socket_simps [simp]:
  "put_socket FILESYSTEM c = c\<lparr>socket_filesystem := Some 1\<rparr>" "put_socket CPU c = c\<lparr>socket_cpu := Some 2\<rparr>"
  "put_socket KERNEL c = c\<lparr>socket_kernel := Some 4\<rparr>"
  by (simp_all add: put_socket_def accept_client_def fd_of_def)

lemma accept_client_known:
  "m \<noteq> MEMORY \<Longrightarrow> accept_client (fd_of m) (module_code m) c = (put_socket m c, send_handshake_success)"
  by (cases m) (simp_all add: accept_client_def put_socket_def)

lemma in_queue_put_socket: "m \<noteq> MEMORY \<Longrightarrow> in_queue (put_socket m c) x y z m' \<longleftrightarrow> m' \<noteq> m \<and> in_queue c x y z m'"
  by (cases m; cases m') simp_all

lemma link_asked: "link m (Suc 0) False ts tc \<longleftrightarrow> ts = send_handshake (module_code m) \<and> tc = []"
  by (auto simp: link_def)

lemma link_answered: "link m (Suc 0) True [] send_handshake_success"
  by (simp add: link_def)

lemma cpu_stage_1 [simp]: "cpu_stage x = Suc 0 \<longleftrightarrow> x = CpuResult"
  by (cases x) simp_all

lemma memory_accepts:
  assumes i: "boot_inv env b" and p: "mem_at b = MemAccept (Suc n) c" and q: "queue b Mem = Some (m # ms)"
  shows "moves env b (mem_boot env b)"
proof -
  have k: "queue_ok (mem_at b) (fs_stage (fs_at b)) (cpu_stage (cpu_at b)) (kernel_stage 0 (kernel_at b)) (Some (m # ms))"
    using i q by (simp add: boot_inv_def)
  note k = queue_ok_next[OF k]
  then have c: "in_queue c (fs_stage (fs_at b)) (cpu_stage (cpu_at b)) (kernel_stage 0 (kernel_at b)) m" using p by simp
  then have m: "m \<noteq> MEMORY" by auto
  have L: "link FILESYSTEM (fs_stage (fs_at b)) (socket_filesystem c \<noteq> None) (to_server b Mem FILESYSTEM) (to_client b Mem FILESYSTEM)"
    "link CPU (cpu_stage (cpu_at b)) (socket_cpu c \<noteq> None) (to_server b Mem CPU) (to_client b Mem CPU)"
    "link KERNEL (kernel_stage 0 (kernel_at b)) (socket_kernel c \<noteq> None) (to_server b Mem KERNEL) (to_client b Mem KERNEL)"
    using i p by (simp_all add: boot_inv_def)
  have l: "to_server b Mem m = send_handshake (module_code m) \<and> to_client b Mem m = []"
  proof (cases m)
    case FILESYSTEM
    then show ?thesis using L(1) c by (simp add: link_asked)
  next
    case CPU
    then show ?thesis using L(2) c by (simp add: link_asked)
  next
    case KERNEL
    then show ?thesis using L(3) c by (simp add: link_asked)
  qed (use m in simp)
  let ?b = "(put_client Mem m send_handshake_success (put_server Mem m [] (put_queue Mem (Some ms) b)))
     \<lparr>mem_at := MemAccept n (put_socket m c)\<rparr>"
  have o: "queue_ok (MemAccept n (put_socket m c)) (fs_stage (fs_at b)) (cpu_stage (cpu_at b)) (kernel_stage 0 (kernel_at b)) (Some ms)"
    using k p in_queue_put_socket[OF m] by (simp add: queue_ok_def)
  have "boot_inv env ?b"
  proof (cases m)
    case FILESYSTEM
    then show ?thesis using i p c o by (simp add: boot_inv_def link_answered sockets_ok_def)
  next
    case CPU
    then show ?thesis using i p c o by (simp add: boot_inv_def link_answered sockets_ok_def)
  next
    case KERNEL
    then show ?thesis using i p c o by (simp add: boot_inv_def link_answered sockets_ok_def)
  qed (use m in simp)
  moreover have "mem_boot env b = Runs ?b"
    using p q l m accept_client_known[OF m] by (cases m) (simp_all add: mem_boot_def accept_step_def wait_for_client_def fd_of_def)
  ultimately show ?thesis using p by (simp add: boot_left_def ready_def)
qed

lemma conn_complete:
  assumes "boot_inv env b" and "mem_at b = MemAccept 0 c"
  shows "c = \<lparr>socket_filesystem = Some 1, socket_cpu = Some 2, socket_kernel = Some 4\<rparr>"
  using assms by (cases c) (auto simp: boot_inv_def sockets_ok_def split: if_splits)

lemma page_size_sends:
  assumes i: "boot_inv env b" and p: "mem_at b = MemPageSize c"
  shows "mem_boot env b = Waits \<and> cpu_at b \<noteq> CpuPageSize \<or> moves env b (mem_boot env b)"
proof (cases "cpu_at b = CpuPageSize")
  case True
  let ?p = "create_integer_package 4 (page_bytes env)"
  have c: "c = \<lparr>socket_filesystem = Some 1, socket_cpu = Some 2, socket_kernel = Some 4\<rparr>" using i p by (simp add: boot_inv_def)
  have ok: "package_ok ?p" by (simp add: create_integer_package_def create_empty_package_def package_ok_def)
  moreover have "buffer ?p = bytes_of_u32 (page_bytes env)"
    by (simp add: create_integer_package_def create_empty_package_def)
  ultimately obtain bytes where bytes: "send_package ?p = Some bytes" using package_roundtrip[of ?p "[]"] by auto
  have l: "to_server b Mem CPU = bytes_of_u32 4" "to_client b Mem CPU = []"
    using i p True by (simp_all add: boot_inv_def)
  have r: "snd (receive_op_code (bytes_of_u32 4)) = []" by (simp add: receive_op_code_def recv_waitall_def check_recv_def)
  let ?b = "(put_client Mem CPU bytes (put_server Mem CPU [] b))\<lparr>mem_at := MemUp c\<rparr>"
  have "boot_inv env ?b" using i p True c bytes by (simp add: boot_inv_def queue_ok_def)
  moreover have "mem_boot env b = Runs ?b"
    using p c l r True bytes by (simp add: mem_boot_def send_page_size_def client_of_def)
  ultimately show ?thesis using p by (simp add: boot_left_def ready_def)
next
  case False
  have c: "c = \<lparr>socket_filesystem = Some 1, socket_cpu = Some 2, socket_kernel = Some 4\<rparr>" using i p by (simp add: boot_inv_def)
  have "to_server b Mem CPU = [] \<and> cpu_at b \<noteq> CpuDown"
    using i p c False by (cases "cpu_at b") (simp_all add: boot_inv_def link_def)
  then show ?thesis using p c False by (simp add: mem_boot_def send_page_size_def client_of_def)
qed

lemma memory_step:
  assumes e: "boots env" and i: "boot_inv env b"
  shows "mem_boot env b = Waits \<and> mem_waits b \<or> moves env b (mem_boot env b)"
proof (cases "mem_at b")
  case MemStart
  let ?b = "(put_queue Mem (Some []) b)\<lparr>mem_at := MemAccept 3 \<lparr>socket_filesystem = None, socket_cpu = None, socket_kernel = None\<rparr>\<rparr>"
  have e': "\<not> in_queue \<lparr>socket_filesystem = None, socket_cpu = None, socket_kernel = None\<rparr> 0 0 0 m" for m by (cases m) simp_all
  have z: "fs_stage (fs_at b) = 0" "cpu_stage (cpu_at b) = 0" "kernel_stage 0 (kernel_at b) = 0"
    using i MemStart by (simp_all add: boot_inv_def queue_ok_def)
  have "boot_inv env ?b"
    using i MemStart e' z by (simp add: boot_inv_def queue_ok_def sockets_ok_def)
  then show ?thesis
    using MemStart listens[OF e] e by (simp add: mem_boot_def boots_def boot_left_def ready_def)
next
  case (MemAccept n c)
  show ?thesis
  proof (cases n)
    case 0
    have "boot_inv env (b\<lparr>mem_at := MemPageSize c\<rparr>)"
      using i MemAccept 0 conn_complete[OF i] by (simp add: boot_inv_def queue_ok_def)
    then show ?thesis using MemAccept 0 by (simp add: mem_boot_def boot_left_def ready_def)
  next
    case (Suc n)
    have "queue b Mem \<noteq> None" using i MemAccept by (auto simp: boot_inv_def queue_ok_def)
    then consider "queue b Mem = Some []" | m ms where "queue b Mem = Some (m # ms)" by (metis neq_Nil_conv option.exhaust)
    then show ?thesis
    proof cases
      case 1
      then show ?thesis using MemAccept Suc by (simp add: mem_boot_def accept_step_def mem_waits_def)
    next
      case 2
      then show ?thesis using memory_accepts[OF i] MemAccept Suc by simp
    qed
  qed
next
  case (MemPageSize c)
  then show ?thesis using page_size_sends[OF i MemPageSize] by (auto simp: mem_waits_def)
next
  case MemDown
  then show ?thesis using i by (simp add: boot_inv_def)
qed (simp add: mem_boot_def mem_waits_def)

section \<open>Where the start ends\<close>

definition all_up :: "boot_env \<Rightarrow> boot \<Rightarrow> bool" where
  "all_up env b \<longleftrightarrow> mem_at b = MemUp \<lparr>socket_filesystem = Some 1, socket_cpu = Some 2, socket_kernel = Some 4\<rparr>
     \<and> fs_at b = FsUp \<and> cpu_at b = CpuUp (page_bytes env) \<and> kernel_at b = KernelUp"

definition somebody_down :: "boot \<Rightarrow> bool" where
  "somebody_down b \<longleftrightarrow> fs_at b = FsDown \<or> cpu_at b = CpuDown \<or> gave_up (kernel_at b)"

lemma clients_wait:
  assumes i: "boot_inv env b" and w: "fs_waits b" "cpu_waits b" "kernel_waits b" and d: "\<not> somebody_down b"
  shows "\<not> (mem_at b = MemAccept (Suc n) c \<and> queue b Mem = Some [])"
proof
  assume m: "mem_at b = MemAccept (Suc n) c \<and> queue b Mem = Some []"
  have no: "\<not> in_queue c (fs_stage (fs_at b)) (cpu_stage (cpu_at b)) (kernel_stage 0 (kernel_at b)) x" for x
    using i m by (auto simp: boot_inv_def queue_ok_def)
  have L: "link FILESYSTEM (fs_stage (fs_at b)) (socket_filesystem c \<noteq> None) (to_server b Mem FILESYSTEM) (to_client b Mem FILESYSTEM)"
    "link CPU (cpu_stage (cpu_at b)) (socket_cpu c \<noteq> None) (to_server b Mem CPU) (to_client b Mem CPU)"
    "link KERNEL (kernel_stage 0 (kernel_at b)) (socket_kernel c \<noteq> None) (to_server b Mem KERNEL) (to_client b Mem KERNEL)"
    using i m by (simp_all add: boot_inv_def)
  have f: "socket_filesystem c \<noteq> None"
    using no[of FILESYSTEM] L(1) w(1) d by (cases "fs_at b") (simp_all add: fs_waits_def link_def somebody_down_def)
  have u: "socket_cpu c \<noteq> None"
    using no[of CPU] L(2) w(2) d by (cases "cpu_at b") (simp_all add: cpu_waits_def link_def somebody_down_def)
  have k: "socket_kernel c \<noteq> None"
    using no[of KERNEL] L(3) w(3) d
    by (cases "kernel_at b") (simp_all add: kernel_waits_def link_def somebody_down_def split: if_splits)
  show False using f u k i m by (auto simp: boot_inv_def)
qed

text \<open>A kernel that waits for an answer waits for a server that waits for it.\<close>

lemma kernel_gets_up:
  assumes i: "boot_inv env b" and w: "fs_waits b" "cpu_waits b" "kernel_waits b" and d: "\<not> somebody_down b"
    and k: "socket_kernel (conn_at (mem_at b)) \<noteq> None"
  shows "kernel_at b = KernelUp \<and> fs_at b = FsUp \<and> cpu_ports (cpu_at b) = Some 2"
proof -
  have up: "kernel_at b = KernelUp"
  proof (rule ccontr)
    assume "kernel_at b \<noteq> KernelUp"
    then obtain n where n: "n < 4" "kernel_at b = KernelResult n" "\<not> kernel_answered n b"
      using w(3) d by (auto simp: kernel_waits_def somebody_down_def)
    from four[OF n(1)] show False
    proof (elim disjE)
      assume "n = 0"
      then show False using n k by (simp add: kernel_answered_def)
    next
      assume "n = 1"
      then show False using n i w(1) by (auto simp: kernel_answered_def boot_inv_def port_stages fs_waits_def)
    next
      assume "n = 2"
      then show False using n i w(2) by (auto simp: kernel_answered_def boot_inv_def port_stages cpu_waits_def)
    next
      assume "n = 3"
      then show False using n i w(2) by (auto simp: kernel_answered_def boot_inv_def port_stages cpu_waits_def)
    qed
  qed
  then show ?thesis using i by (simp add: boot_inv_def port_stages)
qed

lemma nobody_moves:
  assumes i: "boot_inv env b" and w: "mem_waits b" "fs_waits b" "cpu_waits b" "kernel_waits b" and d: "\<not> somebody_down b"
  shows "all_up env b"
proof -
  note c = clients_wait[OF i w(2-4) d]
  consider c where "mem_at b = MemPageSize c" "cpu_at b \<noteq> CpuPageSize" | c where "mem_at b = MemUp c"
    using w(1) c by (cases "mem_at b") (auto simp: mem_waits_def)
  then show ?thesis
  proof cases
    case 1
    have k: "kernel_at b = KernelUp \<and> fs_at b = FsUp \<and> cpu_ports (cpu_at b) = Some 2"
      by (rule kernel_gets_up[OF i w(2-4) d]) (use i 1 in \<open>simp add: boot_inv_def\<close>)
    then have False using i 1 by (cases "cpu_at b") (simp_all add: boot_inv_def)
    then show ?thesis ..
  next
    case 2
    have k: "kernel_at b = KernelUp \<and> fs_at b = FsUp \<and> cpu_ports (cpu_at b) = Some 2"
      by (rule kernel_gets_up[OF i w(2-4) d]) (use i 2 in \<open>simp add: boot_inv_def\<close>)
    moreover have "cpu_at b = CpuUp (page_bytes env)"
      using k i 2 w(3) by (cases "cpu_at b") (simp_all add: boot_inv_def cpu_waits_def)
    ultimately show ?thesis using i 2 by (simp add: all_up_def boot_inv_def)
  qed
qed

lemma boot_moves:
  assumes "boots env" and "boot_inv env b"
  shows "boot_step env m b = Waits \<or> moves env b (boot_step env m b)"
  using assms memory_step fs_step cpu_step kernel_boots by (cases m) (simp_all, blast+)

lemma boot_run_moves:
  assumes "boots env" and "boot_inv env b"
  shows "boot_run env ms b = Waits \<or> (\<exists>b'. boot_run env ms b = Runs b' \<and> boot_inv env b'
     \<and> boot_left b' + length ms \<le> boot_left b \<and> (ready b \<longrightarrow> ready b'))"
  using assms(2)
proof (induction ms arbitrary: b)
  case (Cons m ms)
  consider "boot_step env m b = Waits" | b' where "boot_step env m b = Runs b'" "moves env b (Runs b')"
    using boot_moves[OF assms(1) Cons.prems, of m] by (auto simp: moves_def)
  then show ?case
  proof cases
    case 2
    then show ?thesis using Cons.IH[of b'] by auto
  qed simp
qed simp

lemma all_wait:
  assumes e: "boots env" and i: "boot_inv env b" and w: "\<forall>m. boot_step env m b = Waits"
  shows "mem_waits b" "fs_waits b" "cpu_waits b" "kernel_waits b"
  using memory_step[OF e i] fs_step[OF e i] cpu_step[OF e i] kernel_boots[OF e i] w[THEN spec, of MEMORY]
    w[THEN spec, of FILESYSTEM] w[THEN spec, of CPU] w[THEN spec, of KERNEL]
  by (auto simp: moves_def)

lemma run_ends:
  assumes e: "boots env" and r: "boot_run env ms b = Runs b'" and i: "boot_inv env b" and w: "\<forall>m. boot_step env m b' = Waits"
  shows "somebody_down b' \<or> all_up env b'"
proof -
  have "boot_inv env b'" using boot_run_moves[OF e i, of ms] r by simp
  then show ?thesis using nobody_moves all_wait[OF e _ w] by blast
qed

lemma up_needs_everybody:
  assumes i: "boot_inv env b" and u: "mem_is_up (mem_at b)"
  shows "\<not> somebody_down b"
proof -
  have p: "cpu_ports (cpu_at b) = Some 2" using i u by (cases "cpu_at b") (simp_all add: boot_inv_def)
  have k: "port_ok (kernel_stage 3 (kernel_at b)) True True (queue b Interrupt) (to_server b Interrupt KERNEL) (to_client b Interrupt KERNEL)"
    "kernel_bound (kernel_at b)"
    using i p by (simp_all add: boot_inv_def)
  have "\<not> gave_up (kernel_at b)" using k by (cases "kernel_at b") (auto simp: port_ok_def link_def)
  moreover have "fs_at b \<noteq> FsDown" using i u by (cases "mem_at b") (auto simp: boot_inv_def link_def)
  moreover have "cpu_at b \<noteq> CpuDown" using p by auto
  ultimately show ?thesis by (simp add: somebody_down_def)
qed

text \<open>C11. Started in any order and under any interleaving, none of the four modules runs into undefined
  behaviour, at most 25 steps are done, and when all of them wait then either every module is up, with
  its sockets and the size of a page of the memory, or one was refused because its server did not
  listen yet; then the memory never serves anybody.\<close>

theorem modules_come_up:
  assumes "boots env"
  shows "boot_run env ms boot_start \<noteq> Crashes
    \<and> (\<forall>b. boot_run env ms boot_start = Runs b \<longrightarrow> length ms \<le> 25 \<and> (mem_is_up (mem_at b) \<longrightarrow> \<not> somebody_down b)
      \<and> ((\<forall>m. boot_step env m b = Waits) \<longrightarrow> somebody_down b \<or> all_up env b))"
proof (intro conjI allI impI)
  note r = boot_run_moves[OF assms boot_inv_start, of ms]
  have "boot_left boot_start = 25" by (simp add: boot_left_def boot_start_def)
  then show "length ms \<le> 25" if "boot_run env ms boot_start = Runs b" for b using r that by simp
  show "boot_run env ms boot_start \<noteq> Crashes" using r by auto
  show "\<not> somebody_down b" if "boot_run env ms boot_start = Runs b" "mem_is_up (mem_at b)" for b
    using r that up_needs_everybody[of env b] by simp
  show "somebody_down b \<or> all_up env b" if "boot_run env ms boot_start = Runs b" "\<forall>m. boot_step env m b = Waits" for b
    using run_ends[OF assms that(1) boot_inv_start that(2)] .
qed

text \<open>C12. When the kernel starts after the other three listen, it is not refused: every run that ends
  has all the modules up.\<close>

theorem started_in_order:
  assumes "boots env" and "boot_run env ms boot_start = Runs b" and "ready b"
    and "boot_run env ms' b = Runs b'" and "\<forall>m. boot_step env m b' = Waits"
  shows "all_up env b'"
proof -
  have i: "boot_inv env b" using boot_run_moves[OF assms(1) boot_inv_start, of ms] assms(2) by simp
  then have "ready b'" using boot_run_moves[OF assms(1) i, of ms'] assms(3,4) by simp
  then have "\<not> somebody_down b'" by (auto simp: ready_def somebody_down_def)
  then show ?thesis using run_ends[OF assms(1,4) i assms(5)] by simp
qed

section \<open>A start\<close>

definition start_env :: boot_env where
  "start_env = \<lparr>has_key = (\<lambda>m k. True), resolves = (\<lambda>m s. True), socket_of = (\<lambda>s. 5), bind_of = (\<lambda>s. 0),
     listen_of = (\<lambda>s. 0), page_bytes = 16\<rparr>"

lemma demo_boots: "boots start_env"
  by (simp add: boots_def start_env_def)

definition first_servers :: "MODULOS list" where
  "first_servers = [MEMORY, FILESYSTEM, CPU, MEMORY, MEMORY, CPU, FILESYSTEM, CPU, FILESYSTEM]"

definition then_kernel :: "MODULOS list" where
  "then_kernel = [KERNEL, MEMORY, MEMORY, KERNEL, KERNEL, FILESYSTEM, KERNEL, KERNEL, CPU, KERNEL, KERNEL, CPU, MEMORY,
     KERNEL, KERNEL, CPU]"

definition ready_now :: boot where
  "ready_now = (case boot_run start_env first_servers boot_start of Runs b \<Rightarrow> b | _ \<Rightarrow> boot_start)"

definition up_now :: boot where
  "up_now = (case boot_run start_env then_kernel ready_now of Runs b \<Rightarrow> b | _ \<Rightarrow> boot_start)"

fun is_waits :: "'a outcome \<Rightarrow> bool" where
  "is_waits Waits = True" | "is_waits r = False"

fun runs_to :: "(boot \<Rightarrow> bool) \<Rightarrow> boot outcome \<Rightarrow> bool" where
  "runs_to P (Runs b) = P b" | "runs_to P r = False"

lemma runs_to_state: "runs_to P r \<Longrightarrow> r = Runs (case r of Runs b \<Rightarrow> b | _ \<Rightarrow> d) \<and> P (case r of Runs b \<Rightarrow> b | _ \<Rightarrow> d)"
  by (cases r) auto

definition quiet :: "boot_env \<Rightarrow> boot \<Rightarrow> bool" where
  "quiet env b \<longleftrightarrow> (\<forall>m \<in> set [FILESYSTEM, CPU, MEMORY, KERNEL]. is_waits (boot_step env m b))"

lemma quiet_waits: "quiet env b \<Longrightarrow> \<forall>m. boot_step env m b = Waits"
proof
  fix m
  assume "quiet env b"
  moreover have "m \<in> set [FILESYSTEM, CPU, MEMORY, KERNEL]" by (cases m) simp_all
  ultimately have "is_waits (boot_step env m b)" by (auto simp: quiet_def)
  then show "boot_step env m b = Waits" by (cases "boot_step env m b") simp_all
qed

lemma demo_keys [simp]: "has_key start_env m k"
  by (simp add: start_env_def)

lemma at_start [simp]:
  "queue boot_start s = None" "to_server boot_start s m = []" "to_client boot_start s m = []" "mem_at boot_start = MemStart"
  "fs_at boot_start = FsConnect" "cpu_at boot_start = CpuConnect" "kernel_at boot_start = KernelConnect 0"
  by (simp_all add: boot_start_def)

lemmas demo_step = mem_boot_def fs_boot_def cpu_boot_def kernel_boot_def cpu_listen_def listens[OF demo_boots]
  connect_taken[OF demo_boots] connect_refused[OF demo_boots] result_accepted kernel_taken accept_step_def accept_client_def
  wait_for_client_def fd_of_def kernel_servers_def

lemma start_ready: "runs_to ready (boot_run start_env first_servers boot_start)"
  by (simp add: first_servers_def demo_step ready_def)

lemma demo_size:
  "send_package (create_integer_package 4 (page_bytes start_env)) = Some (bytes_of_u32 4 @ bytes_of_u32 4 @ bytes_of_u32 16)"
  by (simp add: send_package_def serialize_package_def create_integer_package_def create_empty_package_def start_env_def)

lemma demo_asked: "snd (receive_op_code (bytes_of_u32 4)) = []"
  by (simp add: receive_op_code_def recv_waitall_def check_recv_def)

lemma demo_read: "get_page_size_of_memory (bytes_of_u32 4 @ bytes_of_u32 4 @ bytes_of_u32 16) = Some (Some 16)"
  using page_size_read[of _ "page_bytes start_env", OF demo_size[symmetric]] by (simp add: start_env_def)

lemma demo_quiet: "runs_to (quiet start_env) (boot_run start_env (first_servers @ then_kernel) boot_start)"
  by (simp add: first_servers_def then_kernel_def demo_step demo_size demo_asked demo_read send_page_size_def client_of_def)
    (simp add: quiet_def demo_step)

lemma boot_run_append: "boot_run env (ms @ ms') b = (case boot_run env ms b of Runs b \<Rightarrow> boot_run env ms' b | r \<Rightarrow> r)"
  by (induction ms arbitrary: b) (auto split: outcome.splits)

lemma demo_runs:
  "boot_run start_env first_servers boot_start = Runs ready_now \<and> ready ready_now
     \<and> boot_run start_env then_kernel ready_now = Runs up_now \<and> quiet start_env up_now"
proof -
  have r: "boot_run start_env first_servers boot_start = Runs ready_now \<and> ready ready_now"
    using runs_to_state[OF start_ready, of boot_start] by (simp add: ready_now_def)
  then have "runs_to (quiet start_env) (boot_run start_env then_kernel ready_now)"
    using demo_quiet by (simp add: boot_run_append)
  then show ?thesis using r runs_to_state[of "quiet start_env" _ boot_start] by (simp add: up_now_def)
qed

lemma modules_come_up_witness:
  "boot_run start_env (first_servers @ then_kernel) boot_start = Runs up_now \<and> (somebody_down up_now \<or> all_up start_env up_now)"
  using modules_come_up[OF demo_boots, of "first_servers @ then_kernel"] demo_runs quiet_waits[of start_env up_now]
  by (simp add: boot_run_append)

lemma started_in_order_witness:
  "boot_run start_env first_servers boot_start = Runs ready_now \<and> ready ready_now
     \<and> boot_run start_env then_kernel ready_now = Runs up_now \<and> all_up start_env up_now"
  using started_in_order[OF demo_boots, of first_servers ready_now then_kernel up_now] demo_runs quiet_waits[of start_env up_now]
  by simp

end
