(* ===== verification/Ports.thy ===== *)
theory Ports
  imports Memory_Props Fs_Props Cpu_Props Kernel_State
begin

text \<open>
  The loops that serve a socket, over the bytes that arrive: \<open>wait_for_command\<close> of the memory
  (\<^verbatim>\<open>memory/src/command/command.c\<close>), \<open>wait_for_commands\<close> of the file system
  (\<^verbatim>\<open>file-system/src/command/command.c\<close>) and the dispatcher of the CPU
  (\<^verbatim>\<open>cpu/src/command/dispatch.c\<close>). Each reads an operation code, the body of its message, and
  runs the handler of the theories \<open>Memory\<close>, \<open>Filesystem\<close> and \<open>Cpu\<close>; what each peer sends is read as
  the command it means.
\<close>

section \<open>A loop over a socket\<close>

text \<open>A message is a command, or it ends the thread (a closed connection, an unknown code).\<close>

datatype 'c incoming = Command 'c | Ends

text \<open>
  \<open>receive\<close> reads one message; its \<open>None\<close> is a NULL or unset value that is used. The handler answers
  with its new state and whether the thread goes on. \<open>None\<close> of the loop is a loop that never ends.
\<close>

partial_function (option) port_loop ::
  "(stream \<Rightarrow> ('c incoming \<times> stream) option) \<Rightarrow> ('c \<Rightarrow> 'm \<Rightarrow> ('m \<times> bool) option) \<Rightarrow> stream \<Rightarrow> 'm \<Rightarrow> 'm outcome option" where
  "port_loop receive handle s m = (case receive s of
      None \<Rightarrow> Some Crashes
    | Some (Ends, s) \<Rightarrow> Some (Runs m)
    | Some (Command c, s) \<Rightarrow> (case handle c m of
        None \<Rightarrow> Some Crashes
      | Some (m, goes_on) \<Rightarrow> if goes_on then port_loop receive handle s m else Some (Runs m)))"

text \<open>The commands of a list, handled in order.\<close>

fun handle_all :: "('c \<Rightarrow> 'm \<Rightarrow> ('m \<times> bool) option) \<Rightarrow> 'c list \<Rightarrow> 'm \<Rightarrow> 'm outcome" where
  "handle_all handle [] m = Runs m"
| "handle_all handle (c # cs) m = (case handle c m of
      None \<Rightarrow> Crashes
    | Some (m, goes_on) \<Rightarrow> if goes_on then handle_all handle cs m else Runs m)"

text \<open>A peer that sends \<open>b\<close> is read as the command \<open>c\<close>, and the stream stands at its next message.\<close>

definition reads_as :: "(stream \<Rightarrow> ('c incoming \<times> stream) option) \<Rightarrow> u8 list \<Rightarrow> 'c \<Rightarrow> bool" where
  "reads_as receive b c \<longleftrightarrow> (\<forall>s. receive (b @ s) = Some (Command c, s))"

text \<open>What a loop relies on: a command takes bytes, and the end of the stream ends the thread.\<close>

locale port_reader =
  fixes receive :: "stream \<Rightarrow> ('c incoming \<times> stream) option"
  assumes consumes: "receive s = Some (Command c, s') \<Longrightarrow> length s' < length s"
    and hangs_up: "receive [] = Some (Ends, [])"
begin

lemma loop_ends: "\<exists>r. port_loop receive handle s m = Some r"
proof (induction "length s" arbitrary: s m rule: less_induct)
  case less
  show ?case
  proof (cases "\<exists>c s1 m1. receive s = Some (Command c, s1) \<and> handle c m = Some (m1, True)")
    case True
    then obtain c s1 m1 where "receive s = Some (Command c, s1)" "handle c m = Some (m1, True)" by blast
    then show ?thesis using less[OF consumes] by (subst port_loop.simps) simp
  next
    case False
    then show ?thesis by (subst port_loop.simps) (auto split: option.splits incoming.splits)
  qed
qed

lemma loop_handles_all:
  "list_all2 (reads_as receive) bs cs \<Longrightarrow> port_loop receive handle (concat bs) m = Some (handle_all handle cs m)"
proof (induction bs cs arbitrary: m rule: list_all2_induct)
  case Nil
  show ?case by (subst port_loop.simps) (simp add: hangs_up)
next
  case (Cons b bs c cs)
  then have "receive (b @ concat bs) = Some (Command c, concat bs)" by (simp add: reads_as_def)
  then show ?case using Cons.IH by (subst port_loop.simps) (auto split: option.split)
qed

end

section \<open>The switches over the operation codes\<close>

text \<open>A body of a message, read with one of the \<open>receive_\<close> functions; a NULL or unset result is used.\<close>

definition body :: "('a option \<times> stream) \<Rightarrow> ('a \<Rightarrow> 'c) \<Rightarrow> ('c incoming \<times> stream) option" where
  "body r f = (case r of (Some x, s) \<Rightarrow> Some (Command (f x), s) | (None, s) \<Rightarrow> None)"

definition buffer_body :: "stream \<Rightarrow> u8 list option \<times> stream" where
  "buffer_body = receive_with Some"

definition int_body :: "stream \<Rightarrow> c_int option \<times> stream" where
  "int_body = receive_with (\<lambda>b. map_option fst (rd_u32 b))"

definition string_body :: "stream \<Rightarrow> string option \<times> stream" where
  "string_body = receive_with (\<lambda>b. Some (cstr_of_bytes b))"

text \<open>
  One turn of \<open>receive_op_code\<close>, the tests of its result and the switch; \<open>None\<close> of the code is an
  \<^verbatim>\<open>int\<close> that was received in part.
\<close>

definition receive_message :: "(c_int \<Rightarrow> stream \<Rightarrow> ('c incoming \<times> stream) option) \<Rightarrow> stream \<Rightarrow> ('c incoming \<times> stream) option" where
  "receive_message switch s = (case receive_op_code s of
      (None, s) \<Rightarrow> None
    | (Some code, s) \<Rightarrow> if code = - 1 then Some (Ends, s) else switch code s)"

text \<open>
  The memory. The operation code \<open>0\<close> leaves the loop, and \<open>free(thread_info->dict_key)\<close> then frees a
  string literal.
\<close>

definition mem_switch :: "c_int \<Rightarrow> stream \<Rightarrow> (mem_command incoming \<times> stream) option" where
  "mem_switch code s =
       (if code = 0 then None
        else if code = 1 then body (string_body s) ECHO_MEMORY
        else if code = 2 then body (receive_pcb s) CREATE_PROCESS_CMD
        else if code = 7 then body (receive_list s) GET_SWAP_BLOCKS
        else if code = 11 then body (receive_page s) LOAD_PAGE
        else if code = 12 then body (buffer_body s) GET_FROM_SWAP
        else if code = 14 then body (int_body s) FREE_PAGES
        else if code = 8 then body (receive_page s) PAGE_NUMBER
        else if code = 3 then body (receive_pcb s) FETCH_INSTRUCTION
        else if code = 16 then body (receive_page_for_mov_out s) MOV_OUT
        else if code = 15 then body (receive_page s) MOV_IN
        else if code = 18 then body (receive_page_for_mov_out_fs s) MOV_OUT_FS
        else if code = 17 then body (receive_page s) MOV_IN_FS
        else if code = 6 then body (receive_pcb s) END_PROCESS
        else Some (Ends, s))"

definition mem_receive :: "stream \<Rightarrow> (mem_command incoming \<times> stream) option" where
  "mem_receive = receive_message mem_switch"

definition fs_switch :: "c_int \<Rightarrow> stream \<Rightarrow> (fs_command incoming \<times> stream) option" where
  "fs_switch code s =
       (if code = 0 then Some (Ends, s)
        else if code = 1 then body (string_body s) ECHO_FILESYSTEM
        else if code = 19 then body (receive_pcb s) F_OPEN
        else if code = 20 then body (receive_pcb s) F_CREATE
        else if code = 21 then body (receive_pcb s) F_TRUNCATE
        else if code = 7 then body (int_body s) GET_SWAP_BLOCKS_FS
        else if code = 12 then body (int_body s) GET_FROM_SWAP_FS
        else if code = 13 then body (receive_page_for_swap s) UPDATE_SWAP
        else if code = 14 then body (receive_list s) FREE_PAGES_FS
        else if code = 22 then body (receive_pcb s) F_READ
        else if code = 18 then body (int_body s) MOV_OUT_DONE
        else if code = 23 then body (receive_pcb s) F_WRITE
        else if code = 17 then body (buffer_body s) MOV_IN_DONE
        else Some (Ends, s))"

definition fs_receive :: "stream \<Rightarrow> (fs_command incoming \<times> stream) option" where
  "fs_receive = receive_message fs_switch"

datatype dispatch_command = ECHO_CPU_DISPATCH string | INSTRUCTION t_pcb

definition cpu_switch :: "c_int \<Rightarrow> stream \<Rightarrow> (dispatch_command incoming \<times> stream) option" where
  "cpu_switch code s =
       (if code = 0 then Some (Ends, s)
        else if code = 1 then body (string_body s) ECHO_CPU_DISPATCH
        else if code = 3 then body (receive_pcb s) INSTRUCTION
        else Some (Ends, s))"

definition cpu_receive :: "stream \<Rightarrow> (dispatch_command incoming \<times> stream) option" where
  "cpu_receive = receive_message cpu_switch"

lemma receive_buffer_shorter: "receive_buffer s = (r, s') \<Longrightarrow> length s' \<le> length s"
  by (auto simp: receive_buffer_def recv_waitall_def Let_def split: if_splits option.splits prod.splits)

lemma receive_with_shorter: "receive_with des s = (r, s') \<Longrightarrow> length s' \<le> length s"
  using receive_buffer_shorter[of s] by (auto simp: receive_with_def split: prod.splits received.splits)

lemma receive_list_with: "receive_list = receive_with deserialize_list"
  by (simp add: fun_eq_iff receive_list_def receive_with_def)

lemmas receivers = buffer_body_def int_body_def string_body_def receive_pcb_def receive_page_def receive_list_with
  receive_page_for_mov_out_def receive_page_for_mov_out_fs_def receive_page_for_swap_def

lemma body_shorter: "body (receive_with des s) f = Some (Command c, s') \<Longrightarrow> length s' \<le> length s"
  using receive_with_shorter[of des s] by (auto simp: body_def split: prod.splits option.splits)

lemma op_code_shorter: "receive_op_code s = (Some code, s') \<Longrightarrow> code \<noteq> - 1 \<Longrightarrow> length s' < length s"
  by (cases s) (auto simp: receive_op_code_def recv_waitall_def check_recv_def Let_def split: if_splits)

lemma op_code_nil: "receive_op_code [] = (Some (- 1), [])"
  by (simp add: receive_op_code_def recv_waitall_def check_recv_def)

text \<open>The bytes \<open>b\<close> are read as the code and then as \<open>x\<close> by a receiver of bodies.\<close>

definition arrives :: "c_int \<Rightarrow> (stream \<Rightarrow> 'a option \<times> stream) \<Rightarrow> 'a \<Rightarrow> u8 list \<Rightarrow> bool" where
  "arrives code recv x b \<longleftrightarrow> (\<forall>s. \<exists>rest. receive_op_code (b @ s) = (Some code, rest) \<and> recv rest = (Some x, s))"

text \<open>A switch that reads bodies gives a loop over its messages.\<close>

locale code_switch =
  fixes switch :: "c_int \<Rightarrow> stream \<Rightarrow> ('c incoming \<times> stream) option"
  assumes switch_shorter: "switch code s = Some (Command c, s') \<Longrightarrow> length s' \<le> length s"
begin

lemma message_shorter: "receive_message switch s = Some (Command c, s') \<Longrightarrow> length s' < length s"
  using op_code_shorter[of s] switch_shorter
  by (fastforce simp: receive_message_def split: prod.splits option.splits if_splits)

lemma sent_is_read:
  assumes "\<exists>b. out = Some b \<and> arrives code recv x b" and "code \<noteq> - 1" and "\<And>s. switch code s = body (recv s) f"
  shows "\<exists>b. out = Some b \<and> reads_as (receive_message switch) b (f x)"
proof -
  obtain b where b: "out = Some b" "arrives code recv x b" using assms(1) by blast
  have "receive_message switch (b @ s) = Some (Command (f x), s)" for s
  proof -
    obtain rest where "receive_op_code (b @ s) = (Some code, rest)" "recv rest = (Some x, s)"
      using b(2) unfolding arrives_def by blast
    then show ?thesis using assms(2,3) by (simp add: receive_message_def body_def)
  qed
  then show ?thesis using b(1) by (simp add: reads_as_def)
qed

end

sublocale code_switch \<subseteq> port_reader "receive_message switch"
  by unfold_locales (auto simp: message_shorter receive_message_def op_code_nil)

interpretation mem_reader: code_switch mem_switch
  by unfold_locales (auto simp: mem_switch_def receivers dest!: body_shorter split: if_splits)

interpretation fs_reader: code_switch fs_switch
  by unfold_locales (auto simp: fs_switch_def receivers dest!: body_shorter split: if_splits)

interpretation cpu_reader: code_switch cpu_switch
  by unfold_locales (auto simp: cpu_switch_def receivers dest!: body_shorter split: if_splits)

section \<open>The three threads\<close>

definition mem_handle :: "'b mem_env \<Rightarrow> port \<Rightarrow> mem_command \<Rightarrow> 'b memory \<Rightarrow> ('b memory \<times> bool) option" where
  "mem_handle env pt c m = map_option (\<lambda>m. (m, True)) (wait_for_command env pt c m)"

text \<open>Each of the three threads of the memory starts with a new, empty list of pages to load.\<close>

definition mem_thread :: "'b mem_env \<Rightarrow> port \<Rightarrow> stream \<Rightarrow> 'b memory \<Rightarrow> 'b memory outcome option" where
  "mem_thread env pt s m = port_loop mem_receive (mem_handle env pt) s (m\<lparr>list_page := []\<rparr>)"

definition fs_handle :: "fs_env \<Rightarrow> t_fs_config \<Rightarrow> fs_thread \<Rightarrow> fs_command \<Rightarrow> filesystem \<Rightarrow> (filesystem \<times> bool) option" where
  "fs_handle env cfg thr c s = map_option (\<lambda>s. (s, True)) (wait_for_commands env cfg thr c s)"

definition fs_port :: "fs_env \<Rightarrow> t_fs_config \<Rightarrow> fs_thread \<Rightarrow> stream \<Rightarrow> filesystem \<Rightarrow> filesystem outcome option" where
  "fs_port env cfg thr b s = port_loop fs_receive (fs_handle env cfg thr) b s"

text \<open>
  The dispatcher of the CPU: what it sends to the kernel and to the memory by itself, and the echo
  that it expects on the interrupt socket; its own echo to the memory is a string literal, which
  \<open>send_package\<close> frees. A process whose turns do not end within \<open>as\<close> keeps it.
\<close>

record 'm dispatcher =
  processor :: "'m cpu"
  interrupt_socket :: stream
  executed :: "t_pcb list"

definition wait_for_interrupt_echo :: "stream \<Rightarrow> (int \<times> stream) option" where
  "wait_for_interrupt_echo s = (case receive_op_code s of
      (None, s) \<Rightarrow> None
    | (Some code, s) \<Rightarrow> if code \<noteq> 2 then Some (- 1, s)
        else (case string_body s of (None, s) \<Rightarrow> None | (Some message, s) \<Rightarrow> Some (0, s)))"

fun cpu_handle :: "'m cpu_env \<Rightarrow> int \<Rightarrow> (c_int \<times> t_pcb) list list \<Rightarrow> dispatch_command \<Rightarrow> 'm dispatcher \<Rightarrow> ('m dispatcher \<times> bool) option" where
  "cpu_handle env ps as (ECHO_CPU_DISPATCH message) d = (case wait_for_interrupt_echo (interrupt_socket d) of
      None \<Rightarrow> None
    | Some (result, s) \<Rightarrow> if result = - 1 then Some (d\<lparr>interrupt_socket := s\<rparr>, False) else None)"
| "cpu_handle env ps as (INSTRUCTION p) d = (case wait_for_dispatch_command env ps as p (processor d) of
      None \<Rightarrow> None
    | Some (Answer c) \<Rightarrow> Some (d\<lparr>processor := c, executed := executed d @ [running c]\<rparr>, True)
    | Some (Again c) \<Rightarrow> Some (d\<lparr>processor := c\<rparr>, False)
    | Some Down \<Rightarrow> Some (d, False))"

section \<open>What the peers send\<close>

datatype mem_input = FromKernel kmsg | FromCpu cpu_request | FromFs fs_msg

fun kernel_bytes :: "kmsg \<Rightarrow> u8 list option" where
  "kernel_bytes (ToMemory code p) = send_pcb code p"
| "kernel_bytes (PageToMemory code pg) = send_page code pg"
| "kernel_bytes (ToDispatch code p) = send_pcb code p"
| "kernel_bytes (ToInterrupt code p) = send_pcb code p"
| "kernel_bytes (ToFilesystem code p) = send_pcb code p"

fun request_bytes :: "cpu_request \<Rightarrow> u8 list option" where
  "request_bytes (AskFetch p) = send_pcb 3 p"
| "request_bytes (AskPage pg) = send_page 8 pg"
| "request_bytes (AskMovIn pg) = send_page 15 pg"
| "request_bytes (AskMovOut d) = send_page_for_mov_out 16 d"

fun fs_bytes :: "fs_msg \<Rightarrow> u8 list option" where
  "fs_bytes (FsPackage pkg) = send_package pkg"
| "fs_bytes (FsList code bs) = send_list code bs"
| "fs_bytes (FsPage code pg) = send_page code pg"
| "fs_bytes (FsMovOut code d) = send_page_for_mov_out_fs code d"

fun mem_bytes :: "mem_msg \<Rightarrow> u8 list option" where
  "mem_bytes (MPackage pkg) = send_package pkg"
| "mem_bytes (MList code bs) = send_list code bs"
| "mem_bytes (MSwapPage code d) = send_page_for_swap code d"

fun input_bytes :: "mem_input \<Rightarrow> u8 list option" where
  "input_bytes (FromKernel k) = kernel_bytes k"
| "input_bytes (FromCpu r) = request_bytes r"
| "input_bytes (FromFs f) = fs_bytes f"

text \<open>The integer that a package carries, and the commands that the messages mean.\<close>

definition package_int :: "t_package \<Rightarrow> c_int option" where
  "package_int pkg = map_option fst (rd_u32 (buffer pkg))"

fun input_command :: "mem_input \<Rightarrow> mem_command option" where
  "input_command (FromKernel (ToMemory code p)) = (if code = 2 then Some (CREATE_PROCESS_CMD (received_pcb p))
     else if code = 6 then Some (END_PROCESS (received_pcb p)) else None)"
| "input_command (FromKernel (PageToMemory code pg)) = (if code = 11 then Some (LOAD_PAGE pg) else None)"
| "input_command (FromKernel _) = None"
| "input_command (FromCpu (AskFetch p)) = Some (FETCH_INSTRUCTION (received_pcb p))"
| "input_command (FromCpu (AskPage pg)) = Some (PAGE_NUMBER pg)"
| "input_command (FromCpu (AskMovIn pg)) = Some (MOV_IN pg)"
| "input_command (FromCpu (AskMovOut d)) = Some (MOV_OUT d)"
| "input_command (FromFs (FsPackage pkg)) = (if op_code pkg = 12 then Some (GET_FROM_SWAP (buffer pkg))
     else if op_code pkg = 14 then map_option FREE_PAGES (package_int pkg)
     else if op_code pkg = 1 then Some (ECHO_MEMORY (cstr_of_bytes (buffer pkg))) else None)"
| "input_command (FromFs (FsList code bs)) = (if code = 7 then Some (GET_SWAP_BLOCKS bs) else None)"
| "input_command (FromFs (FsPage code pg)) = (if code = 17 then Some (MOV_IN_FS pg) else None)"
| "input_command (FromFs (FsMovOut code d)) = (if code = 18 then Some (MOV_OUT_FS d) else None)"

datatype fs_input = KernelToFs kmsg | MemoryToFs mem_msg

fun fs_input_bytes :: "fs_input \<Rightarrow> u8 list option" where
  "fs_input_bytes (KernelToFs k) = kernel_bytes k"
| "fs_input_bytes (MemoryToFs m) = mem_bytes m"

fun file_command :: "mem_msg \<Rightarrow> fs_command option" where
  "file_command (MPackage pkg) = (if op_code pkg = 7 then map_option GET_SWAP_BLOCKS_FS (package_int pkg)
     else if op_code pkg = 12 then map_option GET_FROM_SWAP_FS (package_int pkg)
     else if op_code pkg = 18 then map_option MOV_OUT_DONE (package_int pkg)
     else if op_code pkg = 17 then Some (MOV_IN_DONE (buffer pkg)) else None)"
| "file_command (MList code bs) = (if code = 14 then Some (FREE_PAGES_FS bs) else None)"
| "file_command (MSwapPage code d) = (if code = 13 then Some (UPDATE_SWAP d) else None)"

fun fs_input_command :: "fs_input \<Rightarrow> fs_command option" where
  "fs_input_command (KernelToFs (ToFilesystem code p)) = (let p = received_pcb p in
     if code = 19 then Some (F_OPEN p) else if code = 20 then Some (F_CREATE p) else if code = 21 then Some (F_TRUNCATE p)
     else if code = 22 then Some (F_READ p) else if code = 23 then Some (F_WRITE p) else None)"
| "fs_input_command (KernelToFs _) = None"
| "fs_input_command (MemoryToFs m) = file_command m"

section \<open>What is sent is read\<close>

definition pcb_sendable :: "t_pcb \<Rightarrow> bool" where
  "pcb_sendable p \<longleftrightarrow> pcb_wf p \<and> (\<exists>n. serialized_pcb_size p = Some n \<and> n < 2 ^ 31)"

fun kernel_sendable :: "kmsg \<Rightarrow> bool" where
  "kernel_sendable (PageToMemory code pg) = True"
| "kernel_sendable (ToMemory code p) = pcb_sendable p"
| "kernel_sendable (ToDispatch code p) = pcb_sendable p"
| "kernel_sendable (ToInterrupt code p) = pcb_sendable p"
| "kernel_sendable (ToFilesystem code p) = pcb_sendable p"

fun mem_input_sendable :: "mem_input \<Rightarrow> bool" where
  "mem_input_sendable (FromKernel k) = kernel_sendable k"
| "mem_input_sendable (FromCpu (AskFetch p)) = pcb_sendable p"
| "mem_input_sendable (FromCpu _) = True"
| "mem_input_sendable (FromFs (FsPackage pkg)) = (package_ok pkg \<and> buffer pkg \<noteq> [])"
| "mem_input_sendable (FromFs (FsList code bs)) = (length bs < 2 ^ 28)"
| "mem_input_sendable (FromFs (FsPage code pg)) = True"
| "mem_input_sendable (FromFs (FsMovOut code d)) = payload_ok (mf_size d) (mf_register_value d)"

fun fs_input_sendable :: "fs_input \<Rightarrow> bool" where
  "fs_input_sendable (KernelToFs k) = kernel_sendable k"
| "fs_input_sendable (MemoryToFs (MPackage pkg)) = (package_ok pkg \<and> buffer pkg \<noteq> [])"
| "fs_input_sendable (MemoryToFs (MList code bs)) = (length bs < 2 ^ 28)"
| "fs_input_sendable (MemoryToFs (MSwapPage code d)) = payload_ok (page_info_size d) (page_content d)"

lemma arrivesI:
  assumes "\<And>s. \<exists>bs rest. out = Some bs \<and> receive_op_code (bs @ s) = (Some code, rest) \<and> recv rest = (Some x, s)"
  shows "\<exists>b. out = Some b \<and> arrives code recv x b"
proof -
  obtain b where "out = Some b" using assms[of "[]"] by blast
  then show ?thesis using assms by (simp add: arrives_def)
qed

lemma pcb_arrives: "pcb_sendable p \<Longrightarrow> \<exists>b. send_pcb code p = Some b \<and> arrives code receive_pcb (received_pcb p) b"
  unfolding pcb_sendable_def by (rule arrivesI) (blast intro: pcb_message_roundtrip)

lemma page_arrives: "\<exists>b. send_page code p = Some b \<and> arrives code receive_page p b"
  by (rule arrivesI) (rule page_message_roundtrip)

lemma mov_out_arrives: "\<exists>b. send_page_for_mov_out code p = Some b \<and> arrives code receive_page_for_mov_out p b"
  by (rule arrivesI) (rule mov_out_message_roundtrip)

lemma mov_out_fs_arrives: "payload_ok (mf_size d) (mf_register_value d) \<Longrightarrow>
    \<exists>b. send_page_for_mov_out_fs code d = Some b \<and> arrives code receive_page_for_mov_out_fs d b"
  by (rule arrivesI) (rule mov_out_fs_message_roundtrip)

lemma swap_page_arrives: "payload_ok (page_info_size d) (page_content d) \<Longrightarrow>
    \<exists>b. send_page_for_swap code d = Some b \<and> arrives code receive_page_for_swap d b"
  by (rule arrivesI) (rule swap_message_roundtrip)

lemma package_arrives:
  assumes "package_ok pkg" and "buffer pkg \<noteq> []"
  shows "\<exists>b. send_package pkg = Some b \<and> arrives (op_code pkg) buffer_body (buffer pkg) b
     \<and> (\<forall>v. package_int pkg = Some v \<longrightarrow> arrives (op_code pkg) int_body v b)
     \<and> arrives (op_code pkg) string_body (cstr_of_bytes (buffer pkg)) b"
proof -
  let ?b = "bytes_of_u32 (op_code pkg) @ bytes_of_u32 (size pkg) @ buffer pkg"
  have "receive_op_code (?b @ s) = (Some (op_code pkg), bytes_of_u32 (size pkg) @ buffer pkg @ s)"
    "receive_buffer (bytes_of_u32 (size pkg) @ buffer pkg @ s) = (Buf (buffer pkg), s)" for s
    using assms by (simp_all add: receive_op_code_bytes receive_buffer_bytes package_ok_def)
  then show ?thesis using assms
    by (simp add: send_package_ok arrives_def receivers receive_with_def package_int_def)
qed

lemma deserialize_serialize_list: "length xs < 2 ^ 31 \<Longrightarrow> deserialize_list (serialize_list xs) = Some xs"
  using u32_codec.rd_many_enc[of xs "[]"] unat_of_nat_u32[of "length xs"] sint_small[of "of_nat (length xs)"]
  by (simp add: deserialize_list_def serialize_list_def codec_simps list_all_iff)

lemma list_arrives:
  assumes "length bs < 2 ^ 28"
  shows "\<exists>b. send_list code bs = Some b \<and> arrives code receive_list bs b"
proof (rule arrivesI)
  fix s
  have "length (concat (map bytes_of_u32 bs)) = length bs * 4" by (induction bs) simp_all
  then have "int (length (serialize_list bs)) = 4 + int (length bs) * 4" "serialize_list bs \<noteq> []"
    by (simp_all add: serialize_list_def)
  moreover have "(of_nat (4 + length bs * 4) :: c_int) = word_of_int (4 + int (length bs) * 4)" by simp
  ultimately show "\<exists>b rest. send_list code bs = Some b \<and> receive_op_code (b @ s) = (Some code, rest)
      \<and> receive_list rest = (Some bs, s)"
    using send_receive_with[of "serialize_list bs" "4 + int (length bs) * 4" code s deserialize_list] assms
      deserialize_serialize_list[of bs]
    by (simp add: send_list_def receive_list_with)
qed

text \<open>Each message that a peer can send is read as the command it means.\<close>

lemma mem_reads_fs:
  assumes ok: "mem_input_sendable (FromFs f)" and c: "input_command (FromFs f) = Some c"
  shows "\<exists>b. input_bytes (FromFs f) = Some b \<and> reads_as mem_receive b c"
proof (cases f)
  case (FsPackage pkg)
  then have "package_ok pkg" "buffer pkg \<noteq> []" using ok by simp_all
  then obtain b where b: "send_package pkg = Some b" "arrives (op_code pkg) buffer_body (buffer pkg) b"
    "\<And>v. package_int pkg = Some v \<Longrightarrow> arrives (op_code pkg) int_body v b"
    "arrives (op_code pkg) string_body (cstr_of_bytes (buffer pkg)) b" using package_arrives by blast
  show ?thesis
    using c FsPackage b mem_reader.sent_is_read[of "Some b" 12 buffer_body "buffer pkg" GET_FROM_SWAP]
      mem_reader.sent_is_read[of "Some b" 14 int_body _ FREE_PAGES]
      mem_reader.sent_is_read[of "Some b" 1 string_body "cstr_of_bytes (buffer pkg)" ECHO_MEMORY]
    by (auto simp: mem_switch_def mem_receive_def split: if_splits)
next
  case (FsList code bs)
  then show ?thesis
    using ok c mem_reader.sent_is_read[OF list_arrives, of bs 7 GET_SWAP_BLOCKS]
    by (auto simp: mem_switch_def mem_receive_def split: if_splits)
next
  case (FsPage code pg)
  then show ?thesis
    using ok c mem_reader.sent_is_read[OF page_arrives, of 17 MOV_IN_FS pg]
    by (auto simp: mem_switch_def mem_receive_def split: if_splits)
next
  case (FsMovOut code d)
  then show ?thesis
    using ok c mem_reader.sent_is_read[OF mov_out_fs_arrives, of d 18 MOV_OUT_FS]
    by (auto simp: mem_switch_def mem_receive_def split: if_splits)
qed

lemma mem_reads:
  assumes ok: "mem_input_sendable i" and c: "input_command i = Some c"
  shows "\<exists>b. input_bytes i = Some b \<and> reads_as mem_receive b c"
proof (cases i)
  case (FromKernel k)
  note pcb = mem_reader.sent_is_read[OF pcb_arrives]
  show ?thesis
  proof (cases k)
    case (ToMemory code p)
    then show ?thesis
      using ok c FromKernel pcb[of p 2 CREATE_PROCESS_CMD] pcb[of p 6 END_PROCESS]
      by (auto simp: mem_switch_def mem_receive_def split: if_splits)
  next
    case (PageToMemory code pg)
    then show ?thesis
      using ok c FromKernel mem_reader.sent_is_read[OF page_arrives, of 11 LOAD_PAGE pg]
      by (auto simp: mem_switch_def mem_receive_def split: if_splits)
  qed (use c FromKernel in simp_all)
next
  case (FromCpu r)
  note page = mem_reader.sent_is_read[OF page_arrives]
  show ?thesis
    using ok c FromCpu page[of 8 PAGE_NUMBER] page[of 15 MOV_IN]
      mem_reader.sent_is_read[OF mov_out_arrives, of 16 MOV_OUT] mem_reader.sent_is_read[OF pcb_arrives, of _ 3 FETCH_INSTRUCTION]
    by (cases r) (auto simp: mem_switch_def mem_receive_def)
next
  case (FromFs f)
  then show ?thesis using mem_reads_fs ok c by simp
qed

lemma fs_reads:
  assumes ok: "fs_input_sendable i" and c: "fs_input_command i = Some c"
  shows "\<exists>b. fs_input_bytes i = Some b \<and> reads_as fs_receive b c"
proof (cases i)
  case (KernelToFs k)
  then obtain code p where k: "k = ToFilesystem code p" using c by (cases k) simp_all
  note pcb = fs_reader.sent_is_read[OF pcb_arrives, of p]
  show ?thesis
    using ok c KernelToFs k pcb[of 19 F_OPEN] pcb[of 20 F_CREATE] pcb[of 21 F_TRUNCATE] pcb[of 22 F_READ] pcb[of 23 F_WRITE]
    by (auto simp: fs_switch_def fs_receive_def Let_def split: if_splits)
next
  case (MemoryToFs m)
  show ?thesis
  proof (cases m)
    case (MPackage pkg)
    then have "package_ok pkg" "buffer pkg \<noteq> []" using ok MemoryToFs by simp_all
    then obtain b where b: "send_package pkg = Some b" "arrives (op_code pkg) buffer_body (buffer pkg) b"
      "\<And>v. package_int pkg = Some v \<Longrightarrow> arrives (op_code pkg) int_body v b" using package_arrives by blast
    show ?thesis
      using c MemoryToFs MPackage b fs_reader.sent_is_read[of "Some b" 7 int_body _ GET_SWAP_BLOCKS_FS]
        fs_reader.sent_is_read[of "Some b" 12 int_body _ GET_FROM_SWAP_FS]
        fs_reader.sent_is_read[of "Some b" 18 int_body _ MOV_OUT_DONE]
        fs_reader.sent_is_read[of "Some b" 17 buffer_body "buffer pkg" MOV_IN_DONE]
      by (auto simp: fs_switch_def fs_receive_def split: if_splits)
  next
    case (MList code bs)
    then show ?thesis
      using ok c MemoryToFs fs_reader.sent_is_read[OF list_arrives, of bs 14 FREE_PAGES_FS]
      by (auto simp: fs_switch_def fs_receive_def split: if_splits)
  next
    case (MSwapPage code d)
    then show ?thesis
      using ok c MemoryToFs fs_reader.sent_is_read[OF swap_page_arrives, of d 13 UPDATE_SWAP]
      by (auto simp: fs_switch_def fs_receive_def split: if_splits)
  qed
qed

lemma all_read:
  assumes "\<And>i c. ok i \<Longrightarrow> command i = Some c \<Longrightarrow> \<exists>b. bytes i = Some b \<and> reads_as receive b c"
    and "list_all ok inputs" and "map command inputs = map Some cs"
  shows "\<exists>bs. map bytes inputs = map Some bs \<and> list_all2 (reads_as receive) bs cs"
  using assms(2,3)
proof (induction inputs arbitrary: cs)
  case (Cons i inputs)
  then obtain c cs' where cs: "cs = c # cs'" "command i = Some c" by auto
  obtain b where "bytes i = Some b" "reads_as receive b c" using assms(1)[of i c] Cons.prems cs by auto
  moreover obtain bs where "map bytes inputs = map Some bs" "list_all2 (reads_as receive) bs cs'"
    using Cons.IH[of cs'] Cons.prems cs by auto
  ultimately show ?case using cs by (intro exI[of _ "b # bs"]) simp
qed simp

text \<open>
  C7. The thread of the memory on a socket. Whatever sequence of messages the kernel, the CPU or
  the file system send, as long as each fits its package, the bytes on the wire make the thread run
  exactly the handlers of the commands they mean, in their order, until one of them is undefined (the
  request of an instruction at the end of a program is: the reply is a literal, which is freed) or the
  connection ends.
\<close>

theorem memory_thread_serves_its_peers:
  assumes "list_all mem_input_sendable inputs" and "map input_command inputs = map Some cs"
  shows "\<exists>bs. map input_bytes inputs = map Some bs
     \<and> mem_thread env pt (concat bs) m = Some (handle_all (mem_handle env pt) cs (m\<lparr>list_page := []\<rparr>))"
  using all_read[OF mem_reads assms] mem_reader.loop_handles_all
  by (fastforce simp: mem_thread_def mem_receive_def)

theorem memory_thread_serves_its_peers_witness:
  "\<exists>bs. map input_bytes [FromKernel (ToMemory 6 sample_pcb), FromCpu (AskPage (page_new 1 0 4))] = map Some bs
     \<and> mem_thread demo_mem_env PKernel (concat bs) demo_memory = Some (handle_all (mem_handle demo_mem_env PKernel)
        [END_PROCESS (received_pcb sample_pcb), PAGE_NUMBER (page_new 1 0 4)] (demo_memory\<lparr>list_page := []\<rparr>))"
  by (rule memory_thread_serves_its_peers) (use sample_pcb_wf sample_pcb_size in \<open>simp_all add: pcb_sendable_def\<close>)

text \<open>C8. The same for the two threads of the file system, on the messages of the memory and of the kernel.\<close>

theorem filesystem_threads_serve_their_peers:
  assumes "list_all fs_input_sendable inputs" and "map fs_input_command inputs = map Some cs"
  shows "\<exists>bs. map fs_input_bytes inputs = map Some bs
     \<and> fs_port env cfg thr (concat bs) s = Some (handle_all (fs_handle env cfg thr) cs s)"
  using all_read[OF fs_reads assms] fs_reader.loop_handles_all
  by (fastforce simp: fs_port_def fs_receive_def)

theorem filesystem_threads_serve_their_peers_witness:
  "\<exists>bs. map fs_input_bytes [MemoryToFs (MPackage (create_integer_package 7 2)), MemoryToFs (MList 14 [1, 0])] = map Some bs
     \<and> fs_port demo_fs_env demo_cfg MRY (concat bs) demo_fs = Some (handle_all (fs_handle demo_fs_env demo_cfg MRY)
        [GET_SWAP_BLOCKS_FS 2, FREE_PAGES_FS [1, 0]] demo_fs)"
  by (rule filesystem_threads_serve_their_peers)
    (simp_all add: package_int_def create_integer_package_def create_empty_package_def u32_codec.dec_enc_nil package_ok_def)

text \<open>The dispatcher answers with the processes it was given, each once and in their order, until it ends.\<close>

theorem dispatcher_answers_in_order:
  "handle_all (cpu_handle env ps as) (map INSTRUCTION qs) d = Runs d' \<Longrightarrow> list_all fault_has_page qs \<Longrightarrow>
     \<exists>n \<le> length qs. map pid (executed d') = map pid (executed d) @ map pid (take n qs)"
proof (induction qs arbitrary: d)
  case (Cons q qs)
  show ?case
  proof (cases "\<exists>c. wait_for_dispatch_command env ps as q (processor d) = Some (Answer c)")
    case True
    then obtain c where c: "wait_for_dispatch_command env ps as q (processor d) = Some (Answer c)" by blast
    then obtain c1 where "execute_loop env ps as ((processor d)\<lparr>running := q\<rparr>) = Some (Answer c1)" "pid (running c) = pid (running c1)"
      by (auto simp: wait_for_dispatch_command_def split: option.splits turn.splits)
    then have "pid (running c) = pid q"
      using execute_loop_same[of env ps as "(processor d)\<lparr>running := q\<rparr>"] Cons.prems(2) by (auto simp: same_process_def)
    moreover obtain n where "n \<le> length qs"
      "map pid (executed d') = map pid (executed d @ [running c]) @ map pid (take n qs)"
      using Cons.IH[of "d\<lparr>processor := c, executed := executed d @ [running c]\<rparr>"] Cons.prems c by auto
    ultimately show ?thesis by (intro exI[of _ "Suc n"]) simp
  next
    case False
    then have "executed d' = executed d" using Cons.prems(1) by (auto split: option.splits turn.splits)
    then show ?thesis by (intro exI[of _ 0]) simp
  qed
qed simp

end
