(* ===== verification/Kernel_Reports.thy ===== *)
theory Kernel_Reports
  imports Scheduler Boot Ports
begin

text \<open>
  The commands of the console that only report: \<^verbatim>\<open>kernel/src/echo/echo.c\<close>, a string for each module, and
  \<^verbatim>\<open>kernel/src/consola/listar_procesos/listar_procesos.c\<close>, the processes of every state.
\<close>

section \<open>The echo\<close>

text \<open>What \<open>echo\<close> sends, and on which connection.\<close>

definition echo :: "int \<Rightarrow> (server \<times> t_package) list" where
  "echo number =
     (if number = sint (module_code FILESYSTEM) then [(Fs, create_string_package 1 ''ECHO To FileSystem'')]
      else if number = sint (module_code CPU)
      then [(Dispatch, create_string_package 1 ''ECHO To CPU Dispatch''),
            (Interrupt, create_string_package 2 ''ECHO To CPU Interrupt'')]
      else if number = sint (module_code MEMORY) then [(Mem, create_string_package 1 ''ECHO To Memory from Kernel'')]
      else [])"

text \<open>How a peer reads the bytes of an echo.\<close>

fun echo_read :: "server \<Rightarrow> u8 list \<Rightarrow> string \<Rightarrow> bool" where
  "echo_read Mem b msg = reads_as mem_receive b (ECHO_MEMORY msg)"
| "echo_read Fs b msg = reads_as fs_receive b (ECHO_FILESYSTEM msg)"
| "echo_read Dispatch b msg = reads_as cpu_receive b (ECHO_CPU_DISPATCH msg)"
| "echo_read Interrupt b msg = (\<forall>s. wait_for_interrupt_echo (b @ s) = Some (0, s))"

lemma string_sent:
  assumes "length msg < 100" and "c_string msg"
  shows "\<exists>b. send_package (create_string_package code msg) = Some b \<and> arrives code string_body msg b"
proof -
  have n: "unat (of_nat (Suc (length msg)) :: c_int) = Suc (length msg)" using assms(1) by (intro unat_of_nat_u32) simp
  have "package_ok (create_string_package code msg)" "buffer (create_string_package code msg) \<noteq> []"
    "op_code (create_string_package code msg) = code" "cstr_of_bytes (buffer (create_string_package code msg)) = msg"
    using assms n cstr_of_bytes_of_cstr[of msg]
    by (simp_all add: package_defs package_ok_def bytes_of_cstr_def del: of_nat_Suc)
  then show ?thesis using package_arrives[of "create_string_package code msg"] by auto
qed

lemmas string_reads = mem_reader.sent_is_read[OF string_sent, of _ 1 ECHO_MEMORY] fs_reader.sent_is_read[OF string_sent, of _ 1 ECHO_FILESYSTEM]
  cpu_reader.sent_is_read[OF string_sent, of _ 1 ECHO_CPU_DISPATCH]

lemma interrupt_echo:
  assumes "length msg < 100" and "c_string msg"
  shows "\<exists>b. send_package (create_string_package 2 msg) = Some b \<and> (\<forall>s. wait_for_interrupt_echo (b @ s) = Some (0, s))"
proof -
  obtain b where b: "send_package (create_string_package 2 msg) = Some b" "arrives 2 string_body msg b"
    using string_sent[OF assms, of 2] by blast
  have "wait_for_interrupt_echo (b @ s) = Some (0, s)" for s
  proof -
    obtain rest where "receive_op_code (b @ s) = (Some 2, rest)" "string_body rest = (Some msg, s)"
      using b(2) unfolding arrives_def by blast
    then show ?thesis by (simp add: wait_for_interrupt_echo_def)
  qed
  then show ?thesis using b(1) by blast
qed

text \<open>
  Every message of an echo is read by its module as that echo. What the modules do then is in their
  handlers: the memory logs it, and the file system and the CPU (after the second message) answer with a
  literal that \<open>send_package\<close> frees, as it frees those sent here.
\<close>

theorem echo_is_read: "\<forall>(s, pkg) \<in> set (echo number). \<exists>b msg. send_package pkg = Some b \<and> echo_read s b msg"
proof -
  have c: "c_string ''ECHO To FileSystem''" "c_string ''ECHO To CPU Dispatch''" "c_string ''ECHO To CPU Interrupt''"
    "c_string ''ECHO To Memory from Kernel''"
    by (simp_all add: c_string_def)
  have "\<exists>b. send_package (create_string_package 1 ''ECHO To Memory from Kernel'') = Some b
      \<and> echo_read Mem b ''ECHO To Memory from Kernel''"
    using string_reads(1)[OF _ c(4)] by (auto simp: mem_receive_def mem_switch_def)
  moreover have "\<exists>b. send_package (create_string_package 1 ''ECHO To FileSystem'') = Some b \<and> echo_read Fs b ''ECHO To FileSystem''"
    using string_reads(2)[OF _ c(1)] by (auto simp: fs_receive_def fs_switch_def)
  moreover have "\<exists>b. send_package (create_string_package 1 ''ECHO To CPU Dispatch'') = Some b
      \<and> echo_read Dispatch b ''ECHO To CPU Dispatch''"
    using string_reads(3)[OF _ c(2)] by (auto simp: cpu_receive_def cpu_switch_def)
  moreover have "\<exists>b. send_package (create_string_package 2 ''ECHO To CPU Interrupt'') = Some b
      \<and> echo_read Interrupt b ''ECHO To CPU Interrupt''"
    using interrupt_echo[OF _ c(3)] by auto
  ultimately show ?thesis unfolding echo_def by (simp split: if_split del: echo_read.simps) blast
qed

section \<open>The listing\<close>

text \<open>
  One line of the listing. The mutex is passed by value: what \<open>listar_procesos\<close> locks and unlocks is a
  copy, which is free or held as the mutex is at the call.
\<close>

definition listar_procesos :: "(u32 \<Rightarrow> string) \<Rightarrow> string \<Rightarrow> t_pcb list \<Rightarrow> string \<times> string" where
  "listar_procesos itoa name ps = (name, get_string_of_pids_in_list itoa ps)"

definition listar_procesos_por_estados :: "(u32 \<Rightarrow> string) \<Rightarrow> kernel \<Rightarrow> (string \<times> string) list" where
  "listar_procesos_por_estados itoa k =
     [listar_procesos itoa ''SLEEP'' (lista_SLEEP k), listar_procesos itoa ''INTERRUPT'' (lista_INTERRUPT k),
      listar_procesos itoa ''NEW'' (lista_NEW k), listar_procesos itoa ''READY'' (lista_READY k),
      listar_procesos itoa ''EXIT'' (lista_EXIT k)]
     @ (case estado_EXEC k of None \<Rightarrow> [] | Some p \<Rightarrow> [(''EXECUTE'', itoa (pid p))])
     @ map (\<lambda>(key, block). listar_procesos itoa ('' '' @ key) (blocked_list block)) (colas_BLOCKED k)"

text \<open>
  The listing changes nothing, and lets the console go on unless a command has left a mutex held
  (\<open>finalizar_sleeping_never_ends\<close> in \<open>Scheduler_Faults\<close>): then it waits for a copy that nobody unlocks.
\<close>

lemma listing_only_prints:
  "consola_interactiva env addr (''PROCESO_ESTADO'' # ws) k
     = Runs (if cola_sleep_locked k \<or> cola_interrupt_locked k then spawn TStuck k else k)"
  by (simp add: consola_interactiva_def word_at_def lock_list_copies_def)

end
