(* ===== verification/Shutdown.thy ===== *)
theory Shutdown
  imports Memory_Props Scheduler_Live
begin

text \<open>
  How the modules end (the rest of each \<^verbatim>\<open>main.c\<close>, \<open>close_conn\<close>, \<open>wait_in_every_port\<close> and the end of
  \<open>wait_for_commands\<close>). The console of the kernel is left, the planners are told to end, the structures
  of the kernel are destroyed and its sockets are closed; what follows is
  a chain of closed connections through the detached threads of the file system and the memory and
  the semaphores that their \<open>main\<close> waits on. All commands that were sent have been handled.
\<close>

section \<open>The kernel ends its planners\<close>

text \<open>
  \<open>terminar_estructuras_planificadores\<close> up to the posts, and from there on. Nobody waits for the planners
  to end: a thread that is still there is at a semaphore that is destroyed (or uses a freed list), \<open>None\<close>.
\<close>

definition terminar_planificadores :: "kernel \<Rightarrow> kernel" where
  "terminar_planificadores k = post_all (k\<lparr>working := False\<rparr>)"

definition destroy_estructuras_planificadores :: "kernel \<Rightarrow> kernel option" where
  "destroy_estructuras_planificadores k =
     (if threads k \<noteq> [] then None
      else let k = k\<lparr>lista_EXIT := [], lista_NEW := [], lista_READY := []\<rparr>;
               k = (if estado_EXEC k \<noteq> None then destroy_executing_process k else k)
           in Some (k\<lparr>colas_BLOCKED := [], open_files_global_table := Map.empty\<rparr>))"

text \<open>A kernel at rest: its threads are the loops of the planners, each at its semaphore, which has no post.\<close>

fun planner_sem :: "thread \<Rightarrow> kernel \<Rightarrow> nat option" where
  "planner_sem TLong k = Some (process_in_new k)"
| "planner_sem TExit k = Some (process_in_exit k)"
| "planner_sem TFifo k = Some (proceso_en_cola_ready k)"
| "planner_sem TRr k = Some (proceso_en_cola_ready k)"
| "planner_sem TPrioridades k = Some (proceso_en_cola_ready k)"
| "planner_sem TExecute k = Some (executing_process k)"
| "planner_sem TUnblock k = Some (freed_resource k)"
| "planner_sem t k = None"

definition at_rest :: "kernel \<Rightarrow> bool" where
  "at_rest k \<longleftrightarrow> distinct (concat (map loop_of (threads k))) \<and> (\<forall>t \<in> set (threads k). planner_sem t k = Some 0)"

definition told :: "kernel \<Rightarrow> bool" where
  "told k \<longleftrightarrow> \<not> working k \<and> distinct (concat (map loop_of (threads k)))
     \<and> (\<forall>t \<in> set (threads k). \<exists>n. planner_sem t k = Some (Suc n))"

lemma tell_planners: "at_rest k \<Longrightarrow> told (terminar_planificadores k) \<and> threads (terminar_planificadores k) = threads k"
proof -
  have "planner_sem t (post_all (k\<lparr>working := False\<rparr>)) = map_option Suc (planner_sem t k)" for t
    by (cases t) (simp_all add: post_all_def)
  then show "at_rest k \<Longrightarrow> ?thesis" by (simp add: at_rest_def told_def terminar_planificadores_def) (simp add: post_all_def)
qed

lemma rest_waits: "at_rest k \<Longrightarrow> kernel_step env (LThread i q) k = Waits"
proof -
  assume r: "at_rest k"
  have "thread_step env q t (remove_thread i k) = Waits" if "planner_sem t k = Some 0" for t
    using that by (cases t) (simp_all add: remove_thread_def planificador_largo_plazo_def atender_procesos_en_EXIT_def
        planificador_fifo_def planificador_rr_def planificador_prioridades_def execute_process_def unblock_loop_def)
  then show ?thesis using r by (simp add: at_rest_def)
qed

text \<open>A semaphore is read by the loop with its number only.\<close>

lemma planner_sem_frame:
  "0 \<notin> set (loop_of t) \<Longrightarrow> planner_sem t (k\<lparr>threads := ts, process_in_new := n\<rparr>) = planner_sem t k"
  "1 \<notin> set (loop_of t) \<Longrightarrow> planner_sem t (k\<lparr>threads := ts, process_in_exit := n\<rparr>) = planner_sem t k"
  "2 \<notin> set (loop_of t) \<Longrightarrow> planner_sem t (k\<lparr>threads := ts, proceso_en_cola_ready := n\<rparr>) = planner_sem t k"
  "3 \<notin> set (loop_of t) \<Longrightarrow> planner_sem t (k\<lparr>threads := ts, executing_process := n\<rparr>) = planner_sem t k"
  "4 \<notin> set (loop_of t) \<Longrightarrow> planner_sem t (k\<lparr>threads := ts, freed_resource := n\<rparr>) = planner_sem t k"
  by (cases t; simp)+

text \<open>A planner that was told ends, and takes only its own post.\<close>

lemma told_planner_ends:
  assumes told: "told k" and i: "i < length (threads k)"
  shows "\<exists>k'. kernel_step env (LThread i q) k = Runs k' \<and> told k' \<and> Suc (length (threads k')) = length (threads k)"
proof -
  let ?t = "threads k ! i" and ?ts = "take i (threads k) @ drop (Suc i) (threads k)"
  have ts: "threads k = take i (threads k) @ ?t # drop (Suc i) (threads k)" by (rule id_take_nth_drop[OF i])
  have sub: "set ?ts \<subseteq> set (threads k)" by (auto dest: in_set_takeD in_set_dropD)
  have d: "distinct (concat (map loop_of (take i (threads k) @ ?t # drop (Suc i) (threads k))))"
    using told unfolding ts[symmetric] by (simp add: told_def)
  then have other: "set (loop_of t) \<inter> set (loop_of ?t) = {}" if "t \<in> set ?ts" for t using that by auto
  have d': "distinct (concat (map loop_of ?ts))" using d by auto
  obtain n where n: "planner_sem ?t k = Some (Suc n)" "\<not> working k"
    using told nth_mem[OF i] unfolding told_def by blast
  obtain k' where k': "thread_step env q ?t (remove_thread i k) = Runs k'" "threads k' = ?ts" "\<not> working k'"
    "\<And>t. set (loop_of t) \<inter> set (loop_of ?t) = {} \<Longrightarrow> planner_sem t k' = planner_sem t k"
  proof -
    have "\<exists>k'. thread_step env q ?t (remove_thread i k) = Runs k' \<and> threads k' = ?ts \<and> \<not> working k'
        \<and> (\<forall>t. set (loop_of t) \<inter> set (loop_of ?t) = {} \<longrightarrow> planner_sem t k' = planner_sem t k)"
    proof (cases ?t)
      case TLong
      then show ?thesis using n by (auto simp: remove_thread_def planificador_largo_plazo_def planner_sem_frame)
    qed (use n in \<open>auto simp: remove_thread_def atender_procesos_en_EXIT_def planificador_fifo_def planificador_rr_def
        planificador_prioridades_def execute_process_def unblock_loop_def planner_sem_frame\<close>)
    then show ?thesis using that by blast
  qed
  have "\<exists>n. planner_sem t k' = Some (Suc n)" if "t \<in> set ?ts" for t
    using that sub other[OF that] k'(4) told by (auto simp: told_def)
  then have "told k'" using k'(2,3) d' by (simp add: told_def)
  moreover have "Suc (length (threads k')) = length (threads k)" using i by (simp add: k'(2))
  ultimately show ?thesis using k'(1) i by simp
qed

section \<open>The memory frees its structures\<close>

fun destroy_page_tables :: "'b bitarray_ops \<Rightarrow> (u32 \<times> nat list) list \<Rightarrow> 'b memory \<Rightarrow> 'b memory option" where
  "destroy_page_tables ba [] m = Some m"
| "destroy_page_tables ba (t # ts) m = (case destroy_page_table ba t m of
      None \<Rightarrow> None | Some m \<Rightarrow> destroy_page_tables ba ts m)"

text \<open>
  \<open>deallocate_process\<close> is called on what is left in \<open>active_processes\<close>, and searches the list of page
  tables that \<open>destroy_page_tables\<close> has freed. The sorter is told to end.
\<close>

definition free_memory :: "'b bitarray_ops \<Rightarrow> 'b memory \<Rightarrow> 'b memory option" where
  "free_memory ba m = (case destroy_page_tables ba (page_tables m) (m\<lparr>sort_pages := sort_pages m + 1\<rparr>) of
      None \<Rightarrow> None
    | Some m \<Rightarrow> if active_processes m \<noteq> [] then None
        else Some (m\<lparr>page_tables := [], frames := [], pages_to_replace := []\<rparr>))"

section \<open>The modules while they end\<close>

text \<open>The detached threads, each at the \<open>recv\<close> of its socket.\<close>

datatype port_thread = FsMemory | FsKernel | MemFilesystem | MemKernel | MemCpu

record 'b ending =
  kernel_of :: kernel
  planners_told :: bool
  kernel_ended :: bool
  cpu_ended :: bool
  fs_ended :: bool
  mem_ended :: bool
  memory_cut :: bool
  alive :: "port_thread list"
  fs_wait :: nat
  fs_to_wait :: nat
  mem_wait :: nat
  mem_to_wait :: nat
  memory_of :: "'b memory"

text \<open>\<open>wait_in_every_port\<close> of both modules has started its threads and stands at the first \<open>sem_wait\<close>.\<close>

definition wait_in_every_port :: "kernel \<Rightarrow> 'b memory \<Rightarrow> 'b ending" where
  "wait_in_every_port k m = \<lparr>kernel_of = k, planners_told = False, kernel_ended = False, cpu_ended = False, fs_ended = False, mem_ended = False, memory_cut = False,
     alive = [FsMemory, FsKernel, MemFilesystem, MemKernel, MemCpu], fs_wait = 0, fs_to_wait = 2,
     mem_wait = 0, mem_to_wait = 3, memory_of = m\<rparr>"

text \<open>Whether \<open>recv\<close> gives \<open>0\<close> or \<open>-1\<close> to a thread: its peer has closed, or its module has cut the connection.\<close>

fun hung_up :: "port_thread \<Rightarrow> 'b ending \<Rightarrow> bool" where
  "hung_up FsMemory s = (memory_cut s \<or> mem_ended s)"
| "hung_up FsKernel s = kernel_ended s"
| "hung_up MemFilesystem s = (memory_cut s \<or> fs_ended s)"
| "hung_up MemKernel s = kernel_ended s"
| "hung_up MemCpu s = cpu_ended s"

text \<open>The end of a thread; the one for the kernel in the file system cuts the connection with the memory.\<close>

fun of_fs :: "port_thread \<Rightarrow> bool" where
  "of_fs FsMemory = True" | "of_fs FsKernel = True" | "of_fs t = False"

definition end_thread :: "port_thread \<Rightarrow> 'b ending \<Rightarrow> 'b ending" where
  "end_thread t s = (let s = (if t = FsKernel then s\<lparr>memory_cut := True\<rparr> else s); s = s\<lparr>alive := remove1 t (alive s)\<rparr> in
     if of_fs t then s\<lparr>fs_wait := fs_wait s + 1\<rparr> else s\<lparr>mem_wait := mem_wait s + 1\<rparr>)"

text \<open>What is left of each \<open>main\<close>. The end of a process closes its sockets.\<close>

definition close_conn :: "'b ending \<Rightarrow> 'b ending" where
  "close_conn s = s\<lparr>kernel_ended := True\<rparr>"

definition kernel_main :: "'b ending \<Rightarrow> 'b ending outcome" where
  "kernel_main s =
     (if kernel_ended s then Waits
      else if \<not> planners_told s then Runs (s\<lparr>planners_told := True, kernel_of := terminar_planificadores (kernel_of s)\<rparr>)
      else case destroy_estructuras_planificadores (kernel_of s) of
          None \<Rightarrow> Crashes
        | Some k \<Rightarrow> Runs (close_conn (s\<lparr>kernel_of := k\<rparr>)))"

text \<open>A step of the planner at position \<open>i\<close> while the kernel has not ended.\<close>

definition planner_ends :: "env \<Rightarrow> t_pcb \<Rightarrow> nat \<Rightarrow> 'b ending \<Rightarrow> 'b ending outcome" where
  "planner_ends env q i s =
     (if kernel_ended s then Waits
      else case kernel_step env (LThread i q) (kernel_of s) of
          Runs k \<Rightarrow> Runs (s\<lparr>kernel_of := k\<rparr>)
        | Waits \<Rightarrow> Waits
        | Crashes \<Rightarrow> Crashes)"

definition cpu_main :: "'b ending \<Rightarrow> 'b ending outcome" where
  "cpu_main s = (if cpu_ended s \<or> \<not> kernel_ended s then Waits else Runs (s\<lparr>cpu_ended := True\<rparr>))"

definition fs_main :: "'b ending \<Rightarrow> 'b ending outcome" where
  "fs_main s =
     (if fs_ended s then Waits
      else if fs_to_wait s = 0 then Runs (s\<lparr>fs_ended := True\<rparr>)
      else if fs_wait s = 0 then Waits
      else Runs (s\<lparr>fs_wait := fs_wait s - 1, fs_to_wait := fs_to_wait s - 1\<rparr>))"

definition mem_main :: "'b bitarray_ops \<Rightarrow> 'b ending \<Rightarrow> 'b ending outcome" where
  "mem_main ba s =
     (if mem_ended s then Waits
      else if mem_to_wait s = 0
      then (case free_memory ba (memory_of s) of
          None \<Rightarrow> Crashes
        | Some m \<Rightarrow> Runs (s\<lparr>mem_ended := True, memory_of := m\<rparr>))
      else if mem_wait s = 0 then Waits
      else Runs (s\<lparr>mem_wait := mem_wait s - 1, mem_to_wait := mem_to_wait s - 1\<rparr>))"

datatype actor = KernelMain | Planner nat t_pcb | CpuMain | FsMain | MemMain | PortThread port_thread

fun down_step :: "env \<Rightarrow> 'b bitarray_ops \<Rightarrow> actor \<Rightarrow> 'b ending \<Rightarrow> 'b ending outcome" where
  "down_step env ba KernelMain s = kernel_main s" | "down_step env ba (Planner i q) s = planner_ends env q i s"
| "down_step env ba CpuMain s = cpu_main s"
| "down_step env ba FsMain s = fs_main s" | "down_step env ba MemMain s = mem_main ba s"
| "down_step env ba (PortThread t) s = (if t \<notin> set (alive s) \<or> \<not> hung_up t s then Waits else Runs (end_thread t s))"

lemmas mains = kernel_main_def cpu_main_def fs_main_def mem_main_def close_conn_def

fun end_run :: "env \<Rightarrow> 'b bitarray_ops \<Rightarrow> actor list \<Rightarrow> 'b ending \<Rightarrow> 'b ending outcome" where
  "end_run env ba [] s = Runs s"
| "end_run env ba (a # as) s = (case down_step env ba a s of Runs s \<Rightarrow> end_run env ba as s | r \<Rightarrow> r)"

definition all_ended :: "'b ending \<Rightarrow> bool" where
  "all_ended s \<longleftrightarrow> threads (kernel_of s) = [] \<and> kernel_ended s \<and> cpu_ended s \<and> fs_ended s \<and> mem_ended s \<and> alive s = []"

section \<open>What holds on the way\<close>

text \<open>
  A thread that has not ended has not posted; nothing else ends before the kernel, and the kernel not
  before its planners.
\<close>

definition ending_inv :: "kernel \<Rightarrow> 'b memory \<Rightarrow> 'b ending \<Rightarrow> bool" where
  "ending_inv k m s \<longleftrightarrow> distinct (alive s)
     \<and> fs_to_wait s = length (filter of_fs (alive s)) + fs_wait s
     \<and> mem_to_wait s = length (filter (\<lambda>t. \<not> of_fs t) (alive s)) + mem_wait s
     \<and> (memory_cut s \<longleftrightarrow> FsKernel \<notin> set (alive s))
     \<and> (fs_ended s \<longrightarrow> fs_to_wait s = 0) \<and> (mem_ended s \<longrightarrow> mem_to_wait s = 0)
     \<and> (\<not> mem_ended s \<longrightarrow> memory_of s = m)
     \<and> (\<not> kernel_ended s \<longrightarrow> s = (wait_in_every_port k m)\<lparr>kernel_of := kernel_of s, planners_told := planners_told s\<rparr>
         \<and> (if planners_told s then told (kernel_of s) else kernel_of s = k))
     \<and> (kernel_ended s \<longrightarrow> threads (kernel_of s) = [])"

lemma inv_start: "ending_inv k m (wait_in_every_port k m)"
  by (simp add: ending_inv_def wait_in_every_port_def)

definition left_to_do :: "'b ending \<Rightarrow> nat" where
  "left_to_do s = length (threads (kernel_of s)) + of_bool (\<not> planners_told s \<and> \<not> kernel_ended s)
     + of_bool (\<not> kernel_ended s) + of_bool (\<not> cpu_ended s) + of_bool (\<not> fs_ended s) + of_bool (\<not> mem_ended s)
     + length (alive s) + fs_to_wait s + mem_to_wait s"

text \<open>The fields of the state before the kernel has ended.\<close>

lemma inv_before:
  assumes "ending_inv k m s" and "\<not> kernel_ended s"
  shows "alive s = [FsMemory, FsKernel, MemFilesystem, MemKernel, MemCpu]" "\<not> cpu_ended s" "\<not> fs_ended s" "\<not> mem_ended s"
    "\<not> memory_cut s" "fs_wait s = 0" "fs_to_wait s = 2" "mem_wait s = 0" "mem_to_wait s = 3" "memory_of s = m"
proof -
  have "s = (wait_in_every_port k m)\<lparr>kernel_of := kernel_of s, planners_told := planners_told s\<rparr>"
    using assms by (simp add: ending_inv_def)
  from arg_cong[OF this, of alive] arg_cong[OF this, of cpu_ended] arg_cong[OF this, of fs_ended] arg_cong[OF this, of mem_ended]
    arg_cong[OF this, of memory_cut] arg_cong[OF this, of fs_wait] arg_cong[OF this, of fs_to_wait]
    arg_cong[OF this, of mem_wait] arg_cong[OF this, of mem_to_wait] arg_cong[OF this, of memory_of]
  show "alive s = [FsMemory, FsKernel, MemFilesystem, MemKernel, MemCpu]" "\<not> cpu_ended s" "\<not> fs_ended s" "\<not> mem_ended s"
    "\<not> memory_cut s" "fs_wait s = 0" "fs_to_wait s = 2" "mem_wait s = 0" "mem_to_wait s = 3" "memory_of s = m"
    by (simp_all add: wait_in_every_port_def)
qed

lemma nobody_hung_up: "\<not> kernel_ended s \<Longrightarrow> ending_inv k m s \<Longrightarrow> \<not> hung_up t s"
  using inv_before[of k m s] by (cases t) simp_all

lemma length_filter_remove1:
  "t \<in> set ts \<Longrightarrow> length (filter P ts) = length (filter P (remove1 t ts)) + of_bool (P t)"
  by (induction ts) auto

text \<open>After the kernel has ended, only the fields of the other modules change.\<close>

lemma thread_ends:
  assumes i: "ending_inv k m s" and t: "t \<in> set (alive s)" "hung_up t s"
  shows "ending_inv k m (end_thread t s) \<and> left_to_do (end_thread t s) < left_to_do s"
proof -
  have k: "kernel_ended s" using nobody_hung_up[OF _ i] t(2) by blast
  have d: "distinct (alive s)" using i by (simp add: ending_inv_def)
  have l: "length (alive s) = Suc (length (remove1 t (alive s)))" using length_filter_remove1[OF t(1), of "\<lambda>t. True"] by simp
  note f = length_filter_remove1[OF t(1)]
  have "left_to_do (end_thread t s) < left_to_do s"
    using l by (cases t) (simp_all add: end_thread_def left_to_do_def)
  moreover have "ending_inv k m (end_thread t s)"
    using i k d f[of of_fs] f[of "\<lambda>t. \<not> of_fs t"]
    by (cases t) (auto simp: ending_inv_def end_thread_def simp del: length_0_conv)
  ultimately show ?thesis by simp
qed

definition advances :: "kernel \<Rightarrow> 'b memory \<Rightarrow> 'b ending \<Rightarrow> 'b ending outcome \<Rightarrow> bool" where
  "advances k m s r \<longleftrightarrow> (\<exists>s'. r = Runs s' \<and> ending_inv k m s' \<and> left_to_do s' < left_to_do s)"

lemma advances_Runs [simp]: "advances k m s (Runs s') \<longleftrightarrow> ending_inv k m s' \<and> left_to_do s' < left_to_do s"
  by (simp add: advances_def)

text \<open>The two ways to undefined behaviour: the release of the memory, and of semaphores in use.\<close>

definition in_use :: "actor \<Rightarrow> 'b ending \<Rightarrow> bool" where
  "in_use a s \<longleftrightarrow> a = KernelMain \<and> planners_told s \<and> \<not> kernel_ended s \<and> threads (kernel_of s) \<noteq> []"

lemma kernel_ends:
  assumes i: "ending_inv k m s" and r: "at_rest k"
  shows "kernel_main s = Waits \<or> kernel_main s = Crashes \<and> in_use KernelMain s \<or> advances k m s (kernel_main s)"
proof (cases "kernel_ended s")
  case False
  note b = inv_before[OF i False]
  have s: "s = (wait_in_every_port k m)\<lparr>kernel_of := kernel_of s, planners_told := planners_told s\<rparr>"
    using i False by (simp add: ending_inv_def)
  show ?thesis
  proof (cases "planners_told s")
    case False
    then have k: "kernel_of s = k" using i \<open>\<not> kernel_ended s\<close> by (simp add: ending_inv_def)
    let ?s = "s\<lparr>planners_told := True, kernel_of := terminar_planificadores (kernel_of s)\<rparr>"
    have "ending_inv k m ?s"
      using b \<open>\<not> kernel_ended s\<close> tell_planners[OF r] k by (subst s) (simp add: ending_inv_def wait_in_every_port_def)
    moreover have "left_to_do ?s < left_to_do s"
      using False \<open>\<not> kernel_ended s\<close> tell_planners[OF r] k by (simp add: left_to_do_def)
    ultimately show ?thesis using False \<open>\<not> kernel_ended s\<close> by (simp add: kernel_main_def)
  next
    case True
    show ?thesis
    proof (cases "threads (kernel_of s) = []")
      case True
      have e: "threads (the (destroy_estructuras_planificadores (kernel_of s))) = []"
        "destroy_estructuras_planificadores (kernel_of s) \<noteq> None"
        using True by (simp_all add: destroy_estructuras_planificadores_def Let_def destroy_executing_process_def)
      then obtain k' where k': "destroy_estructuras_planificadores (kernel_of s) = Some k'" "threads k' = []" by auto
      have "ending_inv k m (close_conn (s\<lparr>kernel_of := k'\<rparr>))" using b k'(2) by (simp add: ending_inv_def close_conn_def)
      moreover have "left_to_do (close_conn (s\<lparr>kernel_of := k'\<rparr>)) < left_to_do s"
        using \<open>\<not> kernel_ended s\<close> k'(2) by (simp add: left_to_do_def close_conn_def)
      ultimately show ?thesis using \<open>planners_told s\<close> k'(1) by (simp add: kernel_main_def)
    next
      case False
      then show ?thesis using \<open>planners_told s\<close> \<open>\<not> kernel_ended s\<close>
        by (simp add: kernel_main_def in_use_def destroy_estructuras_planificadores_def)
    qed
  qed
qed (simp add: kernel_main_def)

lemma planner_steps:
  assumes i: "ending_inv k m s" and r: "at_rest k"
  shows "planner_ends env q j s = Waits \<or> advances k m s (planner_ends env q j s)"
proof (cases "kernel_ended s \<or> \<not> planners_told s \<or> length (threads (kernel_of s)) \<le> j")
  case True
  then show ?thesis using i rest_waits[OF r, of env j q] by (auto simp: planner_ends_def ending_inv_def)
next
  case False
  then have f: "\<not> kernel_ended s" "planners_told s" "j < length (threads (kernel_of s))" by auto
  have s: "s = (wait_in_every_port k m)\<lparr>kernel_of := kernel_of s, planners_told := planners_told s\<rparr>" "told (kernel_of s)"
    using i f by (simp_all add: ending_inv_def)
  obtain k' where k': "kernel_step env (LThread j q) (kernel_of s) = Runs k'" "told k'"
    "Suc (length (threads k')) = length (threads (kernel_of s))"
    using told_planner_ends[OF s(2) f(3)] by blast
  have "ending_inv k m (s\<lparr>kernel_of := k'\<rparr>)"
    using inv_before[OF i f(1)] f k'(2) by (subst s(1)) (simp add: ending_inv_def wait_in_every_port_def)
  moreover have "left_to_do (s\<lparr>kernel_of := k'\<rparr>) < left_to_do s" using k'(3) by (simp add: left_to_do_def)
  ultimately show ?thesis using f(1) k'(1) by (simp add: planner_ends_def)
qed

lemma main_steps:
  assumes i: "ending_inv k m s" and r: "at_rest k"
  shows "down_step env ba a s = Waits \<or> down_step env ba a s = Crashes \<and> (free_memory ba m = None \<or> in_use a s)
    \<or> advances k m s (down_step env ba a s)"
proof (cases a)
  case KernelMain
  then show ?thesis using kernel_ends[OF i r] by auto
next
  case (Planner j q)
  then show ?thesis using planner_steps[OF i r, of env q j] by auto
next
  case CpuMain
  have "kernel_ended s \<Longrightarrow> ending_inv k m (s\<lparr>cpu_ended := True\<rparr>)" using i by (auto simp: ending_inv_def)
  then show ?thesis using CpuMain by (simp add: mains left_to_do_def)
next
  case FsMain
  have k: "kernel_ended s" if "fs_to_wait s = 0 \<or> 0 < fs_wait s"
    using inv_before(6,7)[OF i] that by (cases "kernel_ended s") simp_all
  have "ending_inv k m (s\<lparr>fs_ended := True\<rparr>)" if "fs_to_wait s = 0"
    using i k that by (auto simp: ending_inv_def simp del: length_0_conv)
  moreover have "ending_inv k m (s\<lparr>fs_wait := fs_wait s - 1, fs_to_wait := fs_to_wait s - 1\<rparr>)" if "0 < fs_wait s"
    using i k that by (auto simp: ending_inv_def simp del: length_0_conv)
  ultimately show ?thesis using FsMain by (cases "fs_to_wait s"; cases "fs_wait s") (simp_all add: mains left_to_do_def)
next
  case MemMain
  have k: "kernel_ended s" if "mem_to_wait s = 0 \<or> 0 < mem_wait s"
    using inv_before(8,9)[OF i] that by (cases "kernel_ended s") simp_all
  have "ending_inv k m (s\<lparr>mem_ended := True, memory_of := m'\<rparr>)" if "mem_to_wait s = 0" for m'
    using i k that by (auto simp: ending_inv_def simp del: length_0_conv)
  moreover have "ending_inv k m (s\<lparr>mem_wait := mem_wait s - 1, mem_to_wait := mem_to_wait s - 1\<rparr>)" if "0 < mem_wait s"
    using i k that by (auto simp: ending_inv_def simp del: length_0_conv)
  moreover have "\<not> mem_ended s \<Longrightarrow> memory_of s = m" using i by (simp add: ending_inv_def)
  ultimately show ?thesis
    using MemMain by (cases "mem_to_wait s"; cases "mem_wait s"; cases "free_memory ba m") (simp_all add: mains left_to_do_def)
next
  case (PortThread t)
  then show ?thesis using thread_ends[OF i, of t] by simp
qed

lemma nobody_left:
  assumes i: "ending_inv k m s" and w: "\<forall>a. down_step env ba a s = Waits"
  shows "all_ended s"
proof -
  have k: "kernel_ended s"
    using w[THEN spec, of KernelMain]
    by (auto simp: kernel_main_def split: if_splits option.splits)
  have gone: "t \<notin> set (alive s)" if "hung_up t s" for t
    using w[THEN spec, of "PortThread t"] that by (auto split: if_splits)
  have cpu: "cpu_ended s" using w[THEN spec, of CpuMain] k by (auto simp: mains split: if_splits)
  have "FsKernel \<notin> set (alive s)" using gone k by simp
  then have cut: "memory_cut s" using i by (simp add: ending_inv_def)
  have "t \<notin> set (alive s)" for t using gone[of t] cpu cut k by (cases t) simp_all
  then have alive: "alive s = []" by (cases "alive s") auto
  have "fs_to_wait s = fs_wait s" "mem_to_wait s = mem_wait s" using i alive by (simp_all add: ending_inv_def)
  then have "fs_ended s" "mem_ended s"
    using w[THEN spec, of FsMain] w[THEN spec, of MemMain] by (auto simp: mains split: if_splits option.splits)
  then show ?thesis using alive cpu k i by (simp add: all_ended_def ending_inv_def)
qed

lemma ending_runs:
  assumes "ending_inv k m s" and r: "at_rest k"
  shows "end_run env ba as s = Waits
    \<or> end_run env ba as s = Crashes
      \<and> (free_memory ba m = None \<or> (\<exists>bs a cs s'. as = bs @ a # cs \<and> end_run env ba bs s = Runs s' \<and> in_use a s'))
    \<or> (\<exists>s'. end_run env ba as s = Runs s' \<and> ending_inv k m s' \<and> left_to_do s' + length as \<le> left_to_do s)"
  using assms(1)
proof (induction "as" arbitrary: s)
  case (Cons a as)
  consider "down_step env ba a s = Waits" | "down_step env ba a s = Crashes" "free_memory ba m = None \<or> in_use a s"
    | s' where "down_step env ba a s = Runs s'" "ending_inv k m s'" "left_to_do s' < left_to_do s"
    using main_steps[OF Cons.prems r, of env ba a] by (auto simp: advances_def)
  then show ?case
  proof cases
    case 2
    have "\<exists>bs b cs t. a # as = bs @ b # cs \<and> end_run env ba bs s = Runs t \<and> in_use b t" if "in_use a s"
      using that by (intro exI[of _ "[]"] exI[of _ a] exI[of _ "as"] exI[of _ s]) simp
    then show ?thesis using 2 by auto
  next
    case 3
    have lift: "\<exists>bs b cs t. a # as = bs @ b # cs \<and> end_run env ba bs s = Runs t \<and> in_use b t"
      if "as = bs @ b # cs" "end_run env ba bs s' = Runs t" "in_use b t" for bs b cs t
      using that 3(1) by (intro exI[of _ "a # bs"] exI[of _ b] exI[of _ cs] exI[of _ t]) simp
    from Cons.IH[OF 3(2)]
    consider "end_run env ba as s' = Waits" | "end_run env ba as s' = Crashes" "free_memory ba m = None"
      | bs b cs t where "end_run env ba as s' = Crashes" "as = bs @ b # cs" "end_run env ba bs s' = Runs t" "in_use b t"
      | t where "end_run env ba as s' = Runs t" "ending_inv k m t" "left_to_do t + length as \<le> left_to_do s'" by metis
    then show ?thesis
    proof cases
      case 3
      then show ?thesis using \<open>down_step env ba a s = Runs s'\<close> lift[OF 3(2-4)] by simp
    qed (use 3(1,3) in auto)
  qed simp
qed simp

text \<open>
  C13. When the console of a kernel at rest is left (its threads are the loops of the planners, each
  waiting at its semaphore), the modules end in any order of their threads. Nothing ends before the
  kernel, at most 15 steps are done and one for each planner, and when nobody can go on all modules and
  threads have ended. Undefined behaviour is left in two places: the release of the memory, and the
  kernel, which does not wait for the planners before it destroys their semaphores, so that ending it
  at once is one.
\<close>

theorem modules_end:
  assumes "at_rest k"
  shows "(end_run env ba as (wait_in_every_port k m) = Crashes \<longrightarrow> free_memory ba m = None
      \<or> (\<exists>bs cs s. as = bs @ KernelMain # cs \<and> end_run env ba bs (wait_in_every_port k m) = Runs s
          \<and> planners_told s \<and> \<not> kernel_ended s \<and> threads (kernel_of s) \<noteq> []))
    \<and> (\<forall>s. end_run env ba as (wait_in_every_port k m) = Runs s \<longrightarrow> length as \<le> 15 + length (threads k)
      \<and> (\<not> kernel_ended s \<longrightarrow> s = (wait_in_every_port k m)\<lparr>kernel_of := kernel_of s, planners_told := planners_told s\<rparr>)
      \<and> ((\<forall>a. down_step env ba a s = Waits) \<longrightarrow> all_ended s))
    \<and> (threads k \<noteq> [] \<longrightarrow> end_run env ba [KernelMain, KernelMain] (wait_in_every_port k m) = Crashes)"
proof (intro conjI allI impI)
  note r = ending_runs[OF inv_start assms, of env ba "as" m]
  show "free_memory ba m = None
      \<or> (\<exists>bs cs s. as = bs @ KernelMain # cs \<and> end_run env ba bs (wait_in_every_port k m) = Runs s
          \<and> planners_told s \<and> \<not> kernel_ended s \<and> threads (kernel_of s) \<noteq> [])"
    if "end_run env ba as (wait_in_every_port k m) = Crashes"
    using r that by (auto simp: in_use_def)
  have "left_to_do (wait_in_every_port k m) = 15 + length (threads k)" by (simp add: left_to_do_def wait_in_every_port_def)
  then show "length as \<le> 15 + length (threads k)" if "end_run env ba as (wait_in_every_port k m) = Runs s" for s
    using r that by simp
  show "s = (wait_in_every_port k m)\<lparr>kernel_of := kernel_of s, planners_told := planners_told s\<rparr>"
    if "end_run env ba as (wait_in_every_port k m) = Runs s" "\<not> kernel_ended s" for s
    using r that by (simp add: ending_inv_def)
  show "all_ended s"
    if "end_run env ba as (wait_in_every_port k m) = Runs s" "\<forall>a. down_step env ba a s = Waits" for s
    using r that nobody_left[of k m s env ba] by simp
  show "end_run env ba [KernelMain, KernelMain] (wait_in_every_port k m) = Crashes" if "threads k \<noteq> []"
    using that tell_planners[OF assms]
    by (simp add: kernel_main_def wait_in_every_port_def destroy_estructuras_planificadores_def)
qed

section \<open>The memory at the end\<close>

text \<open>Without processes the structures are freed; a process that is left makes the memory use freed lists.\<close>

lemma free_memory_empty:
  "page_tables m = [] \<Longrightarrow> active_processes m = [] \<Longrightarrow> \<exists>m'. free_memory ba m = Some m'"
  by (simp add: free_memory_def)

lemma destroy_entries_processes: "destroy_entries ba as m = Some m' \<Longrightarrow> active_processes m' = active_processes m"
  by (induction "as" arbitrary: m)
    (auto simp: destroy_page_entry_def free_frame_def Let_def split: option.splits if_splits)

lemma destroy_page_tables_processes: "destroy_page_tables ba ts m = Some m' \<Longrightarrow> active_processes m' = active_processes m"
  by (induction ts arbitrary: m) (auto simp: destroy_page_table_def destroy_entries_processes split: option.splits)

lemma free_memory_in_use: "active_processes m \<noteq> [] \<Longrightarrow> free_memory ba m = None"
  by (auto simp: free_memory_def dest: destroy_page_tables_processes split: option.splits)

definition last_actors :: "actor list" where
  "last_actors = (let q = crear_pcb 0 ''p'' 0 0 in
     [KernelMain, Planner 4 q, Planner 0 q, Planner 2 q, Planner 0 q, Planner 0 q,
      KernelMain, PortThread MemKernel, PortThread FsKernel, CpuMain, MemMain, PortThread MemCpu, FsMain,
      PortThread MemFilesystem, PortThread FsMemory, MemMain, FsMain, MemMain, FsMain, MemMain])"

definition idle_memory :: "(nat \<Rightarrow> bool) memory" where
  "idle_memory = init_real_memory demo_bits 64 16 (replicate 64 0)"

definition resting :: kernel where
  "resting = empty_kernel\<lparr>threads := [TLong, TExit, TFifo, TExecute, TUnblock]\<rparr>"

definition everybody_gone :: "'b memory \<Rightarrow> 'b ending" where
  "everybody_gone m = \<lparr>kernel_of = empty_kernel\<lparr>working := False\<rparr>, planners_told = True, kernel_ended = True, cpu_ended = True,
     fs_ended = True, mem_ended = True, memory_cut = True,
     alive = [], fs_wait = 0, fs_to_wait = 0, mem_wait = 0, mem_to_wait = 0, memory_of = m\<rparr>"

lemmas planner_loops = planificador_largo_plazo_def atender_procesos_en_EXIT_def planificador_fifo_def
  execute_process_def unblock_loop_def

lemma last_run:
  "free_memory ba m = Some m' \<Longrightarrow> end_run env ba last_actors (wait_in_every_port resting m) = Runs (everybody_gone m')"
  by (simp add: last_actors_def Let_def wait_in_every_port_def end_thread_def everybody_gone_def mains planner_ends_def
      resting_def empty_kernel_def terminar_planificadores_def post_all_def remove_thread_def planner_loops
      destroy_estructuras_planificadores_def)

lemma gone_waits: "down_step env ba a (everybody_gone m) = Waits"
  by (cases a) (simp_all add: everybody_gone_def mains planner_ends_def)

lemma modules_end_witness:
  "\<forall>env. \<exists>s. end_run env demo_bits last_actors (wait_in_every_port resting idle_memory) = Runs s \<and> kernel_ended s \<and> all_ended s"
proof
  fix env
  obtain m' where m: "free_memory demo_bits idle_memory = Some m'"
    using free_memory_empty[of idle_memory] by (auto simp: idle_memory_def init_real_memory_def)
  have r: "end_run env demo_bits last_actors (wait_in_every_port resting idle_memory) = Runs (everybody_gone m')"
    by (rule last_run[OF m])
  have k: "kernel_ended (everybody_gone m')" by (simp add: everybody_gone_def)
  have "at_rest resting" by (simp add: at_rest_def resting_def empty_kernel_def)
  from modules_end[OF this, of env demo_bits last_actors idle_memory] r k gone_waits[of env demo_bits _ m']
  show "\<exists>s. end_run env demo_bits last_actors (wait_in_every_port resting idle_memory) = Runs s \<and> kernel_ended s \<and> all_ended s" by auto
qed

end
