(* ===== verification/Memory_Threads.thy ===== *)
theory Memory_Threads
  imports Virtual_Run Simulation Ports
begin

text \<open>
  The threads of the memory and of the file system side by side. The thread of the memory that
  listens to the file system waits in the middle of a replacement for the answer to \<open>UPDATE_SWAP\<close>, and
  meanwhile the threads for the kernel and the CPU, the sorter and the file system go on. The state
  has the messages that are under way in both directions.
\<close>

section \<open>A load in two parts\<close>

text \<open>
  The thread for the file system at its \<open>receive_op_code\<close>, in \<open>update_page\<close> (with the victim, the page to
  load and its data), or gone.
\<close>

datatype swap_thread = Listening | AwaitsUpdate nat nat "u8 list" | Ended

text \<open>What is left of \<open>page_replace\<close> and of \<open>GET_FROM_SWAP\<close> when \<open>update_page\<close> returns.\<close>

definition finish_replacement :: "nat \<Rightarrow> nat \<Rightarrow> u8 list \<Rightarrow> 'b memory \<Rightarrow> 'b memory option" where
  "finish_replacement w a data m = do {
     e \<leftarrow> store m w;
     m \<leftarrow> swap_in a (frame_number e) data (set_entry w (e\<lparr>bit_precense := False, bit_modified := False\<rparr>) m);
     Some (reply PKernel (create_integer_package 11 0) m) }"

definition start_replacement :: "nat \<Rightarrow> u8 list \<Rightarrow> 'b memory \<Rightarrow> ('b memory \<times> swap_thread) option" where
  "start_replacement a data m = (case list_remove_first (pages_to_replace m) of
      (None, _) \<Rightarrow> None
    | (Some w, rest) \<Rightarrow> (let m = m\<lparr>pages_to_replace := rest\<rparr> in do {
        e \<leftarrow> store m w;
        (if bit_modified e then map_option (\<lambda>m. (m, AwaitsUpdate w a data)) (update_page w m)
         else map_option (\<lambda>m. (m, Listening)) (finish_replacement w a data m)) }))"

text \<open>\<open>GET_FROM_SWAP\<close> until it waits or ends.\<close>

definition start_load :: "'b mem_env \<Rightarrow> u8 list \<Rightarrow> 'b memory \<Rightarrow> ('b memory \<times> swap_thread) option" where
  "start_load env data m = (case list_remove_first (list_page m) of
      (None, _) \<Rightarrow> Some (reply PKernel (create_integer_package 11 0) m, Listening)
    | (Some pg, rest) \<Rightarrow> (case check_available_frames (bits env) (m\<lparr>list_page := rest\<rparr>) of (result, m) \<Rightarrow>
        (case get_page (pag_pid pg) (sint (page_number pg)) m of
           Some (Some a) \<Rightarrow> (case result of
             Some f \<Rightarrow> map_option (\<lambda>m. (reply PKernel (create_integer_package 11 0) m, Listening))
               (load_page_in_free_space (bits env) a f data m)
           | None \<Rightarrow> start_replacement a data m)
         | _ \<Rightarrow> None)))"

text \<open>Together the two parts are the handler of the theory \<open>Memory\<close>.\<close>

definition finish_load :: "'b memory \<times> swap_thread \<Rightarrow> 'b memory option" where
  "finish_load r = (case r of (m, AwaitsUpdate w a data) \<Rightarrow> finish_replacement w a data m | (m, _) \<Rightarrow> Some m)"

lemma update_page_store: "update_page w m = Some m' \<Longrightarrow> store m' = store m"
  by (auto simp: update_page_def bind_eq_Some_conv mem_send_def)

lemma page_replace_in_two:
  "map_option (reply PKernel (create_integer_package 11 0)) (page_replace a data m)
     = Option.bind (start_replacement a data m) finish_load"
proof (cases "pages_to_replace m")
  case (Cons w rest)
  let ?m = "m\<lparr>pages_to_replace := rest\<rparr>"
  show ?thesis
  proof (cases "store m w")
    case (Some e)
    have f: "Option.bind (swap_out w ?m) (\<lambda>m. Option.bind (store m w) (\<lambda>e. swap_in a (frame_number e) data m))
        = Option.bind (if bit_modified e then update_page w ?m else Some ?m) (\<lambda>m1. swap_in a (frame_number e) data
             (set_entry w (e\<lparr>bit_precense := False, bit_modified := False\<rparr>) m1))"
      using Some by (auto simp: swap_out_def set_entry_def Option.bind_assoc intro!: bind_option_cong)
    show ?thesis
    proof (cases "bit_modified e")
      case True
      then show ?thesis using Some Cons f update_page_store[of w ?m]
        by (cases "update_page w ?m") (auto simp: page_replace_def start_replacement_def list_remove_first_def Let_def
            finish_load_def finish_replacement_def map_conv_bind_option comp_def simp flip: f)
    next
      case False
      then show ?thesis using Some Cons f
        by (auto simp: page_replace_def start_replacement_def list_remove_first_def Let_def
            finish_load_def finish_replacement_def map_conv_bind_option comp_def)
    qed
  qed (simp add: page_replace_def start_replacement_def list_remove_first_def Cons swap_out_def)
qed (simp add: page_replace_def start_replacement_def list_remove_first_def)

lemma load_in_two: "load_page_reply env data m = Option.bind (start_load env data m) finish_load"
proof (cases "list_page m")
  case (Cons pg rest)
  obtain result m1 where c: "check_available_frames (bits env) (m\<lparr>list_page := rest\<rparr>) = (result, m1)" by force
  show ?thesis
    using page_replace_in_two[of _ data m1] Cons c
    by (auto simp: load_page_reply_def start_load_def list_remove_first_def load_page_def finish_load_def
        map_conv_bind_option comp_def split: option.split)
qed (simp add: load_page_reply_def start_load_def list_remove_first_def finish_load_def)

section \<open>The two modules and what is under way between them\<close>

record 'b net =
  net_mem :: "'b memory"
  net_fs :: filesystem
  to_fs :: "mem_msg list"
  to_mem :: "fs_msg list"
  swap_thr :: swap_thread
  fs_listens :: bool

text \<open>
  A turn: the threads of the memory for the kernel and for the CPU handle a message of their peer, the
  sorter runs, the file system takes the next message of the memory (its thread \<open>MRY\<close>) or one of the
  kernel (\<open>KRL\<close>), or the thread of the memory for the file system takes its next message.
\<close>

datatype turn_of = KernelTurn mem_command | CpuTurn mem_command | SorterTurn | FsTurn | FsKernelTurn fs_command | SwapTurn

fun from_kernel :: "mem_command \<Rightarrow> bool" where
  "from_kernel (CREATE_PROCESS_CMD p) = True" | "from_kernel (LOAD_PAGE pg) = True" | "from_kernel (END_PROCESS p) = True"
| "from_kernel (ECHO_MEMORY s) = True" | "from_kernel _ = False"

fun from_cpu :: "mem_command \<Rightarrow> bool" where
  "from_cpu (PAGE_NUMBER pg) = True" | "from_cpu (FETCH_INSTRUCTION p) = True" | "from_cpu (MOV_IN pg) = True"
| "from_cpu (MOV_OUT d) = True" | "from_cpu (ECHO_MEMORY s) = True" | "from_cpu _ = False"

fun fs_kernel_command :: "fs_command \<Rightarrow> bool" where
  "fs_kernel_command (F_OPEN p) = True" | "fs_kernel_command (F_CREATE p) = True" | "fs_kernel_command (F_TRUNCATE p) = True"
| "fs_kernel_command (F_READ p) = True" | "fs_kernel_command (F_WRITE p) = True"
| "fs_kernel_command (ECHO_FILESYSTEM s) = True" | "fs_kernel_command _ = False"

text \<open>The new state of one of the modules, with what it sent to the other.\<close>

definition mem_moves :: "'b memory \<Rightarrow> 'b net \<Rightarrow> 'b net" where
  "mem_moves m n = n\<lparr>net_mem := m,
     to_fs := to_fs n @ map snd (filter (\<lambda>(p, _). p = PFilesystem) (new_messages (net_mem n) m))\<rparr>"

definition fs_moves :: "filesystem \<Rightarrow> 'b net \<Rightarrow> 'b net" where
  "fs_moves s n = n\<lparr>net_fs := s,
     to_mem := to_mem n @ map snd (filter (\<lambda>(p, _). p = MemorySocket) (drop (length (fs_sent (net_fs n))) (fs_sent s)))\<rparr>"

text \<open>
  The thread for the file system. In \<open>update_page\<close> it takes whatever comes next as the answer and uses
  four bytes of its body; at its loop it stops at a code it does not know.
\<close>

definition first_bytes :: "fs_msg \<Rightarrow> bool" where
  "first_bytes msg = (case msg of FsPackage pkg \<Rightarrow> rd_u32 (buffer pkg) \<noteq> None | _ \<Rightarrow> True)"

definition swap_turn :: "'b vm_env \<Rightarrow> fs_msg \<Rightarrow> 'b net \<Rightarrow> 'b net option" where
  "swap_turn v msg n = (case swap_thr n of
      Ended \<Rightarrow> None
    | AwaitsUpdate w a data \<Rightarrow> if first_bytes msg
        then map_option (\<lambda>m. (mem_moves m n)\<lparr>swap_thr := Listening\<rparr>) (finish_replacement w a data (net_mem n))
        else None
    | Listening \<Rightarrow> (case input_command (FromFs msg) of
          None \<Rightarrow> Some (n\<lparr>swap_thr := Ended\<rparr>)
        | Some (GET_FROM_SWAP data) \<Rightarrow>
            map_option (\<lambda>(m, t). (mem_moves m n)\<lparr>swap_thr := t\<rparr>) (start_load (mem_env v) data (net_mem n))
        | Some c \<Rightarrow> map_option (\<lambda>m. mem_moves m n) (wait_for_command (mem_env v) PFilesystem c (net_mem n))))"

fun net_step :: "'b vm_env \<Rightarrow> turn_of \<Rightarrow> 'b net \<Rightarrow> 'b net outcome" where
  "net_step v (KernelTurn c) n = (if \<not> from_kernel c then Waits
     else or_crash (map_option (\<lambda>m. mem_moves m n) (wait_for_command (mem_env v) PKernel c (net_mem n))))"
| "net_step v (CpuTurn c) n = (if \<not> from_cpu c then Waits
     else or_crash (map_option (\<lambda>m. mem_moves m n) (wait_for_command (mem_env v) PCpu c (net_mem n))))"
| "net_step v SorterTurn n = (case sorter_step (equals_ignore_case v) (replacement_algorithm v) (net_mem n) of
      None \<Rightarrow> Waits | Some r \<Rightarrow> or_crash (map_option (\<lambda>m. mem_moves m n) r))"
| "net_step v FsTurn n = (case to_fs n of
      [] \<Rightarrow> Waits
    | msg # rest \<Rightarrow> if \<not> fs_listens n then Waits
        else (case file_command msg of
            None \<Rightarrow> Runs (n\<lparr>fs_listens := False, to_fs := rest\<rparr>)
          | Some c \<Rightarrow> or_crash (map_option (\<lambda>s. fs_moves s (n\<lparr>to_fs := rest\<rparr>))
              (wait_for_commands (fs_env v) (fs_config v) MRY c (net_fs n)))))"
| "net_step v (FsKernelTurn c) n = (if \<not> fs_kernel_command c then Waits
     else or_crash (map_option (\<lambda>s. fs_moves s n) (wait_for_commands (fs_env v) (fs_config v) KRL c (net_fs n))))"
| "net_step v SwapTurn n = (case to_mem n of
      [] \<Rightarrow> Waits
    | msg # rest \<Rightarrow> if swap_thr n = Ended then Waits else or_crash (swap_turn v msg (n\<lparr>to_mem := rest\<rparr>)))"

declare net_step.simps [simp del]

fun net_run :: "'b vm_env \<Rightarrow> turn_of list \<Rightarrow> 'b net \<Rightarrow> 'b net outcome" where
  "net_run v [] n = Runs n"
| "net_run v (t # ts) n = (case net_step v t n of Runs n \<Rightarrow> net_run v ts n | r \<Rightarrow> r)"

section \<open>One fault at a time\<close>

abbreviation page_loaded :: "port \<times> mem_msg" where
  "page_loaded \<equiv> (PKernel, MPackage (create_integer_package 11 0))"

lemma swap_in_sent: "swap_in a f data m = Some m' \<Longrightarrow> mem_sent m' = mem_sent m"
  by (auto simp: swap_in_def bind_eq_Some_conv write_on_frame_def set_entry_def split: if_splits)

lemma finish_sent: "finish_replacement w a data m = Some m' \<Longrightarrow> mem_sent m' = mem_sent m @ [page_loaded]"
  by (auto simp: finish_replacement_def bind_eq_Some_conv set_entry_def dest!: swap_in_sent)

text \<open>A turn that loads ends with the answer to the kernel, or waits with the copy of the victim sent.\<close>

definition loads_or_waits :: "u8 list \<Rightarrow> 'b memory \<Rightarrow> 'b memory \<times> swap_thread \<Rightarrow> bool" where
  "loads_or_waits data m r \<longleftrightarrow> snd r = Listening \<and> mem_sent (fst r) = mem_sent m @ [page_loaded]
     \<or> (\<exists>w a d. snd r = AwaitsUpdate w a data \<and> mem_sent (fst r) = mem_sent m @ [(PFilesystem, MSwapPage 13 d)])"

lemma start_replacement_sent:
  assumes "start_replacement a data m = Some r"
  shows "loads_or_waits data m r"
proof -
  obtain w rest e where w: "pages_to_replace m = w # rest" and e: "store m w = Some e"
    using assms by (cases "pages_to_replace m") (auto simp: start_replacement_def list_remove_first_def Let_def bind_eq_Some_conv)
  show ?thesis
  proof (cases "bit_modified e")
    case True
    then obtain m1 where m1: "update_page w (m\<lparr>pages_to_replace := rest\<rparr>) = Some m1" "r = (m1, AwaitsUpdate w a data)"
      using assms w e by (auto simp: start_replacement_def list_remove_first_def Let_def)
    then show ?thesis by (auto simp: loads_or_waits_def update_page_def bind_eq_Some_conv mem_send_def)
  next
    case False
    then obtain m1 where m1: "finish_replacement w a data (m\<lparr>pages_to_replace := rest\<rparr>) = Some m1" "r = (m1, Listening)"
      using assms w e by (auto simp: start_replacement_def list_remove_first_def Let_def)
    then show ?thesis using finish_sent[OF m1(1)] by (simp add: loads_or_waits_def)
  qed
qed

lemma start_load_sent:
  assumes "start_load env data m = Some r"
  shows "loads_or_waits data m r"
proof (cases "list_page m")
  case Nil
  then show ?thesis using assms by (auto simp: start_load_def list_remove_first_def loads_or_waits_def reply_def mem_send_def)
next
  case (Cons pg rest)
  obtain result m1 where c: "check_available_frames (bits env) (m\<lparr>list_page := rest\<rparr>) = (result, m1)" by force
  then have ms: "mem_sent m1 = mem_sent m" by (auto simp: check_available_frames_def split: option.splits)
  obtain a where a: "get_page (pag_pid pg) (sint (page_number pg)) m1 = Some (Some a)"
    using assms c Cons by (auto simp: start_load_def list_remove_first_def split: option.splits)
  show ?thesis
  proof (cases result)
    case None
    then have "start_replacement a data m1 = Some r" using assms c Cons a by (simp add: start_load_def list_remove_first_def)
    from start_replacement_sent[OF this] show ?thesis by (simp add: loads_or_waits_def ms)
  next
    case (Some f)
    then obtain m2 where m2: "load_page_in_free_space (bits env) a f data m1 = Some m2"
      "r = (reply PKernel (create_integer_package 11 0) m2, Listening)"
      using assms c Cons a by (auto simp: start_load_def list_remove_first_def)
    then have "mem_sent m2 = mem_sent m1" using swap_in_sent by (fastforce simp: load_page_in_free_space_def)
    then show ?thesis using m2(2) ms by (simp add: loads_or_waits_def)
  qed
qed

lemma load_page_sent:
  assumes "wait_for_command env PKernel (LOAD_PAGE pg) m = Some m1"
  shows "\<exists>pos. mem_sent m1 = mem_sent m @ [(PFilesystem, MPackage (create_integer_package 12 pos))]"
  using assms by (auto simp: load_page_request_def referenced_def reference_page_def bind_eq_Some_conv get_page_info_def
      mem_send_def split: option.splits)

lemma package_int_integer [simp]: "package_int (create_integer_package c v) = Some v"
  by (simp add: package_int_def create_integer_package_def create_empty_package_def u32_codec.dec_enc_nil)

lemma op_code_integer [simp]: "op_code (create_integer_package c v) = c"
  by (simp add: create_integer_package_def create_empty_package_def)

lemma void_package [simp]: "op_code (create_void_package c n d) = c" "buffer (create_void_package c n d) = d"
  by (simp_all add: create_void_package_def create_empty_package_def)

lemma fs_turn:
  assumes "wait_for_commands (fs_env v) (fs_config v) MRY c f = Some s" and "net_fs n = f"
    and "to_fs n = msg # rest" and "fs_listens n" and "file_command msg = Some c"
  shows "net_step v FsTurn n = Runs (fs_moves s (n\<lparr>to_fs := rest\<rparr>))"
  using assms by (simp add: net_step.simps(4) or_crash_def del: wait_for_commands.simps)

lemma asks_and_is_answered:
  assumes quiet: "to_fs n = []" "to_mem n = []" "fs_listens n"
    and m1: "wait_for_command (mem_env v) PKernel (LOAD_PAGE pg) (net_mem n) = Some m1"
    and d1: "deliver (fs_env v) (fs_config v) (new_messages (net_mem n) m1) (net_fs n) = Some s1" and dat: "swap_data s1 = Some data"
    and ans: "ans = FsPackage (create_void_package 12 (word_of_int (block_size (fs_config v))) data)"
  shows "net_run v (KernelTurn (LOAD_PAGE pg) # FsTurn # ts) n = net_run v ts (n\<lparr>net_mem := m1, net_fs := s1, to_fs := [], to_mem := [ans]\<rparr>)"
proof -
  let ?fse = "fs_env v" and ?cfg = "fs_config v"
  obtain pos where pos: "mem_sent m1 = mem_sent (net_mem n) @ [(PFilesystem, MPackage (create_integer_package 12 pos))]"
    using load_page_sent[OF m1] by blast
  let ?n1 = "n\<lparr>net_mem := m1, to_fs := [MPackage (create_integer_package 12 pos)]\<rparr>"
  have r1: "net_step v (KernelTurn (LOAD_PAGE pg)) n = Runs ?n1"
    using m1 pos quiet by (simp add: net_step.simps(1) or_crash_def mem_moves_def new_messages_def)
  have w1: "wait_for_commands ?fse ?cfg MRY (GET_FROM_SWAP_FS pos) (net_fs n) = Some s1"
    using d1 pos by (auto simp: new_messages_def bind_eq_Some_conv create_integer_package_def create_empty_package_def u32_codec.dec_enc_nil)
  have s1: "fs_sent s1 = fs_sent (net_fs n) @ [(MemorySocket, ans)]"
    using w1 dat by (auto simp: fs_send_def swap_data_def ans)
  have "net_step v FsTurn ?n1 = Runs (?n1\<lparr>net_fs := s1, to_fs := [], to_mem := [ans]\<rparr>)"
    using fs_turn[OF w1, of ?n1 _ "[]"] s1 quiet by (simp add: fs_moves_def)
  then show ?thesis using r1 quiet by simp
qed

lemma victim_is_saved:
  assumes quiet: "to_mem n = []" "fs_listens n" and n: "to_fs n = [MSwapPage 13 d]" "swap_thr n = AwaitsUpdate w a data"
    and w: "wait_for_commands (fs_env v) (fs_config v) MRY (UPDATE_SWAP d) (net_fs n) = Some s'"
    and fin: "finish_replacement w a data (net_mem n) = Some m2"
  shows "net_run v [FsTurn, SwapTurn] n = Runs (n\<lparr>net_mem := m2, net_fs := s', to_fs := [], swap_thr := Listening\<rparr>)"
proof -
  have m2: "mem_sent m2 = mem_sent (net_mem n) @ [page_loaded]" by (rule finish_sent[OF fin])
  let ?ans = "FsPackage (create_integer_package 13 0)"
  have s': "fs_sent s' = fs_sent (net_fs n) @ [(MemorySocket, ?ans)]" using w by (auto simp: fs_reply_def fs_send_def)
  have r4: "net_step v FsTurn n = Runs (n\<lparr>net_fs := s', to_fs := [], to_mem := [?ans]\<rparr>)"
    using fs_turn[OF w, of n _ "[]"] s' quiet n by (simp add: fs_moves_def)
  have "first_bytes ?ans" using package_int_integer[of 13 0] by (auto simp: first_bytes_def package_int_def)
  then have "net_step v SwapTurn (n\<lparr>net_fs := s', to_fs := [], to_mem := [?ans]\<rparr>)
      = Runs (n\<lparr>net_mem := m2, net_fs := s', to_fs := [], to_mem := [], swap_thr := Listening\<rparr>)"
    using fin n m2 by (simp add: net_step.simps(6) or_crash_def swap_turn_def mem_moves_def new_messages_def)
  then show ?thesis using r4 quiet by simp
qed

text \<open>
  C17. With no other message under way, the turns of the threads that follow a request of a page are
  the sequential service of the theory \<open>Virtual_Memory\<close>: one exchange with the file system, or two
  when the victim had been modified, and both modules end as there.
\<close>

theorem one_fault_is_served_in_sequence:
  assumes quiet: "to_fs n = []" "to_mem n = []" "swap_thr n = Listening" "fs_listens n"
    and s: "fault_service (mem_env v) (fs_env v) (fs_config v) pg (net_mem n) (net_fs n) = Some (m', s')"
  shows "\<exists>k n'. k \<le> 2 \<and> net_run v (KernelTurn (LOAD_PAGE pg) # concat (replicate k [FsTurn, SwapTurn])) n = Runs n'
     \<and> net_mem n' = m' \<and> net_fs n' = s' \<and> to_fs n' = [] \<and> to_mem n' = [] \<and> swap_thr n' = Listening"
proof -
  let ?env = "mem_env v" and ?fse = "fs_env v" and ?cfg = "fs_config v"
  obtain m1 s1 data m2 where m1: "wait_for_command ?env PKernel (LOAD_PAGE pg) (net_mem n) = Some m1"
    and d1: "deliver ?fse ?cfg (new_messages (net_mem n) m1) (net_fs n) = Some s1" and dat: "swap_data s1 = Some data"
    and m2: "wait_for_command ?env PFilesystem (GET_FROM_SWAP data) m1 = Some m2"
    and d2: "deliver ?fse ?cfg (new_messages m1 m2) s1 = Some s'" and m': "m' = m2"
    using s by (auto simp: fault_service_def bind_eq_Some_conv)
  let ?answer = "FsPackage (create_void_package 12 (word_of_int (block_size ?cfg)) data)"
  let ?n2 = "n\<lparr>net_mem := m1, net_fs := s1, to_fs := [], to_mem := [?answer]\<rparr>"
  note r2 = asks_and_is_answered[OF quiet(1,2,4) m1 d1 dat refl]
  obtain m3 t where t: "start_load ?env data m1 = Some (m3, t)" and fin: "finish_load (m3, t) = Some m2"
    using m2 by (auto simp: load_in_two bind_eq_Some_conv)
  have r3: "net_step v SwapTurn ?n2 = Runs ((mem_moves m3 (?n2\<lparr>to_mem := []\<rparr>))\<lparr>swap_thr := t\<rparr>)"
    using quiet t by (simp add: net_step.simps(6) or_crash_def swap_turn_def)
  consider "t = Listening" "mem_sent m3 = mem_sent m1 @ [page_loaded]"
    | w a d where "t = AwaitsUpdate w a data" "mem_sent m3 = mem_sent m1 @ [(PFilesystem, MSwapPage 13 d)]"
    using start_load_sent[OF t] by (auto simp: loads_or_waits_def)
  then show ?thesis
  proof cases
    case 1
    then have "m2 = m3" using fin by (simp add: finish_load_def)
    moreover from this have "s' = s1" using d2 1 by (simp add: new_messages_def)
    ultimately have "net_step v SwapTurn ?n2 = Runs (?n2\<lparr>net_mem := m', net_fs := s', to_mem := [], swap_thr := Listening\<rparr>)"
      using r3 1 m' quiet by (simp add: mem_moves_def new_messages_def)
    then have "net_run v [KernelTurn (LOAD_PAGE pg), FsTurn, SwapTurn] n
        = Runs (?n2\<lparr>net_mem := m', net_fs := s', to_mem := [], swap_thr := Listening\<rparr>)" unfolding r2 by simp
    then show ?thesis using quiet by (intro exI[of _ 1]) (simp del: net_run.simps)
  next
    case 2
    let ?n3 = "?n2\<lparr>net_mem := m3, to_fs := [MSwapPage 13 d], to_mem := [], swap_thr := t\<rparr>"
    have r3: "net_step v SwapTurn ?n2 = Runs ?n3" using r3 2 by (simp add: mem_moves_def new_messages_def)
    have fin: "finish_replacement w a data m3 = Some m2" using fin 2 by (simp add: finish_load_def)
    then have m2s: "mem_sent m2 = mem_sent m3 @ [page_loaded]" by (rule finish_sent)
    have w2: "wait_for_commands ?fse ?cfg MRY (UPDATE_SWAP d) s1 = Some s'"
      using d2 2 m2s by (auto simp: new_messages_def bind_eq_Some_conv)
    have r5: "net_run v [FsTurn, SwapTurn] ?n3 = Runs (?n3\<lparr>net_mem := m2, net_fs := s', to_fs := [], swap_thr := Listening\<rparr>)"
      by (rule victim_is_saved) (use quiet 2(1) w2 fin in simp_all)
    have "net_run v [KernelTurn (LOAD_PAGE pg), FsTurn, SwapTurn, FsTurn, SwapTurn] n
        = Runs (?n3\<lparr>net_mem := m', net_fs := s', to_fs := [], swap_thr := Listening\<rparr>)"
      unfolding r2 using r3 r5 m' by simp
    then show ?thesis by (intro exI[of _ 2]) (simp add: numeral_2_eq_2 del: net_run.simps)
  qed
qed

definition demo_net :: "(nat \<Rightarrow> bool) net" where
  "demo_net = \<lparr>net_mem = demo_vm, net_fs = demo_fs, to_fs = [], to_mem = [], swap_thr = Listening, fs_listens = True\<rparr>"

theorem one_fault_is_served_in_sequence_witness:
  "\<exists>k n'. net_run demo_vm_run (KernelTurn (LOAD_PAGE (page_new 1 1 0)) # concat (replicate k [FsTurn, SwapTurn])) demo_net = Runs n'
     \<and> (\<exists>f. resident (net_mem n') 1 f)"
proof -
  have v: "mem_env demo_vm_run = demo_vm_env" "fs_env demo_vm_run = demo_fs_env" "fs_config demo_vm_run = demo_cfg"
    "bits demo_vm_env = demo_bits" by (simp_all add: demo_vm_run_def demo_vm_env_def)
  have n: "net_mem demo_net = demo_vm" "net_fs demo_net = demo_fs" "to_fs demo_net = []" "to_mem demo_net = []"
    "swap_thr demo_net = Listening" "fs_listens demo_net" by (simp_all add: demo_net_def)
  have e: "store demo_vm 1 = Some (page_create 1 False False 0 1 1)" "\<not> bit_precense (page_create 1 False False 0 1 1)"
    by (simp_all add: demo_vm_def page_create_def)
  have p: "get_page (pag_pid (page_new 1 1 0)) (sint (page_number (page_new 1 1 0))) demo_vm = Some (Some 1)"
    using demo_vm_ok(5) by (simp add: page_new_def)
  obtain m' s' f where "fault_service demo_vm_env demo_fs_env demo_cfg (page_new 1 1 0) demo_vm demo_fs = Some (m', s')" "resident m' 1 f"
    using fault_is_served[of demo_vm_env demo_cfg demo_vm demo_fs "page_new 1 1 0" 1, unfolded v,
        OF demo_bits_laws demo_vm_ok(1-4) p e, of demo_fs_env] by blast
  then show ?thesis
    using one_fault_is_served_in_sequence[OF n(3-6), of demo_vm_run "page_new 1 1 0" m' s'] unfolding v n by blast
qed

section \<open>Turns\<close>

text \<open>The memory after a request of the kernel, and the data that the file system sends.\<close>

definition requested :: "'b memory \<Rightarrow> t_pag \<Rightarrow> nat \<Rightarrow> c_int \<Rightarrow> 'b memory" where
  "requested m pg a pos = mem_send PFilesystem (MPackage (create_integer_package 12 pos))
     (m\<lparr>list_page := list_page m @ [pg], last_page_referenced := Some a, sort_pages := sort_pages m + 1\<rparr>)"

abbreviation page_data :: "t_fs_config \<Rightarrow> u8 list \<Rightarrow> fs_msg" where
  "page_data cfg d \<equiv> FsPackage (create_void_package 12 (word_of_int (block_size cfg)) d)"

lemma requested_simps [simp]:
  "store (requested m pg a pos) = store m" "page_size (requested m pg a pos) = page_size m"
  "frame_table (requested m pg a pos) = frame_table m" "total_frames (requested m pg a pos) = total_frames m"
  "pages_to_replace (requested m pg a pos) = pages_to_replace m" "list_page (requested m pg a pos) = list_page m @ [pg]"
  "frame_content (requested m pg a pos) f = frame_content m f" "resident (requested m pg a pos) b f = resident m b f"
  "get_page p i (requested m pg a pos) = get_page p i m" "frames_ok ba (requested m pg a pos) = frames_ok ba m"
  "mem_sent (requested m pg a pos) = mem_sent m @ [(PFilesystem, MPackage (create_integer_package 12 pos))]"
  "page_tables (requested m pg a pos) = page_tables m" "frames (requested m pg a pos) = frames m"
  by (simp_all add: requested_def mem_send_def total_frames_def frame_content_def read_frame_def resident_def
      get_page_def search_page_table_def frames_ok_def)

lemma requested_keeps [simp]:
  "paging_ok ba cfg (requested m pg a pos) s = paging_ok ba cfg m s"
  "contents cfg (requested m pg a pos) s b = contents cfg m s b"
  by (simp_all add: paging_ok_def contents_def split: option.split)

lemma request_turn:
  assumes "get_page (pag_pid pg) (sint (page_number pg)) (net_mem n) = Some (Some a)" and "store (net_mem n) a = Some e"
  shows "net_step v (KernelTurn (LOAD_PAGE pg)) n = Runs (n\<lparr>net_mem := requested (net_mem n) pg a (swap_position e),
     to_fs := to_fs n @ [MPackage (create_integer_package 12 (swap_position e))]\<rparr>)"
  using wait_for_command_load[OF assms, of "mem_env v"]
  by (simp add: net_step.simps(1) or_crash_def mem_moves_def new_messages_def requested_def mem_send_def)

lemma answer_turn:
  assumes "to_fs n = MPackage (create_integer_package 12 pos) # rest" and "fs_listens n"
    and "map_ok (fs_config v) (block_map (net_fs n))" and "0 \<le> sint pos" "sint pos < block_swap_count (fs_config v)"
    and "swap_image (fs_config v) (block_map (net_fs n)) (nat (sint pos)) = Some d"
  shows "\<exists>s. net_step v FsTurn n = Runs (n\<lparr>net_fs := s, to_fs := rest, to_mem := to_mem n @ [page_data (fs_config v) d]\<rparr>)
     \<and> block_map s = block_map (net_fs n)"
proof -
  let ?s = "fs_send MemorySocket (page_data (fs_config v) d) (net_fs n)"
  have "wait_for_commands (fs_env v) (fs_config v) MRY (GET_FROM_SWAP_FS pos) (net_fs n) = Some ?s"
    using read_from_swap_block_ok[OF assms(3-5)] assms(6) by simp
  from fs_turn[OF this, of n _ rest] assms(1,2) show ?thesis
    by (intro exI[of _ ?s]) (simp add: fs_moves_def fs_send_def)
qed

lemma copy_turn:
  assumes m: "map_ok (fs_config v) (block_map (net_fs n))" and b: "0 \<le> sint b" "sint b < block_swap_count (fs_config v)"
    and d: "length d = nat (block_size (fs_config v))"
    and t: "to_fs n = MSwapPage 13 (page_for_swap b sz d) # rest" "fs_listens n"
  shows "\<exists>s. net_step v FsTurn n = Runs (n\<lparr>net_fs := s, to_fs := rest, to_mem := to_mem n @ [FsPackage (create_integer_package 13 0)]\<rparr>)
     \<and> swap_image (fs_config v) (block_map s) (nat (sint b)) = Some d
     \<and> (\<forall>j. j \<noteq> nat (sint b) \<longrightarrow> swap_image (fs_config v) (block_map s) j = swap_image (fs_config v) (block_map (net_fs n)) j)"
proof -
  obtain m' where m': "write_to_swap_block (fs_config v) (sint b) d (block_map (net_fs n)) = Some m'"
    "mem_write (block_map (net_fs n)) (nat (sint b) * nat (block_size (fs_config v))) d = Some m'"
    using write_to_swap_block_ok[OF m b d] by blast
  let ?s = "fs_reply MemorySocket 13 0 ((net_fs n)\<lparr>block_map := m'\<rparr>)"
  have "wait_for_commands (fs_env v) (fs_config v) MRY (UPDATE_SWAP (page_for_swap b sz d)) (net_fs n) = Some ?s"
    using m'(1) by (simp add: page_for_swap_def)
  from fs_turn[OF this, of n _ rest] t
  have "net_step v FsTurn n = Runs (n\<lparr>net_fs := ?s, to_fs := rest, to_mem := to_mem n @ [FsPackage (create_integer_package 13 0)]\<rparr>)"
    by (simp add: fs_moves_def fs_reply_def fs_send_def)
  moreover have "block_map ?s = m'" by (simp add: fs_reply_def fs_send_def)
  ultimately show ?thesis
    using swap_store.get_put_same[OF m'(2) d] swap_store.get_put_other[OF m'(2) d] by (intro exI[of _ ?s]) simp
qed

lemma swap_turn_waits:
  assumes "to_mem n = page_data (fs_config v) data # rest" and "swap_thr n = Listening"
    and "start_load (mem_env v) data (net_mem n) = Some (mem_send PFilesystem msg m, AwaitsUpdate w a data)"
    and "mem_sent m = mem_sent (net_mem n)"
  shows "net_step v SwapTurn n = Runs (n\<lparr>net_mem := mem_send PFilesystem msg m, to_fs := to_fs n @ [msg], to_mem := rest,
     swap_thr := AwaitsUpdate w a data\<rparr>)"
  using assms by (simp add: net_step.simps(6) or_crash_def swap_turn_def mem_moves_def new_messages_def mem_send_def)

lemma swap_turn_ends:
  assumes "to_mem n = msg # rest" and "swap_thr n = AwaitsUpdate w a data" and "first_bytes msg"
    and "finish_replacement w a data (net_mem n) = Some m"
  shows "net_step v SwapTurn n = Runs (n\<lparr>net_mem := m, to_mem := rest, swap_thr := Listening\<rparr>)"
  using assms finish_sent[OF assms(4)]
  by (simp add: net_step.simps(6) or_crash_def swap_turn_def mem_moves_def new_messages_def)

section \<open>The loop has ended\<close>

text \<open>No page comes into a frame, and the kernel is told of no load.\<close>

definition no_page_comes :: "'b memory \<Rightarrow> 'b memory \<Rightarrow> bool" where
  "no_page_comes m m' \<longleftrightarrow> (\<forall>a f. resident m' a f \<longrightarrow> resident m a f)
     \<and> filter ((=) page_loaded) (mem_sent m') = filter ((=) page_loaded) (mem_sent m)"

lemma no_page_comes_refl [simp]: "no_page_comes m m"
  and no_page_comes_trans: "no_page_comes m m1 \<Longrightarrow> no_page_comes m1 m2 \<Longrightarrow> no_page_comes m m2"
  by (auto simp: no_page_comes_def)

lemma no_page_comes_same: "store m' = store m \<Longrightarrow> mem_sent m' = mem_sent m @ msgs \<Longrightarrow> list_all (\<lambda>x. fst x \<noteq> PKernel) msgs \<Longrightarrow>
    no_page_comes m m'"
  by (auto simp: no_page_comes_def resident_def filter_empty_conv list_all_iff)

lemma destroy_entries_less: "destroy_entries ba as m = Some m' \<Longrightarrow> store m' \<subseteq>\<^sub>m store m \<and> mem_sent m' = mem_sent m"
proof (induction ba as m rule: destroy_entries.induct)
  case (2 ba a as m)
  then obtain m1 where m1: "destroy_page_entry ba a m = Some m1" "destroy_entries ba as m1 = Some m'"
    by (auto split: option.splits)
  then have "store m1 \<subseteq>\<^sub>m store m \<and> mem_sent m1 = mem_sent m"
    by (auto simp: destroy_page_entry_def free_frame_def Let_def map_le_def split: option.splits if_splits)
  then show ?case using 2 m1 by (auto intro: map_le_trans)
qed simp

lemma command_brings_no_page:
  assumes "wait_for_command env pt c m = Some m'" and "pt = PKernel \<and> from_kernel c \<or> pt = PCpu \<and> from_cpu c"
  shows "no_page_comes m m'"
proof (cases c)
  case (END_PROCESS p)
  then have pt: "pt = PKernel" using assms(2) by auto
  obtain t m1 m2 where "free_swap_blocks (snd t) m = Some m1" "destroy_entries (bits env) (snd t) (m1\<lparr>page_tables := remove1 t (page_tables m1)\<rparr>) = Some m2"
    "store m' = store m2" "mem_sent m' = mem_sent m2"
    using assms(1) END_PROCESS by (auto simp: deallocate_process_def destroy_page_table_def bind_eq_Some_conv split: option.splits)
  moreover from this obtain d where "m1 = mem_send PFilesystem d m" by (auto simp: free_swap_blocks_def split: if_splits)
  ultimately have "store m' \<subseteq>\<^sub>m store m" "mem_sent m' = mem_sent m @ [(PFilesystem, d)]"
    using destroy_entries_less by (fastforce simp: mem_send_def)+
  then show ?thesis by (auto simp: no_page_comes_def resident_def map_le_def) (metis domI)
next
  case (MOV_OUT d)
  then show ?thesis using assms
    by (auto simp: mov_out_def referenced_def reference_page_def bind_eq_Some_conv write_on_frame_def set_entry_def
        no_page_comes_def resident_def reply_def mem_send_def split: option.splits if_splits)
qed (use assms in \<open>auto simp: load_page_request_def referenced_def reference_page_def bind_eq_Some_conv get_page_info_def
      mem_send_def get_swap_blocks_def page_number_request_def reply_def mov_in_def
      split: option.splits if_splits fetched.splits
      intro!: no_page_comes_same\<close>)

lemma mem_moves_simps [simp]: "net_mem (mem_moves m n) = m" "swap_thr (mem_moves m n) = swap_thr n"
  "net_fs (mem_moves m n) = net_fs n" "to_mem (mem_moves m n) = to_mem n" "fs_listens (mem_moves m n) = fs_listens n"
  by (simp_all add: mem_moves_def)

lemma fs_moves_simps [simp]: "net_mem (fs_moves s n) = net_mem n" "swap_thr (fs_moves s n) = swap_thr n"
  "net_fs (fs_moves s n) = s" "to_fs (fs_moves s n) = to_fs n" "fs_listens (fs_moves s n) = fs_listens n"
  by (simp_all add: fs_moves_def)

lemma sorter_brings_no_page:
  assumes "sorter_step eq alg m = Some (Some m')"
  shows "no_page_comes m m'"
  using assms by (auto simp: sorter_step_def sort_pages_by_fifo_def sort_pages_by_lru_def Let_def bind_eq_Some_conv
      no_page_comes_def resident_def split: if_splits)

lemma ended_step:
  assumes e: "swap_thr n = Ended" and s: "net_step v t n = Runs n'"
  shows "swap_thr n' = Ended \<and> no_page_comes (net_mem n) (net_mem n')"
proof (cases t)
  case (KernelTurn c)
  then show ?thesis using s e command_brings_no_page[of "mem_env v" PKernel c]
    by (auto simp: net_step.simps or_crash_def split: if_splits option.splits)
next
  case (CpuTurn c)
  then show ?thesis using s e command_brings_no_page[of "mem_env v" PCpu c]
    by (auto simp: net_step.simps or_crash_def split: if_splits option.splits)
qed (use s e sorter_brings_no_page in \<open>auto simp: net_step.simps or_crash_def split: if_splits option.splits list.splits\<close>)

lemma ended_run:
  "net_run v ts n = Runs n' \<Longrightarrow> swap_thr n = Ended \<Longrightarrow> swap_thr n' = Ended \<and> no_page_comes (net_mem n) (net_mem n')"
proof (induction ts arbitrary: n)
  case (Cons t ts)
  then obtain n1 where n1: "net_step v t n = Runs n1" "net_run v ts n1 = Runs n'" by (auto split: outcome.splits)
  then show ?case using ended_step[OF Cons.prems(2) n1(1)] Cons.IH[OF n1(2)] no_page_comes_trans by blast
qed simp

text \<open>
  A full memory in which the next victim was modified, at rest: no message under way, nothing to load.
\<close>

definition full_net :: "'b vm_env \<Rightarrow> nat \<Rightarrow> t_page_entry \<Rightarrow> 'b net \<Rightarrow> bool" where
  "full_net v w e n \<longleftrightarrow> paging_ok (bits (mem_env v)) (fs_config v) (net_mem n) (net_fs n)
     \<and> to_fs n = [] \<and> to_mem n = [] \<and> swap_thr n = Listening \<and> fs_listens n \<and> list_page (net_mem n) = []
     \<and> search_frame (bits (mem_env v)) (frame_table (net_mem n)) 0 (total_frames (net_mem n)) = None
     \<and> (\<exists>ws. pages_to_replace (net_mem n) = w # ws)
     \<and> store (net_mem n) w = Some e \<and> bit_precense e \<and> bit_modified e"

text \<open>The page that a request names is in its table and not in memory.\<close>

definition absent_page :: "'b memory \<Rightarrow> t_pag \<Rightarrow> nat \<Rightarrow> t_page_entry \<Rightarrow> bool" where
  "absent_page m pg a e \<longleftrightarrow> get_page (pag_pid pg) (sint (page_number pg)) m = Some (Some a) \<and> store m a = Some e
     \<and> \<not> bit_precense e"

lemma absent_requested [simp]: "absent_page (requested m pg a pos) pg' b e = absent_page m pg' b e"
  by (simp add: absent_page_def)

lemma image_of_entry:
  assumes "paging_ok ba cfg m s" and "store m a = Some e"
  shows "map_ok cfg (block_map s)" "0 \<le> sint (swap_position e)" "sint (swap_position e) < block_swap_count cfg"
    "\<exists>d. swap_image cfg (block_map s) (nat (sint (swap_position e))) = Some d \<and> length d = nat (page_size m)"
  using assms contents_length[OF assms] by (auto simp: paging_ok_def)

text \<open>The first turn of a replacement of a modified victim, and the second one, whatever message it takes.\<close>

lemma replacement_waits:
  assumes pk: "paging_ok (bits env) cfg m s" and l: "list_page m = pg # rest"
    and a: "get_page (pag_pid pg) (sint (page_number pg)) m = Some (Some a)"
    and full: "search_frame (bits env) (frame_table m) 0 (total_frames m) = None"
    and w: "pages_to_replace m = w # ws" "store m w = Some e" "bit_precense e" "bit_modified e"
  shows "\<exists>content. frame_content m (frame_number e) = Some content \<and> start_load env data m
     = Some (mem_send PFilesystem (MSwapPage 13 (page_for_swap (swap_position e) (word_of_int (page_size m)) content))
         (m\<lparr>list_page := rest, pages_to_replace := ws\<rparr>), AwaitsUpdate w a data)"
proof -
  have "frames_ok (bits env) m" "resident m w (frame_number e)" using pk w by (simp_all add: paging_ok_def resident_def)
  then obtain content where c: "frame_content m (frame_number e) = Some content" using frame_content_defined by blast
  then have "read_frame (m\<lparr>list_page := rest, pages_to_replace := ws\<rparr>) (frame_number e * page_size m) (page_size m) = Some content"
    by (auto simp: frame_content_def read_frame_def split: if_splits)
  moreover have "get_page (pag_pid pg) (sint (page_number pg)) (m\<lparr>list_page := rest\<rparr>) = Some (Some a)"
    using a by (simp add: get_page_def search_page_table_def)
  moreover have "total_frames (m\<lparr>list_page := rest\<rparr>) = total_frames m" by (simp add: total_frames_def)
  ultimately show ?thesis
    using l full w c by (simp add: start_load_def list_remove_first_def check_available_frames_def start_replacement_def
        update_page_def Let_def)
qed

lemma evicted_ok:
  assumes "frames_ok ba m"
  shows "frames_ok ba (set_entry w (e\<lparr>bit_precense := False, bit_modified := False\<rparr>) m)"
proof -
  let ?m = "set_entry w (e\<lparr>bit_precense := False, bit_modified := False\<rparr>) m"
  have "resident ?m b g \<longrightarrow> resident m b g" for b g by (auto simp: set_entry_def resident_def)
  moreover have "page_size ?m = page_size m" "frames ?m = frames m" "memory_size ?m = memory_size m"
    "frame_table ?m = frame_table m" "total_frames ?m = total_frames m" by (simp_all add: set_entry_def total_frames_def)
  ultimately show ?thesis using assms unfolding frames_ok_def by metis
qed

lemma replacement_ends:
  assumes ok: "frames_ok ba m" and w: "store m w = Some e" "bit_precense e" and a: "store m a = Some ea" "a \<noteq> w"
    and d: "length data = nat (page_size m)"
  shows "\<exists>m'. finish_replacement w a data m = Some m' \<and> mem_sent m' = mem_sent m @ [page_loaded]
     \<and> (\<forall>b f. resident m' b f \<longrightarrow> b = a \<or> resident m b f) \<and> list_page m' = list_page m
     \<and> store m' w = Some (e\<lparr>bit_precense := False, bit_modified := False\<rparr>)"
proof -
  let ?m = "set_entry w (e\<lparr>bit_precense := False, bit_modified := False\<rparr>) m"
  have f: "0 \<le> frame_number e" "frame_number e < int (total_frames m)" using ok w by (auto simp: frames_ok_def resident_def)
  have r: "resident ?m b g \<longrightarrow> resident m b g" for b g by (auto simp: set_entry_def resident_def)
  have "frames_ok ba ?m" using ok by (rule evicted_ok)
  moreover have "store ?m a = Some ea" using a by (simp add: set_entry_def)
  ultimately obtain m1 where m1: "swap_in a (frame_number e) data ?m = Some m1"
    using swap_in_defined[of ba ?m "frame_number e" a ea data] f d by (auto simp: set_entry_def total_frames_def)
  have fin: "finish_replacement w a data m = Some (reply PKernel (create_integer_package 11 0) m1)"
    using w m1 by (simp add: finish_replacement_def)
  have st: "store m1 = (store ?m)(a \<mapsto> ea\<lparr>frame_number := frame_number e, bit_precense := True\<rparr>)"
    using swap_in_effect[OF m1, of ea] a by (simp add: set_entry_def)
  have "resident m1 b g \<longrightarrow> b = a \<or> resident m b g" for b g
    using r[of b g] by (auto simp: st resident_def split: if_splits)
  moreover have "list_page m1 = list_page m" using swap_in_rest[OF m1] by (simp add: set_entry_def)
  moreover have "store m1 w = Some (e\<lparr>bit_precense := False, bit_modified := False\<rparr>)"
    using st a(2) by (simp add: set_entry_def)
  ultimately show ?thesis using fin finish_sent[OF fin] by (simp add: resident_def)
qed

lemma two_requests_meet:
  assumes full: "full_net v w e n"
    and p1: "absent_page (net_mem n) pg1 a1 e1" and p2: "absent_page (net_mem n) pg2 a2 e2" and ne: "a1 \<noteq> a2"
  shows "\<exists>n1 d1 d2 ws. net_run v [KernelTurn (LOAD_PAGE pg1), KernelTurn (LOAD_PAGE pg2), FsTurn, FsTurn] n = Runs n1
     \<and> to_fs n1 = [] \<and> to_mem n1 = [page_data (fs_config v) d1, page_data (fs_config v) d2] \<and> swap_thr n1 = Listening \<and> fs_listens n1
     \<and> paging_ok (bits (mem_env v)) (fs_config v) (net_mem n1) (net_fs n1)
     \<and> search_frame (bits (mem_env v)) (frame_table (net_mem n1)) 0 (total_frames (net_mem n1)) = None
     \<and> list_page (net_mem n1) = [pg1, pg2] \<and> pages_to_replace (net_mem n1) = w # ws
     \<and> store (net_mem n1) = store (net_mem n) \<and> absent_page (net_mem n1) pg1 a1 e1
     \<and> page_size (net_mem n1) = page_size (net_mem n)
     \<and> length d1 = nat (page_size (net_mem n1)) \<and> length d2 = nat (page_size (net_mem n1))
     \<and> filter ((=) page_loaded) (mem_sent (net_mem n1)) = filter ((=) page_loaded) (mem_sent (net_mem n))"
proof -
  let ?cfg = "fs_config v"
  let ?p1 = "swap_position e1" and ?p2 = "swap_position e2"
  have pk: "paging_ok (bits (mem_env v)) ?cfg (net_mem n) (net_fs n)" using full by (simp add: full_net_def)
  obtain ws where ws: "pages_to_replace (net_mem n) = w # ws" using full by (auto simp: full_net_def)
  note i1 = image_of_entry[OF pk, of a1 e1] and i2 = image_of_entry[OF pk, of a2 e2]
  obtain d1 d2 where d1: "swap_image ?cfg (block_map (net_fs n)) (nat (sint ?p1)) = Some d1" "length d1 = nat (page_size (net_mem n))"
    and d2: "swap_image ?cfg (block_map (net_fs n)) (nat (sint ?p2)) = Some d2" "length d2 = nat (page_size (net_mem n))"
    using i1(4) i2(4) p1 p2 by (auto simp: absent_page_def)
  let ?m1 = "requested (net_mem n) pg1 a1 ?p1"
  let ?m2 = "requested ?m1 pg2 a2 ?p2"
  let ?n1 = "n\<lparr>net_mem := ?m1, to_fs := [MPackage (create_integer_package 12 ?p1)]\<rparr>"
  let ?n2 = "n\<lparr>net_mem := ?m2, to_fs := [MPackage (create_integer_package 12 ?p1), MPackage (create_integer_package 12 ?p2)]\<rparr>"
  have r1: "net_step v (KernelTurn (LOAD_PAGE pg1)) n = Runs ?n1"
    using request_turn[of pg1 n a1 e1 v] p1 full by (simp add: absent_page_def full_net_def)
  have r2: "net_step v (KernelTurn (LOAD_PAGE pg2)) ?n1 = Runs ?n2"
    using request_turn[of pg2 ?n1 a2 e2 v] p2 by (simp add: absent_page_def)
  obtain s1 where s1: "net_step v FsTurn ?n2 = Runs (?n2\<lparr>net_fs := s1, to_fs := [MPackage (create_integer_package 12 ?p2)],
      to_mem := [page_data ?cfg d1]\<rparr>)" "block_map s1 = block_map (net_fs n)"
    using answer_turn[of ?n2 ?p1 _ v d1] i1(1-3) d1 p1 full by (auto simp: absent_page_def full_net_def)
  let ?n3 = "?n2\<lparr>net_fs := s1, to_fs := [MPackage (create_integer_package 12 ?p2)], to_mem := [page_data ?cfg d1]\<rparr>"
  obtain s2 where s2: "net_step v FsTurn ?n3 = Runs (?n3\<lparr>net_fs := s2, to_fs := [],
      to_mem := [page_data ?cfg d1, page_data ?cfg d2]\<rparr>)" "block_map s2 = block_map (net_fs n)"
    using answer_turn[of ?n3 ?p2 "[]" v d2] i2(1-3) d2 s1(2) p2 full by (auto simp: absent_page_def full_net_def)
  let ?n4 = "?n3\<lparr>net_fs := s2, to_fs := [], to_mem := [page_data ?cfg d1, page_data ?cfg d2]\<rparr>"
  have "net_run v [KernelTurn (LOAD_PAGE pg1), KernelTurn (LOAD_PAGE pg2), FsTurn, FsTurn] n = Runs ?n4"
    using r1 r2 s1(1) s2(1) by simp
  moreover have "paging_ok (bits (mem_env v)) ?cfg ?m2 s2" using pk s2(2) by (simp add: paging_ok_def)
  moreover have "search_frame (bits (mem_env v)) (frame_table ?m2) 0 (total_frames ?m2) = None" "list_page ?m2 = [pg1, pg2]"
    "swap_thr n = Listening" "fs_listens n" using full by (simp_all add: full_net_def)
  ultimately show ?thesis using ws d1(2) d2(2) p1
    by (intro exI[of _ ?n4] exI[of _ d1] exI[of _ d2] exI[of _ ws]) simp
qed

lemma mistaken_confirmation:
  assumes q: "to_fs n = []" "to_mem n = [page_data (fs_config v) d1, page_data (fs_config v) d2]" "swap_thr n = Listening" "fs_listens n"
    and pk: "paging_ok (bits (mem_env v)) (fs_config v) (net_mem n) (net_fs n)"
    and fl: "search_frame (bits (mem_env v)) (frame_table (net_mem n)) 0 (total_frames (net_mem n)) = None"
    and l: "list_page (net_mem n) = [pg1, pg2]" "pages_to_replace (net_mem n) = w # ws"
    and w: "store (net_mem n) w = Some e" "bit_precense e" "bit_modified e"
    and p: "absent_page (net_mem n) pg1 a1 e1" and gone: "\<And>f. \<not> resident (net_mem n) a2 f" and ne: "a1 \<noteq> a2"
    and sz: "4 \<le> page_size (net_mem n)" and d: "length d1 = nat (page_size (net_mem n))" "length d2 = nat (page_size (net_mem n))"
  shows "\<exists>n'. net_run v [SwapTurn, SwapTurn, FsTurn, SwapTurn] n = Runs n' \<and> swap_thr n' = Ended
     \<and> (\<forall>f. \<not> resident (net_mem n') a2 f)
     \<and> filter ((=) page_loaded) (mem_sent (net_mem n')) = filter ((=) page_loaded) (mem_sent (net_mem n)) @ [page_loaded]"
proof -
  let ?env = "mem_env v" and ?cfg = "fs_config v"
  let ?m = "(net_mem n)\<lparr>list_page := [pg2], pages_to_replace := ws\<rparr>"
  obtain content where c: "frame_content (net_mem n) (frame_number e) = Some content"
    and sl: "start_load ?env d1 (net_mem n) = Some (mem_send PFilesystem (MSwapPage 13 (page_for_swap (swap_position e)
      (word_of_int (page_size (net_mem n))) content)) ?m, AwaitsUpdate w a1 d1)"
    using replacement_waits[OF pk l(1) _ fl l(2) w, of a1 d1] p by (auto simp: absent_page_def)
  let ?msg = "MSwapPage 13 (page_for_swap (swap_position e) (word_of_int (page_size (net_mem n))) content)"
  let ?n2 = "n\<lparr>net_mem := mem_send PFilesystem ?msg ?m, to_fs := [?msg], to_mem := [page_data ?cfg d2], swap_thr := AwaitsUpdate w a1 d1\<rparr>"
  have r2: "net_step v SwapTurn n = Runs ?n2" using swap_turn_waits[OF q(2,3) sl] q(1) by simp
  have ok: "frames_ok (bits ?env) (net_mem n)" using pk by (simp add: paging_ok_def)
  have same: "frames_ok (bits ?env) (net_mem ?n2)" using ok by (simp add: frames_ok_def resident_def mem_send_def total_frames_def)
  have st: "store (net_mem ?n2) = store (net_mem n)" by (simp add: mem_send_def)
  have aw: "a1 \<noteq> w" using p w by (auto simp: absent_page_def)
  obtain m3 where m3: "finish_replacement w a1 d1 (net_mem ?n2) = Some m3" "mem_sent m3 = mem_sent (net_mem ?n2) @ [page_loaded]"
    "\<And>b f. resident m3 b f \<Longrightarrow> b = a1 \<or> resident (net_mem ?n2) b f"
    using replacement_ends[OF same, of w e a1 e1 d1] w p st aw d(1) by (auto simp: absent_page_def mem_send_def)
  have "rd_u32 d2 \<noteq> None" using d(2) sz by (cases d2 rule: rd_u32.cases) auto
  then have fb: "first_bytes (page_data ?cfg d2)" by (simp add: first_bytes_def)
  let ?n3 = "?n2\<lparr>net_mem := m3, to_mem := [], swap_thr := Listening\<rparr>"
  have r3: "net_step v SwapTurn ?n2 = Runs ?n3" using swap_turn_ends[OF _ _ fb m3(1), of "[]"] by simp
  have "length content = nat (block_size ?cfg)"
    using frame_content_defined[OF ok, of w "frame_number e"] c w pk by (auto simp: resident_def paging_ok_def)
  then obtain s4 where s4: "net_step v FsTurn ?n3 = Runs (?n3\<lparr>net_fs := s4, to_fs := [], to_mem := [FsPackage (create_integer_package 13 0)]\<rparr>)"
    using copy_turn[of v ?n3 "swap_position e" content _ "[]"] image_of_entry[OF pk w(1)] q(4) by auto
  let ?n4 = "?n3\<lparr>net_fs := s4, to_fs := [], to_mem := [FsPackage (create_integer_package 13 0)]\<rparr>"
  have "net_step v SwapTurn ?n4 = Runs (?n4\<lparr>to_mem := [], swap_thr := Ended\<rparr>)"
    by (simp add: net_step.simps(6) or_crash_def swap_turn_def)
  then have "net_run v [SwapTurn, SwapTurn, FsTurn, SwapTurn] n = Runs (?n4\<lparr>to_mem := [], swap_thr := Ended\<rparr>)"
    using r2 r3 s4 by simp
  moreover have "\<not> resident m3 a2 f" for f using m3(3)[of a2 f] ne gone[of f] st by (auto simp: resident_def)
  ultimately show ?thesis
    using m3(2) by (intro exI[of _ "?n4\<lparr>to_mem := [], swap_thr := Ended\<rparr>"]) (simp add: mem_send_def)
qed

text \<open>
  C32. Two page faults at once. The memory is full and its next victim was modified; two processes
  ask for a page each, and the file system answers both before the first one is loaded. The
  copy of the victim is sent, and the thread takes the data of the second page as its confirmation;
  the real one then ends the thread. Of the two requests the kernel is told of one, and in every
  continuation the second page never comes: its process waits for ever, and so do all later faults.
\<close>

theorem two_faults_lose_a_page:
  assumes full: "full_net v w e n"
    and p1: "absent_page (net_mem n) pg1 a1 e1" and p2: "absent_page (net_mem n) pg2 a2 e2" and ne: "a1 \<noteq> a2"
    and sz: "4 \<le> page_size (net_mem n)"
  shows "\<exists>n'. net_run v [KernelTurn (LOAD_PAGE pg1), KernelTurn (LOAD_PAGE pg2), FsTurn, FsTurn, SwapTurn, SwapTurn, FsTurn, SwapTurn] n
       = Runs n'
     \<and> (\<forall>ts n''. net_run v ts n' = Runs n'' \<longrightarrow> swap_thr n'' = Ended \<and> (\<forall>f. \<not> resident (net_mem n'') a2 f)
         \<and> filter ((=) page_loaded) (mem_sent (net_mem n'')) = filter ((=) page_loaded) (mem_sent (net_mem n)) @ [page_loaded])"
proof -
  let ?cfg = "fs_config v"
  obtain n1 d1 d2 ws where r: "net_run v [KernelTurn (LOAD_PAGE pg1), KernelTurn (LOAD_PAGE pg2), FsTurn, FsTurn] n = Runs n1"
    and q: "to_fs n1 = []" "to_mem n1 = [page_data ?cfg d1, page_data ?cfg d2]" "swap_thr n1 = Listening" "fs_listens n1"
    and pk: "paging_ok (bits (mem_env v)) ?cfg (net_mem n1) (net_fs n1)"
    and fl: "search_frame (bits (mem_env v)) (frame_table (net_mem n1)) 0 (total_frames (net_mem n1)) = None"
    and l: "list_page (net_mem n1) = [pg1, pg2]" "pages_to_replace (net_mem n1) = w # ws"
    and st: "store (net_mem n1) = store (net_mem n)" and p: "absent_page (net_mem n1) pg1 a1 e1"
    and z: "page_size (net_mem n1) = page_size (net_mem n)"
    and d: "length d1 = nat (page_size (net_mem n1))" "length d2 = nat (page_size (net_mem n1))"
    and told: "filter ((=) page_loaded) (mem_sent (net_mem n1)) = filter ((=) page_loaded) (mem_sent (net_mem n))"
    using two_requests_meet[OF full p1 p2 ne] by blast
  have w: "store (net_mem n1) w = Some e" "bit_precense e" "bit_modified e" using full st by (simp_all add: full_net_def)
  have gone: "\<not> resident (net_mem n1) a2 f" for f using p2 st by (simp add: absent_page_def resident_def)
  obtain n2 where n2: "net_run v [SwapTurn, SwapTurn, FsTurn, SwapTurn] n1 = Runs n2" "swap_thr n2 = Ended"
    "\<And>f. \<not> resident (net_mem n2) a2 f"
    "filter ((=) page_loaded) (mem_sent (net_mem n2)) = filter ((=) page_loaded) (mem_sent (net_mem n)) @ [page_loaded]"
    using mistaken_confirmation[OF q pk fl l w p gone ne _ d] sz z told by auto
  have "net_run v [KernelTurn (LOAD_PAGE pg1), KernelTurn (LOAD_PAGE pg2), FsTurn, FsTurn, SwapTurn, SwapTurn, FsTurn, SwapTurn] n = Runs n2"
    using r n2(1) by (auto split: outcome.splits)
  then show ?thesis using ended_run[OF _ n2(2)] n2(3,4) by (fastforce simp: no_page_comes_def)
qed

text \<open>One frame, taken by a modified page of process 1; its other page and the page of process 2 are in the swap.\<close>

definition crowd :: "(nat \<Rightarrow> bool) memory" where
  "crowd = (init_real_memory demo_bits 16 16 (replicate 16 1))\<lparr>frame_table := (\<lambda>i. i < 2),
     store := [0 \<mapsto> page_create 1 True True 0 0 0, 1 \<mapsto> page_create 1 False False 0 1 1, 2 \<mapsto> page_create 2 False False 0 0 2],
     next_entry := 3, page_tables := [(1, [0, 1]), (2, [2])], pages_to_replace := [0]\<rparr>"

definition crowd_run :: "(nat \<Rightarrow> bool) vm_env" where
  "crowd_run = demo_vm_run\<lparr>fs_config := demo_cfg\<lparr>block_swap_count := 4\<rparr>\<rparr>"

definition crowd_net :: "(nat \<Rightarrow> bool) net" where
  "crowd_net = demo_net\<lparr>net_mem := crowd\<rparr>"

lemma crowd_ok: "full_net crowd_run 0 (page_create 1 True True 0 0 0) crowd_net"
  "absent_page (net_mem crowd_net) (page_new 1 1 0) 1 (page_create 1 False False 0 1 1)"
  "absent_page (net_mem crowd_net) (page_new 2 0 0) 2 (page_create 2 False False 0 0 2)"
  "4 \<le> page_size (net_mem crowd_net)"
proof -
  have "map_ok (fs_config crowd_run) (block_map demo_fs)"
    by (simp add: map_ok_def crowd_run_def demo_vm_run_def demo_cfg_def demo_fs_def)
  moreover have "frames_ok demo_bits crowd"
    by (auto simp: frames_ok_def resident_def crowd_def init_real_memory_def page_create_def total_frames_def demo_bits_def
        split: if_splits)
  ultimately have "paging_ok demo_bits (fs_config crowd_run) crowd demo_fs"
    by (auto simp: paging_ok_def crowd_def crowd_run_def demo_vm_run_def demo_cfg_def init_real_memory_def page_create_def
        split: if_splits)
  then show "full_net crowd_run 0 (page_create 1 True True 0 0 0) crowd_net"
    by (simp add: full_net_def crowd_net_def demo_net_def crowd_run_def demo_vm_run_def demo_vm_env_def)
      (simp add: crowd_def init_real_memory_def total_frames_def demo_bits_def page_create_def)
qed (simp_all add: absent_page_def crowd_net_def demo_net_def crowd_def init_real_memory_def page_create_def page_new_def
      get_page_def search_page_table_def list_get_def)

theorem two_faults_lose_a_page_witness:
  "\<exists>n'. net_run crowd_run [KernelTurn (LOAD_PAGE (page_new 1 1 0)), KernelTurn (LOAD_PAGE (page_new 2 0 0)),
       FsTurn, FsTurn, SwapTurn, SwapTurn, FsTurn, SwapTurn] crowd_net = Runs n' \<and> swap_thr n' = Ended
     \<and> (\<forall>f. \<not> resident (net_mem n') 2 f)"
proof -
  have ne: "(1 :: nat) \<noteq> 2" by simp
  from two_faults_lose_a_page[OF crowd_ok(1-3) ne crowd_ok(4)]
  obtain n' where n': "net_run crowd_run [KernelTurn (LOAD_PAGE (page_new 1 1 0)), KernelTurn (LOAD_PAGE (page_new 2 0 0)),
       FsTurn, FsTurn, SwapTurn, SwapTurn, FsTurn, SwapTurn] crowd_net = Runs n'"
    "\<And>ts n''. net_run crowd_run ts n' = Runs n'' \<Longrightarrow> swap_thr n'' = Ended \<and> (\<forall>f. \<not> resident (net_mem n'') 2 f)"
    by blast
  have "net_run crowd_run [] n' = Runs n'" by simp
  from n'(2)[OF this] show ?thesis using n'(1) by blast
qed

end
