(* ===== verification/Overlapping_Faults.thy ===== *)
theory Overlapping_Faults
  imports Memory_Threads
begin

text \<open>
  Page faults of several processes at once. When every load finds a free frame or a victim without
  changes, the turns may interleave freely and the memory is still the abstract one; a write to the
  victim while its copy is under way is lost, and with one frame a page can be loaded over another.
\<close>

section \<open>Faults that overlap\<close>

text \<open>
  The turns that C6 admits. A load finds a free frame, or a victim that is in memory and has not been
  modified; an access is within a page that is in memory when the access is made; a page that is asked
  for is not in memory, and is asked for once; the kernel and the CPU do nothing else. The CPU asks for
  the frame before it accesses a page, but the memory does not look at the presence bit again: a page
  that is replaced between the two is accessed in the frame that it had, which is excluded here, as
  are the victims of \<open>write_during_replacement_is_lost\<close> and \<open>fault_replaces_itself\<close> below.
\<close>

definition calm_load :: "'b bitarray_ops \<Rightarrow> 'b memory \<Rightarrow> bool" where
  "calm_load ba m \<longleftrightarrow> (case search_frame ba (frame_table m) 0 (total_frames m) of
      Some f \<Rightarrow> f < total_frames m
    | None \<Rightarrow> (case pages_to_replace m of [] \<Rightarrow> False
        | w # ws \<Rightarrow> (case store m w of None \<Rightarrow> False | Some e \<Rightarrow> bit_precense e \<and> \<not> bit_modified e)))"

definition page_in_memory :: "'b memory \<Rightarrow> u32 \<Rightarrow> c_int \<Rightarrow> bool" where
  "page_in_memory m p i \<longleftrightarrow> (case get_page p (sint i) m of
      Some (Some a) \<Rightarrow> (case store m a of None \<Rightarrow> False | Some e \<Rightarrow> bit_precense e) | _ \<Rightarrow> False)"

definition same_page :: "'b memory \<Rightarrow> t_pag \<Rightarrow> t_pag \<Rightarrow> bool" where
  "same_page m pg pg' \<longleftrightarrow> get_page (pag_pid pg) (sint (page_number pg)) m = get_page (pag_pid pg') (sint (page_number pg')) m"

fun calm :: "'b vm_env \<Rightarrow> turn_of \<Rightarrow> 'b net \<Rightarrow> bool" where
  "calm v (KernelTurn (LOAD_PAGE pg)) n = (case get_page (pag_pid pg) (sint (page_number pg)) (net_mem n) of
      Some (Some a) \<Rightarrow> (case store (net_mem n) a of None \<Rightarrow> False | Some e \<Rightarrow> \<not> bit_precense e)
        \<and> list_all (\<lambda>pg'. \<not> same_page (net_mem n) pg pg') (list_page (net_mem n))
    | _ \<Rightarrow> False)"
| "calm v (KernelTurn _) n = False"
| "calm v (CpuTurn (PAGE_NUMBER pg)) n = True"
| "calm v (CpuTurn (FETCH_INSTRUCTION p)) n = True"
| "calm v (CpuTurn (MOV_IN pg)) n = (page_in_memory (net_mem n) (pag_pid pg) (page_number pg)
     \<and> 0 \<le> sint (displacement pg) \<and> sint (displacement pg) + 4 \<le> page_size (net_mem n))"
| "calm v (CpuTurn (MOV_OUT d)) n = (page_in_memory (net_mem n) (mo_pid d) (mo_page_number d)
     \<and> 0 \<le> sint (mo_displacement d) \<and> sint (mo_displacement d) + 4 \<le> page_size (net_mem n))"
| "calm v (CpuTurn _) n = False"
| "calm v SorterTurn n = True"
| "calm v FsTurn n = True"
| "calm v (FsKernelTurn c) n = False"
| "calm v SwapTurn n = calm_load (bits (mem_env v)) (net_mem n)"

text \<open>What an access of the CPU is answered, and the machine of calm turns.\<close>

fun is_access :: "turn_of \<Rightarrow> bool" where
  "is_access (CpuTurn (MOV_IN pg)) = True" | "is_access (CpuTurn (MOV_OUT d)) = True" | "is_access _ = False"

definition turn_answer :: "turn_of \<Rightarrow> 'b net \<Rightarrow> u32 option" where
  "turn_answer t n = (if is_access t
     then Option.bind (answer_to_cpu (net_mem n)) (\<lambda>(code, buf). map_option fst (rd_u32 buf)) else None)"

definition calm_step :: "'b vm_env \<Rightarrow> turn_of \<Rightarrow> 'b net \<Rightarrow> (u32 option \<times> 'b net) option" where
  "calm_step v t n = (if calm v t n then (case net_step v t n of Runs n' \<Rightarrow> Some (turn_answer t n', n') | _ \<Rightarrow> None) else None)"

text \<open>The abstract machine: only the accesses count.\<close>

fun flat_step :: "(u32 \<Rightarrow> c_int \<Rightarrow> nat) \<Rightarrow> turn_of \<Rightarrow> abstract_memory \<Rightarrow> (u32 option \<times> abstract_memory) option" where
  "flat_step pt (CpuTurn (MOV_IN pg)) A = map_option (\<lambda>(x, A). (Some x, A))
     (abstract_access pt (Load (pag_pid pg) (page_number pg) (displacement pg)) A)"
| "flat_step pt (CpuTurn (MOV_OUT d)) A = map_option (\<lambda>(x, A). (Some x, A))
     (abstract_access pt (Store (mo_pid d) (mo_page_number d) (mo_displacement d) (mo_register_value d)) A)"
| "flat_step pt _ A = Some (None, A)"

definition net_contents :: "'b vm_env \<Rightarrow> 'b net \<Rightarrow> abstract_memory" where
  "net_contents v n = contents (fs_config v) (net_mem n) (net_fs n)"

text \<open>
  The pages under way: those of \<open>bs\<close> are answered, those of \<open>cs\<close> still asked for, in the order of
  \<open>list_page\<close>; each answer is the image of its own page.
\<close>

definition entry_position :: "'b memory \<Rightarrow> nat \<Rightarrow> c_int" where
  "entry_position m a = the (positions m a)"

definition entry_image :: "'b vm_env \<Rightarrow> 'b net \<Rightarrow> nat \<Rightarrow> u8 list" where
  "entry_image v n a = the (swap_image (fs_config v) (block_map (net_fs n)) (nat (sint (entry_position (net_mem n) a))))"

definition absent :: "'b memory \<Rightarrow> nat \<Rightarrow> bool" where
  "absent m a \<longleftrightarrow> (\<exists>e. store m a = Some e \<and> \<not> bit_precense e)"

definition under_way :: "'b vm_env \<Rightarrow> 'b net \<Rightarrow> nat list \<Rightarrow> nat list \<Rightarrow> bool" where
  "under_way v n bs cs \<longleftrightarrow> to_mem n = map (\<lambda>a. page_data (fs_config v) (entry_image v n a)) bs
     \<and> to_fs n = map (\<lambda>a. MPackage (create_integer_package 12 (entry_position (net_mem n) a))) cs
     \<and> list_all2 (\<lambda>pg a. get_page (pag_pid pg) (sint (page_number pg)) (net_mem n) = Some (Some a)) (list_page (net_mem n)) (bs @ cs)
     \<and> distinct (bs @ cs) \<and> list_all (absent (net_mem n)) (bs @ cs)"

definition calm_inv :: "'b vm_env \<Rightarrow> (u32 \<Rightarrow> c_int \<Rightarrow> nat) \<Rightarrow> 'b net \<Rightarrow> bool" where
  "calm_inv v pt n \<longleftrightarrow> bitarray_laws (bits (mem_env v)) \<and> paging_ok (bits (mem_env v)) (fs_config v) (net_mem n) (net_fs n)
     \<and> page_of (net_mem n) = pt \<and> swap_thr n = Listening \<and> fs_listens n \<and> (\<exists>bs cs. under_way v n bs cs)"

section \<open>What a load leaves\<close>

lemma load_page_rest:
  assumes "load_page ba p i data m = Some m'"
  shows "page_tables m' = page_tables m \<and> positions m' = positions m \<and> list_page m' = list_page m
     \<and> page_size m' = page_size m"
proof (cases "search_frame ba (frame_table m) 0 (total_frames m)")
  case (Some f)
  then obtain a m1 where "swap_in a (int f) data (m\<lparr>frame_table := bitarray_set_bit ba (frame_table m) f\<rparr>) = Some m1"
    "m' = m1\<lparr>frame_table := bitarray_set_bit ba (frame_table m1) f\<rparr>"
    using assms by (auto simp: load_page_def check_available_frames_def load_page_in_free_space_def split: option.splits)
  then show ?thesis using swap_in_rest by fastforce
next
  case None
  then obtain a where "page_replace a data m = Some m'"
    using assms by (auto simp: load_page_def check_available_frames_def split: option.splits)
  then obtain w ws e m1 where "swap_out w (m\<lparr>pages_to_replace := ws\<rparr>) = Some m1" "store m1 w = Some e"
    "swap_in a (frame_number e) data m1 = Some m'"
    by (auto simp: page_replace_def bind_eq_Some_conv list_remove_first_def split: list.splits)
  then show ?thesis using swap_in_rest swap_out_rest by fastforce
qed

lemma swap_in_residents:
  assumes "swap_in a g data m = Some m'" and "resident m' b f"
  shows "b = a \<or> resident m b f"
proof -
  obtain e where "store m a = Some e" using assms(1) by (auto simp: swap_in_def bind_eq_Some_conv)
  from swap_in_effect[OF assms(1) this] show ?thesis using assms(2) by (auto simp: resident_def split: if_splits)
qed

lemma swap_out_residents:
  assumes "swap_out w m = Some m'" and "resident m' b f"
  shows "resident m b f"
proof -
  obtain e m1 where "store m w = Some e" "m1 = m \<or> (\<exists>p msg. m1 = mem_send p msg m)"
    "m' = set_entry w (e\<lparr>bit_precense := False, bit_modified := False\<rparr>) m1"
    using assms(1) by (auto simp: swap_out_def update_page_def bind_eq_Some_conv split: if_splits)
  then have "store m' = (store m)(w \<mapsto> e\<lparr>bit_precense := False, bit_modified := False\<rparr>)"
    by (auto simp: set_entry_def mem_send_def)
  then show ?thesis using assms(2) by (simp add: resident_def split: if_splits)
qed

lemma load_page_residents:
  assumes g: "get_page p i m = Some (Some a)" and l: "load_page ba p i data m = Some m'" and r: "resident m' b f"
  shows "b = a \<or> resident m b f"
proof (cases "search_frame ba (frame_table m) 0 (total_frames m)")
  case (Some k)
  have "get_page p i (m\<lparr>frame_table := t\<rparr>) = get_page p i m" for t by (simp add: get_page_def search_page_table_def)
  then obtain m1 where i: "swap_in a (int k) data (m\<lparr>frame_table := bitarray_set_bit ba (frame_table m) k\<rparr>) = Some m1"
    "m' = m1\<lparr>frame_table := bitarray_set_bit ba (frame_table m1) k\<rparr>"
    using l g Some by (auto simp: load_page_def check_available_frames_def load_page_in_free_space_def)
  then show ?thesis using swap_in_residents[OF i(1)] r by simp
next
  case None
  then have "page_replace a data m = Some m'" using l g by (simp add: load_page_def check_available_frames_def)
  then obtain w ws m1 g where w: "swap_out w (m\<lparr>pages_to_replace := ws\<rparr>) = Some m1" "swap_in a g data m1 = Some m'"
    by (auto simp: page_replace_def bind_eq_Some_conv list_remove_first_def split: list.splits)
  then show ?thesis using swap_in_residents[OF w(2) r] swap_out_residents[OF w(1)] by (auto simp: resident_def)
qed

lemma store_defined: "positions m' = positions m \<Longrightarrow> store m' a = None \<longleftrightarrow> store m a = None"
  using positions_dom[of m' m] by (metis domIff)

lemma absent_resident: "absent m a \<longleftrightarrow> store m a \<noteq> None \<and> (\<forall>f. \<not> resident m a f)"
  by (auto simp: absent_def resident_def)

lemma calm_load_available:
  assumes "calm_load ba m"
  shows "frame_available ba m" and "search_frame ba (frame_table m) 0 (total_frames m) = None \<Longrightarrow> victim_resident m"
  using assms by (auto simp: calm_load_def frame_available_def victim_resident_def resident_def split: option.splits list.splits)

lemma calm_load_listens:
  assumes "calm_load (bits env) m" and "start_load env data m = Some (m', t)"
  shows "t = Listening"
proof (cases "list_page m")
  case (Cons pg rest)
  let ?m = "m\<lparr>list_page := rest\<rparr>"
  have tf: "total_frames ?m = total_frames m" by (simp add: total_frames_def)
  show ?thesis
  proof (cases "search_frame (bits env) (frame_table m) 0 (total_frames m)")
    case None
    then obtain a where "start_replacement a data ?m = Some (m', t)"
      using assms(2) Cons tf by (auto simp: start_load_def list_remove_first_def check_available_frames_def split: option.splits)
    then show ?thesis using assms(1) None
      by (auto simp: start_replacement_def calm_load_def list_remove_first_def Let_def split: list.splits option.splits)
  next
    case (Some f)
    then show ?thesis using assms(2) Cons tf
      by (auto simp: start_load_def list_remove_first_def check_available_frames_def split: option.splits)
  qed
qed (use assms in \<open>simp add: start_load_def list_remove_first_def\<close>)

text \<open>Lists, counters and messages do not matter to the frames.\<close>

lemma same_frames:
  assumes "store m' = store m" "frames m' = frames m" "frame_table m' = frame_table m" "memory_size m' = memory_size m"
    "page_size m' = page_size m"
  shows "resident m' b f = resident m b f" and "frame_content m' g = frame_content m g" and "total_frames m' = total_frames m"
    and "paging_ok ba cfg m' s = paging_ok ba cfg m s" and "contents cfg m' s = contents cfg m s"
proof -
  have r: "resident m' b f = resident m b f" for b f using assms by (simp add: resident_def)
  moreover have f: "frame_content m' g = frame_content m g" for g using assms by (simp add: frame_content_def read_frame_def)
  moreover have t: "total_frames m' = total_frames m" using assms by (simp add: total_frames_def)
  moreover from this r have "frames_ok ba m' = frames_ok ba m" using assms by (simp add: frames_ok_def)
  ultimately show "resident m' b f = resident m b f" "frame_content m' g = frame_content m g" "total_frames m' = total_frames m"
    "paging_ok ba cfg m' s = paging_ok ba cfg m s" "contents cfg m' s = contents cfg m s"
    using assms by (simp_all add: paging_ok_def contents_def fun_eq_iff split: option.split)
qed

lemma contents_map: "block_map s' = block_map s \<Longrightarrow> contents cfg m s' = contents cfg m s"
  by (simp add: contents_def fun_eq_iff split: option.split)

lemma listed_page [simp]:
  "contents cfg (m\<lparr>list_page := ps\<rparr>) s = contents cfg m s" "resident (m\<lparr>list_page := ps\<rparr>) b f = resident m b f"
  "get_page p i (m\<lparr>list_page := ps\<rparr>) = get_page p i m" "paging_ok ba cfg (m\<lparr>list_page := ps\<rparr>) s = paging_ok ba cfg m s"
  "calm_load ba (m\<lparr>list_page := ps\<rparr>) = calm_load ba m"
  by (simp_all add: same_frames[of "m\<lparr>list_page := ps\<rparr>" m] calm_load_def get_page_def search_page_table_def
      split: option.split list.split)

lemma sorted_page [simp]:
  "paging_ok ba cfg (m\<lparr>sort_pages := k\<rparr>) s = paging_ok ba cfg m s" "paging_ok ba cfg (m\<lparr>pages_to_replace := l\<rparr>) s = paging_ok ba cfg m s"
  "get_page p i (m\<lparr>sort_pages := k\<rparr>) = get_page p i m" "get_page p i (m\<lparr>pages_to_replace := l\<rparr>) = get_page p i m"
  by (simp_all add: same_frames[of "m\<lparr>sort_pages := k\<rparr>" m] same_frames[of "m\<lparr>pages_to_replace := l\<rparr>" m]
      get_page_def search_page_table_def)

text \<open>A calm load: the page comes into a frame, nothing is sent to the file system.\<close>

lemma calm_load_turn:
  assumes laws: "bitarray_laws (bits env)" and pk: "paging_ok (bits env) cfg m s" and c: "calm_load (bits env) m"
    and l: "list_page m = pg # rest" and p: "get_page (pag_pid pg) (sint (page_number pg)) m = Some (Some a)"
    and e: "absent m a" and d: "swap_image cfg (block_map s) (nat (sint (entry_position m a))) = Some data"
  shows "\<exists>m'. start_load env data m = Some (m', Listening) \<and> mem_sent m' = mem_sent m @ [page_loaded] \<and> list_page m' = rest
     \<and> paging_ok (bits env) cfg m' s \<and> page_tables m' = page_tables m \<and> positions m' = positions m
     \<and> contents cfg m' s = contents cfg m s \<and> (\<forall>b. b \<noteq> a \<longrightarrow> absent m b \<longrightarrow> absent m' b)"
proof -
  let ?m = "m\<lparr>list_page := rest\<rparr>"
  obtain e0 where e0: "store m a = Some e0" "\<not> bit_precense e0" using e by (auto simp: absent_def)
  have c': "calm_load (bits env) ?m" and pk': "paging_ok (bits env) cfg ?m s" using c pk by simp_all
  have "swap_image cfg (block_map s) (nat (sint (swap_position e0))) = Some data"
    using d e0 by (simp add: entry_position_def positions_def)
  then obtain m1 s' msgs where m1: "load_page (bits env) (pag_pid pg) (sint (page_number pg)) data ?m = Some m1"
    "mem_sent m1 = mem_sent m @ msgs" "deliver undefined cfg msgs s = Some s'" "paging_ok (bits env) cfg m1 s'"
    "\<And>b. contents cfg m1 s' b = contents cfg ?m s b"
    using load_page_keeps[OF laws pk' calm_load_available[OF c'], of "pag_pid pg" "sint (page_number pg)" a e0 data undefined] p e0
    by auto
  let ?r = "reply PKernel (create_integer_package 11 0) m1"
  have "load_page_reply env data m = Some ?r" using m1(1) l by (simp add: load_page_reply_def list_remove_first_def)
  then obtain m' t where t: "start_load env data m = Some (m', t)" "finish_load (m', t) = Some ?r"
    by (auto simp: load_in_two bind_eq_Some_conv)
  have "t = Listening" by (rule calm_load_listens[OF c t(1)])
  then have st: "start_load env data m = Some (?r, Listening)" using t by (simp add: finish_load_def)
  from start_load_sent[OF this] have "msgs = []" using m1(2) by (auto simp: loads_or_waits_def)
  then have s': "s' = s" using m1(3) by simp
  note rest = load_page_rest[OF m1(1)]
  have "get_page (pag_pid pg) (sint (page_number pg)) ?m = Some (Some a)" using p by simp
  from load_page_residents[OF this m1(1)] have "resident m1 b f \<Longrightarrow> b \<noteq> a \<Longrightarrow> resident m b f" for b f by auto
  then have "absent m1 b" if "b \<noteq> a" "absent m b" for b
    using that store_defined[of m1 m b] rest by (auto simp: absent_resident)
  then have "absent ?r b" if "b \<noteq> a" "absent m b" for b using that by (simp add: absent_def)
  moreover have "contents cfg ?r s = contents cfg m s" using m1(5) s' by (simp add: fun_eq_iff)
  ultimately show ?thesis using st m1(4) s' rest \<open>msgs = []\<close> m1(2) by (intro exI[of _ ?r]) simp
qed

section \<open>The turns\<close>

lemma under_way_same:
  assumes "under_way v n bs cs" and "page_tables (net_mem n') = page_tables (net_mem n)"
    and "positions (net_mem n') = positions (net_mem n)" and "list_page (net_mem n') = list_page (net_mem n)"
    and "to_mem n' = to_mem n" and "to_fs n' = to_fs n" and "block_map (net_fs n') = block_map (net_fs n)"
    and "\<And>a. absent (net_mem n) a \<Longrightarrow> absent (net_mem n') a"
  shows "under_way v n' bs cs"
proof -
  have g: "get_page p i (net_mem n') = get_page p i (net_mem n)" for p i
    using assms(2) by (simp add: get_page_def search_page_table_def)
  have e: "entry_position (net_mem n') = entry_position (net_mem n)" using assms(3) by (simp add: entry_position_def fun_eq_iff)
  then have "entry_image v n' = entry_image v n" using assms(7) by (simp add: entry_image_def fun_eq_iff)
  then show ?thesis using assms(1,4-6,8) e g by (simp add: under_way_def list_all_iff)
qed

text \<open>A turn that only changes the memory and sends nothing to the file system.\<close>

lemma memory_turn:
  assumes i: "calm_inv v pt n" and pk: "paging_ok (bits (mem_env v)) (fs_config v) m' (net_fs n)"
    and s: "page_tables m' = page_tables (net_mem n)" "positions m' = positions (net_mem n)" "list_page m' = list_page (net_mem n)"
    and a: "\<And>a. absent (net_mem n) a \<Longrightarrow> absent m' a"
    and q: "filter (\<lambda>(p, _). p = PFilesystem) (new_messages (net_mem n) m') = []"
  shows "calm_inv v pt (mem_moves m' n)"
proof -
  obtain bs cs where "under_way v n bs cs" using i by (auto simp: calm_inv_def)
  then have "under_way v (mem_moves m' n) bs cs"
    by (rule under_way_same) (use s a q in \<open>simp_all add: mem_moves_def\<close>)
  moreover have "page_of m' = page_of (net_mem n)"
    using s(1) by (simp add: page_of_def get_page_def search_page_table_def fun_eq_iff)
  ultimately show ?thesis using i pk by (auto simp: calm_inv_def)
qed

lemma page_in_memoryE:
  assumes "page_in_memory m p i"
  obtains a e where "get_page p (sint i) m = Some (Some a)" and "store m a = Some e" and "bit_precense e"
  using assms by (auto simp: page_in_memory_def split: option.splits)

lemma no_answer: "\<not> is_access t \<Longrightarrow> turn_answer t n = None"
  by (simp add: turn_answer_def)

text \<open>What a calm turn has to show.\<close>

definition follows :: "'b vm_env \<Rightarrow> (u32 \<Rightarrow> c_int \<Rightarrow> nat) \<Rightarrow> turn_of \<Rightarrow> 'b net \<Rightarrow> 'b net \<Rightarrow> bool" where
  "follows v pt t n n' \<longleftrightarrow> calm_inv v pt n' \<and> flat_step pt t (net_contents v n) = Some (turn_answer t n', net_contents v n')"

lemma mov_out_turn:
  assumes i: "calm_inv v pt n" and c: "calm v (CpuTurn (MOV_OUT d)) n" and s: "net_step v (CpuTurn (MOV_OUT d)) n = Runs n'"
  shows "follows v pt (CpuTurn (MOV_OUT d)) n n'"
proof -
  let ?m = "net_mem n" and ?cfg = "fs_config v"
  have pk: "paging_ok (bits (mem_env v)) ?cfg ?m (net_fs n)" and pt: "page_of ?m = pt" using i by (auto simp: calm_inv_def)
  have fo: "frames_ok (bits (mem_env v)) ?m" using pk by (simp add: paging_ok_def)
  obtain a e where p: "get_page (mo_pid d) (sint (mo_page_number d)) ?m = Some (Some a)" and e: "store ?m a = Some e" "bit_precense e"
    using c by (auto elim: page_in_memoryE)
  have b: "0 \<le> sint (mo_displacement d)" "sint (mo_displacement d) + 4 \<le> page_size ?m" using c by auto
  obtain fs where w: "mem_write (frames ?m) (nat (frame_number e) * nat (page_size ?m) + nat (sint (mo_displacement d)))
      (bytes_of_u32 (mo_register_value d)) = Some fs" and r: "mov_out PCpu d ?m = Some (stored PCpu a e fs ?m)"
    using mov_out_effect[OF fo p e b, of "mo_register_value d" PCpu] by (cases d) auto
  let ?m' = "stored PCpu a e fs ?m"
  have n': "n' = mem_moves ?m' n" using s r by (simp add: net_step.simps or_crash_def)
  obtain k k' where k: "paging_ok (bits (mem_env v)) ?cfg ?m' (net_fs n)" "contents ?cfg ?m (net_fs n) a = Some k"
    "mem_write k (nat (sint (mo_displacement d))) (bytes_of_u32 (mo_register_value d)) = Some k'"
    "contents ?cfg ?m' (net_fs n) = (contents ?cfg ?m (net_fs n))(a \<mapsto> k')"
    using stored_keeps[OF pk e b _ w, of PCpu] by auto
  have "positions ?m' = positions ?m" using e by (auto simp: positions_def)
  then have "calm_inv v pt n'" unfolding n'
    using e by (intro memory_turn[OF i k(1)]) (auto simp: stored_def absent_def new_messages_def)
  moreover have "pt (mo_pid d) (mo_page_number d) = a" using p pt by (auto simp: page_of_def)
  moreover have "turn_answer (CpuTurn (MOV_OUT d)) n' = Some 0"
    by (simp add: n' turn_answer_def answer_to_cpu_def create_integer_package_def create_empty_package_def u32_codec.dec_enc_nil)
  ultimately show ?thesis using k n' by (simp add: follows_def net_contents_def)
qed

lemma mov_in_turn:
  assumes i: "calm_inv v pt n" and c: "calm v (CpuTurn (MOV_IN pg)) n" and s: "net_step v (CpuTurn (MOV_IN pg)) n = Runs n'"
  shows "follows v pt (CpuTurn (MOV_IN pg)) n n'"
proof -
  let ?m = "net_mem n" and ?cfg = "fs_config v"
  have pk: "paging_ok (bits (mem_env v)) ?cfg ?m (net_fs n)" and pt: "page_of ?m = pt" using i by (auto simp: calm_inv_def)
  obtain a e where p: "get_page (pag_pid pg) (sint (page_number pg)) ?m = Some (Some a)" and e: "store ?m a = Some e" "bit_precense e"
    using c by (auto elim: page_in_memoryE)
  have b: "0 \<le> sint (displacement pg)" "sint (displacement pg) + 4 \<le> page_size ?m" using c by auto
  obtain x k bs where x: "mov_in PCpu pg ?m = Some (reply PCpu (create_uint32_package 15 x) (noted a ?m))"
    "contents ?cfg ?m (net_fs n) a = Some k" "mem_read k (nat (sint (displacement pg))) 4 = Some bs" "rd_u32 bs = Some (x, [])"
    using mov_in_present[OF pk p e b, of PCpu] by (cases pg) auto
  let ?m' = "reply PCpu (create_uint32_package 15 x) (noted a ?m)"
  have n': "n' = mem_moves ?m' n" using s x by (simp add: net_step.simps or_crash_def)
  have "calm_inv v pt n'" unfolding n'
    using pk by (intro memory_turn[OF i]) (simp_all add: absent_def new_messages_def)
  moreover have "pt (pag_pid pg) (page_number pg) = a" using p pt by (auto simp: page_of_def)
  moreover have "turn_answer (CpuTurn (MOV_IN pg)) n' = Some x"
    by (simp add: n' turn_answer_def create_uint32_package_def create_empty_package_def u32_codec.dec_enc_nil)
  ultimately show ?thesis using x n' by (simp add: follows_def net_contents_def fun_eq_iff)
qed

lemma quiet_turn:
  assumes i: "calm_inv v pt n" and w: "wait_for_command (mem_env v) PCpu c (net_mem n) = Some (reply PCpu x (net_mem n))"
    and s: "net_step v (CpuTurn c) n = Runs n'" and c: "\<not> is_access (CpuTurn c)" "\<And>A. flat_step pt (CpuTurn c) A = Some (None, A)"
  shows "follows v pt (CpuTurn c) n n'"
proof -
  have n': "n' = mem_moves (reply PCpu x (net_mem n)) n" using s w by (simp add: net_step.simps or_crash_def split: if_splits)
  have "calm_inv v pt n'" unfolding n'
    using i by (intro memory_turn[OF i]) (simp_all add: absent_def new_messages_def calm_inv_def)
  then show ?thesis using c n' by (simp add: follows_def net_contents_def no_answer fun_eq_iff)
qed

lemma sorter_turn:
  assumes i: "calm_inv v pt n" and s: "net_step v SorterTurn n = Runs n'"
  shows "follows v pt SorterTurn n n'"
proof -
  obtain m' where m': "sorter_step (equals_ignore_case v) (replacement_algorithm v) (net_mem n) = Some (Some m')" "n' = mem_moves m' n"
    using s by (auto simp: net_step.simps or_crash_def split: option.splits)
  then have "m' = (net_mem n)\<lparr>pages_to_replace := pages_to_replace m', sort_pages := sort_pages m'\<rparr>"
    by (auto simp: sorter_step_def sort_pages_by_fifo_def sort_pages_by_lru_def Let_def bind_eq_Some_conv split: if_splits)
  then obtain l k where l: "m' = (net_mem n)\<lparr>pages_to_replace := l, sort_pages := k\<rparr>" by blast
  have k: "paging_ok (bits (mem_env v)) (fs_config v) m' (net_fs n)"
    "contents (fs_config v) m' (net_fs n) = contents (fs_config v) (net_mem n) (net_fs n)"
    using i same_frames(4,5)[of m' "net_mem n"] by (simp_all add: calm_inv_def l)
  have "calm_inv v pt n'" unfolding m'(2)
    using k(1) by (rule memory_turn[OF i]) (simp_all add: l absent_def new_messages_def)
  then show ?thesis using m'(2) k(2) by (simp add: follows_def net_contents_def no_answer)
qed

lemma ask_turn:
  assumes i: "calm_inv v pt n" and c: "calm v (KernelTurn (LOAD_PAGE pg)) n" and s: "net_step v (KernelTurn (LOAD_PAGE pg)) n = Runs n'"
  shows "follows v pt (KernelTurn (LOAD_PAGE pg)) n n'"
proof -
  let ?m = "net_mem n"
  obtain a e where a: "get_page (pag_pid pg) (sint (page_number pg)) ?m = Some (Some a)" and e: "store ?m a = Some e" "\<not> bit_precense e"
    and new: "\<forall>pg' \<in> set (list_page ?m). \<not> same_page ?m pg pg'"
    using c by (auto simp: list_all_iff split: option.splits)
  obtain bs cs where u: "under_way v n bs cs" using i by (auto simp: calm_inv_def)
  let ?m' = "requested ?m pg a (swap_position e)"
  have n': "n' = n\<lparr>net_mem := ?m', to_fs := to_fs n @ [MPackage (create_integer_package 12 (swap_position e))]\<rparr>"
    using request_turn[OF a e(1), of v] s by simp
  have pos: "positions ?m' = positions ?m" by (simp add: positions_def fun_eq_iff)
  then have ep: "entry_position ?m' = entry_position ?m" by (simp add: entry_position_def fun_eq_iff)
  then have ei: "entry_image v n' = entry_image v n" by (simp add: n' entry_image_def fun_eq_iff)
  have la: "list_all2 (\<lambda>pg a. get_page (pag_pid pg) (sint (page_number pg)) ?m = Some (Some a)) (list_page ?m) (bs @ cs)"
    using u by (simp add: under_way_def)
  have "a \<notin> set (bs @ cs)"
  proof
    assume "a \<in> set (bs @ cs)"
    then obtain j where "j < length (bs @ cs)" "(bs @ cs) ! j = a" unfolding in_set_conv_nth by blast
    then have "list_page ?m ! j \<in> set (list_page ?m)" "same_page ?m pg (list_page ?m ! j)"
      using la a by (auto simp: list_all2_conv_all_nth same_page_def)
    then show False using new by blast
  qed
  moreover have "entry_position ?m a = swap_position e" "absent ?m a" using e by (auto simp: entry_position_def positions_def absent_def)
  moreover have ab: "absent ?m' b = absent ?m b" for b by (simp add: absent_def)
  moreover have "list_all2 (\<lambda>pg a. get_page (pag_pid pg) (sint (page_number pg)) ?m = Some (Some a)) (list_page ?m @ [pg]) (bs @ cs @ [a])"
    using list_all2_appendI[OF la, of "[pg]" "[a]"] a by simp
  ultimately have "under_way v n' bs (cs @ [a])"
    using u unfolding under_way_def ei by (simp add: n' ep list_all_iff)
  moreover have "page_of ?m' = page_of ?m" by (simp add: page_of_def fun_eq_iff)
  ultimately have "calm_inv v pt n'" using i by (auto simp: calm_inv_def n')
  then show ?thesis using n' by (simp add: follows_def net_contents_def no_answer fun_eq_iff)
qed

lemma under_way_image:
  assumes i: "calm_inv v pt n" and u: "under_way v n bs cs" and a: "a \<in> set (bs @ cs)"
  shows "0 \<le> sint (entry_position (net_mem n) a)" "sint (entry_position (net_mem n) a) < block_swap_count (fs_config v)"
    "map_ok (fs_config v) (block_map (net_fs n))"
    "swap_image (fs_config v) (block_map (net_fs n)) (nat (sint (entry_position (net_mem n) a))) = Some (entry_image v n a)"
proof -
  obtain e where e: "store (net_mem n) a = Some e" using u a by (auto simp: under_way_def list_all_iff absent_def)
  then have ep: "entry_position (net_mem n) a = swap_position e" by (simp add: entry_position_def positions_def)
  have pk: "paging_ok (bits (mem_env v)) (fs_config v) (net_mem n) (net_fs n)" using i by (simp add: calm_inv_def)
  from image_of_entry[OF pk e]
  show "0 \<le> sint (entry_position (net_mem n) a)" "sint (entry_position (net_mem n) a) < block_swap_count (fs_config v)"
    "map_ok (fs_config v) (block_map (net_fs n))"
    "swap_image (fs_config v) (block_map (net_fs n)) (nat (sint (entry_position (net_mem n) a))) = Some (entry_image v n a)"
    by (auto simp: entry_image_def ep)
qed

lemma answered_turn:
  assumes i: "calm_inv v pt n" and u: "under_way v n bs (c # cs)"
  shows "\<exists>n'. net_step v FsTurn n = Runs n' \<and> follows v pt FsTurn n n' \<and> under_way v n' (bs @ [c]) cs"
proof -
  have t: "to_fs n = MPackage (create_integer_package 12 (entry_position (net_mem n) c))
      # map (\<lambda>a. MPackage (create_integer_package 12 (entry_position (net_mem n) a))) cs"
    using u by (simp add: under_way_def)
  have l: "fs_listens n" using i by (simp add: calm_inv_def)
  note im = under_way_image[OF i u, of c]
  obtain s where s: "net_step v FsTurn n = Runs (n\<lparr>net_fs := s,
      to_fs := map (\<lambda>a. MPackage (create_integer_package 12 (entry_position (net_mem n) a))) cs,
      to_mem := to_mem n @ [page_data (fs_config v) (entry_image v n c)]\<rparr>)" "block_map s = block_map (net_fs n)"
    using answer_turn[OF t l im(3,1,2,4)] by auto
  let ?n' = "n\<lparr>net_fs := s, to_fs := map (\<lambda>a. MPackage (create_integer_package 12 (entry_position (net_mem n) a))) cs,
      to_mem := to_mem n @ [page_data (fs_config v) (entry_image v n c)]\<rparr>"
  have "entry_image v ?n' = entry_image v n" using s(2) by (simp add: entry_image_def fun_eq_iff)
  then have u': "under_way v ?n' (bs @ [c]) cs" using u by (simp add: under_way_def)
  then have "calm_inv v pt ?n'" using i s(2) by (auto simp: calm_inv_def paging_ok_def)
  moreover have "net_contents v ?n' = net_contents v n"
    using s(2) by (simp add: net_contents_def contents_def fun_eq_iff split: option.split)
  ultimately show ?thesis using s(1) u' by (intro exI[of _ ?n']) (simp add: follows_def no_answer)
qed

lemma loaded_turn:
  assumes i: "calm_inv v pt n" and u: "under_way v n (b # bs) cs" and c: "calm v SwapTurn n"
  shows "\<exists>n'. net_step v SwapTurn n = Runs n' \<and> follows v pt SwapTurn n n' \<and> under_way v n' bs cs"
proof -
  let ?m = "net_mem n"
  obtain pg rest where l: "list_page ?m = pg # rest"
    and p: "get_page (pag_pid pg) (sint (page_number pg)) ?m = Some (Some b)"
    and la: "list_all2 (\<lambda>pg a. get_page (pag_pid pg) (sint (page_number pg)) ?m = Some (Some a)) rest (bs @ cs)"
    using u by (auto simp: under_way_def list_all2_Cons2)
  have ab: "absent ?m b" using u by (simp add: under_way_def)
  note im = under_way_image[OF i u, of b]
  have laws: "bitarray_laws (bits (mem_env v))" and pk: "paging_ok (bits (mem_env v)) (fs_config v) ?m (net_fs n)"
    using i by (simp_all add: calm_inv_def)
  obtain m' where m': "start_load (mem_env v) (entry_image v n b) ?m = Some (m', Listening)"
    "mem_sent m' = mem_sent ?m @ [page_loaded]" "list_page m' = rest"
    "paging_ok (bits (mem_env v)) (fs_config v) m' (net_fs n)" "page_tables m' = page_tables ?m" "positions m' = positions ?m"
    "contents (fs_config v) m' (net_fs n) = contents (fs_config v) ?m (net_fs n)" "\<And>a. a \<noteq> b \<Longrightarrow> absent ?m a \<Longrightarrow> absent m' a"
    using calm_load_turn[OF laws pk _ l p ab, of "entry_image v n b"] c im(4) by auto
  let ?n' = "n\<lparr>net_mem := m', to_mem := map (\<lambda>a. page_data (fs_config v) (entry_image v n a)) bs\<rparr>"
  have r: "net_step v SwapTurn n = Runs ?n'"
    using u m'(1,2) i by (simp add: net_step.simps(6) or_crash_def swap_turn_def mem_moves_def new_messages_def under_way_def calm_inv_def)
  have g: "get_page p k m' = get_page p k ?m" for p k using m'(5) by (simp add: get_page_def search_page_table_def)
  have "entry_position m' = entry_position ?m" using m'(6) by (simp add: entry_position_def fun_eq_iff)
  moreover from this have "entry_image v ?n' = entry_image v n" by (simp add: entry_image_def fun_eq_iff)
  moreover have "b \<notin> set (bs @ cs)" using u by (simp add: under_way_def)
  moreover have "\<forall>a \<in> set (bs @ cs). absent m' a"
  proof
    fix a assume "a \<in> set (bs @ cs)"
    then have "a \<noteq> b" "absent ?m a" using u by (auto simp: under_way_def list_all_iff)
    then show "absent m' a" by (rule m'(8))
  qed
  ultimately have u': "under_way v ?n' bs cs"
    using u la m'(3) unfolding under_way_def list_all_iff by (simp add: g)
  moreover have "page_of m' = page_of ?m" using g by (simp add: page_of_def fun_eq_iff)
  ultimately have "calm_inv v pt ?n'" using i m'(4) by (auto simp: calm_inv_def)
  then show ?thesis using r u' m'(7) by (intro exI[of _ ?n']) (simp add: follows_def net_contents_def no_answer)
qed

lemma calm_turn_follows:
  assumes i: "calm_inv v pt n" and c: "calm v t n" and s: "net_step v t n = Runs n'"
  shows "follows v pt t n n'"
proof -
  obtain bs cs where u: "under_way v n bs cs" using i by (auto simp: calm_inv_def)
  show ?thesis
  proof (cases t)
    case (KernelTurn k)
    then obtain pg where k: "k = LOAD_PAGE pg" using c by (cases k) auto
    show ?thesis using ask_turn[OF i, of pg n'] c s by (simp only: KernelTurn k)
  next
    case (CpuTurn k)
    show ?thesis
    proof (cases k)
      case (PAGE_NUMBER pg)
      then obtain x where "wait_for_command (mem_env v) PCpu k (net_mem n) = Some (reply PCpu x (net_mem n))"
        using s CpuTurn by (auto simp: net_step.simps or_crash_def page_number_request_def split: option.splits)
      then show ?thesis using quiet_turn[OF i] s CpuTurn PAGE_NUMBER by simp
    next
      case (FETCH_INSTRUCTION p)
      then obtain x where "wait_for_command (mem_env v) PCpu k (net_mem n) = Some (reply PCpu x (net_mem n))"
        using s CpuTurn by (auto simp: net_step.simps or_crash_def split: option.splits fetched.splits)
      then show ?thesis using quiet_turn[OF i] s CpuTurn FETCH_INSTRUCTION by simp
    next
      case (MOV_OUT d)
      show ?thesis using mov_out_turn[OF i, of d n'] c s by (simp only: CpuTurn MOV_OUT)
    next
      case (MOV_IN pg)
      show ?thesis using mov_in_turn[OF i, of pg n'] c s by (simp only: CpuTurn MOV_IN)
    qed (use c CpuTurn in simp_all)
  next
    case SorterTurn
    then show ?thesis using sorter_turn[OF i] s by simp
  next
    case FsTurn
    with s u obtain a as where "cs = a # as" by (cases cs) (auto simp: net_step.simps under_way_def)
    then show ?thesis using answered_turn[OF i, of bs a as] u s FsTurn by auto
  next
    case SwapTurn
    with s u obtain a as where "bs = a # as" by (cases bs) (auto simp: net_step.simps under_way_def)
    then show ?thesis using loaded_turn[OF i, of a as cs] u c s SwapTurn by auto
  qed (use c in auto)
qed

interpretation overlap: refines "calm_step v" "flat_step pt" "calm_inv v pt" "net_contents v"
  for v :: "'b vm_env" and pt
  by unfold_locales (auto simp: calm_step_def follows_def dest: calm_turn_follows split: if_splits outcome.splits)

text \<open>
  C6. Overlapping faults, in calm runs. The requests, the answers of the file system and the loads of
  several page faults may overlap in any order, with accesses of the CPU and turns of the sorter between
  them, provided that (\<open>calm\<close>) every load finds a free frame or a victim that is in memory and has no
  changes, every access is within a page that is in memory at that moment, a page that is asked for is
  not in memory and not asked for already, and nothing else is asked of the memory and the file
  system. Then each access answers what the abstract memory answers, all contents are those of the
  abstract memory, and while a page that was asked for is still to come a turn can be made for it. Runs
  in which a page is replaced between the answer with its frame and the access are not calm, nor are those of
  \<open>write_during_replacement_is_lost\<close> and \<open>fault_replaces_itself\<close>: the code fails in them.
\<close>

theorem interleaved_faults_are_transparent:
  assumes i: "calm_inv v pt n" and r: "run_events (calm_step v) ts n = Some (xs, n')"
  shows "run_events (flat_step pt) ts (net_contents v n) = Some (xs, net_contents v n') \<and> calm_inv v pt n'
     \<and> (list_page (net_mem n') \<noteq> [] \<and> calm v SwapTurn n' \<longrightarrow> calm_step v FsTurn n' \<noteq> None \<or> calm_step v SwapTurn n' \<noteq> None)"
proof -
  have i': "calm_inv v pt n'" and f: "run_events (flat_step pt) ts (net_contents v n) = Some (xs, net_contents v n')"
    using overlap.run_refines[OF i r] by simp_all
  then obtain bs cs where u: "under_way v n' bs cs" by (auto simp: calm_inv_def)
  have "calm_step v FsTurn n' \<noteq> None \<or> calm_step v SwapTurn n' \<noteq> None"
    if l: "list_page (net_mem n') \<noteq> []" and c: "calm v SwapTurn n'"
  proof (cases cs)
    case Nil
    then obtain b rest where "bs = b # rest" using u l by (cases bs) (auto simp: under_way_def)
    then show ?thesis using loaded_turn[OF i', of b rest cs] u c by (auto simp: calm_step_def)
  next
    case (Cons c rest)
    then show ?thesis using answered_turn[OF i', of bs c rest] u by (auto simp: calm_step_def)
  qed
  then show ?thesis using i' f by blast
qed

text \<open>Three frames, one with the page of process 3; the pages of processes 1 and 2 are in the swap.\<close>

definition calm_memory :: "(nat \<Rightarrow> bool) memory" where
  "calm_memory = (init_real_memory demo_bits 48 16 (replicate 48 1))\<lparr>frame_table := (\<lambda>i. i = 0 \<or> i = 3),
     store := [0 \<mapsto> page_create 1 False False 0 0 0, 1 \<mapsto> page_create 2 False False 0 0 1, 2 \<mapsto> page_create 3 True True 0 0 2],
     next_entry := 3, page_tables := [(1, [0]), (2, [1]), (3, [2])]\<rparr>"

definition calm_net :: "(nat \<Rightarrow> bool) net" where
  "calm_net = demo_net\<lparr>net_mem := calm_memory\<rparr>"

definition calm_turns :: "turn_of list" where
  "calm_turns = [KernelTurn (LOAD_PAGE (page_new 1 0 0)), KernelTurn (LOAD_PAGE (page_new 2 0 0)), FsTurn,
     CpuTurn (MOV_OUT \<lparr>mo_page_number = 0, mo_displacement = 4, mo_pid = 3, mo_register_value = 77\<rparr>), SwapTurn]"

lemma calm_net_ok: "calm_inv crowd_run (page_of calm_memory) calm_net"
proof -
  have "map_ok (fs_config crowd_run) (block_map demo_fs)"
    by (simp add: map_ok_def crowd_run_def demo_vm_run_def demo_cfg_def demo_fs_def)
  then have "paging_ok demo_bits (fs_config crowd_run) calm_memory demo_fs"
    by (auto simp: paging_ok_def frames_ok_def resident_def calm_memory_def crowd_run_def demo_vm_run_def demo_cfg_def
        init_real_memory_def page_create_def total_frames_def demo_bits_def split: if_splits)
  moreover have "under_way crowd_run calm_net [] []"
    by (simp add: under_way_def calm_net_def demo_net_def calm_memory_def init_real_memory_def)
  ultimately show ?thesis using demo_bits_laws
    by (auto simp: calm_inv_def calm_net_def demo_net_def crowd_run_def demo_vm_run_def demo_vm_env_def)
qed

lemma calm_turn_runs:
  assumes "calm_inv v pt n" and "calm v t n" and "net_step v t n = Runs n'"
  shows "calm_inv v pt n' \<and> calm_step v t n = Some (turn_answer t n', n')"
  using calm_turn_follows[OF assms] assms by (simp add: follows_def calm_step_def)

text \<open>The store is made while the two pages are under way.\<close>

theorem interleaved_faults_are_transparent_witness:
  "\<exists>x n'. run_events (flat_step (page_of calm_memory)) calm_turns (net_contents crowd_run calm_net)
     = Some ([None, None, None, Some x, None], net_contents crowd_run n')"
proof -
  let ?v = crowd_run and ?pt = "page_of calm_memory" and ?pg1 = "page_new 1 0 0" and ?pg2 = "page_new 2 0 0"
  let ?d = "\<lparr>mo_page_number = 0, mo_displacement = 4, mo_pid = 3, mo_register_value = 77\<rparr>"
  have pages: "get_page 1 0 calm_memory = Some (Some 0)" "get_page 2 0 calm_memory = Some (Some 1)" "get_page 3 0 calm_memory = Some (Some 2)"
    by (simp_all add: calm_memory_def init_real_memory_def get_page_def search_page_table_def list_get_def)
  have st: "store calm_memory 0 = Some (page_create 1 False False 0 0 0)" "store calm_memory 1 = Some (page_create 2 False False 0 0 1)"
    "store calm_memory 2 = Some (page_create 3 True True 0 0 2)" "list_page calm_memory = []" "page_size calm_memory = 16"
    by (simp_all add: calm_memory_def init_real_memory_def)
  have n: "net_mem calm_net = calm_memory" "to_fs calm_net = []" "to_mem calm_net = []" "fs_listens calm_net"
    by (simp_all add: calm_net_def demo_net_def)
  let ?n1 = "calm_net\<lparr>net_mem := requested calm_memory ?pg1 0 0, to_fs := [MPackage (create_integer_package 12 0)]\<rparr>"
  have r1: "net_step ?v (KernelTurn (LOAD_PAGE ?pg1)) calm_net = Runs ?n1"
    using request_turn[of ?pg1 calm_net 0 _ ?v] pages st n by (simp add: page_new_def page_create_def)
  have c1: "calm ?v (KernelTurn (LOAD_PAGE ?pg1)) calm_net" using pages st n by (simp add: page_new_def page_create_def)
  note s1 = calm_turn_runs[OF calm_net_ok c1 r1]
  let ?n2 = "?n1\<lparr>net_mem := requested (requested calm_memory ?pg1 0 0) ?pg2 1 1,
      to_fs := [MPackage (create_integer_package 12 0), MPackage (create_integer_package 12 1)]\<rparr>"
  have r2: "net_step ?v (KernelTurn (LOAD_PAGE ?pg2)) ?n1 = Runs ?n2"
    using request_turn[of ?pg2 ?n1 1 _ ?v] pages st by (simp add: page_new_def page_create_def)
  have c2: "calm ?v (KernelTurn (LOAD_PAGE ?pg2)) ?n1" using pages st by (simp add: page_new_def page_create_def same_page_def)
  note s2 = calm_turn_runs[OF s1[THEN conjunct1] c2 r2]
  have pk2: "paging_ok (bits (mem_env ?v)) (fs_config ?v) (net_mem ?n2) (net_fs ?n2)" using s2 by (simp add: calm_inv_def)
  have e0: "store (net_mem ?n2) 0 = Some (page_create 1 False False 0 0 0)" using st by simp
  note im = image_of_entry[OF pk2 e0, unfolded page_create_def, simplified]
  obtain d where d: "swap_image (fs_config ?v) (block_map (net_fs calm_net)) 0 = Some d" using im by auto
  obtain s where r3: "net_step ?v FsTurn ?n2 = Runs (?n2\<lparr>net_fs := s, to_fs := [MPackage (create_integer_package 12 1)],
      to_mem := [page_data (fs_config ?v) d]\<rparr>)"
    using answer_turn[of ?n2 0 "[MPackage (create_integer_package 12 1)]" ?v d] im d n by auto
  let ?n3 = "?n2\<lparr>net_fs := s, to_fs := [MPackage (create_integer_package 12 1)], to_mem := [page_data (fs_config ?v) d]\<rparr>"
  have c3: "calm ?v FsTurn ?n2" by simp
  note s3 = calm_turn_runs[OF s2[THEN conjunct1] c3 r3]
  have ok: "frames_ok (bits (mem_env ?v)) (net_mem ?n3)" using s3 by (simp add: calm_inv_def paging_ok_def)
  obtain fs where m4: "mov_out PCpu ?d (net_mem ?n3) = Some (stored PCpu 2 (page_create 3 True True 0 0 2) fs (net_mem ?n3))"
    using mov_out_effect[OF ok, of 3 0 2 "page_create 3 True True 0 0 2" 4 77 PCpu] pages st by (auto simp: page_create_def)
  let ?n4 = "mem_moves (stored PCpu 2 (page_create 3 True True 0 0 2) fs (net_mem ?n3)) ?n3"
  have r4: "net_step ?v (CpuTurn (MOV_OUT ?d)) ?n3 = Runs ?n4" using m4 by (simp add: net_step.simps or_crash_def)
  have c4: "calm ?v (CpuTurn (MOV_OUT ?d)) ?n3" using pages st by (simp add: page_in_memory_def page_create_def)
  note s4 = calm_turn_runs[OF s3[THEN conjunct1] c4 r4]
  have "total_frames (net_mem ?n4) = 3" "frame_table (net_mem ?n4) = (\<lambda>i. i = 0 \<or> i = 3)"
    by (simp_all add: total_frames_def stored_def requested_def mem_send_def) (simp_all add: calm_memory_def init_real_memory_def)
  moreover have "search_frame demo_bits (\<lambda>i. i = 0 \<or> i = 3) 0 3 = Some 1" by code_simp
  ultimately have c5: "calm ?v SwapTurn ?n4"
    by (simp add: calm_load_def crowd_run_def demo_vm_run_def demo_vm_env_def)
  obtain bs cs where u: "under_way ?v ?n4 bs cs" using s4 by (auto simp: calm_inv_def)
  then obtain b bs' where "bs = b # bs'" by (cases bs) (auto simp: under_way_def)
  then obtain n5 where r5: "net_step ?v SwapTurn ?n4 = Runs n5" using loaded_turn[OF s4[THEN conjunct1] _ c5] u by blast
  note s5 = calm_turn_runs[OF s4[THEN conjunct1] c5 r5]
  obtain x where x: "turn_answer (CpuTurn (MOV_OUT ?d)) ?n4 = Some x"
    by (auto simp: turn_answer_def answer_to_cpu_def create_integer_package_def create_empty_package_def u32_codec.dec_enc_nil)
  have "run_events (calm_step ?v) calm_turns calm_net = Some ([None, None, None, Some x, None], n5)"
    using s1 s2 s3 s4 s5 x by (simp add: calm_turns_def no_answer)
  from interleaved_faults_are_transparent[OF calm_net_ok this] show ?thesis by blast
qed

section \<open>When they are not calm\<close>

text \<open>The copy of a modified victim is under way, and the thread waits for its confirmation.\<close>

lemma copy_under_way:
  assumes full: "full_net v w e n" and p1: "absent_page (net_mem n) pg1 a1 e1"
  shows "\<exists>n3 content data. net_run v [KernelTurn (LOAD_PAGE pg1), FsTurn, SwapTurn] n = Runs n3
     \<and> frame_content (net_mem n) (frame_number e) = Some content \<and> length content = nat (block_size (fs_config v))
     \<and> to_fs n3 = [MSwapPage 13 (page_for_swap (swap_position e) (word_of_int (page_size (net_mem n))) content)]
     \<and> to_mem n3 = [] \<and> swap_thr n3 = AwaitsUpdate w a1 data \<and> fs_listens n3 \<and> length data = nat (page_size (net_mem n))
     \<and> paging_ok (bits (mem_env v)) (fs_config v) (net_mem n3) (net_fs n3) \<and> store (net_mem n3) = store (net_mem n)
     \<and> page_size (net_mem n3) = page_size (net_mem n) \<and> page_tables (net_mem n3) = page_tables (net_mem n)
     \<and> net_contents v n3 = net_contents v n"
proof -
  let ?cfg = "fs_config v" and ?p1 = "swap_position e1"
  have pk: "paging_ok (bits (mem_env v)) ?cfg (net_mem n) (net_fs n)"
    and w: "store (net_mem n) w = Some e" "bit_precense e" "bit_modified e" using full by (simp_all add: full_net_def)
  obtain ws where ws: "pages_to_replace (net_mem n) = w # ws" using full by (auto simp: full_net_def)
  note i1 = image_of_entry[OF pk, of a1 e1]
  obtain d1 where d1: "swap_image ?cfg (block_map (net_fs n)) (nat (sint ?p1)) = Some d1" "length d1 = nat (page_size (net_mem n))"
    using i1(4) p1 by (auto simp: absent_page_def)
  let ?m1 = "requested (net_mem n) pg1 a1 ?p1"
  let ?n1 = "n\<lparr>net_mem := ?m1, to_fs := [MPackage (create_integer_package 12 ?p1)]\<rparr>"
  have r1: "net_step v (KernelTurn (LOAD_PAGE pg1)) n = Runs ?n1"
    using request_turn[of pg1 n a1 e1 v] p1 full by (simp add: absent_page_def full_net_def)
  obtain s where s: "net_step v FsTurn ?n1 = Runs (?n1\<lparr>net_fs := s, to_fs := [], to_mem := [page_data ?cfg d1]\<rparr>)"
    "block_map s = block_map (net_fs n)"
    using answer_turn[of ?n1 ?p1 "[]" v d1] i1(1-3) d1 p1 full by (auto simp: absent_page_def full_net_def)
  let ?n2 = "?n1\<lparr>net_fs := s, to_fs := [], to_mem := [page_data ?cfg d1]\<rparr>"
  have pk1: "paging_ok (bits (mem_env v)) ?cfg ?m1 (net_fs n)" using pk by simp
  obtain content where c: "frame_content (net_mem n) (frame_number e) = Some content"
    and sl: "start_load (mem_env v) d1 ?m1 = Some (mem_send PFilesystem (MSwapPage 13 (page_for_swap (swap_position e)
      (word_of_int (page_size (net_mem n))) content)) (?m1\<lparr>list_page := [], pages_to_replace := ws\<rparr>), AwaitsUpdate w a1 d1)"
    using replacement_waits[OF pk1 _ _ _ _ _ w(2,3), of pg1 "[]" a1 w ws d1] full p1 w ws
    by (auto simp: absent_page_def full_net_def)
  let ?msg = "MSwapPage 13 (page_for_swap (swap_position e) (word_of_int (page_size (net_mem n))) content)"
  let ?m3 = "mem_send PFilesystem ?msg (?m1\<lparr>list_page := [], pages_to_replace := ws\<rparr>)"
  let ?n3 = "?n2\<lparr>net_mem := ?m3, to_fs := [?msg], to_mem := [], swap_thr := AwaitsUpdate w a1 d1\<rparr>"
  have r3: "net_step v SwapTurn ?n2 = Runs ?n3"
    using swap_turn_waits[of ?n2 v d1 "[]" ?msg] sl full by (simp add: full_net_def)
  note sf = same_frames[of ?m3 "net_mem n"]
  have "paging_ok (bits (mem_env v)) ?cfg ?m3 s"
    using pk s(2) by (subst sf) (simp_all add: mem_send_def requested_def paging_ok_def)
  moreover have "net_contents v ?n3 = net_contents v n"
    using sf(5)[of ?cfg s] contents_map[OF s(2)] by (simp add: net_contents_def mem_send_def requested_def)
  moreover have "length content = nat (block_size ?cfg)"
    using frame_content_defined[of "bits (mem_env v)" "net_mem n" w "frame_number e"] c w pk
    by (auto simp: resident_def paging_ok_def)
  ultimately show ?thesis using r1 s(1) r3 c d1(2) full
    by (intro exI[of _ ?n3] exI[of _ content] exI[of _ d1]) (simp add: full_net_def mem_send_def)
qed

text \<open>The confirmation ends the replacement: the victim has the contents of the copy.\<close>

lemma copy_confirmed:
  assumes pk: "paging_ok (bits (mem_env v)) (fs_config v) (net_mem n) (net_fs n)"
    and e: "store (net_mem n) w = Some e" "bit_precense e" and sa: "store (net_mem n) a = Some ea" "a \<noteq> w"
    and c: "length content = nat (block_size (fs_config v))" and d: "length data = nat (page_size (net_mem n))"
    and q: "to_fs n = [MSwapPage 13 (page_for_swap (swap_position e) sz content)]" "to_mem n = []"
      "swap_thr n = AwaitsUpdate w a data" "fs_listens n"
  shows "\<exists>n'. net_run v [FsTurn, SwapTurn] n = Runs n' \<and> net_contents v n' w = Some content"
proof -
  obtain s where s: "net_step v FsTurn n = Runs (n\<lparr>net_fs := s, to_fs := [], to_mem := [FsPackage (create_integer_package 13 0)]\<rparr>)"
    "swap_image (fs_config v) (block_map s) (nat (sint (swap_position e))) = Some content"
    using copy_turn[of v n "swap_position e" content sz "[]"] image_of_entry[OF pk e(1)] c q by auto
  let ?n = "n\<lparr>net_fs := s, to_fs := [], to_mem := [FsPackage (create_integer_package 13 0)]\<rparr>"
  have fo: "frames_ok (bits (mem_env v)) (net_mem n)" using pk by (simp add: paging_ok_def)
  obtain m where m: "finish_replacement w a data (net_mem n) = Some m" "store m w = Some (e\<lparr>bit_precense := False, bit_modified := False\<rparr>)"
    using replacement_ends[OF fo e sa d] by blast
  have "first_bytes (FsPackage (create_integer_package 13 0))"
    using package_int_integer[of 13 0] by (auto simp: first_bytes_def package_int_def)
  then have "net_step v SwapTurn ?n = Runs (?n\<lparr>net_mem := m, to_mem := [], swap_thr := Listening\<rparr>)"
    using swap_turn_ends[of ?n _ "[]" w a data m v] m q(3) by simp
  moreover have "net_contents v (?n\<lparr>net_mem := m, to_mem := [], swap_thr := Listening\<rparr>) w = Some content"
    using m(2) s(2) by (simp add: net_contents_def contents_def)
  ultimately show ?thesis using s(1) by simp
qed

text \<open>
  C33. A write during a replacement is lost. The copy of a modified page is on its way to the swap while
  the page still counts as present; a store of its process in between is made in the frame and
  confirmed to the CPU, and when the replacement ends the page has the contents from before it.
\<close>

theorem write_during_replacement_is_lost:
  assumes full: "full_net v w e n" and p1: "absent_page (net_mem n) pg1 a1 e1"
    and g: "get_page (mo_pid d) (sint (mo_page_number d)) (net_mem n) = Some (Some w)"
    and b: "0 \<le> sint (mo_displacement d)" "sint (mo_displacement d) + 4 \<le> page_size (net_mem n)"
  shows "\<exists>n3 n4 n' c. net_run v [KernelTurn (LOAD_PAGE pg1), FsTurn, SwapTurn] n = Runs n3
     \<and> net_step v (CpuTurn (MOV_OUT d)) n3 = Runs n4 \<and> answer_to_cpu (net_mem n4) = Some (16, bytes_of_u32 0)
     \<and> net_contents v n4 w = Option.bind (net_contents v n w) (\<lambda>c. mem_write c (nat (sint (mo_displacement d))) (bytes_of_u32 (mo_register_value d)))
     \<and> net_run v [FsTurn, SwapTurn] n4 = Runs n' \<and> net_contents v n w = Some c \<and> net_contents v n' w = Some c"
proof -
  let ?cfg = "fs_config v" and ?x = "bytes_of_u32 (mo_register_value d)"
  have w: "store (net_mem n) w = Some e" "bit_precense e" "bit_modified e" using full by (simp_all add: full_net_def)
  obtain n3 content data where n3: "net_run v [KernelTurn (LOAD_PAGE pg1), FsTurn, SwapTurn] n = Runs n3"
    "frame_content (net_mem n) (frame_number e) = Some content" "length content = nat (block_size ?cfg)"
    "to_fs n3 = [MSwapPage 13 (page_for_swap (swap_position e) (word_of_int (page_size (net_mem n))) content)]"
    "to_mem n3 = []" "swap_thr n3 = AwaitsUpdate w a1 data" "fs_listens n3" "length data = nat (page_size (net_mem n))"
    and pk: "paging_ok (bits (mem_env v)) ?cfg (net_mem n3) (net_fs n3)" and st: "store (net_mem n3) = store (net_mem n)"
    and ps: "page_size (net_mem n3) = page_size (net_mem n)" "page_tables (net_mem n3) = page_tables (net_mem n)"
    and co: "net_contents v n3 = net_contents v n"
    using copy_under_way[OF full p1] by blast
  have c: "net_contents v n w = Some content" using w n3(2) by (simp add: net_contents_def contents_def)
  have fo: "frames_ok (bits (mem_env v)) (net_mem n3)" using pk by (simp add: paging_ok_def)
  have g3: "get_page (mo_pid d) (sint (mo_page_number d)) (net_mem n3) = Some (Some w)"
    using g ps(2) by (simp add: get_page_def search_page_table_def)
  have w3: "store (net_mem n3) w = Some e" and b3: "sint (mo_displacement d) + 4 \<le> page_size (net_mem n3)" using w st b ps by simp_all
  obtain fs where wr: "mem_write (frames (net_mem n3)) (nat (frame_number e) * nat (page_size (net_mem n3)) + nat (sint (mo_displacement d))) ?x = Some fs"
    and mo: "mov_out PCpu d (net_mem n3) = Some (stored PCpu w e fs (net_mem n3))"
    using mov_out_effect[OF fo g3 w3 w(2) b(1) b3, of "mo_register_value d" PCpu] by (cases d) auto
  let ?m4 = "stored PCpu w e fs (net_mem n3)"
  let ?n4 = "n3\<lparr>net_mem := ?m4\<rparr>"
  have r4: "net_step v (CpuTurn (MOV_OUT d)) n3 = Runs ?n4"
    using mo by (simp add: net_step.simps or_crash_def mem_moves_def new_messages_def)
  obtain c' where pk4: "paging_ok (bits (mem_env v)) ?cfg ?m4 (net_fs n3)" and c': "mem_write content (nat (sint (mo_displacement d))) ?x = Some c'"
    "contents ?cfg ?m4 (net_fs n3) = (net_contents v n)(w \<mapsto> c')"
    using stored_keeps[OF pk w3 w(2) b(1) b3 _ wr, of PCpu] co c by (auto simp: net_contents_def)
  have e4: "store ?m4 w = Some e" "store ?m4 a1 = Some e1" "a1 \<noteq> w"
    using w p1 st by (auto simp: absent_page_def)
  have "\<exists>n'. net_run v [FsTurn, SwapTurn] ?n4 = Runs n' \<and> net_contents v n' w = Some content"
    by (rule copy_confirmed[where e = e and a = a1 and ea = e1 and data = data and sz = "word_of_int (page_size (net_mem n))"])
      (use pk4 w(2) e4 n3(3-8) ps(1) in simp_all)
  then obtain n' where n': "net_run v [FsTurn, SwapTurn] ?n4 = Runs n'" "net_contents v n' w = Some content" by blast
  have "answer_to_cpu ?m4 = Some (16, bytes_of_u32 0)"
    by (simp add: answer_to_cpu_def create_integer_package_def create_empty_package_def)
  then show ?thesis using n3(1) r4 n' c c'
    by (intro exI[of _ n3] exI[of _ ?n4] exI[of _ n'] exI[of _ content]) (simp add: net_contents_def)
qed

theorem write_during_replacement_is_lost_witness:
  "\<exists>n3 n4 n' c. net_run crowd_run [KernelTurn (LOAD_PAGE (page_new 2 0 0)), FsTurn, SwapTurn] crowd_net = Runs n3
     \<and> net_step crowd_run (CpuTurn (MOV_OUT \<lparr>mo_page_number = 0, mo_displacement = 8, mo_pid = 1, mo_register_value = 77\<rparr>)) n3 = Runs n4
     \<and> net_run crowd_run [FsTurn, SwapTurn] n4 = Runs n' \<and> net_contents crowd_run crowd_net 0 = Some c \<and> net_contents crowd_run n' 0 = Some c"
proof -
  let ?d = "\<lparr>mo_page_number = 0, mo_displacement = 8, mo_pid = 1, mo_register_value = 77\<rparr>"
  have g: "get_page (mo_pid ?d) (sint (mo_page_number ?d)) (net_mem crowd_net) = Some (Some 0)"
    "0 \<le> sint (mo_displacement ?d)" "sint (mo_displacement ?d) + 4 \<le> page_size (net_mem crowd_net)"
    by (simp_all add: crowd_net_def crowd_def demo_net_def init_real_memory_def get_page_def search_page_table_def list_get_def)
  from write_during_replacement_is_lost[OF crowd_ok(1,3) g] show ?thesis by blast
qed

text \<open>The sorter after a reference, under LRU, and a load into a frame.\<close>

lemma sorter_lru_turn:
  assumes "uses_lru v" and "last_page_referenced (net_mem n) = Some a" and "sort_pages (net_mem n) = Suc k"
  shows "net_step v SorterTurn n = Runs (n\<lparr>net_mem := (net_mem n)\<lparr>sort_pages := k,
     pages_to_replace := remove1 a (pages_to_replace (net_mem n)) @ [a]\<rparr>\<rparr>)"
  using assms by (simp add: net_step.simps(3) sorter_step_def sort_pages_by_lru_def uses_lru_def Let_def or_crash_def
      mem_moves_def new_messages_def)

lemma swap_in_frame:
  assumes ok: "frames_ok ba m" and f: "0 \<le> f" and l: "length data = nat (page_size m)" and s: "swap_in a f data m = Some m'"
  shows "frame_content m' f = Some data"
proof -
  have ps: "0 < page_size m" using ok by (simp add: frames_ok_def)
  obtain fs where "mem_write (frames m) (nat (f * page_size m)) data = Some fs" "frames m' = fs" "page_size m' = page_size m"
    using s l by (auto simp: swap_in_def bind_eq_Some_conv write_on_frame_def set_entry_def mem_read_def split: if_splits)
  then show ?thesis using mem_read_write_same[of "frames m" "nat (f * page_size m)" data fs] f ps l
    by (simp add: frame_content_def read_frame_def not_less)
qed

text \<open>A load whose victim is the page it loads, with another page in the frame that its entry names.\<close>

lemma own_victim:
  assumes ok: "frames_ok (bits env) m" and l: "list_page m = [pg]" "pages_to_replace m = a # ws"
    and a: "absent_page m pg a ea" "\<not> bit_modified ea" and eb: "store m b = Some eb" "bit_precense eb"
    and f: "frame_number ea = frame_number eb" and d: "length d = nat (page_size m)"
    and full: "search_frame (bits env) (frame_table m) 0 (total_frames m) = None"
  shows "\<exists>m'. start_load env d m = Some (m', Listening) \<and> mem_sent m' = mem_sent m @ [page_loaded]
     \<and> resident m' a (frame_number eb) \<and> resident m' b (frame_number eb) \<and> contents cfg m' s b = Some d"
proof -
  let ?f = "frame_number eb" and ?m = "m\<lparr>list_page := [], pages_to_replace := ws\<rparr>"
  let ?m5 = "set_entry a (ea\<lparr>bit_precense := False, bit_modified := False\<rparr>) ?m"
  have ab: "a \<noteq> b" using a eb by (auto simp: absent_page_def)
  have m5: "store ?m5 a = Some (ea\<lparr>bit_precense := False, bit_modified := False\<rparr>)" "store ?m5 b = Some eb"
    "page_size ?m5 = page_size m" "total_frames ?m5 = total_frames m" using eb ab by (simp_all add: set_entry_def total_frames_def)
  have fb: "0 \<le> ?f" "?f < int (total_frames m)" using ok eb by (auto simp: frames_ok_def resident_def)
  have "frames_ok (bits env) ?m" using ok by (simp add: frames_ok_def resident_def total_frames_def)
  then have fo: "frames_ok (bits env) ?m5" by (rule evicted_ok)
  obtain m6 where m6: "swap_in a ?f d ?m5 = Some m6" using swap_in_defined[OF fo _ _ m5(1), of ?f d] fb m5 d by auto
  have "total_frames (m\<lparr>list_page := []\<rparr>) = total_frames m" by (simp add: total_frames_def)
  then have sl: "start_load env d m = Some (reply PKernel (create_integer_package 11 0) m6, Listening)"
    using l full a f m6
    by (simp add: absent_page_def start_load_def list_remove_first_def check_available_frames_def start_replacement_def
        finish_replacement_def Let_def)
  have "mem_sent m6 = mem_sent m" using swap_in_sent[OF m6] by (simp add: set_entry_def)
  moreover note st = swap_in_effect[OF m6 m5(1), THEN conjunct1]
  have "frame_content m6 ?f = Some d" using swap_in_frame[OF fo fb(1) _ m6] m5(3) d by simp
  moreover have "store m6 b = Some eb" using st m5(2) ab by simp
  ultimately have "contents cfg m6 s b = Some d" "resident m6 b ?f" "mem_sent m6 = mem_sent m"
    using eb by (simp_all add: contents_def resident_def)
  moreover have "resident m6 a ?f" using st by (simp add: resident_def)
  ultimately show ?thesis using sl by simp
qed

text \<open>
  C34. A page replaced by itself. A full memory with one page on the list of LRU: the process of that
  page goes on while another page is asked for, so the page asked for is at the head of the list when
  its data come. It is its own victim: it is loaded into the frame that its entry still names, in which
  the other page is, and afterwards both are present in the frame and the other page has its contents.
\<close>

theorem fault_replaces_itself:
  assumes pk: "paging_ok (bits (mem_env v)) (fs_config v) (net_mem n) (net_fs n)" and lru: "uses_lru v"
    and q: "to_fs n = []" "to_mem n = []" "swap_thr n = Listening" "fs_listens n" "list_page (net_mem n) = []" "sort_pages (net_mem n) = 0"
    and full: "search_frame (bits (mem_env v)) (frame_table (net_mem n)) 0 (total_frames (net_mem n)) = None"
    and l: "pages_to_replace (net_mem n) = [b]" and eb: "store (net_mem n) b = Some eb" "bit_precense eb"
    and pa: "absent_page (net_mem n) pg a ea" "\<not> bit_modified ea" and f: "frame_number ea = frame_number eb"
    and pb: "get_page (pag_pid pg') (sint (page_number pg')) (net_mem n) = Some (Some b)"
      "0 \<le> sint (displacement pg')" "sint (displacement pg') + 4 \<le> page_size (net_mem n)"
  shows "\<exists>n' c. net_run v [KernelTurn (LOAD_PAGE pg), SorterTurn, CpuTurn (MOV_IN pg'), SorterTurn, FsTurn, SwapTurn] n = Runs n'
     \<and> resident (net_mem n') a (frame_number eb) \<and> resident (net_mem n') b (frame_number eb)
     \<and> net_contents v n a = Some c \<and> net_contents v n' b = Some c"
proof -
  let ?cfg = "fs_config v" and ?p = "swap_position ea" and ?f = "frame_number eb"
  have ab: "a \<noteq> b" using pa eb by (auto simp: absent_page_def)
  obtain d where d: "swap_image ?cfg (block_map (net_fs n)) (nat (sint ?p)) = Some d" "length d = nat (page_size (net_mem n))"
    using image_of_entry(4)[OF pk, of a ea] pa by (auto simp: absent_page_def)
  let ?m1 = "requested (net_mem n) pg a ?p"
  let ?n1 = "n\<lparr>net_mem := ?m1, to_fs := [MPackage (create_integer_package 12 ?p)]\<rparr>"
  have r1: "net_step v (KernelTurn (LOAD_PAGE pg)) n = Runs ?n1"
    using request_turn[of pg n a ea v] pa q(1) by (simp add: absent_page_def)
  let ?m2 = "?m1\<lparr>sort_pages := 0, pages_to_replace := [b, a]\<rparr>"
  let ?n2 = "?n1\<lparr>net_mem := ?m2\<rparr>"
  have "sort_pages ?m1 = 1" "last_page_referenced ?m1 = Some a" using q(6) by (simp_all add: requested_def mem_send_def)
  then have r2: "net_step v SorterTurn ?n1 = Runs ?n2" using sorter_lru_turn[OF lru, of ?n1 a 0] l ab by simp
  have pk2: "paging_ok (bits (mem_env v)) ?cfg ?m2 (net_fs n)" and pb2: "get_page p i ?m2 = get_page p i (net_mem n)" for p i
    using pk by simp_all
  obtain x where x: "mov_in PCpu pg' ?m2 = Some (reply PCpu (create_uint32_package 15 x) (noted b ?m2))"
    using mov_in_present[OF pk2, of "pag_pid pg'" "page_number pg'" b eb "displacement pg'" PCpu] pb pb2 eb by (cases pg') auto
  let ?m3 = "reply PCpu (create_uint32_package 15 x) (noted b ?m2)"
  let ?n3 = "?n1\<lparr>net_mem := ?m3\<rparr>"
  have r3: "net_step v (CpuTurn (MOV_IN pg')) ?n2 = Runs ?n3"
    using x by (simp add: net_step.simps or_crash_def mem_moves_def new_messages_def)
  let ?m4 = "?m3\<lparr>sort_pages := 0, pages_to_replace := [a, b]\<rparr>"
  let ?n4 = "?n1\<lparr>net_mem := ?m4\<rparr>"
  have r4: "net_step v SorterTurn ?n3 = Runs ?n4" using sorter_lru_turn[OF lru, of ?n3 b 0] ab by simp
  obtain s where r5: "net_step v FsTurn ?n4 = Runs (?n4\<lparr>net_fs := s, to_fs := [], to_mem := [page_data ?cfg d]\<rparr>)"
    using answer_turn[of ?n4 ?p "[]" v d] image_of_entry[OF pk, of a ea] pa d(1) q by (auto simp: absent_page_def)
  let ?n5 = "?n4\<lparr>net_fs := s, to_fs := [], to_mem := [page_data ?cfg d]\<rparr>"
  have "paging_ok (bits (mem_env v)) ?cfg ?m4 (net_fs n)" using pk by simp
  moreover have "total_frames ?m4 = total_frames (net_mem n)"
    using requested_simps(4)[of "net_mem n" pg a ?p] by (simp add: total_frames_def)
  ultimately obtain m6 where m6: "start_load (mem_env v) d ?m4 = Some (m6, Listening)" "mem_sent m6 = mem_sent ?m4 @ [page_loaded]"
    "resident m6 a (frame_number eb)" "resident m6 b (frame_number eb)" "contents ?cfg m6 s b = Some d"
    using own_victim[of "mem_env v" ?m4 pg a "[b]" ea b eb d ?cfg s] q(5) pa eb f d(2) full
    by (auto simp: paging_ok_def absent_page_def)
  let ?n6 = "?n5\<lparr>net_mem := m6, to_mem := []\<rparr>"
  have r6: "net_step v SwapTurn ?n5 = Runs ?n6"
    using m6(1,2) q(3) by (simp add: net_step.simps(6) or_crash_def swap_turn_def mem_moves_def new_messages_def)
  have "net_contents v n a = Some d" using pa d(1) by (auto simp: net_contents_def contents_def absent_page_def)
  then show ?thesis using r1 r2 r3 r4 r5 r6 m6(3-5) by (intro exI[of _ ?n6] exI[of _ d]) (simp add: net_contents_def)
qed

text \<open>One frame with a page of process 1, and its other page in the swap; the algorithm is LRU.\<close>

theorem fault_replaces_itself_witness:
  "\<exists>n' c. net_run demo_vm_run [KernelTurn (LOAD_PAGE (page_new 1 1 0)), SorterTurn, CpuTurn (MOV_IN (page_new 1 0 0)), SorterTurn,
       FsTurn, SwapTurn] demo_net = Runs n'
     \<and> resident (net_mem n') 1 0 \<and> resident (net_mem n') 0 0 \<and> net_contents demo_vm_run n' 0 = Some c"
proof -
  have lru: "uses_lru demo_vm_run" by (simp add: uses_lru_def demo_vm_run_def)
  have v: "bits (mem_env demo_vm_run) = demo_bits" "fs_config demo_vm_run = demo_cfg" by (simp_all add: demo_vm_run_def demo_vm_env_def)
  have n: "to_fs demo_net = []" "to_mem demo_net = []" "swap_thr demo_net = Listening" "fs_listens demo_net"
    "list_page (net_mem demo_net) = []" "sort_pages (net_mem demo_net) = 0" "pages_to_replace (net_mem demo_net) = [0]"
    by (simp_all add: demo_net_def demo_vm_def init_real_memory_def)
  have pk: "paging_ok (bits (mem_env demo_vm_run)) (fs_config demo_vm_run) (net_mem demo_net) (net_fs demo_net)"
    using demo_vm_ok(1) by (simp add: v demo_net_def)
  have full: "search_frame (bits (mem_env demo_vm_run)) (frame_table (net_mem demo_net)) 0 (total_frames (net_mem demo_net)) = None"
    by (simp add: v demo_net_def demo_vm_def init_real_memory_def total_frames_def demo_bits_def)
  have e: "store (net_mem demo_net) 0 = Some (page_create 1 True True 0 0 0)" "bit_precense (page_create 1 True True 0 0 0)"
    by (simp_all add: demo_net_def demo_vm_def page_create_def)
  have a: "absent_page (net_mem demo_net) (page_new 1 1 0) 1 (page_create 1 False False 0 1 1)"
    "\<not> bit_modified (page_create 1 False False 0 1 1)" "frame_number (page_create 1 False False 0 1 1) = frame_number (page_create 1 True True 0 0 0)"
    using demo_vm_ok(5) by (simp_all add: absent_page_def demo_net_def page_create_def page_new_def) (simp add: demo_vm_def page_create_def)
  have b: "get_page (pag_pid (page_new 1 0 0)) (sint (page_number (page_new 1 0 0))) (net_mem demo_net) = Some (Some 0)"
    "0 \<le> sint (displacement (page_new 1 0 0))" "sint (displacement (page_new 1 0 0)) + 4 \<le> page_size (net_mem demo_net)"
    using demo_vm_ok(6) by (simp_all add: demo_net_def page_new_def) (simp add: demo_vm_def init_real_memory_def)
  from fault_replaces_itself[OF pk lru n(1-6) full n(7) e a b] show ?thesis by (auto simp: page_create_def)
qed

end
