(* ===== verification/Unit_Tests.thy ===== *)
theory Unit_Tests
  imports Virtual_Run Kernel_State
begin

text \<open>
  The unit tests of the repository (\<^verbatim>\<open>utils/tests\<close>, \<^verbatim>\<open>memory/tests\<close>) and the trial run at the end of
  \<^verbatim>\<open>planificador.c\<close>, on the model. A test is the Boolean of its \<open>should_\<close> checks, false when the
  code under test does not return. The checks of the process control block hold whatever
  \<open>malloc\<close> left in the field that the tests do not set.
\<close>

section \<open>Messages\<close>

definition test_registers :: t_reg where
  "test_registers = \<lparr>AX = 0, BX = 2, CX = 3, DX = 20\<rparr>"

definition registers_survive :: bool where
  "registers_survive = (case deserialize_registers (serialize_registers test_registers) of
     None \<Rightarrow> False | Some (r, _) \<Rightarrow> AX r = 0 \<and> BX r = 2 \<and> CX r = 3 \<and> DX r = 20)"

text \<open>The block that every test builds, and the checks that every test makes.\<close>

definition test_block :: "END_STATE \<Rightarrow> INSTRUCCION \<Rightarrow> params \<Rightarrow> t_openf list \<Rightarrow> t_pcb" where
  "test_block es i ps fs = \<lparr>end_state = es, pid = 2, tamanio = 20, programCounter = 5, prioridad = 2,
     nom_arch_inst = ''archivo.pdf'', registers = test_registers, estado = BLOCKED, instruccion = i, params = ps,
     open_files = fs\<rparr>"

definition block_survives :: "END_STATE \<Rightarrow> INSTRUCCION \<Rightarrow> params \<Rightarrow> t_openf list \<Rightarrow> bool" where
  "block_survives es i ps fs = (case serialize_pcb (test_block es i ps fs) \<bind> deserialize_pcb of
     None \<Rightarrow> False
   | Some q \<Rightarrow> pid q = 2 \<and> tamanio q = 20 \<and> programCounter q = 5 \<and> prioridad q = 2 \<and> nom_arch_inst q = ''archivo.pdf''
       \<and> estado q = BLOCKED \<and> AX (registers q) = 0 \<and> BX (registers q) = 2 \<and> CX (registers q) = 3 \<and> DX (registers q) = 20
       \<and> instruccion q = i \<and> params q = ps \<and> take (length fs) (open_files q) = fs)"

definition pcb_tests :: "END_STATE \<Rightarrow> bool list" where
  "pcb_tests es =
     [block_survives es NORMAL NoParams [],
      block_survives es FINISH NoParams [],
      block_survives es WAIT (PStr ''AR'') [],
      block_survives es SIGNAL (PStr ''RA'') [],
      block_survives es FCLOSE (PStr ''ARCHIVO'') [],
      block_survives es SLEEP (PNum 3) [],
      block_survives es SLEEP (PNum 3) [\<lparr>openf_file = ''hola'', seek = 1\<rparr>, \<lparr>openf_file = ''hola2'', seek = 2\<rparr>],
      block_survives es FOPEN (POpen \<lparr>fo_file_name = ''hola'', open_mode = ''W''\<rparr>) [],
      block_survives es FTRUNCATE (PChange \<lparr>fc_file_name = ''holacomoestas'', fc_value = 10\<rparr>) [],
      block_survives es FSEEK (PChange \<lparr>fc_file_name = ''comooo'', fc_value = 10\<rparr>) [],
      block_survives es FWRITE (PModify \<lparr>fm_file_name = ''holas'', fm_page = page_new 2 10 50\<rparr>) [],
      block_survives es FREAD (PModify \<lparr>fm_file_name = ''fread'', fm_page = page_new 3 20 60\<rparr>) []]"

definition created_block_survives :: bool where
  "created_block_survives = (case serialize_pcb (crear_pcb 1 ''nombre'' 2 3) \<bind> deserialize_pcb of
     None \<Rightarrow> False
   | Some q \<Rightarrow> pid q = 1 \<and> tamanio q = 2 \<and> programCounter q = 0 \<and> prioridad q = 3 \<and> nom_arch_inst q = ''nombre''
       \<and> estado q = NEW \<and> registers q = \<lparr>AX = 0, BX = 0, CX = 0, DX = 0\<rparr> \<and> instruccion q = NORMAL \<and> params q = NoParams)"

definition page_survives :: bool where
  "page_survives = (case deserialize_page (serialize_page \<lparr>page_number = 2, displacement = 0, pag_pid = 3\<rparr>) of
     None \<Rightarrow> False | Some q \<Rightarrow> displacement q = 0 \<and> page_number q = 2 \<and> pag_pid q = 3)"

definition package_is_empty :: bool where
  "package_is_empty = (let pkg = create_empty_package 1 in op_code pkg = 1 \<and> size pkg = 0 \<and> buffer pkg = [])"

lemma registers_test: "registers_survive"
  by (simp add: registers_survive_def test_registers_def serialize_registers_def deserialize_registers_def codec_simps
      u32_codec.dec_enc_nil)

lemma block_survives:
  assumes "pcb_wf (test_block es i ps fs)" and "received_params i ps = ps"
  shows "block_survives es i ps fs"
  using pcb_roundtrip[OF assms(1)] assms(2)
  by (auto simp: block_survives_def received_pcb_def test_block_def test_registers_def)

lemma pcb_tests: "list_all id (pcb_tests es)"
  unfolding pcb_tests_def
  by (simp; intro conjI block_survives)
    (simp_all add: pcb_wf_def test_block_def wire_string_def c_string_def serialized_fopen_size_def
      serialized_fchange_size_def serialized_fmodify_size_def size_of_page_def)

lemma created_block_test: "created_block_survives"
  using pcb_roundtrip[of "crear_pcb 1 ''nombre'' 2 3"]
  by (auto simp: created_block_survives_def received_pcb_def crear_pcb_def pcb_wf_def wire_string_def c_string_def
      create_empty_registers_def)

lemma page_test: "page_survives"
  using deserialize_serialize_page[of "\<lparr>page_number = 2, displacement = 0, pag_pid = 3\<rparr>"] by (simp add: page_survives_def)

lemma package_test: "package_is_empty"
  by (simp add: package_is_empty_def create_empty_package_def)

section \<open>Memory\<close>

text \<open>
  \<^verbatim>\<open>fetch.c\<close>: the process is created with no page and no block, its program is \<^verbatim>\<open>1.txt\<close>. An empty
  instruction is not compared.
\<close>

definition test_instructions :: "string list" where
  "test_instructions = [''SET AX 1'', ''SET BX 1'', ''SUM AX BX'', ''SUB AX BX'', ''MOV_IN DX 0'', ''MOV_OUT 0 CX'',
     ''WAIT RA'', ''SLEEP 10'', ''JNZ AX 4'', ''SIGNAL RA'', ''F_OPEN ARCHIVO W'', ''F_TRUNCATE ARCHIVO 64'',
     ''F_SEEK ARCHIVO 8'', ''F_WRITE ARCHIVO 0'', ''F_READ ARCHIVO 0'', ''F_CLOSE ARCHIVO'', ''EXIT'']"

definition instructions_obtained :: "'b mem_env \<Rightarrow> 'b memory \<Rightarrow> bool" where
  "instructions_obtained env m = (case create_process env (crear_pcb 1 ''1'' 0 0) [] m of
     None \<Rightarrow> False
   | Some (_, m) \<Rightarrow> list_all (\<lambda>i. case fetch_next_instruction 1 (of_nat i) m of
       None \<Rightarrow> False | Some Empty_Literal \<Rightarrow> True | Some (Duplicate t) \<Rightarrow> t = test_instructions ! i) [0 ..< 17])"

text \<open>\<^verbatim>\<open>real_memory.c\<close>: a word is written at address 500 and read back.\<close>

definition word_is_read_back :: "'b memory \<Rightarrow> bool" where
  "word_is_read_back m = (case write_on_frame 500 (bytes_of_u32 123) m of
     None \<Rightarrow> False | Some m \<Rightarrow> read_frame m 500 4 = Some (bytes_of_u32 123))"

text \<open>
  \<^verbatim>\<open>pages.c\<close>: the same references of process 1 for both algorithms, the sorter running after each,
  and the numbers of the pages to replace, compared with the expected list and zeros after it.
\<close>

definition test_references :: "int list" where
  "test_references = [0, 1, 7, 2, 3, 2, 7, 1, 0, 3, 0, 2, 3, 1]"

fun reference_pages :: "(string \<Rightarrow> string \<Rightarrow> bool) \<Rightarrow> string \<Rightarrow> int list \<Rightarrow> 'b memory \<Rightarrow> 'b memory option" where
  "reference_pages eq alg [] m = Some m"
| "reference_pages eq alg (n # ns) m = do {
     (_, m) \<leftarrow> reference_page 1 n m;
     m \<leftarrow> sorter_turns eq alg (sort_pages m) m;
     reference_pages eq alg ns m }"

definition replacement_order :: "'b memory \<Rightarrow> int list" where
  "replacement_order m = map (\<lambda>a. case store m a of None \<Rightarrow> - 1 | Some e \<Rightarrow> pe_page_number e) (pages_to_replace m)"

definition order_is :: "(string \<Rightarrow> string \<Rightarrow> bool) \<Rightarrow> string \<Rightarrow> int list \<Rightarrow> 'b memory \<Rightarrow> bool" where
  "order_is eq alg expected m = (case reference_pages eq alg test_references m of
     None \<Rightarrow> False
   | Some m \<Rightarrow> pages_to_replace m \<noteq> [] \<and>
       replacement_order m = take (length (pages_to_replace m)) (expected @ replicate (14 - length expected) 0))"

definition fifo_test :: "(string \<Rightarrow> string \<Rightarrow> bool) \<Rightarrow> 'b memory \<Rightarrow> bool" where
  "fifo_test eq m = order_is eq ''FIFO'' [0, 1, 7, 2, 3] m"

definition lru_test :: "(string \<Rightarrow> string \<Rightarrow> bool) \<Rightarrow> 'b memory \<Rightarrow> bool" where
  "lru_test eq m = order_is eq ''LRU'' [7, 0, 2, 3, 1] m"

text \<open>
  The test gives \<open>create_process\<close> a null list of blocks for a process of eight pages, and does not
  get past it; with blocks the memory has its pages 0 to 7.
\<close>

definition pages_memory :: "'b mem_env \<Rightarrow> u8 list \<Rightarrow> c_int list \<Rightarrow> c_int list \<Rightarrow> 'b memory option" where
  "pages_memory env space blocks1 blocks2 = do {
     (_, m) \<leftarrow> create_process env (crear_pcb 1 ''1'' 256 1) blocks1 (init_real_memory (bits env) 1024 32 space);
     (_, m) \<leftarrow> create_process env (crear_pcb 2 ''2'' 160 1) blocks2 m;
     Some m }"

lemma fetch_test:
  assumes "get_instructions_from_file env (instructions_path env @ ''/1.txt'') = Some test_instructions"
    and "active_processes m = []"
  shows "instructions_obtained env m"
  using assms
  by (simp add: instructions_obtained_def create_process_def crear_pcb_def page_table_create_def fetch_next_instruction_def
      search_process_def list_get_def test_instructions_def upt_rec)

lemma real_memory_test:
  assumes "504 \<le> length (frames m)"
  shows "word_is_read_back m"
  using assms by (simp add: word_is_read_back_def write_on_frame_def read_frame_def mem_write_def mem_read_def)

lemma no_entries: "create_entries p i 8 [] m = None"
  using create_entries.simps(2)[of p i 7 m] by simp

lemma pages_test_without_blocks:
  assumes "get_instructions_from_file env (instructions_path env @ ''/1.txt'') = Some is"
  shows "pages_memory env space [] blocks2 = None"
  using assms
  by (simp add: pages_memory_def create_process_def crear_pcb_def page_table_create_def init_real_memory_def no_entries)

lemma process_created:
  assumes f: "get_instructions_from_file env (instructions_path env @ ''/'' @ nom_arch_inst p @ ''.txt'') = Some is"
    and n: "length blocks = n" "nat (uint (tamanio p) div page_size m) = n"
    and c: "create_process env p blocks m = Some (r, m')"
  shows "page_tables m' = page_tables m @ [(pid p, [next_entry m ..< next_entry m + n])]"
    and "pages_to_replace m' = pages_to_replace m" and "sort_pages m' = sort_pages m" and "page_size m' = page_size m"
    and "next_entry m' = next_entry m + n"
    and "store m' a = (if next_entry m \<le> a \<and> a < next_entry m + n
          then Some (page_create (pid p) False False 0 (int (a - next_entry m)) (blocks ! (a - next_entry m))) else store m a)"
proof -
  obtain m1 where m1: "create_entries (pid p) 0 n blocks m = Some ([next_entry m ..< next_entry m + n], m1)"
    and s: "page_tables m1 = page_tables m" "next_entry m1 = next_entry m + n"
    and st: "\<And>a. store m1 a = (if next_entry m \<le> a \<and> a < next_entry m + n
          then Some (page_create (pid p) False False 0 (int (a - next_entry m)) (blocks ! (a - next_entry m))) else store m a)"
    using create_entries_spec[of n blocks "pid p" 0 m] n by auto
  note rest = create_entries_rest[OF m1]
  show "page_tables m' = page_tables m @ [(pid p, [next_entry m ..< next_entry m + n])]"
    and "pages_to_replace m' = pages_to_replace m" and "sort_pages m' = sort_pages m" and "page_size m' = page_size m"
    and "next_entry m' = next_entry m + n"
    and "store m' a = (if next_entry m \<le> a \<and> a < next_entry m + n
          then Some (page_create (pid p) False False 0 (int (a - next_entry m)) (blocks ! (a - next_entry m))) else store m a)"
    using c f n m1 s rest by (auto simp: create_process_def page_table_create_def st)
qed

lemma pages_memory:
  assumes f: "get_instructions_from_file env (instructions_path env @ ''/1.txt'') = Some is1"
      "get_instructions_from_file env (instructions_path env @ ''/2.txt'') = Some is2"
    and l: "length blocks1 = 8" "length blocks2 = 5" and m: "pages_memory env space blocks1 blocks2 = Some m"
  shows "page_tables m = [(1, [0 ..< 8]), (2, [8 ..< 13])]" and "pages_to_replace m = []" and "sort_pages m = 0"
    and "\<And>a. a < 8 \<Longrightarrow> store m a = Some (page_create 1 False False 0 (int a) (blocks1 ! a))"
proof -
  let ?m = "init_real_memory (bits env) 1024 32 space"
  let ?p = "crear_pcb 1 ''1'' 256 1" and ?q = "crear_pcb 2 ''2'' 160 1"
  obtain r m1 r2 where m1: "create_process env ?p blocks1 ?m = Some (r, m1)" "create_process env ?q blocks2 m1 = Some (r2, m)"
    using m by (auto simp: pages_memory_def bind_eq_Some_conv)
  have i: "page_size ?m = 32" "next_entry ?m = 0" "page_tables ?m = []" "pages_to_replace ?m = []" "sort_pages ?m = 0"
    by (simp_all add: init_real_memory_def)
  have p: "pid ?p = 1" "nom_arch_inst ?p = ''1''" "tamanio ?p = 256" "pid ?q = 2" "nom_arch_inst ?q = ''2''" "tamanio ?q = 160"
    by (simp_all add: crear_pcb_def)
  note c1 = process_created[OF _ l(1) _ m1(1), of is1, unfolded p i, simplified, OF f(1)]
  note c2 = process_created[OF _ l(2) _ m1(2), of is2, unfolded p c1, simplified, OF f(2)]
  show "page_tables m = [(1, [0 ..< 8]), (2, [8 ..< 13])]" and "pages_to_replace m = []" and "sort_pages m = 0"
    and "\<And>a. a < 8 \<Longrightarrow> store m a = Some (page_create 1 False False 0 (int a) (blocks1 ! a))"
    using c2 c1 by simp_all
qed

text \<open>The test of LRU holds; the one of FIFO fails: no page is loaded, and each reference lists its page again.\<close>

lemma reference_turn:
  assumes "page_tables m = [(1, [0 ..< 8]), (2, [8 ..< 13])]" and "sort_pages m = 0" and "0 \<le> n" "n < 8"
    and "store m (nat n) = Some e" "\<not> bit_precense e"
  shows "reference_pages eq alg (n # ns) m = reference_pages eq alg ns (m\<lparr>last_page_referenced := Some (nat n), sort_pages := 0,
     pages_to_replace := (if eq alg ''FIFO'' then pages_to_replace m else remove1 (nat n) (pages_to_replace m)) @ [nat n]\<rparr>)"
  using assms by (simp add: reference_page_def get_page_def search_page_table_def list_get_def sorter_step_def
      sort_pages_by_fifo_def sort_pages_by_lru_def)

lemma lru_test:
  assumes "get_instructions_from_file env (instructions_path env @ ''/1.txt'') = Some is1"
      "get_instructions_from_file env (instructions_path env @ ''/2.txt'') = Some is2"
    and "length blocks1 = 8" "length blocks2 = 5" and "pages_memory env space blocks1 blocks2 = Some m" and "\<not> eq ''LRU'' ''FIFO''"
  shows "lru_test eq m"
  using pages_memory[OF assms(1-5)] assms(6)
  by (simp add: lru_test_def order_is_def test_references_def reference_turn page_create_def replacement_order_def
      del: reference_pages.simps(2))

lemma fifo_test:
  assumes "get_instructions_from_file env (instructions_path env @ ''/1.txt'') = Some is1"
      "get_instructions_from_file env (instructions_path env @ ''/2.txt'') = Some is2"
    and "length blocks1 = 8" "length blocks2 = 5" and "pages_memory env space blocks1 blocks2 = Some m" and "eq ''FIFO'' ''FIFO''"
  shows "\<not> fifo_test eq m"
  using pages_memory[OF assms(1-5)] assms(6)
  by (simp add: fifo_test_def order_is_def test_references_def reference_turn page_create_def replacement_order_def
      del: reference_pages.simps(2))

section \<open>The trial run of the kernel\<close>

text \<open>
  \<open>prueba_agregar_proceso_a_NEW\<close> queues three processes and prints their numbers. It does not post
  \<open>process_in_new\<close>.
\<close>

definition queue_in_new :: "kernel \<Rightarrow> kernel" where
  "queue_in_new k = k\<lparr>lista_NEW := lista_NEW k @ [crear_pcb (sig_PID k) ''name'' 2 2], sig_PID := obt_sig_PID k\<rparr>"

definition prueba_agregar_proceso_a_NEW :: "kernel \<Rightarrow> kernel \<times> u32 list" where
  "prueba_agregar_proceso_a_NEW k = (let k = (queue_in_new ^^ 3) k in (k, map pid (lista_NEW k)))"

lemma trial_run: "snd (prueba_agregar_proceso_a_NEW k) = map pid (lista_NEW k) @ [sig_PID k, sig_PID k + 1, sig_PID k + 2]"
  by (simp add: prueba_agregar_proceso_a_NEW_def queue_in_new_def obt_sig_PID_def crear_pcb_def numeral_3_eq_3)

end
