(* ===== verification/Spec2Isabelle.thy ===== *)
theory Spec2Isabelle
  imports Prelude Wire Page Pcb Startup Locks Kernel_State Resources Deadlock Kernel_Files Scheduler Scheduler_Inv Scheduler_Live Scheduler_Props Scheduler_Res Scheduler_Runs Scheduler_Faults Paging Memory Memory_Props Fat Block_File Filesystem Fs_Props Cpu Cpu_Props Virtual_Memory Virtual_Run Paged_Cpu File_Transfer Kernel_Cpu Simulation Process_Life Kernel_Memory Kernel_Places Kernel_Service Boot Ports Kernel_Reports Shutdown Memory_Threads Overlapping_Faults Unit_Tests
begin

text \<open>
  A verification development of the operating-system simulator in \<^verbatim>\<open>src/\<close>: four
  processes that talk over sockets, each with its own state.

  \<^item> The kernel (\<^verbatim>\<open>kernel/src\<close>) keeps the processes in queues (NEW, READY, EXEC, BLOCKED, EXIT),
    admits them up to a degree of multiprogramming, dispatches them by FIFO, round robin or
    priorities, and manages resources, file locks and deadlock reports. Its work is done by threads
    that share lists, mutexes and semaphores, and by a console.
  \<^item> The CPU (\<^verbatim>\<open>cpu/src\<close>) fetches, decodes and executes the instructions of the dispatched process;
    it translates addresses into page and displacement and gives the process back on a system
    call, an interrupt or a page fault.
  \<^item> The memory (\<^verbatim>\<open>memory/src\<close>) keeps the programs, the page tables and the frames, and loads
    pages on demand with FIFO or LRU replacement.
  \<^item> The file system (\<^verbatim>\<open>file-system/src\<close>) keeps the control blocks of the files, the allocation
    table (FAT), and one block file for the swap and the files.

  The modules share the message layer and the process control block of \<^verbatim>\<open>utils/src\<close>. The kernel
  sends a process to the CPU and gets it back; the CPU asks the memory for instructions, frames
  and words; a page fault goes from the CPU to the kernel, to the memory, to the file system for
  the swap block, and back; file instructions go from the kernel to the file system and from there
  to the memory for the page.

  \<^bold>\<open>Theories and the code they model\<close>

  \<^item> \<open>Prelude\<close>: the C types (\<open>u8\<close>, \<open>u32\<close>, \<open>c_int\<close>), strings and \<open>atoi\<close>, the lists of so-commons,
    raw memory regions (\<open>mem_read\<close>, \<open>mem_write\<close>) and the interface \<open>block_store\<close> of a store of
    equal blocks.
  \<^item> \<open>Wire\<close>, \<open>Page\<close>, \<open>Pcb\<close>: \<^verbatim>\<open>utils/src/package\<close>, \<^verbatim>\<open>utils/src/page\<close> and \<^verbatim>\<open>utils/src/pcb\<close>. A message is the
    byte list that is sent; the receive functions read a byte stream. The interface \<open>codec\<close> is
    interpreted on the integers, strings, pages and open files.
  \<^item> \<open>Startup\<close>, \<open>Boot\<close>: \<^verbatim>\<open>handshake.c\<close>, the arguments and the loops that connect a module; then
    \<^verbatim>\<open>connection.c\<close>, \<^verbatim>\<open>initial_configuration\<close> and the beginning of \<^verbatim>\<open>main\<close> of the four modules as one
    system. \<open>boot_step\<close> takes one module to its next blocking call. \<open>Shutdown\<close>: the rest of each
    \<^verbatim>\<open>main\<close>, with the threads of \<open>wait_in_every_port\<close> and \<open>free_memory\<close>.
  \<^item> \<open>Kernel_State\<close>, \<open>Locks\<close>, \<open>Resources\<close>, \<open>Deadlock\<close>, \<open>Kernel_Files\<close>: the globals of
    \<^verbatim>\<open>planificador.c\<close> as the record \<open>kernel\<close> (a mutex is a flag where it can stay locked, a semaphore
    its value, a detached thread an element of \<open>threads\<close>), \<^verbatim>\<open>resources.c\<close>, \<^verbatim>\<open>deadlock.c\<close>, the
    lock queue of a file and \<^verbatim>\<open>file_system.c\<close>.
  \<^item> \<open>Scheduler\<close>: the bodies of the threads (\<^verbatim>\<open>largo_plazo.c\<close>, \<^verbatim>\<open>fifo.c\<close>, \<^verbatim>\<open>rr.c\<close>, \<^verbatim>\<open>prioridades.c\<close>,
    \<^verbatim>\<open>execute.c\<close>, \<^verbatim>\<open>block.c\<close>, \<^verbatim>\<open>page_fault.c\<close>) and the commands of \<^verbatim>\<open>consola\<close>, cut at the points where
    they wait. \<open>kernel_step\<close> is one such piece: it runs, waits or crashes. \<open>kstep\<close> and \<open>kreach\<close>
    are the steps and the reachable states, over all interleavings.
  \<^item> \<open>Paging\<close>, \<open>Memory\<close>: \<^verbatim>\<open>user_memory\<close>, \<^verbatim>\<open>instruction_memory\<close> and \<^verbatim>\<open>command.c\<close> of the memory. Page
    entries are shared by pointers in the code, so they live in a store by address;
    \<open>wait_for_command\<close> is the handler of one message, \<open>mem_sent\<close> what the module sends.
  \<^item> \<open>Fat\<close>, \<open>Block_File\<close>, \<open>Filesystem\<close>: \<^verbatim>\<open>fat-bloque.c\<close>, \<^verbatim>\<open>fcb.c\<close> and \<^verbatim>\<open>command.c\<close> of the file system, with
    \<open>wait_for_commands\<close> and \<open>fs_sent\<close> likewise.
  \<^item> \<open>Cpu\<close>: \<^verbatim>\<open>fetch.c\<close>, \<^verbatim>\<open>decode.c\<close>, \<^verbatim>\<open>execute.c\<close>, \<^verbatim>\<open>check_interrupt.c\<close> and \<^verbatim>\<open>dispatch.c\<close>. The memory is the
    argument \<open>ask\<close>; \<open>Paged_Cpu\<close> instantiates it with the model of the memory.
  \<^item> \<open>Ports\<close>: the loops over a socket of \<^verbatim>\<open>memory/src/command/command.c\<close>,
    \<^verbatim>\<open>file-system/src/command/command.c\<close> and \<^verbatim>\<open>dispatch.c\<close>, over the bytes that arrive.
  \<^item> \<open>Virtual_Memory\<close>, \<open>Virtual_Run\<close>, \<open>Paged_Cpu\<close>, \<open>File_Transfer\<close>, \<open>Kernel_Cpu\<close>: the modules together, two
    at a time. \<open>Process_Life\<close>: creation, accesses and end of processes on memory and file system.
    \<open>Kernel_Memory\<close>: the kernel as the client that asks for them; \<open>Kernel_Places\<close>: which processes it
    has, and where; \<open>Kernel_Service\<close>: its requests served, with accesses of the CPU. \<open>Kernel_Reports\<close>: \<^verbatim>\<open>echo.c\<close> and
    \<^verbatim>\<open>listar_procesos.c\<close>.
  \<^item> \<open>Memory_Threads\<close>, \<open>Overlapping_Faults\<close>: the threads of the memory and the file system side by
    side, with the messages under way, when several page faults overlap.
  \<^item> \<open>Unit_Tests\<close>: the unit tests of \<^verbatim>\<open>utils/tests\<close> and \<^verbatim>\<open>memory/tests\<close> as Booleans over the model, and which
    of them hold.
  \<^item> \<open>Simulation\<close>: runs over lists of events, and the interface \<open>simulation\<close> of the refinements.

  \<^bold>\<open>What the lemmas show\<close>

  \<^item> Messages: what a module serializes its peer receives, byte for byte and in full; the loops of the
    memory and the file system read what their peers send as the commands it means, in order (\<open>Ports\<close>).
  \<^item> Start: under every interleaving no module of the four runs into undefined behaviour, and when nobody
    can go on all are up, or one was refused; a kernel that starts last is never refused (\<open>Boot\<close>).
    End: a kernel at rest that ends takes all threads and modules with it, unless it destroys the semaphores
    of its planners before they have ended (\<open>Shutdown\<close>).
  \<^item> Kernel, over all reachable states: instances of resources are conserved and writers exclude
    everybody (\<open>Scheduler_Res\<close>). Over runs without \<open>DETENER_PLANIFICACION\<close> and with fewer than 2^32
    processes: every process that was created and has not ended is in exactly one place
    (\<open>Kernel_Places\<close>), the CPU has one process, no wake-up of a planner is lost (\<open>Scheduler_Inv\<close>,
    \<open>Scheduler_Live\<close>, \<open>Scheduler_Props\<close>); without \<open>MULTIPROGRAMACION\<close> as well, the degree of multiprogramming is
    respected. The invariants are proved per step by multisets of process numbers.
    \<open>Scheduler_Faults\<close> shows why pauses are excluded.
  \<^item> Memory: resident pages never share a frame, a load disturbs no page, a victim is saved, the end
    of a process releases its frames (\<open>Memory_Props\<close>). Frames and swap blocks are interpretations of
    \<open>block_store\<close>.
  \<^item> File system: truncation gives a file a chain of free blocks and keeps the chains of the others,
    the swap is a store of pages (\<open>Fat\<close>, \<open>Block_File\<close>, \<open>Fs_Props\<close>).
  \<^item> CPU: the answer is the process that came in, in a form that can be sent; the split of addresses
    (\<open>Cpu_Props\<close>). \<open>Kernel_Cpu\<close> discharges with it the contract under which the kernel is verified.
  \<^item> Refinement: \<open>paging_ok\<close> relates memory and file system, and \<open>contents\<close> is the abstraction: what
    each page holds wherever it is. A page fault keeps all contents; any sequence of accesses
    refines an abstract memory; and a program on the CPU, with its page faults served, ends each
    turn as on a flat memory. Processes that come and go keep private memories of zeros at first,
    and their blocks return at their end (\<open>Process_Life\<close>); the requests of every run of the kernel without pauses
    keep to that protocol (\<open>Kernel_Memory\<close>), and are carried out when they are served one after the
    other (\<open>Kernel_Service\<close>). Page faults that overlap in any order of the threads
    keep the abstract memory in calm runs: no modified page is replaced, and no page between the
    answer with its frame and the access (\<open>Overlapping_Faults\<close>).
  \<^item> Faults: where the code does not do what it means to (double dispatch after a pause, lost wake-ups
    of waiters, a full memory, chains that never end, files over the swap, transfers to pages that
    were replaced, faults that overlap while a modified page is replaced), a theorem shows the run.

  \<^bold>\<open>Conventions, bounds and parameters\<close>

  \<open>None\<close> is undefined behaviour of the C code: a NULL, freed or unset pointer that is used, a literal
  that is freed, or an access
  outside a region. Loops that may not end are \<open>partial_function (option)\<close> (the walks through the
  allocation table), and \<open>None\<close> then also means that they do not return. The loop of the CPU runs once
  for each element of a list of interrupt arrivals, so statements about it hold for any number of
  turns. An access restarts once after its page fault (\<open>try_access\<close> with fuel 1), which is
  proved to be enough. In \<open>Virtual_Memory\<close> and the theories over it the service of a fault is one
  sequence of messages, with the turns of the sorter thread where its semaphore is posted; \<open>Memory_Threads\<close>
  has the turns of the threads one by one, and proves that alone they end as that sequence. At the
  start a connection is accepted when its server listens, and the keys of the configuration, the
  results of \<open>getaddrinfo\<close>, \<open>socket\<close>, \<open>bind\<close> and \<open>listen\<close> are parameters; 25 steps are enough for
  any start, by the measure \<open>boot_left\<close>.

  Parameters stand for the library so-commons (the bit array with its laws, \<open>string_split\<close>,
  comparison without case, the parser of configuration files, \<open>list_get_minimum\<close> and
  \<open>string_itoa\<close>), for the lines of the program files, and for which paths can be created.

  \<^bold>\<open>Not modelled\<close>

  Logs, delays, the creation of threads as such and the parser of configuration files: no state that
  the theorems are about changes there. The functions of so-commons are not part of
  \<^verbatim>\<open>src/\<close>; they are parameters or, where they are lists and maps, HOL's. Functions that nothing calls
  (\<open>print_fat\<close>, \<open>print_fcb_list\<close>) and the releases that leave no
  state behind (\<open>destroy_page\<close>, \<open>destroy_fs\<close>) have no definition.

  \<^bold>\<open>Limits\<close>

  The kernel and the memory are joined through the messages the kernel sends (\<open>Kernel_Memory\<close>,
  \<open>Kernel_Service\<close>), which are served one after the other there, not with
  the interleaved threads of \<open>Memory_Threads\<close>: \<open>Scheduler\<close> lets the answer of a page fault come at any
  time, and \<open>Overlapping_Faults\<close> takes the requests as given. A step of a kernel thread runs to its next
  waiting point: two accesses to the queue of a file that the code makes under different mutexes (the
  decision of \<open>f_open\<close> and the addition of the lock) are one step, so a race between them is not in the model. The
  release of a lock that is not the head of its queue leaves a pointer to freed memory there and
  ends the run of the model (\<open>close_lock\<close>). The end of the modules is modelled for a kernel whose
  planners are at their semaphores (\<open>at_rest\<close>). FIFO replacement is covered per step
  (\<open>Memory_Props\<close>) and not in the refinement, where its order of victims depends on the sorter thread.
\<close>

end
